(* ===== verification/Prelude.thy ===== *)
theory Prelude
  imports Main "HOL-Library.AList" "HOL-Library.List_Lexorder" "HOL-Library.Char_ord"
begin

text \<open>
  Shared vocabulary of the development: results with an error value, tables kept as
  lists of rows (the form in which the SQL statements of the store are read), and the
  small list and association-list facts that the component theories use.

  A Go function that returns \<open>(T, error)\<close> becomes a function into \<open>'e + 'a\<close>: \<open>Inl\<close> holds
  the returned error, \<open>Inr\<close> the returned value. \<open>rbind\<close> is the early return on error.
\<close>

named_theorems tbl_simps \<open>rewrite rules for row selection and row update\<close>
named_theorems res_simps \<open>rewrite rules for error results\<close>

section \<open>Results\<close>

definition rbind :: "'e + 'a \<Rightarrow> ('a \<Rightarrow> 'e + 'b) \<Rightarrow> 'e + 'b" where
  "rbind r f = (case r of Inl e \<Rightarrow> Inl e | Inr a \<Rightarrow> f a)"

definition guard :: "bool \<Rightarrow> 'e \<Rightarrow> 'e + unit" where
  "guard ok e = (if ok then Inr () else Inl e)"

definition or_err :: "'a option \<Rightarrow> 'e \<Rightarrow> 'e + 'a" where
  "or_err v e = (case v of None \<Rightarrow> Inl e | Some a \<Rightarrow> Inr a)"

lemma rbind_simps [simp, res_simps]:
  "rbind (Inl e) f = Inl e"
  "rbind (Inr a) f = f a"
  by (simp_all add: rbind_def)

lemma rbind_Inr_iff [res_simps]: "rbind r f = Inr b \<longleftrightarrow> (\<exists>a. r = Inr a \<and> f a = Inr b)"
  by (cases r) simp_all

lemma rbind_Inl_iff: "rbind r f = Inl e \<longleftrightarrow> r = Inl e \<or> (\<exists>a. r = Inr a \<and> f a = Inl e)"
  by (cases r) simp_all

lemma guard_Inr [simp, res_simps]: "guard b e = Inr u \<longleftrightarrow> b"
  by (simp add: guard_def)

lemma guard_Inl [simp]: "guard b e = Inl e' \<longleftrightarrow> \<not> b \<and> e' = e"
  by (auto simp: guard_def)

lemma guard_True [simp]: "guard True e = Inr ()"
  by (simp add: guard_def)

lemma guard_False [simp]: "guard False e = Inl e"
  by (simp add: guard_def)

lemma or_err_Inr [simp, res_simps]: "or_err v e = Inr a \<longleftrightarrow> v = Some a"
  by (cases v) (auto simp: or_err_def)

lemma or_err_simps [simp]: "or_err None e = Inl e" "or_err (Some a) e = Inr a"
  by (simp_all add: or_err_def)

section \<open>Tables\<close>

text \<open>
  \<open>UPDATE t SET .. WHERE P\<close> maps the rows that satisfy \<open>P\<close>; \<open>SELECT .. WHERE P\<close> for at most
  one row is \<open>List.find\<close>; \<open>COUNT\<close> and \<open>SUM\<close> fold over the selected rows.
\<close>

definition upd_rows :: "('r \<Rightarrow> bool) \<Rightarrow> ('r \<Rightarrow> 'r) \<Rightarrow> 'r list \<Rightarrow> 'r list" where
  "upd_rows P f rs = map (\<lambda>r. if P r then f r else r) rs"

definition count_rows :: "('r \<Rightarrow> bool) \<Rightarrow> 'r list \<Rightarrow> nat" where
  "count_rows P rs = length (filter P rs)"

definition sum_rows :: "('r \<Rightarrow> bool) \<Rightarrow> ('r \<Rightarrow> int) \<Rightarrow> 'r list \<Rightarrow> int" where
  "sum_rows P f rs = sum_list (map f (filter P rs))"

definition find_row :: "('r \<Rightarrow> bool) \<Rightarrow> 'r list \<Rightarrow> 'r option" where
  "find_row P rs = List.find P rs"

definition exists_row :: "('r \<Rightarrow> bool) \<Rightarrow> 'r list \<Rightarrow> bool" where
  "exists_row P rs = list_ex P rs"

lemma length_upd_rows [simp]: "length (upd_rows P f rs) = length rs"
  by (simp add: upd_rows_def)

lemma upd_rows_simps [simp]:
  "upd_rows P f [] = []"
  "upd_rows P f (r # rs) = (if P r then f r else r) # upd_rows P f rs"
  by (simp_all add: upd_rows_def)

lemma find_row_simps [simp]:
  "find_row P [] = None"
  "find_row P (r # rs) = (if P r then Some r else find_row P rs)"
  by (simp_all add: find_row_def)

lemma count_rows_simps [simp]:
  "count_rows P [] = 0"
  "count_rows P (r # rs) = (if P r then Suc (count_rows P rs) else count_rows P rs)"
  by (simp_all add: count_rows_def)

lemma sum_rows_simps [simp]:
  "sum_rows P f [] = 0"
  "sum_rows P f (r # rs) = (if P r then f r + sum_rows P f rs else sum_rows P f rs)"
  by (simp_all add: sum_rows_def)

lemma exists_row_simps [simp]:
  "exists_row P [] = False"
  "exists_row P (r # rs) = (P r \<or> exists_row P rs)"
  by (simp_all add: exists_row_def)

lemma exists_row_iff [tbl_simps]: "exists_row P rs \<longleftrightarrow> (\<exists>r \<in> set rs. P r)"
  by (simp add: exists_row_def list_ex_iff)

lemma set_upd_rows [tbl_simps]: "set (upd_rows P f rs) = (\<lambda>r. if P r then f r else r) ` set rs"
  by (simp add: upd_rows_def)

lemma map_key_upd_rows [simp]: "(\<And>r. key (f r) = key r) \<Longrightarrow> map key (upd_rows P f rs) = map key rs"
  by (simp add: upd_rows_def)

lemma find_row_Some: "find_row P rs = Some r \<Longrightarrow> P r \<and> r \<in> set rs"
  by (induction rs) (auto split: if_splits)

lemma find_row_None [tbl_simps]: "find_row P rs = None \<longleftrightarrow> (\<forall>r \<in> set rs. \<not> P r)"
  by (induction rs) auto

lemma find_row_unique:
  "distinct (map key rs) \<Longrightarrow> r \<in> set rs \<Longrightarrow> find_row (\<lambda>x. key x = key r) rs = Some r"
  by (induction rs) (auto simp: image_iff)

lemma find_row_upd_same:
  assumes "\<And>r. key (f r) = key r"
  shows "find_row (\<lambda>r. key r = k) (upd_rows (\<lambda>r. key r = k \<and> Q r) f rs) =
    map_option (\<lambda>r. if Q r then f r else r) (find_row (\<lambda>r. key r = k) rs)"
  using assms by (induction rs) auto

lemma find_row_upd_other:
  assumes "\<And>r. key (f r) = key r" and "\<And>r. P r \<Longrightarrow> key r \<noteq> k"
  shows "find_row (\<lambda>r. key r = k) (upd_rows P f rs) = find_row (\<lambda>r. key r = k) rs"
  using assms by (induction rs) auto

lemma find_row_upd:
  assumes "\<And>r. key (f r) = key r"
  shows "find_row (\<lambda>r. key r = k) (upd_rows P f rs) =
    map_option (\<lambda>r. if P r then f r else r) (find_row (\<lambda>r. key r = k) rs)"
  using assms by (induction rs) auto

lemma sum_rows_nonneg: "(\<And>r. r \<in> set rs \<Longrightarrow> P r \<Longrightarrow> 0 \<le> f r) \<Longrightarrow> 0 \<le> sum_rows P f rs"
  by (induction rs) auto

lemma sum_rows_append [simp]: "sum_rows P f (xs @ ys) = sum_rows P f xs + sum_rows P f ys"
  by (simp add: sum_rows_def)

lemma count_rows_append [simp]: "count_rows P (xs @ ys) = count_rows P xs + count_rows P ys"
  by (simp add: count_rows_def)

lemma sum_rows_upd_le:
  assumes "\<And>r. P (g r) = P r" and "\<And>r. r \<in> set rs \<Longrightarrow> Q r \<Longrightarrow> P r \<Longrightarrow> f (g r) \<le> f r"
  shows "sum_rows P f (upd_rows Q g rs) \<le> sum_rows P f rs"
  using assms(2)
  by (induction rs) (fastforce simp: assms(1) add_mono)+

text \<open>A keyed table: rows with a primary key that no update changes.\<close>

locale keyed_table =
  fixes key :: "'r \<Rightarrow> 'k"
    and sel :: "'k \<Rightarrow> 'r list \<Rightarrow> 'r option"
    and upd :: "'k \<Rightarrow> ('r \<Rightarrow> 'r) \<Rightarrow> 'r list \<Rightarrow> 'r list"
  assumes sel_key: "sel k rs = Some r \<Longrightarrow> key r = k"
    and sel_mem: "sel k rs = Some r \<Longrightarrow> r \<in> set rs"
    and sel_upd_same: "(\<And>r. key (f r) = key r) \<Longrightarrow> sel k (upd k f rs) = map_option f (sel k rs)"
    and sel_upd_other: "(\<And>r. key (f r) = key r) \<Longrightarrow> k' \<noteq> k \<Longrightarrow> sel k' (upd k f rs) = sel k' rs"
begin

lemma sel_upd:
  "(\<And>r. key (f r) = key r) \<Longrightarrow>
    sel k' (upd k f rs) = (if k' = k then map_option f (sel k rs) else sel k' rs)"
  using sel_upd_same sel_upd_other by simp

lemma sel_upd_twice:
  assumes "\<And>r. key (f r) = key r" and "\<And>r. key (g r) = key r"
  shows "sel k (upd k g (upd k f rs)) = map_option (g \<circ> f) (sel k rs)"
  using assms by (simp add: sel_upd_same option.map_comp)

lemma upd_keeps_absent:
  "(\<And>r. key (f r) = key r) \<Longrightarrow> sel k' rs = None \<Longrightarrow> sel k' (upd k f rs) = None"
  by (cases "k' = k") (auto simp: sel_upd)

end

definition sel_row :: "('r \<Rightarrow> 'k) \<Rightarrow> 'k \<Rightarrow> 'r list \<Rightarrow> 'r option" where
  "sel_row key k rs = find_row (\<lambda>r. key r = k) rs"

definition upd_row :: "('r \<Rightarrow> 'k) \<Rightarrow> 'k \<Rightarrow> ('r \<Rightarrow> 'r) \<Rightarrow> 'r list \<Rightarrow> 'r list" where
  "upd_row key k f rs = upd_rows (\<lambda>r. key r = k) f rs"

lemma sel_row_upd_row_same:
  "(\<And>r. key (f r) = key r) \<Longrightarrow> sel_row key k (upd_row key k f rs) = map_option f (sel_row key k rs)"
  by (induction rs) (auto simp: sel_row_def upd_row_def)

lemma sel_row_upd_row_other:
  "(\<And>r. key (f r) = key r) \<Longrightarrow> k' \<noteq> k \<Longrightarrow> sel_row key k' (upd_row key k f rs) = sel_row key k' rs"
  by (induction rs) (auto simp: sel_row_def upd_row_def)

interpretation rows: keyed_table key "sel_row key" "upd_row key" for key
  by unfold_locales
    (auto simp: sel_row_upd_row_same sel_row_upd_row_other,
     auto simp: sel_row_def dest: find_row_Some)

section \<open>Batches of fallible steps\<close>

text \<open>A batch runs its steps in order and stops at the first error (the transaction rolls back).\<close>

fun run_steps :: "('op \<Rightarrow> 's \<Rightarrow> 'e + 's) \<Rightarrow> 'op list \<Rightarrow> 's \<Rightarrow> 'e + 's" where
  "run_steps step [] s = Inr s"
| "run_steps step (x # xs) s = rbind (step x s) (run_steps step xs)"

text \<open>A ledger whose steps each stay under a cap that no step moves.\<close>

locale bounded_ledger =
  fixes committed :: "'s \<Rightarrow> int"
    and cap :: int
    and legal :: "'op \<Rightarrow> 's \<Rightarrow> bool"
    and step :: "'op \<Rightarrow> 's \<Rightarrow> 'e + 's"
  assumes step_within: "legal x s \<Longrightarrow> committed s \<le> cap \<Longrightarrow> step x s = Inr s' \<Longrightarrow> committed s' \<le> cap"
    and legal_stable: "step x s = Inr s' \<Longrightarrow> legal y s \<Longrightarrow> legal y s'"
begin

lemma batch_within:
  "run_steps step xs s = Inr s' \<Longrightarrow> \<forall>x \<in> set xs. legal x s \<Longrightarrow> committed s \<le> cap \<Longrightarrow> committed s' \<le> cap"
proof (induction xs arbitrary: s)
  case (Cons x xs)
  from Cons.prems(1) obtain s1 where s1: "step x s = Inr s1" "run_steps step xs s1 = Inr s'"
    by (auto simp: rbind_Inr_iff)
  moreover have "committed s1 \<le> cap" using step_within [of x s s1] s1(1) Cons.prems(2,3) by simp
  moreover have "\<forall>y \<in> set xs. legal y s1" using legal_stable s1(1) Cons.prems(2) by simp
  ultimately show ?case using Cons.IH by blast
qed simp

lemma batch_legal:
  "run_steps step xs s = Inr s' \<Longrightarrow> legal y s \<Longrightarrow> legal y s'"
proof (induction xs arbitrary: s)
  case (Cons x xs)
  from Cons.prems(1) obtain s1 where s1: "step x s = Inr s1" "run_steps step xs s1 = Inr s'"
    by (auto simp: rbind_Inr_iff)
  then show ?case using Cons.IH legal_stable Cons.prems(2) by blast
qed simp

end

end
