(* ===== verification/Store_Schema.thy ===== *)
theory Store_Schema
  imports Prelude
begin

text \<open>
  The tables of the durable store (\<open>internal/store/schema.go\<close>, \<open>store.go\<close> and the
  migrations) that the scheduler reads and writes, as lists of rows in insertion order.
  Columns that hold JSON keep the decoded value; \<open>None\<close> stands for text that does not decode.
  Status columns only ever hold the literals the code writes, so they are datatypes.
  Timestamps written by \<open>time.Now\<close> come in as an argument of the operation.
\<close>

type_synonym ident = string

datatype store_error =
  CodeError string
| ErrNoRows
| ConstraintFailed
| DecodeFailed

abbreviation ErrConflict :: store_error where "ErrConflict \<equiv> CodeError ''conflict''"
abbreviation ErrNotFound :: store_error where "ErrNotFound \<equiv> CodeError ''not_found''"
abbreviation ErrAttemptLimit :: store_error where "ErrAttemptLimit \<equiv> CodeError ''attempt_limit''"
abbreviation BudgetExhausted :: store_error where "BudgetExhausted \<equiv> CodeError ''budget_exhausted''"

section \<open>Status columns\<close>

datatype task_status =
  TQueued | TReady | TResumeQueued | TRunning | TStopping | TUnknown | TWaitingQuestion
| TInterrupted | TResultReady | TCompleted | TIntegrated | TCancelled | TFailed
| TBudgetExhausted | TBlockedDependency

datatype attempt_status =
  ARunning | AResultReady | AInterrupted | AFailed | AUnknown | AAcknowledged

datatype segment_status =
  SLaunchRequested | SPrepared | SSpawned | SRunning | SStopping | SUnknown | SExited | SNotStarted

datatype segment_outcome =
  ONone | OQuestion | OResult | OStopped | OFailed | OLaunchRejected

datatype budget_status = BReserved | BSettled

datatype stop_status = StopPending | StopAccepted | StopCompleted | StopUnknown

datatype question_status = QOpen | QResumeQueued | QResumeStarted | QResolved

datatype delivery_status = DPending | DPendingSession | DInternal | DAcked

datatype capability_status = CapPending | CapRegistered | CapRevoked

datatype host_status = HReady | HReconciling | HReleased | HOffline

definition active_segment :: "segment_status \<Rightarrow> bool" where
  "active_segment s \<longleftrightarrow>
    s \<in> {SLaunchRequested, SPrepared, SSpawned, SRunning, SStopping, SUnknown}"

lemma active_segment_simps [simp]:
  "active_segment SLaunchRequested" "active_segment SPrepared" "active_segment SSpawned"
  "active_segment SRunning" "active_segment SStopping" "active_segment SUnknown"
  "\<not> active_segment SExited" "\<not> active_segment SNotStarted"
  by (simp_all add: active_segment_def)

lemma active_segment_iff: "active_segment s \<longleftrightarrow> s \<noteq> SExited \<and> s \<noteq> SNotStarted"
  by (cases s) simp_all

section \<open>Rows\<close>

record retry_policy =
  rp_codes :: "string list"
  rp_backoff_ms :: "int list"

record execution_policy =
  pol_version :: int
  pol_group_max_attempts :: int
  pol_group_max_active_ms :: int
  pol_task_max_active_ms :: int
  pol_segment_max_active_ms :: int
  pol_retry :: "retry_policy option"

record task_row =
  t_id :: ident
  t_run :: ident
  t_status :: task_status
  t_deps :: "ident list option"
  t_max_attempts :: int
  t_created :: string

record task_runtime_row =
  r_task :: ident
  r_launch :: ident
  r_work_revision :: int
  r_group :: ident
  r_max_active_ms :: int
  r_ready_sequence :: "int option"
  r_payload :: string
  r_policy :: string
  r_expected_sha256 :: string

record attempt_row =
  a_id :: ident
  a_task :: ident
  a_no :: int
  a_status :: attempt_status

record segment_row =
  g_id :: ident
  g_attempt :: ident
  g_no :: int
  g_status :: segment_status

record segment_runtime_row =
  s_segment :: ident
  s_attempt :: ident
  s_host :: ident
  s_command :: ident
  s_reservation :: ident
  s_status :: segment_status
  s_outcome :: segment_outcome
  s_created :: string

record budget_row =
  b_id :: ident
  b_group :: ident
  b_segment :: ident
  b_granted :: int
  b_used :: int
  b_status :: budget_status

record binding_row =
  d_slot :: ident
  d_task :: ident
  d_revision :: int
  d_attempt :: "ident option"
  d_reserved_ms :: int
  d_retired :: bool

record stop_row =
  p_command :: ident
  p_host :: ident
  p_segment :: ident
  p_reason :: string
  p_deadline :: int
  p_status :: stop_status
  p_created :: string

record question_row =
  q_id :: ident
  q_task :: ident
  q_attempt :: ident
  q_segment :: ident
  q_revision :: int
  q_work_revision :: int
  q_session_kind :: string
  q_session_id :: string
  q_status :: question_status

record session_row =
  n_segment :: ident
  n_attempt :: ident
  n_kind :: string
  n_session :: string
  n_event :: ident

record capability_row =
  c_id :: ident
  c_segment :: ident
  c_producer :: ident
  c_run :: ident
  c_task :: ident
  c_attempt :: ident
  c_work_revision :: int
  c_status :: capability_status

record policy_row =
  y_task :: ident
  y_body :: "execution_policy option"

record budget_revision_task =
  bt_task :: ident
  bt_work_revision :: int
  bt_max_attempts :: int
  bt_attempt_max_active_ms :: int
  bt_task_max_active_ms :: int
  bt_segment_max_active_ms :: int

record budget_revision_request =
  br_group :: ident
  br_expected_revision :: int
  br_command :: ident
  br_group_max_attempts :: int
  br_group_max_active_ms :: int
  br_tasks :: "budget_revision_task list"

record budget_revision_row =
  v_run :: ident
  v_group :: ident
  v_revision :: int
  v_command :: ident
  v_request :: "budget_revision_request option"

record initial_recovery_row =
  i_run :: ident
  i_activated :: bool

record host_row =
  h_id :: ident
  h_launch :: ident
  h_status :: host_status

record launch_row =
  l_id :: ident
  l_host :: "ident option"
  l_released :: bool

record run_row =
  u_id :: ident
  u_controller :: ident
  u_token_hash :: string

record publication_row =
  o_run :: ident
  o_pending :: bool

record receipt_row =
  e_run :: ident
  e_command :: ident
  e_request_json :: string
  e_receipt_json :: string

datatype usage_scope = ScopeGlobal | ScopeRun ident

record usage_row =
  w_scope :: usage_scope
  w_total :: int
  w_progress :: int

section \<open>Events\<close>

datatype event_kind =
  EvCandidateResource | EvWorkspaceCleanup | EvLaunchRejected | EvPrepared | EvSpawned | EvRunning
| EvSession | EvQuestion | EvResult | EvStopped | EvFailed | EvUnknown | EvExited | EvProgress
| EvOther string

record artifact_ref =
  f_id :: string
  f_path :: string
  f_size :: int
  f_sha256 :: string

text \<open>The fields of \<open>contract.Event\<close> the lifecycle reads; \<open>ev_process\<close> is whether a process
  identity is present.\<close>

record host_event =
  ev_producer :: ident
  ev_id :: ident
  ev_run :: ident
  ev_task :: ident
  ev_attempt :: ident
  ev_segment :: ident
  ev_work_revision :: int
  ev_command :: ident
  ev_sequence :: int
  ev_kind :: event_kind
  ev_payload_hash :: string
  ev_process :: bool
  ev_exit_code :: "int option"
  ev_artifact :: "artifact_ref option"
  ev_active_ms :: int
  ev_question_id :: ident
  ev_question_revision :: int
  ev_question_kind :: string
  ev_session_kind :: string
  ev_session_id :: string

record runtime_event_row =
  re_event :: host_event
  re_delivery :: delivery_status

record report_event_row =
  rp_event_id :: ident
  rp_capability :: ident
  rp_sequence :: int
  rp_kind :: event_kind
  rp_body :: "host_event option"
  rp_delivery :: delivery_status

record target_row =
  z_run :: ident
  z_task :: ident
  z_released :: bool

section \<open>The database\<close>

record store =
  tb_tasks :: "task_row list"
  tb_runtime :: "task_runtime_row list"
  tb_attempts :: "attempt_row list"
  tb_segments :: "segment_row list"
  tb_segrun :: "segment_runtime_row list"
  tb_budget :: "budget_row list"
  tb_bindings :: "binding_row list"
  tb_stops :: "stop_row list"
  tb_questions :: "question_row list"
  tb_sessions :: "session_row list"
  tb_caps :: "capability_row list"
  tb_policies :: "policy_row list"
  tb_revisions :: "budget_revision_row list"
  tb_recoveries :: "initial_recovery_row list"
  tb_runs :: "run_row list"
  tb_publications :: "publication_row list"
  tb_receipts :: "receipt_row list"
  tb_usage :: "usage_row list"
  tb_events :: "runtime_event_row list"
  tb_reports :: "report_event_row list"
  tb_delivery :: "(ident \<times> ident) list"
  tb_targets :: "target_row list"
  tb_next_ready :: int

definition empty_store :: store where
  "empty_store = \<lparr>tb_tasks = [], tb_runtime = [], tb_attempts = [], tb_segments = [],
    tb_segrun = [], tb_budget = [], tb_bindings = [], tb_stops = [], tb_questions = [],
    tb_sessions = [], tb_caps = [], tb_policies = [], tb_revisions = [], tb_recoveries = [],
    tb_runs = [], tb_publications = [], tb_receipts = [],
    tb_usage = [\<lparr>w_scope = ScopeGlobal, w_total = 0, w_progress = 0\<rparr>],
    tb_events = [], tb_reports = [], tb_delivery = [], tb_targets = [],
    tb_next_ready = 1\<rparr>"

abbreviation task_of :: "store \<Rightarrow> ident \<Rightarrow> task_row option" where
  "task_of db t \<equiv> sel_row t_id t (tb_tasks db)"

abbreviation runtime_of :: "store \<Rightarrow> ident \<Rightarrow> task_runtime_row option" where
  "runtime_of db t \<equiv> sel_row r_task t (tb_runtime db)"

abbreviation attempt_of :: "store \<Rightarrow> ident \<Rightarrow> attempt_row option" where
  "attempt_of db a \<equiv> sel_row a_id a (tb_attempts db)"

abbreviation segrun_of :: "store \<Rightarrow> ident \<Rightarrow> segment_runtime_row option" where
  "segrun_of db s \<equiv> sel_row s_segment s (tb_segrun db)"

abbreviation budget_of :: "store \<Rightarrow> ident \<Rightarrow> budget_row option" where
  "budget_of db b \<equiv> sel_row b_id b (tb_budget db)"

abbreviation stop_of :: "store \<Rightarrow> ident \<Rightarrow> stop_row option" where
  "stop_of db s \<equiv> sel_row p_segment s (tb_stops db)"

definition set_task_status :: "task_status \<Rightarrow> ident \<Rightarrow> store \<Rightarrow> store" where
  "set_task_status st t db = db\<lparr>tb_tasks := upd_row t_id t (t_status_update (\<lambda>_. st)) (tb_tasks db)\<rparr>"

definition set_attempt_status :: "attempt_status \<Rightarrow> ident \<Rightarrow> store \<Rightarrow> store" where
  "set_attempt_status st a db =
    db\<lparr>tb_attempts := upd_row a_id a (a_status_update (\<lambda>_. st)) (tb_attempts db)\<rparr>"

definition set_segment_row_status :: "segment_status \<Rightarrow> ident \<Rightarrow> store \<Rightarrow> store" where
  "set_segment_row_status st g db =
    db\<lparr>tb_segments := upd_row g_id g (g_status_update (\<lambda>_. st)) (tb_segments db)\<rparr>"

definition task_of_attempt :: "store \<Rightarrow> ident \<Rightarrow> ident option" where
  "task_of_attempt db a = map_option a_task (attempt_of db a)"

lemma task_of_set_task_status:
  "task_of (set_task_status st t db) t' =
    (if t' = t then map_option (t_status_update (\<lambda>_. st)) (task_of db t) else task_of db t')"
  by (simp add: set_task_status_def rows.sel_upd)

lemma set_task_status_frame [simp]:
  "tb_runtime (set_task_status st t db) = tb_runtime db"
  "tb_attempts (set_task_status st t db) = tb_attempts db"
  "tb_segments (set_task_status st t db) = tb_segments db"
  "tb_segrun (set_task_status st t db) = tb_segrun db"
  "tb_budget (set_task_status st t db) = tb_budget db"
  "tb_bindings (set_task_status st t db) = tb_bindings db"
  "tb_stops (set_task_status st t db) = tb_stops db"
  "tb_questions (set_task_status st t db) = tb_questions db"
  "tb_sessions (set_task_status st t db) = tb_sessions db"
  "tb_caps (set_task_status st t db) = tb_caps db"
  "tb_policies (set_task_status st t db) = tb_policies db"
  "tb_revisions (set_task_status st t db) = tb_revisions db"
  "tb_recoveries (set_task_status st t db) = tb_recoveries db"
  "tb_runs (set_task_status st t db) = tb_runs db"
  "tb_publications (set_task_status st t db) = tb_publications db"
  "tb_receipts (set_task_status st t db) = tb_receipts db"
  "tb_usage (set_task_status st t db) = tb_usage db"
  "tb_events (set_task_status st t db) = tb_events db"
  "tb_reports (set_task_status st t db) = tb_reports db"
  "tb_delivery (set_task_status st t db) = tb_delivery db"
  "tb_targets (set_task_status st t db) = tb_targets db"
  "tb_next_ready (set_task_status st t db) = tb_next_ready db"
  by (simp_all add: set_task_status_def)

lemma set_attempt_status_frame [simp]:
  "tb_tasks (set_attempt_status st t db) = tb_tasks db"
  "tb_runtime (set_attempt_status st t db) = tb_runtime db"
  "tb_segments (set_attempt_status st t db) = tb_segments db"
  "tb_segrun (set_attempt_status st t db) = tb_segrun db"
  "tb_budget (set_attempt_status st t db) = tb_budget db"
  "tb_bindings (set_attempt_status st t db) = tb_bindings db"
  "tb_stops (set_attempt_status st t db) = tb_stops db"
  "tb_questions (set_attempt_status st t db) = tb_questions db"
  "tb_sessions (set_attempt_status st t db) = tb_sessions db"
  "tb_caps (set_attempt_status st t db) = tb_caps db"
  "tb_policies (set_attempt_status st t db) = tb_policies db"
  "tb_revisions (set_attempt_status st t db) = tb_revisions db"
  "tb_recoveries (set_attempt_status st t db) = tb_recoveries db"
  "tb_runs (set_attempt_status st t db) = tb_runs db"
  "tb_publications (set_attempt_status st t db) = tb_publications db"
  "tb_receipts (set_attempt_status st t db) = tb_receipts db"
  "tb_usage (set_attempt_status st t db) = tb_usage db"
  "tb_events (set_attempt_status st t db) = tb_events db"
  "tb_reports (set_attempt_status st t db) = tb_reports db"
  "tb_delivery (set_attempt_status st t db) = tb_delivery db"
  "tb_targets (set_attempt_status st t db) = tb_targets db"
  "tb_next_ready (set_attempt_status st t db) = tb_next_ready db"
  by (simp_all add: set_attempt_status_def)

lemma set_segment_row_status_frame [simp]:
  "tb_tasks (set_segment_row_status st t db) = tb_tasks db"
  "tb_runtime (set_segment_row_status st t db) = tb_runtime db"
  "tb_attempts (set_segment_row_status st t db) = tb_attempts db"
  "tb_segrun (set_segment_row_status st t db) = tb_segrun db"
  "tb_budget (set_segment_row_status st t db) = tb_budget db"
  "tb_bindings (set_segment_row_status st t db) = tb_bindings db"
  "tb_stops (set_segment_row_status st t db) = tb_stops db"
  "tb_questions (set_segment_row_status st t db) = tb_questions db"
  "tb_sessions (set_segment_row_status st t db) = tb_sessions db"
  "tb_caps (set_segment_row_status st t db) = tb_caps db"
  "tb_policies (set_segment_row_status st t db) = tb_policies db"
  "tb_revisions (set_segment_row_status st t db) = tb_revisions db"
  "tb_recoveries (set_segment_row_status st t db) = tb_recoveries db"
  "tb_runs (set_segment_row_status st t db) = tb_runs db"
  "tb_publications (set_segment_row_status st t db) = tb_publications db"
  "tb_receipts (set_segment_row_status st t db) = tb_receipts db"
  "tb_usage (set_segment_row_status st t db) = tb_usage db"
  "tb_events (set_segment_row_status st t db) = tb_events db"
  "tb_reports (set_segment_row_status st t db) = tb_reports db"
  "tb_delivery (set_segment_row_status st t db) = tb_delivery db"
  "tb_targets (set_segment_row_status st t db) = tb_targets db"
  "tb_next_ready (set_segment_row_status st t db) = tb_next_ready db"
  by (simp_all add: set_segment_row_status_def)

end
