(* ===== verification/Go_Json.thy ===== *)
theory Go_Json
  imports Prelude
begin

text \<open>
  What the program uses of Go's strings and of \<open>encoding/json\<close>. A Go string is a list of
  bytes, here \<open>char list\<close>; \<open>len\<close> counts bytes. Decoded JSON (\<open>any\<close> after a decoder with
  \<open>UseNumber\<close>) is the datatype \<open>json\<close>; an object keeps its entries as an association list,
  in which the decoders of the program never leave a duplicate key. \<open>marshal\<close> is
  \<open>json.Marshal\<close> of such a value: sorted keys, HTML escaping, invalid UTF-8 replaced.
\<close>

section \<open>UTF-8\<close>

definition byte :: "char \<Rightarrow> nat" where
  "byte c = of_char c"

definition cont_byte :: "nat \<Rightarrow> bool" where
  "cont_byte b \<longleftrightarrow> 128 \<le> b \<and> b < 192"

text \<open>Width of the encoding at the front of a byte list; 0 where it is invalid.\<close>

fun utf8_width :: "nat list \<Rightarrow> nat" where
  "utf8_width [] = 0"
| "utf8_width (a # r) =
    (if a < 128 then 1
     else if 194 \<le> a \<and> a \<le> 223 then
       (case r of b # _ \<Rightarrow> if cont_byte b then 2 else 0 | _ \<Rightarrow> 0)
     else if 224 \<le> a \<and> a \<le> 239 then
       (case r of b # c # _ \<Rightarrow>
          if cont_byte b \<and> cont_byte c \<and> (a = 224 \<longrightarrow> 160 \<le> b) \<and> (a = 237 \<longrightarrow> b < 160) then 3 else 0
        | _ \<Rightarrow> 0)
     else if 240 \<le> a \<and> a \<le> 244 then
       (case r of b # c # d # _ \<Rightarrow>
          if cont_byte b \<and> cont_byte c \<and> cont_byte d \<and> (a = 240 \<longrightarrow> 144 \<le> b) \<and> (a = 244 \<longrightarrow> b < 144)
          then 4 else 0
        | _ \<Rightarrow> 0)
     else 0)"

definition rune_of :: "nat list \<Rightarrow> nat" where
  "rune_of bs = (case bs of
      [a] \<Rightarrow> a
    | [a, b] \<Rightarrow> (a - 192) * 64 + (b - 128)
    | [a, b, c] \<Rightarrow> (a - 224) * 4096 + (b - 128) * 64 + (c - 128)
    | [a, b, c, d] \<Rightarrow> (a - 240) * 262144 + (b - 128) * 4096 + (c - 128) * 64 + (d - 128)
    | _ \<Rightarrow> 65533)"

text \<open>The runes of a string with the bytes of each; an invalid byte is U+FFFD, width one.\<close>

function rune_list :: "nat list \<Rightarrow> (nat \<times> nat list \<times> bool) list" where
  "rune_list [] = []"
| "rune_list (a # r) =
    (let w = utf8_width (a # r)
     in if w = 0 then (65533, [a], False) # rune_list r
        else (rune_of (take w (a # r)), take w (a # r), True) # rune_list (drop w (a # r)))"
  by pat_completeness auto
termination
  by (relation "measure length") auto

definition runes :: "string \<Rightarrow> (nat \<times> nat list \<times> bool) list" where
  "runes s = rune_list (map byte s)"

definition valid_utf8 :: "string \<Rightarrow> bool" where
  "valid_utf8 s = list_all (\<lambda>(_, _, ok). ok) (runes s)"

definition rune_count :: "string \<Rightarrow> nat" where
  "rune_count s = length (runes s)"

definition space_rune :: "nat \<Rightarrow> bool" where
  "space_rune r \<longleftrightarrow> 9 \<le> r \<and> r \<le> 13 \<or> r = 32 \<or> r = 133 \<or> r = 160 \<or> r = 5760
    \<or> 8192 \<le> r \<and> r \<le> 8202 \<or> r = 8232 \<or> r = 8233 \<or> r = 8239 \<or> r = 8287 \<or> r = 12288"

text \<open>\<open>strings.TrimSpace(s) == ""\<close>\<close>

definition blank :: "string \<Rightarrow> bool" where
  "blank s = list_all (\<lambda>(r, _, _). space_rune r) (runes s)"

definition nul :: char where
  "nul = char_of (0::nat)"

section \<open>Decimal and hexadecimal text\<close>

definition digit :: "nat \<Rightarrow> char" where
  "digit d = char_of (48 + d)"

fun dec_nat :: "nat \<Rightarrow> string" where
  "dec_nat n = (if n < 10 then [digit n] else dec_nat (n div 10) @ [digit (n mod 10)])"

declare dec_nat.simps [simp del]

definition dec_int :: "int \<Rightarrow> string" where
  "dec_int i = (if i < 0 then CHR ''-'' # dec_nat (nat (- i)) else dec_nat (nat i))"

definition hex_digit :: "nat \<Rightarrow> char" where
  "hex_digit d = (if d < 10 then char_of (48 + d) else char_of (87 + d))"

definition is_digit :: "char \<Rightarrow> bool" where
  "is_digit c \<longleftrightarrow> 48 \<le> byte c \<and> byte c \<le> 57"

definition digits_val :: "string \<Rightarrow> nat" where
  "digits_val s = foldl (\<lambda>n c. 10 * n + (byte c - 48)) 0 s"

text \<open>\<open>strconv.ParseUint(s, 10, 64)\<close> and \<open>strconv.ParseInt(s, 10, bits)\<close>\<close>

definition parse_uint :: "nat \<Rightarrow> string \<Rightarrow> nat option" where
  "parse_uint bits s =
    (if s \<noteq> [] \<and> list_all is_digit s \<and> digits_val s < 2 ^ bits then Some (digits_val s) else None)"

definition in_int_range :: "nat \<Rightarrow> int \<Rightarrow> int option" where
  "in_int_range bits i =
    (if - (2 ^ (bits - 1)) \<le> i \<and> i < 2 ^ (bits - 1) then Some i else None)"

definition parse_int :: "nat \<Rightarrow> string \<Rightarrow> int option" where
  "parse_int bits s =
    (let neg = (case s of c # _ \<Rightarrow> c = CHR ''-'' | [] \<Rightarrow> False);
         body = (case s of c # r \<Rightarrow> if c = CHR ''-'' \<or> c = CHR ''+'' then r else s | [] \<Rightarrow> s);
         v = int (digits_val body)
     in if body = [] \<or> \<not> list_all is_digit body then None
        else in_int_range bits (if neg then - v else v))"

section \<open>JSON values\<close>

datatype json =
  JNull
| JBool bool
| JNum string
| JStr string
| JArr "json list"
| JObj "(string \<times> json) list"

text \<open>
  The accessors of \<open>codexsession/state.go\<close>: a failed type assertion gives the zero value,
  and reading a missing key (or a nil map) gives \<open>nil\<close>.
\<close>

definition obj :: "json \<Rightarrow> (string \<times> json) list" where
  "obj v = (case v of JObj m \<Rightarrow> m | _ \<Rightarrow> [])"

definition arr :: "json \<Rightarrow> json list" where
  "arr v = (case v of JArr xs \<Rightarrow> xs | _ \<Rightarrow> [])"

definition str :: "json \<Rightarrow> string" where
  "str v = (case v of JStr s \<Rightarrow> s | _ \<Rightarrow> [])"

definition fld :: "(string \<times> json) list \<Rightarrow> string \<Rightarrow> json" where
  "fld m k = (case map_of m k of Some v \<Rightarrow> v | None \<Rightarrow> JNull)"

definition has_key :: "(string \<times> json) list \<Rightarrow> string \<Rightarrow> bool" where
  "has_key m k \<longleftrightarrow> map_of m k \<noteq> None"

lemma obj_simps [simp]: "obj (JObj m) = m" "obj JNull = []"
  by (simp_all add: obj_def)

lemma arr_simps [simp]: "arr (JArr xs) = xs" "arr JNull = []"
  by (simp_all add: arr_def)

lemma str_simps [simp]: "str (JStr s) = s" "str JNull = []"
  by (simp_all add: str_def)

lemma fld_Nil [simp]: "fld [] k = JNull"
  by (simp add: fld_def)

lemma fld_Cons [simp]: "fld ((k', v) # m) k = (if k' = k then v else fld m k)"
  by (simp add: fld_def)

lemma has_key_simps [simp]: "has_key [] k = False" "has_key ((k', v) # m) k = (k' = k \<or> has_key m k)"
  by (auto simp: has_key_def)

section \<open>Encoding\<close>

definition backslash :: char where
  "backslash = char_of (92::nat)"

definition dquote :: char where
  "dquote = char_of (34::nat)"

definition esc_u :: "nat \<Rightarrow> string" where
  "esc_u n = [backslash, CHR ''u'', hex_digit (n div 4096 mod 16), hex_digit (n div 256 mod 16),
     hex_digit (n div 16 mod 16), hex_digit (n mod 16)]"

definition esc_rune :: "nat \<times> nat list \<times> bool \<Rightarrow> string" where
  "esc_rune x = (case x of (r, bs, ok) \<Rightarrow>
    if \<not> ok then backslash # ''ufffd''
    else if r = 34 then [backslash, dquote]
    else if r = 92 then [backslash, backslash]
    else if r = 8 then [backslash, CHR ''b''] else if r = 9 then [backslash, CHR ''t''] else if r = 10 then [backslash, CHR ''n'']
    else if r = 12 then [backslash, CHR ''f''] else if r = 13 then [backslash, CHR ''r'']
    else if r < 32 \<or> r = 60 \<or> r = 62 \<or> r = 38 \<or> r = 8232 \<or> r = 8233 then esc_u r
    else map char_of bs)"

definition enc_string :: "string \<Rightarrow> string" where
  "enc_string s = [dquote] @ concat (map esc_rune (runes s)) @ [dquote]"

fun commas :: "string list \<Rightarrow> string" where
  "commas [] = ''''"
| "commas [x] = x"
| "commas (x # y # xs) = x @ '','' @ commas (y # xs)"

fun enc_json :: "json \<Rightarrow> string" where
  "enc_json JNull = ''null''"
| "enc_json (JBool b) = (if b then ''true'' else ''false'')"
| "enc_json (JNum s) = (if s = [] then ''0'' else s)"
| "enc_json (JStr s) = enc_string s"
| "enc_json (JArr xs) = ''['' @ commas (map enc_json xs) @ '']''"
| "enc_json (JObj m) = ''{'' @ commas (map (\<lambda>(k, v). enc_string k @ '':'' @ enc_json v) m) @ ''}''"

text \<open>A Go map is marshalled with its keys in byte order; a struct in declaration order.\<close>

fun sort_obj :: "json \<Rightarrow> json" where
  "sort_obj (JArr xs) = JArr (map sort_obj xs)"
| "sort_obj (JObj m) = JObj (sort_key fst (map (\<lambda>(k, v). (k, sort_obj v)) m))"
| "sort_obj v = v"

definition marshal :: "json \<Rightarrow> string" where
  "marshal v = enc_json (sort_obj v)"

section \<open>Facts\<close>

lemma runes_Nil [simp]: "runes [] = []"
  by (simp add: runes_def)

lemma blank_Nil [simp]: "blank []"
  by (simp add: blank_def)

lemma digits_val_snoc: "digits_val (s @ [c]) = 10 * digits_val s + (byte c - 48)"
  by (simp add: digits_val_def)

lemma byte_digit: "d < 10 \<Longrightarrow> byte (digit d) = 48 + d"
  by (simp add: byte_def digit_def)

lemma is_digit_digit: "d < 10 \<Longrightarrow> is_digit (digit d)"
  by (simp add: is_digit_def byte_digit)

lemma dec_nat_digits: "list_all is_digit (dec_nat n) \<and> dec_nat n \<noteq> [] \<and> digits_val (dec_nat n) = n"
proof (induction n rule: dec_nat.induct)
  case (1 n)
  show ?case
  proof (cases "n < 10")
    case True
    then show ?thesis
      by (simp add: dec_nat.simps [of n] digits_val_def byte_digit is_digit_digit)
  next
    case False
    with 1 have ih: "list_all is_digit (dec_nat (n div 10))" "digits_val (dec_nat (n div 10)) = n div 10"
      by simp_all
    have "n mod 10 < 10" by simp
    with False ih show ?thesis
      by (simp add: dec_nat.simps [of n] digits_val_snoc byte_digit is_digit_digit)
  qed
qed

lemma parse_uint_dec_nat: "n < 2 ^ bits \<Longrightarrow> parse_uint bits (dec_nat n) = Some n"
  using dec_nat_digits [of n] by (simp add: parse_uint_def)

lemma dec_nat_inject: "dec_nat m = dec_nat n \<Longrightarrow> m = n"
  using dec_nat_digits [of m] dec_nat_digits [of n] by metis

lemma parse_int_bounds: "parse_int bits s = Some i \<Longrightarrow> - (2 ^ (bits - 1)) \<le> i \<and> i < 2 ^ (bits - 1)"
  by (auto simp: parse_int_def in_int_range_def Let_def split: if_splits)

text \<open>ASCII text is evaluated byte by byte.\<close>

lemma runes_ascii [simp]: "byte c < 128 \<Longrightarrow> runes (c # s) = (byte c, [byte c], True) # runes s"
  by (simp add: runes_def rune_of_def)

definition ascii :: "string \<Rightarrow> bool" where
  "ascii s = list_all (\<lambda>c. byte c < 128) s"

lemma ascii_simps [simp]: "ascii []" "ascii (c # s) \<longleftrightarrow> byte c < 128 \<and> ascii s"
  by (simp_all add: ascii_def)

lemma runes_ascii_map: "ascii s \<Longrightarrow> runes s = map (\<lambda>c. (byte c, [byte c], True)) s"
  by (induction s) simp_all

lemma valid_utf8_ascii: "ascii s \<Longrightarrow> valid_utf8 s"
  by (simp add: valid_utf8_def runes_ascii_map list_all_iff)

lemma blank_ascii: "ascii s \<Longrightarrow> blank s \<longleftrightarrow> list_all (\<lambda>c. space_rune (byte c)) s"
  by (simp add: blank_def runes_ascii_map list_all_iff)

lemma not_blank_ascii: "ascii s \<Longrightarrow> c \<in> set s \<Longrightarrow> \<not> space_rune (byte c) \<Longrightarrow> \<not> blank s"
  by (auto simp: blank_ascii list_all_iff)

section \<open>Paths\<close>

text \<open>\<open>filepath.IsAbs\<close> and \<open>filepath.Clean(path) == path\<close> on a slash-separated path.\<close>

fun path_parts :: "string \<Rightarrow> string \<Rightarrow> string list" where
  "path_parts acc [] = [acc]"
| "path_parts acc (c # cs) = (if c = CHR ''/'' then acc # path_parts [] cs else path_parts (acc @ [c]) cs)"

definition clean_absolute :: "string \<Rightarrow> bool" where
  "clean_absolute path \<longleftrightarrow>
    (case path of
       [] \<Rightarrow> False
     | c # rest \<Rightarrow> c = CHR ''/'' \<and> (rest = [] \<or>
         list_all (\<lambda>p. p \<noteq> [] \<and> p \<noteq> ''.'' \<and> p \<noteq> ''..'') (path_parts [] rest)))"

end
