(* ===== verification/Store_Quota.thy ===== *)
theory Store_Quota
  imports Store_Schema Go_Json "HOL-Library.Word"
begin

text \<open>
  Storage admission (\<open>internal/store/quota.go\<close>) and the gates every authority-creating
  transaction passes: owner publication and initial owner recovery. Free space is a
  \<open>uint64\<close> and stays a 64-bit word, because the code guards its additions against
  wrap-around; the byte counters are \<open>int64\<close> columns kept as integers.
\<close>

unbundle bit_operations_syntax

type_synonym u64 = "64 word"

text \<open>The fields of \<open>DB\<close> that admission reads; \<open>None\<close> is a failing \<open>statfs\<close>.\<close>

record quota_config =
  k_available :: "u64 option"
  k_min_free :: u64
  k_critical_reserve :: u64
  k_write_overhead :: u64
  k_run_control :: int
  k_user_control :: int
  k_run_progress :: int
  k_user_progress :: int

definition default_quota :: "u64 \<Rightarrow> quota_config" where
  "default_quota free = \<lparr>k_available = Some free, k_min_free = 67108864, k_critical_reserve = 1048576,
    k_write_overhead = 4194304, k_run_control = 16777216, k_user_control = 134217728,
    k_run_progress = 12582912, k_user_progress = 100663296\<rparr>"

definition add_required :: "u64 \<Rightarrow> u64 \<Rightarrow> u64 option" where
  "add_required required value = (if NOT 0 - required < value then None else Some (required + value))"

definition usage_of :: "store \<Rightarrow> usage_scope \<Rightarrow> usage_row option" where
  "usage_of db sc = sel_row w_scope sc (tb_usage db)"

definition exceeds :: "int \<Rightarrow> int \<Rightarrow> int \<Rightarrow> bool" where
  "exceeds incoming used limit \<longleftrightarrow> incoming > limit \<or> used > limit - incoming"

definition required_space :: "quota_config \<Rightarrow> int \<Rightarrow> bool \<Rightarrow> u64 option" where
  "required_space q incoming diagnostic =
    (case (if diagnostic then add_required (k_min_free q) (k_critical_reserve q) else Some (k_min_free q)) of
       None \<Rightarrow> None
     | Some r1 \<Rightarrow>
       (case add_required r1 (word_of_int incoming) of
          None \<Rightarrow> None
        | Some r2 \<Rightarrow> add_required r2 (k_write_overhead q)))"

definition storage_admission_split ::
  "quota_config \<Rightarrow> store \<Rightarrow> ident \<Rightarrow> int \<Rightarrow> int \<Rightarrow> bool \<Rightarrow> store_error + unit" where
  "storage_admission_split q db run incoming diagnostic_incoming diagnostic =
    (if incoming < 0 \<or> diagnostic_incoming < 0 \<or> diagnostic_incoming > incoming
     then Inl (CodeError ''control_spool_full'')
     else case k_available q of
       None \<Rightarrow> Inl (CodeError ''storage_blocked'')
     | Some available \<Rightarrow>
       (case required_space q incoming diagnostic of
          None \<Rightarrow> Inl (CodeError ''storage_blocked'')
        | Some required \<Rightarrow>
          if available < required then Inl (CodeError ''storage_blocked'')
          else
            (let run_row = usage_of db (ScopeRun run);
                 run_bytes = (case run_row of None \<Rightarrow> 0 | Some w \<Rightarrow> w_total w);
                 run_progress = (case run_row of None \<Rightarrow> 0 | Some w \<Rightarrow> w_progress w)
             in case usage_of db ScopeGlobal of
                  None \<Rightarrow> Inl ErrNoRows
                | Some g \<Rightarrow>
                  if exceeds incoming run_bytes (k_run_control q)
                     \<or> exceeds incoming (w_total g) (k_user_control q)
                  then Inl (CodeError ''control_spool_full'')
                  else if diagnostic \<and>
                     (diagnostic_incoming > k_run_progress q
                      \<or> run_progress > k_run_progress q - diagnostic_incoming
                      \<or> diagnostic_incoming > k_user_progress q
                      \<or> w_progress g > k_user_progress q - diagnostic_incoming)
                  then Inl (CodeError ''report_budget_exhausted'')
                  else Inr ())))"

definition storage_admission ::
  "quota_config \<Rightarrow> store \<Rightarrow> ident \<Rightarrow> int \<Rightarrow> bool \<Rightarrow> store_error + unit" where
  "storage_admission q db run incoming diagnostic =
    storage_admission_split q db run incoming (if diagnostic then incoming else 0) diagnostic"

text \<open>
  The accounting triggers of the ledger tables: an insert charges its cost to the run and
  to the global row, creating the row of the run on first use.
\<close>

definition charge_scope :: "usage_scope \<Rightarrow> int \<Rightarrow> usage_row list \<Rightarrow> usage_row list" where
  "charge_scope sc cost rows =
    (if exists_row (\<lambda>w. w_scope w = sc) rows
     then upd_row w_scope sc (\<lambda>w. w\<lparr>w_total := w_total w + cost\<rparr>) rows
     else rows @ [\<lparr>w_scope = sc, w_total = cost, w_progress = 0\<rparr>])"

definition charge_usage :: "ident \<Rightarrow> int \<Rightarrow> store \<Rightarrow> store" where
  "charge_usage run cost db =
    db\<lparr>tb_usage := charge_scope (ScopeRun run) cost (charge_scope ScopeGlobal cost (tb_usage db))\<rparr>"

definition require_published_owner :: "store \<Rightarrow> ident \<Rightarrow> store_error + unit" where
  "require_published_owner db run =
    (if exists_row (\<lambda>o'. o_run o' = run \<and> o_pending o') (tb_publications db)
     then Inl (CodeError ''owner_rebind_publication_pending'') else Inr ())"

definition require_published_task :: "store \<Rightarrow> ident \<Rightarrow> store_error + unit" where
  "require_published_task db task =
    (case task_of db task of
       None \<Rightarrow> Inl ErrNotFound
     | Some t \<Rightarrow> require_published_owner db (t_run t))"

definition initial_owner_run_fence :: "store \<Rightarrow> ident \<Rightarrow> store_error + unit" where
  "initial_owner_run_fence db task =
    (if exists_row (\<lambda>p. \<not> i_activated p \<and>
          exists_row (\<lambda>t. t_run t = i_run p \<and> t_id t = task) (tb_tasks db)) (tb_recoveries db)
     then Inl (CodeError ''owner_initial_recovery_pending'') else Inr ())"

section \<open>Facts\<close>

lemma add_required_exact:
  "add_required a b = Some c \<longleftrightarrow> uint c = uint a + uint b \<and> uint a + uint b < 2 ^ 64"
proof -
  have m: "uint (NOT 0 - a) = 2 ^ 64 - 1 - uint a"
  proof -
    have "(NOT 0 :: u64) = - 1" by simp
    moreover have "uint (- 1 - a :: u64) = 2 ^ 64 - 1 - uint a"
      using uint_lt2p [of a] uint_ge_0 [of a]
      by (subst uint_sub_lem [THEN iffD1]) (simp_all add: unsigned_minus_1_eq_mask mask_eq_exp_minus_1)
    ultimately show ?thesis by simp
  qed
  show ?thesis
  proof (cases "uint a + uint b < 2 ^ 64")
    case True
    then have s: "uint (a + b) = uint a + uint b"
      using uint_add_lem [of a b] by simp
    have "\<not> NOT 0 - a < b" using True unfolding word_less_def m by linarith
    then show ?thesis using s True
      by (auto simp: add_required_def intro!: word_uint_eqI)
  next
    case False
    then have "NOT 0 - a < b" unfolding word_less_def m by linarith
    with False show ?thesis by (simp add: add_required_def)
  qed
qed

lemma required_space_exact:
  assumes "0 \<le> incoming" "incoming < 2 ^ 63" and "required_space q incoming diagnostic = Some r"
  shows "uint r = uint (k_min_free q) + (if diagnostic then uint (k_critical_reserve q) else 0)
    + incoming + uint (k_write_overhead q)"
proof -
  have i: "uint (word_of_int incoming :: u64) = incoming"
    using assms(1,2) by (simp add: uint_word_of_int_eq take_bit_int_eq_self)
  show ?thesis
    using assms(3) by (auto simp: required_space_def add_required_exact i split: option.splits if_splits)
qed


definition sample_usage_store :: store where
  "sample_usage_store = empty_store\<lparr>tb_usage := [\<lparr>w_scope = ScopeGlobal, w_total = 1000, w_progress = 0\<rparr>]\<rparr>"


end
