(* ===== verification/Store_Budget.thy ===== *)
theory Store_Budget
  imports Store_Quota
begin

text \<open>
  Execution budgets (\<open>internal/store/execution_policy.go\<close>, \<open>policy_binding_hold.go\<close>,
  \<open>decision_attempt.go\<close> and the charge of \<open>scheduling.go\<close>): the effective caps of a task,
  what its group, the task and an attempt are already charged, the capacity check and the
  grant of active milliseconds for the next segment.
\<close>

section \<open>Effective caps\<close>

record execution_budget =
  x_policy :: "execution_policy option"
  x_group :: ident
  x_run :: ident
  x_revision :: int
  x_task_attempts :: int
  x_group_attempts :: int
  x_attempt_ms :: int
  x_task_ms :: int
  x_group_ms :: int
  x_segment_ms :: int

definition default_segment_active_ms :: int where
  "default_segment_active_ms = 3600000"

definition default_group_active_ms :: int where
  "default_group_active_ms = 7200000"

definition max_int64 :: int where
  "max_int64 = 9223372036854775807"

text \<open>The stored policy body: absent (the empty text), or text that decodes or does not.\<close>

definition policy_body :: "store \<Rightarrow> ident \<Rightarrow> execution_policy option option" where
  "policy_body db task = map_option y_body (sel_row y_task task (tb_policies db))"

definition read_execution_budget_baseline ::
  "int \<Rightarrow> int \<Rightarrow> execution_policy option option \<Rightarrow> store_error + execution_budget" where
  "read_execution_budget_baseline attempts attempt_ms raw =
    (let b = \<lparr>x_policy = None, x_group = [], x_run = [], x_revision = 0,
              x_task_attempts = attempts, x_group_attempts = min attempts 3,
              x_attempt_ms = attempt_ms, x_task_ms = max_int64,
              x_group_ms = default_group_active_ms, x_segment_ms = attempt_ms\<rparr>
     in case raw of
          None \<Rightarrow> Inr b
        | Some None \<Rightarrow> Inl (CodeError ''execution_policy_invalid'')
        | Some (Some p) \<Rightarrow> Inr (b\<lparr>x_policy := Some p,
              x_group_attempts := pol_group_max_attempts p,
              x_task_ms := pol_task_max_active_ms p,
              x_group_ms := pol_group_max_active_ms p,
              x_segment_ms := pol_segment_max_active_ms p\<rparr>))"

definition latest_revision :: "store \<Rightarrow> ident \<Rightarrow> ident \<Rightarrow> int" where
  "latest_revision db run grp =
    (let rs = map v_revision (filter (\<lambda>v. v_run v = run \<and> v_group v = grp) (tb_revisions db))
     in if rs = [] then 0 else Max (set rs))"

definition read_budget_revision_task ::
  "store \<Rightarrow> ident \<Rightarrow> ident \<Rightarrow> int \<Rightarrow> ident \<Rightarrow> store_error + (budget_revision_task \<times> int \<times> int)" where
  "read_budget_revision_task db run grp revision task =
    (case find_row (\<lambda>v. v_run v = run \<and> v_group v = grp \<and> v_revision v = revision) (tb_revisions db) of
       None \<Rightarrow> Inl ErrNoRows
     | Some v \<Rightarrow>
       (case v_request v of
          None \<Rightarrow> Inl (CodeError ''budget_revision_invalid'')
        | Some req \<Rightarrow>
          if br_group req \<noteq> grp then Inl (CodeError ''budget_revision_invalid'')
          else (case find_row (\<lambda>t. bt_task t = task) (br_tasks req) of
                 None \<Rightarrow> Inl (CodeError ''budget_revision_invalid'')
               | Some t \<Rightarrow> Inr (t, br_group_max_attempts req, br_group_max_active_ms req))))"

definition apply_revision_caps ::
  "budget_revision_task \<times> int \<times> int \<Rightarrow> execution_budget \<Rightarrow> execution_budget" where
  "apply_revision_caps e b = (case e of (t, group_attempts, group_ms) \<Rightarrow>
    b\<lparr>x_task_attempts := bt_max_attempts t, x_attempt_ms := bt_attempt_max_active_ms t,
      x_task_ms := bt_task_max_active_ms t, x_segment_ms := bt_segment_max_active_ms t,
      x_group_attempts := group_attempts, x_group_ms := group_ms\<rparr>)"

definition read_execution_budget :: "store \<Rightarrow> ident \<Rightarrow> store_error + execution_budget" where
  "read_execution_budget db task =
    (case (task_of db task, runtime_of db task) of
       (Some t, Some r) \<Rightarrow>
         rbind (read_execution_budget_baseline (t_max_attempts t) (r_max_active_ms r) (policy_body db task))
           (\<lambda>base.
             let b = base\<lparr>x_group := r_group r, x_run := t_run t\<rparr>
             in if x_policy b = None then Inr b
                else
                  (let rev = latest_revision db (t_run t) (r_group r)
                   in if rev > 0
                      then rbind (read_budget_revision_task db (t_run t) (r_group r) rev task)
                        (\<lambda>e. Inr (apply_revision_caps e (b\<lparr>x_revision := rev\<rparr>)))
                      else Inr (b\<lparr>x_revision := rev\<rparr>)))
     | _ \<Rightarrow> Inl ErrNoRows)"

section \<open>Charges and holds\<close>

definition budget_charge :: "budget_row \<Rightarrow> int" where
  "budget_charge b = (if b_status b = BSettled then b_used b else b_granted b)"

definition attempt_of_segment :: "store \<Rightarrow> ident \<Rightarrow> ident option" where
  "attempt_of_segment db seg = map_option g_attempt (sel_row g_id seg (tb_segments db))"

definition task_of_segment :: "store \<Rightarrow> ident \<Rightarrow> ident option" where
  "task_of_segment db seg = Option.bind (attempt_of_segment db seg) (task_of_attempt db)"

definition charged_group_active_ms :: "store \<Rightarrow> ident \<Rightarrow> int" where
  "charged_group_active_ms db grp =
    sum_rows (\<lambda>b. b_group b = grp) budget_charge (tb_budget db)"

definition charged_task_active_ms :: "store \<Rightarrow> ident \<Rightarrow> int" where
  "charged_task_active_ms db task =
    sum_rows (\<lambda>b. task_of_segment db (b_segment b) = Some task) budget_charge (tb_budget db)"

definition attempt_charged_active_ms :: "store \<Rightarrow> ident \<Rightarrow> int" where
  "attempt_charged_active_ms db attempt =
    sum_rows (\<lambda>b. attempt_of_segment db (b_segment b) = Some attempt) budget_charge (tb_budget db)"

definition in_group :: "store \<Rightarrow> ident \<Rightarrow> ident \<Rightarrow> bool" where
  "in_group db grp task \<longleftrightarrow> map_option r_group (runtime_of db task) = Some grp"

record decision_binding =
  k_slot :: ident
  k_task :: ident
  k_attempt :: ident
  k_revision :: int
  k_reserved_ms :: int
  k_reserve :: bool

definition pending_binding :: "binding_row \<Rightarrow> bool" where
  "pending_binding d \<longleftrightarrow> d_attempt d = None \<and> \<not> d_retired d"

definition pending_active_holds ::
  "store \<Rightarrow> ident \<Rightarrow> ident \<Rightarrow> decision_binding option \<Rightarrow> int \<times> int" where
  "pending_active_holds db grp task exclude =
    (let slot = (case exclude of None \<Rightarrow> [] | Some k \<Rightarrow> k_slot k);
         excluded_task = (case exclude of None \<Rightarrow> [] | Some k \<Rightarrow> k_task k);
         P = (\<lambda>d. in_group db grp (d_task d) \<and> pending_binding d
                \<and> \<not> (d_slot d = slot \<and> d_task d = excluded_task))
     in (sum_rows P d_reserved_ms (tb_bindings db),
         sum_rows (\<lambda>d. P d \<and> d_task d = task) d_reserved_ms (tb_bindings db)))"

section \<open>The grant\<close>

text \<open>The successive \<open>min\<close> of the source, before the promise of a binding is looked at.\<close>

definition execution_grant_limit ::
  "store \<Rightarrow> execution_budget \<Rightarrow> ident \<Rightarrow> ident \<Rightarrow> int \<times> int \<Rightarrow> int" where
  "execution_grant_limit db b task attempt holds =
    (let grant = min (min (x_segment_ms b) (x_attempt_ms b))
           (x_group_ms b - charged_group_active_ms db (x_group b) - fst holds);
         grant = (if x_policy b \<noteq> None
           then min grant (x_task_ms b - charged_task_active_ms db task - snd holds) else grant)
     in if attempt \<noteq> [] then min grant (x_attempt_ms b - attempt_charged_active_ms db attempt)
        else grant)"

definition execution_grant_for_binding ::
  "store \<Rightarrow> ident \<Rightarrow> ident \<Rightarrow> decision_binding option \<Rightarrow> store_error + int" where
  "execution_grant_for_binding db task attempt binding =
    rbind (read_execution_budget db task) (\<lambda>b.
      let grant = execution_grant_limit db b task attempt (pending_active_holds db (x_group b) task binding)
      in case binding of
           Some k \<Rightarrow>
             if x_policy b \<noteq> None \<or> k_reserved_ms k > 0
             then (if k_task k \<noteq> task \<or> k_reserved_ms k \<le> 0 \<or> k_reserved_ms k > grant
                   then Inl ErrConflict
                   else Inr (k_reserved_ms k))
             else if grant \<le> 0 then Inl BudgetExhausted else Inr grant
         | None \<Rightarrow> if grant \<le> 0 then Inl BudgetExhausted else Inr grant)"

definition execution_grant :: "store \<Rightarrow> ident \<Rightarrow> ident \<Rightarrow> store_error + int" where
  "execution_grant db task attempt = execution_grant_for_binding db task attempt None"

definition execution_capacity ::
  "store \<Rightarrow> ident \<Rightarrow> decision_binding option \<Rightarrow> store_error + unit" where
  "execution_capacity db task binding =
    rbind (read_execution_budget db task) (\<lambda>b.
      let group_count = int (count_rows (\<lambda>a. in_group db (x_group b) (a_task a)) (tb_attempts db));
          task_count = int (count_rows (\<lambda>a. a_task a = task) (tb_attempts db));
          P = (\<lambda>d. in_group db (x_group b) (d_task d) \<and> pending_binding d
                 \<and> (d_reserved_ms d > 0 \<or> x_policy b \<noteq> None));
          pending_group = int (count_rows P (tb_bindings db));
          pending_task = int (count_rows (\<lambda>d. P d \<and> d_task d = task) (tb_bindings db));
          over = (\<lambda>pg pt. group_count + pg \<ge> x_group_attempts b
                    \<or> x_policy b \<noteq> None \<and> task_count + pt \<ge> x_task_attempts b)
      in case binding of
           Some k \<Rightarrow>
             if x_policy b \<noteq> None \<or> k_reserved_ms k > 0
             then (let own = count_rows (\<lambda>d. d_slot d = k_slot k \<and> d_task d = k_task k \<and> d_task d = task
                          \<and> d_revision d = k_revision k \<and> pending_binding d
                          \<and> d_reserved_ms d = k_reserved_ms k) (tb_bindings db)
                   in if own \<noteq> 1 then Inl ErrConflict
                      else if over (pending_group - 1) (pending_task - 1) then Inl ErrAttemptLimit
                      else Inr ())
             else if over pending_group pending_task then Inl ErrAttemptLimit else Inr ()
         | None \<Rightarrow> if over pending_group pending_task then Inl ErrAttemptLimit else Inr ())"

definition execution_exhausted :: "store \<Rightarrow> ident \<Rightarrow> store_error + bool" where
  "execution_exhausted db task =
    (case execution_capacity db task None of
       Inl e \<Rightarrow> if e = ErrAttemptLimit then Inr True else Inl e
     | Inr _ \<Rightarrow>
       (case execution_grant db task [] of
          Inl e \<Rightarrow> if e = BudgetExhausted then Inr True else Inl e
        | Inr _ \<Rightarrow> Inr False))"

definition next_task_attempt_ordinal :: "store \<Rightarrow> ident \<Rightarrow> store_error + int" where
  "next_task_attempt_ordinal db task =
    (let nos = map a_no (filter (\<lambda>a. a_task a = task) (tb_attempts db));
         maximum = (if nos = [] then 0 else Max (set nos))
     in if maximum < 0 \<or> maximum \<ge> max_int64 then Inl (CodeError ''attempt_ordinal_overflow'')
        else Inr (maximum + 1))"

section \<open>Promises for the next attempt\<close>

definition decision_binding_bytes :: "ident \<Rightarrow> ident \<Rightarrow> ident \<Rightarrow> int" where
  "decision_binding_bytes slot task attempt =
    16 + int (length slot) + int (length task) + int (length attempt)"

definition policy_binding_hold_bytes :: int where
  "policy_binding_hold_bytes = 16"

text \<open>
  One row of \<open>insertDecisionBindings\<close>: the primary key, the pending-task index, the unique
  attempt and the positive-revision check reject the row; the insert triggers charge it.
\<close>

definition insert_decision_binding :: "decision_binding \<Rightarrow> store \<Rightarrow> store_error + store" where
  "insert_decision_binding k db =
    (let attempt = (if k_attempt k = [] then None else Some (k_attempt k));
         run = (case task_of db (k_task k) of None \<Rightarrow> [] | Some t \<Rightarrow> t_run t);
         cost = decision_binding_bytes (k_slot k) (k_task k) (k_attempt k)
           + (if k_reserved_ms k > 0 then policy_binding_hold_bytes else 0)
     in if k_revision k \<le> 0 \<or> k_reserved_ms k < 0 \<or> task_of db (k_task k) = None then Inl ConstraintFailed
        else if exists_row (\<lambda>d. d_slot d = k_slot k \<and> d_task d = k_task k
               \<or> attempt = None \<and> d_task d = k_task k \<and> pending_binding d
               \<or> attempt \<noteq> None \<and> d_attempt d = attempt) (tb_bindings db)
        then Inl ErrConflict
        else Inr (charge_usage run cost
          (db\<lparr>tb_bindings := tb_bindings db @
             [\<lparr>d_slot = k_slot k, d_task = k_task k, d_revision = k_revision k,
               d_attempt = attempt, d_reserved_ms = k_reserved_ms k, d_retired = False\<rparr>]\<rparr>)))"

definition reserve_decision_binding ::
  "quota_config \<Rightarrow> decision_binding \<Rightarrow> store \<Rightarrow> store_error + store" where
  "reserve_decision_binding q k db =
    rbind (read_execution_budget db (k_task k)) (\<lambda>budget.
      rbind (if x_policy budget \<noteq> None \<or> k_reserve k
             then (if k_attempt k \<noteq> [] then Inl ErrConflict
                   else rbind (execution_capacity db (k_task k) None) (\<lambda>_.
                     rbind (execution_grant db (k_task k) []) (\<lambda>ms.
                       case task_of db (k_task k) of
                         None \<Rightarrow> Inl ErrNoRows
                       | Some t \<Rightarrow>
                         rbind (storage_admission q db (t_run t)
                             (decision_binding_bytes (k_slot k) (k_task k) [] + policy_binding_hold_bytes) False)
                           (\<lambda>_. Inr (k\<lparr>k_reserved_ms := ms\<rparr>)))))
             else Inr k)
        (\<lambda>k'. insert_decision_binding k' db))"

text \<open>Sequentially: earlier targets of a batch are visible to later ones of the same group.\<close>

fun reserve_decision_bindings ::
  "quota_config \<Rightarrow> decision_binding list \<Rightarrow> store \<Rightarrow> store_error + store" where
  "reserve_decision_bindings q [] db = Inr db"
| "reserve_decision_bindings q (k # ks) db =
    rbind (reserve_decision_binding q k db) (reserve_decision_bindings q ks)"

definition retire_decision_bindings :: "ident \<Rightarrow> store \<Rightarrow> store" where
  "retire_decision_bindings task db =
    db\<lparr>tb_bindings := upd_rows (\<lambda>d. d_task d = task \<and> pending_binding d)
        (d_retired_update (\<lambda>_. True)) (tb_bindings db)\<rparr>"

definition consume_decision_binding ::
  "decision_binding option \<Rightarrow> ident \<Rightarrow> store \<Rightarrow> store_error + store" where
  "consume_decision_binding binding attempt db =
    (case binding of
       None \<Rightarrow> Inr db
     | Some k \<Rightarrow>
       (let P = (\<lambda>d. d_slot d = k_slot k \<and> d_task d = k_task k \<and> d_revision d = k_revision k
                  \<and> pending_binding d \<and> task_of_attempt db attempt = Some (d_task d))
        in if attempt = [] then (if exists_row P (tb_bindings db) then Inl ConstraintFailed else Inl ErrConflict)
           else if exists_row (\<lambda>d. d_attempt d = Some attempt) (tb_bindings db) \<and> exists_row P (tb_bindings db)
           then Inl ErrConflict
           else if count_rows P (tb_bindings db) \<noteq> 1 then Inl ErrConflict
           else Inr (charge_usage (case task_of db (k_task k) of None \<Rightarrow> [] | Some t \<Rightarrow> t_run t)
             (int (length attempt))
             (db\<lparr>tb_bindings := upd_rows P (d_attempt_update (\<lambda>_. Some attempt)) (tb_bindings db)\<rparr>))))"

section \<open>What a grant and the capacity check promise\<close>

lemma grant_limit_bounds:
  assumes "g \<le> execution_grant_limit db b task attempt holds"
  shows "g \<le> x_segment_ms b" "g \<le> x_attempt_ms b"
    "charged_group_active_ms db (x_group b) + fst holds + g \<le> x_group_ms b"
    "x_policy b \<noteq> None \<Longrightarrow> charged_task_active_ms db task + snd holds + g \<le> x_task_ms b"
    "attempt \<noteq> [] \<Longrightarrow> attempt_charged_active_ms db attempt + g \<le> x_attempt_ms b"
  using assms by (simp_all add: execution_grant_limit_def Let_def split: if_splits)

lemma grant_cases:
  assumes "execution_grant_for_binding db task attempt binding = Inr g"
  obtains b where "read_execution_budget db task = Inr b" "0 < g"
    "g \<le> execution_grant_limit db b task attempt (pending_active_holds db (x_group b) task binding)"
    "\<And>k. binding = Some k \<Longrightarrow> x_policy b \<noteq> None \<Longrightarrow> g = k_reserved_ms k \<and> k_task k = task"
proof -
  from assms obtain b where b: "read_execution_budget db task = Inr b"
    by (auto simp: execution_grant_for_binding_def rbind_Inr_iff)
  show thesis
  proof (rule that [OF b])
    show "0 < g"
      "g \<le> execution_grant_limit db b task attempt (pending_active_holds db (x_group b) task binding)"
      using assms b by (simp_all add: execution_grant_for_binding_def Let_def split: option.splits if_splits)
    show "\<And>k. binding = Some k \<Longrightarrow> x_policy b \<noteq> None \<Longrightarrow> g = k_reserved_ms k \<and> k_task k = task"
      using assms b by (simp add: execution_grant_for_binding_def Let_def split: if_splits)
  qed
qed

text \<open>C2. A granted segment gets a positive number of active milliseconds that fits the segment
  and attempt caps, leaves the group within its cap together with what the group is charged and
  what it has promised to others, and respects the task cap under an execution policy and the
  attempt cap of a continued attempt.\<close>

theorem execution_grant_bounds:
  assumes "execution_grant_for_binding db task attempt binding = Inr g"
    and "read_execution_budget db task = Inr b"
  shows "0 < g \<and> g \<le> x_segment_ms b \<and> g \<le> x_attempt_ms b
    \<and> charged_group_active_ms db (x_group b) + fst (pending_active_holds db (x_group b) task binding) + g
        \<le> x_group_ms b
    \<and> (x_policy b \<noteq> None \<longrightarrow>
        charged_task_active_ms db task + snd (pending_active_holds db (x_group b) task binding) + g \<le> x_task_ms b)
    \<and> (attempt \<noteq> [] \<longrightarrow> attempt_charged_active_ms db attempt + g \<le> x_attempt_ms b)"
  using assms by (auto elim!: grant_cases dest: grant_limit_bounds)

lemma capacity_cases:
  assumes "execution_capacity db task None = Inr u"
  obtains b where "read_execution_budget db task = Inr b"
    "int (count_rows (\<lambda>a. in_group db (x_group b) (a_task a)) (tb_attempts db))
      + int (count_rows (\<lambda>d. in_group db (x_group b) (d_task d) \<and> pending_binding d
           \<and> (d_reserved_ms d > 0 \<or> x_policy b \<noteq> None)) (tb_bindings db)) < x_group_attempts b"
proof -
  from assms obtain b where b: "read_execution_budget db task = Inr b"
    by (auto simp: execution_capacity_def rbind_Inr_iff)
  show thesis
    by (rule that [OF b]) (use assms b in \<open>simp add: execution_capacity_def Let_def split: if_splits\<close>)
qed

section \<open>Reservations stay under the cap of the group\<close>

definition group_committed :: "store \<Rightarrow> ident \<Rightarrow> int" where
  "group_committed db grp = charged_group_active_ms db grp + fst (pending_active_holds db grp [] None)"

lemma read_execution_budget_cong:
  assumes "tb_tasks db' = tb_tasks db" "tb_runtime db' = tb_runtime db"
    "tb_policies db' = tb_policies db" "tb_revisions db' = tb_revisions db"
  shows "read_execution_budget db' task = read_execution_budget db task"
proof -
  have "policy_body db' = policy_body db" "latest_revision db' = latest_revision db"
    "read_budget_revision_task db' = read_budget_revision_task db"
    by (simp_all add: fun_eq_iff policy_body_def latest_revision_def read_budget_revision_task_def assms)
  then show ?thesis unfolding read_execution_budget_def assms by (simp only:)
qed

lemma charge_usage_frame [simp]:
  "tb_tasks (charge_usage run c db) = tb_tasks db" "tb_runtime (charge_usage run c db) = tb_runtime db"
  "tb_policies (charge_usage run c db) = tb_policies db"
  "tb_revisions (charge_usage run c db) = tb_revisions db"
  "tb_budget (charge_usage run c db) = tb_budget db"
  "tb_bindings (charge_usage run c db) = tb_bindings db"
  "tb_attempts (charge_usage run c db) = tb_attempts db"
  "tb_segments (charge_usage run c db) = tb_segments db"
  by (simp_all add: charge_usage_def)

lemma insert_decision_binding_rows:
  assumes "insert_decision_binding k db = Inr db'"
  shows "tb_bindings db' = tb_bindings db @
      [\<lparr>d_slot = k_slot k, d_task = k_task k, d_revision = k_revision k,
        d_attempt = (if k_attempt k = [] then None else Some (k_attempt k)),
        d_reserved_ms = k_reserved_ms k, d_retired = False\<rparr>]"
    "tb_tasks db' = tb_tasks db" "tb_runtime db' = tb_runtime db"
    "tb_policies db' = tb_policies db" "tb_revisions db' = tb_revisions db"
    "tb_budget db' = tb_budget db"
  using assms by (auto simp: insert_decision_binding_def Let_def split: if_splits)

lemma insert_decision_binding_committed:
  assumes "insert_decision_binding k db = Inr db'"
  shows "group_committed db' grp \<le>
    group_committed db grp + (if in_group db grp (k_task k) then k_reserved_ms k else 0)"
proof -
  note rows = insert_decision_binding_rows [OF assms]
  have nonneg: "0 \<le> k_reserved_ms k"
    using assms by (auto simp: insert_decision_binding_def Let_def split: if_splits)
  have "in_group db' grp = in_group db grp" by (simp add: fun_eq_iff in_group_def rows)
  with nonneg show ?thesis
    by (simp add: group_committed_def charged_group_active_ms_def pending_active_holds_def Let_def rows)
qed

lemma read_execution_budget_group:
  "read_execution_budget db task = Inr b \<Longrightarrow> in_group db grp task \<Longrightarrow> x_group b = grp"
  by (auto simp: read_execution_budget_def in_group_def rbind_Inr_iff Let_def apply_revision_caps_def
      split: option.splits if_splits prod.splits)

lemma pending_active_holds_fst: "fst (pending_active_holds db grp task x) = fst (pending_active_holds db grp [] x)"
  by (simp add: pending_active_holds_def Let_def)

definition reservation_legal :: "ident \<Rightarrow> int \<Rightarrow> decision_binding \<Rightarrow> store \<Rightarrow> bool" where
  "reservation_legal grp cap k db \<longleftrightarrow> (k_reserve k \<or> k_reserved_ms k = 0) \<and>
    (case read_execution_budget db (k_task k) of
       Inl _ \<Rightarrow> True | Inr b \<Rightarrow> x_group b = grp \<longrightarrow> x_group_ms b = cap)"

lemma reserve_decision_binding_cases:
  assumes "reserve_decision_binding q k db = Inr db'"
  obtains b k' where "read_execution_budget db (k_task k) = Inr b" "insert_decision_binding k' db = Inr db'"
    "k_task k' = k_task k"
    "k' = k \<and> \<not> k_reserve k \<and> x_policy b = None \<or> execution_grant db (k_task k) [] = Inr (k_reserved_ms k')"
proof -
  from assms obtain b where b: "read_execution_budget db (k_task k) = Inr b"
    by (auto simp: reserve_decision_binding_def rbind_Inr_iff)
  show thesis
  proof (cases "x_policy b \<noteq> None \<or> k_reserve k")
    case True
    with assms b obtain ms where "execution_grant db (k_task k) [] = Inr ms"
      "insert_decision_binding (k\<lparr>k_reserved_ms := ms\<rparr>) db = Inr db'"
      by (auto simp: reserve_decision_binding_def rbind_Inr_iff split: if_splits option.splits)
    then show thesis using that [OF b, of "k\<lparr>k_reserved_ms := ms\<rparr>"] by simp
  next
    case False
    with assms b have "insert_decision_binding k db = Inr db'"
      by (simp add: reserve_decision_binding_def)
    then show thesis using that [OF b, of k] False by simp
  qed
qed

lemma reserve_decision_binding_within:
  assumes "reserve_decision_binding q k db = Inr db'" and "reservation_legal grp cap k db"
    and "group_committed db grp \<le> cap"
  shows "group_committed db' grp \<le> cap"
proof -
  obtain b k' where b: "read_execution_budget db (k_task k) = Inr b"
      and ins: "insert_decision_binding k' db = Inr db'" and t: "k_task k' = k_task k"
      and how: "k' = k \<and> \<not> k_reserve k \<and> x_policy b = None
        \<or> execution_grant db (k_task k) [] = Inr (k_reserved_ms k')"
    using reserve_decision_binding_cases [OF assms(1)] by blast
  note le = insert_decision_binding_committed [OF ins, of grp]
  show ?thesis
  proof (cases "in_group db grp (k_task k)")
    case False
    with le t assms(3) show ?thesis by simp
  next
    case True
    then have g: "x_group b = grp" using read_execution_budget_group b by blast
    from how show ?thesis
    proof
      assume "k' = k \<and> \<not> k_reserve k \<and> x_policy b = None"
      with le assms(2,3) show ?thesis by (simp add: reservation_legal_def split: if_splits)
    next
      assume "execution_grant db (k_task k) [] = Inr (k_reserved_ms k')"
      then have "charged_group_active_ms db grp + fst (pending_active_holds db grp (k_task k) None)
          + k_reserved_ms k' \<le> x_group_ms b"
        unfolding execution_grant_def
        by (elim grant_cases) (use b g in \<open>auto dest: grant_limit_bounds(3)\<close>)
      then have "group_committed db grp + k_reserved_ms k' \<le> x_group_ms b"
        by (simp add: group_committed_def pending_active_holds_fst [of db grp "k_task k"])
      with le t True assms(2) b g show ?thesis by (simp add: reservation_legal_def)
    qed
  qed
qed

lemma reserve_decision_binding_budgets:
  assumes "reserve_decision_binding q k db = Inr db'"
  shows "read_execution_budget db' = read_execution_budget db"
proof -
  obtain k' where "insert_decision_binding k' db = Inr db'"
    using reserve_decision_binding_cases [OF assms] by blast
  from insert_decision_binding_rows [OF this] show ?thesis
    by (intro ext read_execution_budget_cong) simp_all
qed

interpretation holds: bounded_ledger "\<lambda>db. group_committed db grp" cap "reservation_legal grp cap"
    "reserve_decision_binding q" for grp cap q
  by unfold_locales
    (blast intro: reserve_decision_binding_within,
     simp add: reservation_legal_def reserve_decision_binding_budgets)

lemma reserve_decision_bindings_steps:
  "reserve_decision_bindings q ks = run_steps (reserve_decision_binding q) ks"
proof (induction ks)
  case Nil
  show ?case by (simp add: fun_eq_iff)
next
  case (Cons k ks)
  show ?case unfolding fun_eq_iff reserve_decision_bindings.simps run_steps.simps Cons.IH by simp
qed

text \<open>C3. Reserving a whole batch of successor attempts keeps every group within its cap: when
  the group's charges and promises fit before, they still fit after, although every target of
  the batch takes a grant of its own.\<close>

theorem reserve_decision_bindings_within_cap:
  assumes "reserve_decision_bindings q ks db = Inr db'"
    and "\<forall>k \<in> set ks. reservation_legal grp cap k db"
    and "group_committed db grp \<le> cap"
  shows "group_committed db' grp \<le> cap"
  using assms holds.batch_within unfolding reserve_decision_bindings_steps by blast

text \<open>The ordinal of the next attempt of a task is positive, fits a signed 64-bit integer and
  is above the ordinal of every attempt the task ever had.\<close>

theorem next_task_attempt_ordinal_fresh:
  assumes "next_task_attempt_ordinal db task = Inr n" and "a \<in> set (tb_attempts db)" and "a_task a = task"
  shows "a_no a < n \<and> 0 < n \<and> n \<le> max_int64"
  using assms
  by (auto simp: next_task_attempt_ordinal_def Let_def not_less filter_empty_conv split: if_splits
      dest!: Max_ge [rotated] intro: le_less_trans)

section \<open>A small run\<close>

text \<open>Two tasks of one default group, the first with an attempt that used half an hour.\<close>

definition budget_sample :: store where
  "budget_sample = empty_store\<lparr>
    tb_tasks := [\<lparr>t_id = ''t1'', t_run = ''r'', t_status = TFailed, t_deps = Some [],
                  t_max_attempts = 3, t_created = ''1''\<rparr>,
                 \<lparr>t_id = ''t2'', t_run = ''r'', t_status = TQueued, t_deps = Some [''t1''],
                  t_max_attempts = 3, t_created = ''2''\<rparr>],
    tb_runtime := [\<lparr>r_task = ''t1'', r_launch = ''l'', r_work_revision = 1, r_group = ''g'',
                  r_max_active_ms = 3600000, r_ready_sequence = None, r_payload = [], r_policy = [],
                  r_expected_sha256 = []\<rparr>,
                 \<lparr>r_task = ''t2'', r_launch = ''l'', r_work_revision = 1, r_group = ''g'',
                  r_max_active_ms = 3600000, r_ready_sequence = None, r_payload = [], r_policy = [],
                  r_expected_sha256 = []\<rparr>],
    tb_attempts := [\<lparr>a_id = ''a1'', a_task = ''t1'', a_no = 1, a_status = AFailed\<rparr>],
    tb_segments := [\<lparr>g_id = ''s1'', g_attempt = ''a1'', g_no = 1, g_status = SExited\<rparr>],
    tb_budget := [\<lparr>b_id = ''b1'', b_group = ''g'', b_segment = ''s1'', b_granted = 3600000,
                  b_used = 1800000, b_status = BSettled\<rparr>]\<rparr>"

lemmas budget_sample_eval = budget_sample_def empty_store_def sel_row_def upd_row_def
  read_execution_budget_def read_execution_budget_baseline_def policy_body_def latest_revision_def
  default_group_active_ms_def charged_group_active_ms_def charged_task_active_ms_def
  attempt_charged_active_ms_def attempt_of_segment_def task_of_segment_def task_of_attempt_def
  budget_charge_def pending_active_holds_def in_group_def pending_binding_def Let_def

lemma budget_sample_budget:
  "read_execution_budget budget_sample ''t2'' = Inr \<lparr>x_policy = None, x_group = ''g'', x_run = ''r'',
     x_revision = 0, x_task_attempts = 3, x_group_attempts = 3, x_attempt_ms = 3600000,
     x_task_ms = max_int64, x_group_ms = 7200000, x_segment_ms = 3600000\<rparr>"
  by (simp add: budget_sample_eval)

lemma budget_sample_grant: "execution_grant_for_binding budget_sample ''t2'' [] None = Inr 3600000"
  unfolding execution_grant_for_binding_def budget_sample_budget
  by (simp add: execution_grant_limit_def budget_sample_eval)

lemma budget_sample_committed: "group_committed budget_sample ''g'' = 1800000"
  by (simp add: group_committed_def budget_sample_eval)

theorem execution_grant_bounds_witness:
  "charged_group_active_ms budget_sample ''g'' + 3600000 \<le> 7200000"
  using execution_grant_bounds [OF budget_sample_grant budget_sample_budget]
  by (simp add: budget_sample_eval)

definition reservation_sample :: decision_binding where
  "reservation_sample = \<lparr>k_slot = ''slot'', k_task = ''t2'', k_attempt = [], k_revision = 2,
     k_reserved_ms = 0, k_reserve = True\<rparr>"

lemma reservation_sample_legal: "reservation_legal ''g'' 7200000 reservation_sample budget_sample"
  by (simp add: reservation_legal_def reservation_sample_def budget_sample_budget)

lemma reservation_sample_runs:
  "\<exists>db'. reserve_decision_bindings (default_quota 100000000) [reservation_sample] budget_sample = Inr db'"
proof -
  have cap: "execution_capacity budget_sample ''t2'' None = Inr ()"
    unfolding execution_capacity_def budget_sample_budget by (simp add: budget_sample_eval)
  have grant: "execution_grant budget_sample ''t2'' [] = Inr 3600000"
    by (simp add: execution_grant_def budget_sample_grant)
  have adm: "storage_admission (default_quota 100000000) budget_sample ''r'' 38 False = Inr ()"
    by (simp add: storage_admission_def storage_admission_split_def default_quota_def required_space_def
        add_required_def usage_of_def exceeds_def budget_sample_def empty_store_def sel_row_def)
  have t: "task_of budget_sample ''t2'' = Some \<lparr>t_id = ''t2'', t_run = ''r'', t_status = TQueued,
      t_deps = Some [''t1''], t_max_attempts = 3, t_created = ''2''\<rparr>"
    by (simp add: budget_sample_def sel_row_def)
  have bytes: "decision_binding_bytes ''slot'' ''t2'' [] + policy_binding_hold_bytes = 38"
    by (simp add: decision_binding_bytes_def policy_binding_hold_bytes_def)
  have none: "tb_bindings budget_sample = []" by (simp add: budget_sample_def empty_store_def)
  show ?thesis
    by (simp add: reserve_decision_binding_def reservation_sample_def budget_sample_budget cap grant t adm
        bytes insert_decision_binding_def none Let_def)
qed

theorem reserve_decision_bindings_within_cap_witness:
  "\<exists>db'. reserve_decision_bindings (default_quota 100000000) [reservation_sample] budget_sample = Inr db'
     \<and> group_committed db' ''g'' \<le> 7200000"
proof -
  obtain db' where r:
      "reserve_decision_bindings (default_quota 100000000) [reservation_sample] budget_sample = Inr db'"
    using reservation_sample_runs by blast
  have "group_committed db' ''g'' \<le> 7200000"
    by (rule reserve_decision_bindings_within_cap [OF r])
      (simp_all add: reservation_sample_legal budget_sample_committed)
  with r show ?thesis by blast
qed

theorem next_task_attempt_ordinal_fresh_witness:
  "next_task_attempt_ordinal budget_sample ''t1'' = Inr 2 \<and> (1::int) < 2"
proof -
  have n: "next_task_attempt_ordinal budget_sample ''t1'' = Inr 2"
    by (simp add: next_task_attempt_ordinal_def budget_sample_def max_int64_def)
  have "a_no \<lparr>a_id = ''a1'', a_task = ''t1'', a_no = 1, a_status = AFailed\<rparr> < 2"
    using next_task_attempt_ordinal_fresh [OF n] by (simp add: budget_sample_def)
  with n show ?thesis by simp
qed

end
