(* ===== verification/Store_Deps.thy ===== *)
theory Store_Deps
  imports Store_Budget
begin

text \<open>
  The dependency graph of tasks (\<open>blockFailedDependencies\<close> and \<open>releaseReady\<close> of
  \<open>internal/store/host_events.go\<close>, \<open>takeReadySequence\<close> of \<open>admission.go\<close>): a terminal failure
  blocks every waiting descendant, a completion releases every queued task whose
  dependencies are all done. The closure is computed by rounds over a Go map, whose
  iteration order is arbitrary; here a round takes the order as an argument and the
  result is shown to be the least set closed under the dependencies, whatever the order.
\<close>

section \<open>Blocking the descendants of a failure\<close>

definition waiting_status :: "task_status \<Rightarrow> bool" where
  "waiting_status s \<longleftrightarrow> s = TQueued \<or> s = TReady"

definition dead_status :: "task_status \<Rightarrow> bool" where
  "dead_status s \<longleftrightarrow> s = TFailed \<or> s = TCancelled \<or> s = TBudgetExhausted \<or> s = TBlockedDependency"

type_synonym task_states = "(ident \<times> task_status \<times> ident list) list"

fun load_tasks :: "task_row list \<Rightarrow> store_error + task_states" where
  "load_tasks [] = Inr []"
| "load_tasks (t # ts) =
    (case t_deps t of
       None \<Rightarrow> Inl DecodeFailed
     | Some deps \<Rightarrow> rbind (load_tasks ts) (\<lambda>r. Inr ((t_id t, t_status t, deps) # r)))"

definition dep_dead :: "ident list \<Rightarrow> task_states \<Rightarrow> ident list \<Rightarrow> ident \<Rightarrow> bool" where
  "dep_dead roots tasks terminal dep \<longleftrightarrow>
    (if roots \<noteq> [] then dep \<in> set terminal
     else (case map_of tasks dep of None \<Rightarrow> False | Some (st, _) \<Rightarrow> dead_status st))"

fun block_pass ::
  "ident list \<Rightarrow> ident list \<Rightarrow> task_states \<times> ident list \<Rightarrow> (task_states \<times> ident list) \<times> bool" where
  "block_pass roots [] s = (s, False)"
| "block_pass roots (i # is) (tasks, terminal) =
    (case map_of tasks i of
       None \<Rightarrow> block_pass roots is (tasks, terminal)
     | Some (st, deps) \<Rightarrow>
         if waiting_status st \<and> list_ex (dep_dead roots tasks terminal) deps
         then (fst (block_pass roots is
                 (AList.update i (TBlockedDependency, deps) tasks, i # terminal)), True)
         else block_pass roots is (tasks, terminal))"

definition waiting_count :: "task_states \<Rightarrow> nat" where
  "waiting_count tasks = length (filter (\<lambda>t. waiting_status (fst (snd t))) tasks)"

lemma waiting_count_update:
  "map_of tasks i = Some (st, deps) \<Longrightarrow> waiting_status st \<Longrightarrow>
    waiting_count (AList.update i (TBlockedDependency, d) tasks) < waiting_count tasks"
  by (induction tasks) (auto simp: waiting_count_def waiting_status_def split: if_splits)

lemma block_pass_count:
  "waiting_count (fst (fst (block_pass roots is s))) \<le> waiting_count (fst s)
   \<and> (snd (block_pass roots is s) \<longrightarrow> waiting_count (fst (fst (block_pass roots is s))) < waiting_count (fst s))"
proof (induction roots "is" s rule: block_pass.induct)
  case (2 roots i "is" tasks terminal)
  show ?case
  proof (cases "map_of tasks i")
    case None
    then show ?thesis using 2(1) by simp
  next
    case (Some p)
    obtain st deps where p: "p = (st, deps)" by (cases p)
    show ?thesis
    proof (cases "waiting_status st \<and> list_ex (dep_dead roots tasks terminal) deps")
      case True
      then have "waiting_count (AList.update i (TBlockedDependency, deps) tasks) < waiting_count tasks"
        using waiting_count_update Some p by blast
      with 2(2) [OF Some [unfolded p] refl True] show ?thesis by (simp add: Some p True)
    next
      case False
      with 2(3) [OF Some [unfolded p] refl False] show ?thesis by (simp add: Some p False)
    qed
  qed
qed simp

function block_loop :: "ident list \<Rightarrow> ident list \<Rightarrow> task_states \<times> ident list \<Rightarrow> task_states \<times> ident list" where
  "block_loop roots order s =
    (let r = block_pass roots order s in if snd r then block_loop roots order (fst r) else fst r)"
  by auto

termination
  by (relation "measure (\<lambda>(roots, order, s). waiting_count (fst s))") (simp_all add: block_pass_count)

declare block_loop.simps [simp del]

definition block_task :: "ident \<Rightarrow> store \<Rightarrow> store" where
  "block_task i db = retire_decision_bindings i
    (db\<lparr>tb_tasks := upd_rows (\<lambda>t. t_id t = i \<and> waiting_status (t_status t))
        (t_status_update (\<lambda>_. TBlockedDependency)) (tb_tasks db)\<rparr>)"

definition block_failed_dependencies :: "ident list \<Rightarrow> store \<Rightarrow> store_error + store" where
  "block_failed_dependencies roots db =
    rbind (load_tasks (tb_tasks db)) (\<lambda>tasks.
      let final = fst (block_loop roots (map fst tasks) (tasks, roots))
      in Inr (fold block_task (map fst (filter (\<lambda>t. fst (snd t) = TBlockedDependency) final)) db))"

section \<open>What blocking computes\<close>

text \<open>The specification: a waiting task is doomed when a dependency is dead to begin with (a root,
  or without roots a task in a dead state) or is itself doomed.\<close>

definition dead_at_start :: "ident list \<Rightarrow> (ident \<Rightarrow> (task_status \<times> ident list) option) \<Rightarrow> ident \<Rightarrow> bool" where
  "dead_at_start roots look dep \<longleftrightarrow>
    (if roots \<noteq> [] then dep \<in> set roots
     else (case look dep of None \<Rightarrow> False | Some (st, _) \<Rightarrow> dead_status st))"

inductive doomed :: "ident list \<Rightarrow> (ident \<Rightarrow> (task_status \<times> ident list) option) \<Rightarrow> ident \<Rightarrow> bool"
  for roots look where
  doomed_dead: "look i = Some (st, deps) \<Longrightarrow> waiting_status st \<Longrightarrow> dep \<in> set deps \<Longrightarrow>
    dead_at_start roots look dep \<Longrightarrow> doomed roots look i"
| doomed_dep: "look i = Some (st, deps) \<Longrightarrow> waiting_status st \<Longrightarrow> dep \<in> set deps \<Longrightarrow>
    doomed roots look dep \<Longrightarrow> doomed roots look i"

inductive_cases doomedE: "doomed roots look i"

lemma doomed_waiting: "doomed roots look i \<Longrightarrow> \<exists>st deps. look i = Some (st, deps) \<and> waiting_status st"
  by (erule doomedE) auto

definition block_inv ::
  "ident list \<Rightarrow> (ident \<Rightarrow> (task_status \<times> ident list) option) \<Rightarrow> ident set \<Rightarrow> task_states \<times> ident list \<Rightarrow> bool" where
  "block_inv roots look B s \<longleftrightarrow>
    (\<forall>i. map_of (fst s) i = map_option (\<lambda>(st, d). (if i \<in> B then TBlockedDependency else st, d)) (look i))
    \<and> set (snd s) = set roots \<union> B \<and> (\<forall>i \<in> B. doomed roots look i)"

lemma block_inv_dep_dead:
  assumes "block_inv roots look B (tasks, terminal)"
  shows "dep_dead roots tasks terminal dep \<longleftrightarrow> dead_at_start roots look dep \<or> dep \<in> B"
proof (cases "roots = []")
  case True
  have "map_of tasks dep = map_option (\<lambda>(st, d). (if dep \<in> B then TBlockedDependency else st, d)) (look dep)"
    using assms by (simp add: block_inv_def)
  moreover have "dep \<in> B \<Longrightarrow> look dep \<noteq> None"
    using assms doomed_waiting unfolding block_inv_def by fastforce
  ultimately show ?thesis
    using True by (auto simp: dep_dead_def dead_at_start_def dead_status_def split: option.splits)
qed (use assms in \<open>auto simp: dep_dead_def dead_at_start_def block_inv_def\<close>)

definition closed_at ::
  "ident list \<Rightarrow> (ident \<Rightarrow> (task_status \<times> ident list) option) \<Rightarrow> ident set \<Rightarrow> ident \<Rightarrow> bool" where
  "closed_at roots look B i \<longleftrightarrow>
    (\<forall>st deps. look i = Some (st, deps) \<longrightarrow> waiting_status st \<longrightarrow>
      (\<exists>dep \<in> set deps. dead_at_start roots look dep \<or> dep \<in> B) \<longrightarrow> i \<in> B)"

lemma block_inv_step:
  assumes inv: "block_inv roots look B (tasks, terminal)"
    and m: "map_of tasks i = Some (st, deps)" and w: "waiting_status st"
    and d: "list_ex (dep_dead roots tasks terminal) deps"
  shows "block_inv roots look (insert i B) (AList.update i (TBlockedDependency, deps) tasks, i # terminal)"
    and "i \<notin> B"
proof -
  have v: "map_option (\<lambda>(st, d). (if i \<in> B then TBlockedDependency else st, d)) (look i) = Some (st, deps)"
    using inv m by (simp add: block_inv_def)
  show nB: "i \<notin> B" using v w by (auto simp: waiting_status_def)
  with v have l: "look i = Some (st, deps)" by auto
  obtain dep where "dep \<in> set deps" "dead_at_start roots look dep \<or> dep \<in> B"
    using d block_inv_dep_dead [OF inv] by (auto simp: list_ex_iff)
  moreover have "\<forall>j \<in> B. doomed roots look j" using inv by (simp add: block_inv_def)
  ultimately have "doomed roots look i"
    using l w doomed_dead doomed_dep by metis
  with inv l show "block_inv roots look (insert i B) (AList.update i (TBlockedDependency, deps) tasks, i # terminal)"
    by (auto simp: block_inv_def update_conv')
qed

lemma block_inv_closed:
  assumes inv: "block_inv roots look B (tasks, terminal)"
    and "map_of tasks i = None \<or>
      (\<exists>st deps. map_of tasks i = Some (st, deps) \<and> \<not> (waiting_status st \<and> list_ex (dep_dead roots tasks terminal) deps))"
  shows "closed_at roots look B i"
proof -
  have "map_of tasks i = map_option (\<lambda>(st, d). (if i \<in> B then TBlockedDependency else st, d)) (look i)"
    using inv by (simp add: block_inv_def)
  with assms(2) show ?thesis
    using block_inv_dep_dead [OF inv] by (auto simp: closed_at_def list_ex_iff split: if_splits)
qed

lemma block_pass_inv:
  "block_inv roots look B s \<Longrightarrow> block_pass roots order s = (s', changed) \<Longrightarrow>
    \<exists>B'. block_inv roots look B' s' \<and>
      (\<not> changed \<longrightarrow> B' = B \<and> (\<forall>i \<in> set order. closed_at roots look B i))"
proof (induction roots order s arbitrary: B s' changed rule: block_pass.induct)
  case (2 roots i "is" tasks terminal)
  show ?case
  proof (cases "\<exists>st deps. map_of tasks i = Some (st, deps) \<and>
      waiting_status st \<and> list_ex (dep_dead roots tasks terminal) deps")
    case True
    then obtain st deps where m: "map_of tasks i = Some (st, deps)"
      and w: "waiting_status st \<and> list_ex (dep_dead roots tasks terminal) deps" by blast
    define nxt where "nxt = (AList.update i (TBlockedDependency, deps) tasks, i # terminal)"
    have "block_inv roots look (insert i B) nxt"
      unfolding nxt_def using block_inv_step(1) [OF 2(4) m] w by blast
    moreover obtain c where "block_pass roots is nxt = (s', c)" and "changed"
      using 2(5) m w by (auto simp: nxt_def) (metis prod.collapse)
    ultimately show ?thesis
      using 2(2) [OF m refl w] unfolding nxt_def by blast
  next
    case False
    then have run: "block_pass roots is (tasks, terminal) = (s', changed)"
      using 2(5) by (auto split: option.splits)
    have cl: "closed_at roots look B i"
      using block_inv_closed [OF 2(4)] False by (cases "map_of tasks i") auto
    have "\<exists>B'. block_inv roots look B' s' \<and>
      (\<not> changed \<longrightarrow> B' = B \<and> (\<forall>i \<in> set is. closed_at roots look B i))"
    proof (cases "map_of tasks i")
      case None
      show ?thesis by (rule 2(1) [OF None 2(4) run])
    next
      case (Some p)
      obtain st deps where p: "p = (st, deps)" by (cases p)
      have n: "\<not> (waiting_status st \<and> list_ex (dep_dead roots tasks terminal) deps)"
        using False Some p by blast
      show ?thesis by (rule 2(3) [OF Some p [symmetric] n 2(4) run])
    qed
    with cl show ?thesis by auto
  qed
qed auto

lemma closed_doomed:
  assumes "\<forall>i. look i \<noteq> None \<longrightarrow> closed_at roots look B i" and "doomed roots look i"
  shows "i \<in> B"
  using assms(2)
proof induction
  case (doomed_dead i st deps dep)
  then show ?case using assms(1) by (auto simp: closed_at_def)
next
  case (doomed_dep i st deps dep)
  then show ?case using assms(1) by (auto simp: closed_at_def)
qed

lemma block_loop_inv:
  assumes "block_inv roots look B s" and "\<forall>i. look i \<noteq> None \<longrightarrow> i \<in> set order"
  shows "block_inv roots look {i. doomed roots look i} (block_loop roots order s)"
  using assms
proof (induction roots order s arbitrary: B rule: block_loop.induct)
  case (1 roots order s)
  obtain s' changed where r: "block_pass roots order s = (s', changed)" by fastforce
  then obtain B' where B': "block_inv roots look B' s'"
    "\<not> changed \<longrightarrow> B' = B \<and> (\<forall>i \<in> set order. closed_at roots look B i)"
    using block_pass_inv 1(2) by blast
  show ?case
  proof (cases changed)
    case True
    with 1(1) [of "(s', changed)"] r B'(1) 1(3) show ?thesis
      by (simp add: block_loop.simps [of roots order s])
  next
    case False
    with B' have "block_inv roots look B s'" and cl: "\<forall>i. look i \<noteq> None \<longrightarrow> closed_at roots look B i"
      using 1(3) by auto
    moreover have "B = {i. doomed roots look i}"
      using cl closed_doomed 1(2) by (auto simp: block_inv_def)
    ultimately show ?thesis using r False by (simp add: block_loop.simps [of roots order s])
  qed
qed

definition dep_view :: "store \<Rightarrow> ident \<Rightarrow> (task_status \<times> ident list) option" where
  "dep_view db i = (case task_of db i of None \<Rightarrow> None
     | Some r \<Rightarrow> map_option (\<lambda>d. (t_status r, d)) (t_deps r))"

lemma load_tasks_view:
  "load_tasks ts = Inr l \<Longrightarrow>
    map_of l i = (case sel_row t_id i ts of None \<Rightarrow> None | Some r \<Rightarrow> map_option (\<lambda>d. (t_status r, d)) (t_deps r))
    \<and> map fst l = map t_id ts \<and> (\<forall>t \<in> set ts. t_deps t \<noteq> None)"
  by (induction ts arbitrary: l) (auto simp: rbind_Inr_iff sel_row_def split: option.splits)

lemma block_task_frame [simp]:
  "tb_runtime (block_task i db) = tb_runtime db" "tb_attempts (block_task i db) = tb_attempts db"
  "tb_segments (block_task i db) = tb_segments db" "tb_segrun (block_task i db) = tb_segrun db"
  "tb_budget (block_task i db) = tb_budget db" "tb_stops (block_task i db) = tb_stops db"
  "tb_questions (block_task i db) = tb_questions db" "tb_sessions (block_task i db) = tb_sessions db"
  by (simp_all add: block_task_def retire_decision_bindings_def)

lemma task_of_block_task:
  "task_of (block_task i db) t = map_option (\<lambda>r. if t = i \<and> waiting_status (t_status r)
      then r\<lparr>t_status := TBlockedDependency\<rparr> else r) (task_of db t)"
proof -
  have "find_row (\<lambda>r. t_id r = t) (upd_rows (\<lambda>t. t_id t = i \<and> waiting_status (t_status t))
      (t_status_update (\<lambda>_. TBlockedDependency)) rs) =
    map_option (\<lambda>r. if t = i \<and> waiting_status (t_status r) then r\<lparr>t_status := TBlockedDependency\<rparr> else r)
      (find_row (\<lambda>r. t_id r = t) rs)" for rs
    by (induction rs) auto
  then show ?thesis by (simp add: block_task_def retire_decision_bindings_def sel_row_def)
qed

lemma task_of_fold_block:
  "task_of (fold block_task is db) t = map_option (\<lambda>r. if t \<in> set is \<and> waiting_status (t_status r)
      then r\<lparr>t_status := TBlockedDependency\<rparr> else r) (task_of db t)"
  by (induction "is" arbitrary: db)
    (auto simp: task_of_block_task option.map_comp comp_def waiting_status_def fun_eq_iff option.map_ident
      intro!: arg_cong [where f = "\<lambda>f. map_option f x" for x])

lemma fold_block_bindings:
  "tb_bindings (fold block_task is db) =
    upd_rows (\<lambda>d. d_task d \<in> set is \<and> pending_binding d) (d_retired_update (\<lambda>_. True)) (tb_bindings db)"
proof (induction "is" arbitrary: db)
  case (Cons i "is")
  have "upd_rows (\<lambda>d. d_task d \<in> set is \<and> pending_binding d) (d_retired_update (\<lambda>_. True))
      (upd_rows (\<lambda>d. d_task d = i \<and> pending_binding d) (d_retired_update (\<lambda>_. True)) ds) =
    upd_rows (\<lambda>d. (d_task d = i \<or> d_task d \<in> set is) \<and> pending_binding d) (d_retired_update (\<lambda>_. True)) ds" for ds
    by (induction ds) (auto simp: pending_binding_def)
  with Cons show ?case by (simp add: block_task_def retire_decision_bindings_def)
qed (simp add: upd_rows_def)

lemma fold_block_frame [simp]:
  "tb_runtime (fold block_task is db) = tb_runtime db" "tb_attempts (fold block_task is db) = tb_attempts db"
  "tb_segments (fold block_task is db) = tb_segments db" "tb_segrun (fold block_task is db) = tb_segrun db"
  "tb_budget (fold block_task is db) = tb_budget db" "tb_stops (fold block_task is db) = tb_stops db"
  "tb_questions (fold block_task is db) = tb_questions db" "tb_sessions (fold block_task is db) = tb_sessions db"
  by (induction "is" arbitrary: db) simp_all

lemma map_fst_update_mem: "k \<in> set (map fst l) \<Longrightarrow> map fst (AList.update k v l) = map fst l"
  by (induction l) (auto simp: image_iff)

lemma block_pass_keys:
  "block_pass roots order s = (s', c) \<Longrightarrow> map fst (fst s') = map fst (fst s)"
proof (induction roots order s arbitrary: s' c rule: block_pass.induct)
  case (2 roots i "is" tasks terminal)
  show ?case
  proof (cases "map_of tasks i")
    case None
    with 2(1) [OF None] 2(4) show ?thesis by simp
  next
    case (Some p)
    obtain st deps where p: "p = (st, deps)" by (cases p)
    have mem: "i \<in> set (map fst tasks)" using Some by (metis list.set_map map_of_eq_None_iff option.distinct(1))
    show ?thesis
    proof (cases "waiting_status st \<and> list_ex (dep_dead roots tasks terminal) deps")
      case True
      obtain s1 c1 where r: "block_pass roots is (AList.update i (TBlockedDependency, deps) tasks, i # terminal) = (s1, c1)"
        by fastforce
      with 2(2) [OF Some p [symmetric] True r] 2(4) Some p True show ?thesis
        by (simp add: map_fst_update_mem [OF mem])
    next
      case False
      with 2(3) [OF Some p [symmetric] False] 2(4) Some p show ?thesis by simp
    qed
  qed
qed simp

lemma block_loop_keys: "map fst (fst (block_loop roots order s)) = map fst (fst s)"
proof (induction roots order s rule: block_loop.induct)
  case (1 roots order s)
  obtain s' c where r: "block_pass roots order s = (s', c)" by fastforce
  with 1 block_pass_keys [OF r] show ?case
    by (cases c) (simp_all add: block_loop.simps [of roots order s])
qed


section \<open>Releasing queued tasks\<close>

definition take_ready_sequence :: "store \<Rightarrow> int \<times> store" where
  "take_ready_sequence db = (tb_next_ready db, db\<lparr>tb_next_ready := tb_next_ready db + 1\<rparr>)"

definition done_status :: "task_status \<Rightarrow> bool" where
  "done_status s \<longleftrightarrow> s = TCompleted \<or> s = TIntegrated"

definition dep_done :: "store \<Rightarrow> ident \<Rightarrow> bool" where
  "dep_done db dep \<longleftrightarrow> (case task_of db dep of None \<Rightarrow> False | Some r \<Rightarrow> done_status (t_status r))"

definition mark_ready :: "ident \<Rightarrow> store \<Rightarrow> store" where
  "mark_ready i db =
    (let (sequence, db1) = take_ready_sequence db
     in db1\<lparr>tb_tasks := upd_rows (\<lambda>t. t_id t = i \<and> t_status t = TQueued)
            (t_status_update (\<lambda>_. TReady)) (tb_tasks db1),
          tb_runtime := upd_row r_task i (r_ready_sequence_update (\<lambda>_. Some sequence)) (tb_runtime db1)\<rparr>)"

fun release_loop :: "task_row list \<Rightarrow> store \<Rightarrow> store_error + store" where
  "release_loop [] db = Inr db"
| "release_loop (c # cs) db =
    (case t_deps c of
       None \<Rightarrow> Inl DecodeFailed
     | Some deps \<Rightarrow>
         if list_all (dep_done db) deps then release_loop cs (mark_ready (t_id c) db)
         else release_loop cs db)"

definition release_ready :: "store \<Rightarrow> store_error + store" where
  "release_ready db =
    release_loop (sort_key t_created (sort_key t_id (filter (\<lambda>t. t_status t = TQueued) (tb_tasks db)))) db"

section \<open>What releasing computes\<close>

lemma task_of_mark_ready:
  "task_of (mark_ready i db) t = map_option (\<lambda>r. if t = i \<and> t_status r = TQueued
      then r\<lparr>t_status := TReady\<rparr> else r) (task_of db t)"
proof -
  have "find_row (\<lambda>r. t_id r = t) (upd_rows (\<lambda>t. t_id t = i \<and> t_status t = TQueued)
      (t_status_update (\<lambda>_. TReady)) rs) =
    map_option (\<lambda>r. if t = i \<and> t_status r = TQueued then r\<lparr>t_status := TReady\<rparr> else r)
      (find_row (\<lambda>r. t_id r = t) rs)" for rs
    by (induction rs) auto
  then show ?thesis by (simp add: mark_ready_def take_ready_sequence_def sel_row_def)
qed

lemma dep_done_mark_ready [simp]: "dep_done (mark_ready i db) = dep_done db"
  by (auto simp: dep_done_def task_of_mark_ready done_status_def fun_eq_iff split: option.splits)

lemma runtime_of_mark_ready:
  "runtime_of (mark_ready i db) t = (if t = i
     then map_option (\<lambda>r. r\<lparr>r_ready_sequence := Some (tb_next_ready db)\<rparr>) (runtime_of db t) else runtime_of db t)"
  by (simp add: mark_ready_def take_ready_sequence_def rows.sel_upd)

lemma next_mark_ready [simp]: "tb_next_ready (mark_ready i db) = tb_next_ready db + 1"
  by (simp add: mark_ready_def take_ready_sequence_def)

definition releasable_row :: "store \<Rightarrow> task_row \<Rightarrow> bool" where
  "releasable_row db c \<longleftrightarrow> (\<exists>deps. t_deps c = Some deps \<and> list_all (dep_done db) deps)"

lemma release_loop_tasks:
  "release_loop cs db = Inr db' \<Longrightarrow>
    task_of db' t = map_option (\<lambda>r. if t_status r = TQueued \<and> (\<exists>c \<in> set cs. t_id c = t \<and> releasable_row db c)
      then r\<lparr>t_status := TReady\<rparr> else r) (task_of db t)"
proof (induction cs arbitrary: db)
  case (Cons c cs)
  then obtain deps where deps: "t_deps c = Some deps" by (auto split: option.splits)
  show ?case
  proof (cases "list_all (dep_done db) deps")
    case True
    have same: "releasable_row (mark_ready (t_id c) db) = releasable_row db"
      by (simp add: fun_eq_iff releasable_row_def)
    have "releasable_row db c" using deps True by (simp add: releasable_row_def)
    moreover have "release_loop cs (mark_ready (t_id c) db) = Inr db'"
      using Cons.prems deps True by simp
    ultimately show ?thesis using Cons.IH
      by (cases "task_of db t") (auto simp: task_of_mark_ready same)
  next
    case False
    then have "\<not> releasable_row db c" and "release_loop cs db = Inr db'"
      using Cons.prems deps by (simp_all add: releasable_row_def)
    then show ?thesis using Cons.IH by (cases "task_of db t") auto
  qed
qed (simp add: option.map_ident)

lemma release_loop_sequences:
  "release_loop cs db = Inr db' \<Longrightarrow> distinct (map t_id cs) \<Longrightarrow>
    tb_next_ready db \<le> tb_next_ready db' \<and>
    (\<forall>t. (\<exists>c \<in> set cs. t_id c = t \<and> releasable_row db c) \<longrightarrow> runtime_of db t \<noteq> None \<longrightarrow>
       (\<exists>n. map_option r_ready_sequence (runtime_of db' t) = Some (Some n) \<and>
          tb_next_ready db \<le> n \<and> n < tb_next_ready db'))
    \<and> (\<forall>t. (\<forall>c \<in> set cs. t_id c \<noteq> t) \<longrightarrow> runtime_of db' t = runtime_of db t)
    \<and> (\<forall>t. runtime_of db' t = None \<longleftrightarrow> runtime_of db t = None)"
proof (induction cs arbitrary: db)
  case (Cons c cs)
  then obtain deps where deps: "t_deps c = Some deps" by (auto split: option.splits)
  show ?case
  proof (cases "list_all (dep_done db) deps")
    case True
    have same: "releasable_row (mark_ready (t_id c) db) = releasable_row db"
      by (simp add: fun_eq_iff releasable_row_def)
    note IH = Cons.IH [of "mark_ready (t_id c) db", unfolded same next_mark_ready]
    have run: "release_loop cs (mark_ready (t_id c) db) = Inr db'"
      using Cons.prems deps True by simp
    have d: "distinct (map t_id cs)" "\<forall>x \<in> set cs. t_id x \<noteq> t_id c"
      using Cons.prems(2) by (auto simp: image_def)
    note ih = IH [OF run d(1)]
    have kept: "runtime_of db' (t_id c) = runtime_of (mark_ready (t_id c) db) (t_id c)"
      using ih d(2) by blast
    have own: "runtime_of db (t_id c) \<noteq> None \<Longrightarrow>
        map_option r_ready_sequence (runtime_of db' (t_id c)) = Some (Some (tb_next_ready db))"
      unfolding kept by (auto simp: runtime_of_mark_ready)
    have none: "runtime_of (mark_ready (t_id c) db) t = None \<longleftrightarrow> runtime_of db t = None" for t
      by (simp add: runtime_of_mark_ready)
    show ?thesis
    proof (intro conjI allI impI)
      show "tb_next_ready db \<le> tb_next_ready db'" using ih by simp
      fix t
      assume "\<exists>x \<in> set (c # cs). t_id x = t \<and> releasable_row db x" and "runtime_of db t \<noteq> None"
      then show "\<exists>n. map_option r_ready_sequence (runtime_of db' t) = Some (Some n) \<and>
          tb_next_ready db \<le> n \<and> n < tb_next_ready db'"
      proof (cases "t = t_id c")
        case True
        then show ?thesis using own ih \<open>runtime_of db t \<noteq> None\<close> by force
      next
        case False
        then have "\<exists>x \<in> set cs. t_id x = t \<and> releasable_row db x"
          using \<open>\<exists>x \<in> set (c # cs). t_id x = t \<and> releasable_row db x\<close> by auto
        moreover have "runtime_of (mark_ready (t_id c) db) t \<noteq> None"
          using none \<open>runtime_of db t \<noteq> None\<close> by simp
        ultimately obtain n where "map_option r_ready_sequence (runtime_of db' t) = Some (Some n)"
          "tb_next_ready db + 1 \<le> n" "n < tb_next_ready db'" using ih by blast
        then show ?thesis by (intro exI [of _ n]) simp
      qed
    next
      fix t assume a: "\<forall>x \<in> set (c # cs). t_id x \<noteq> t"
      then have "runtime_of db' t = runtime_of (mark_ready (t_id c) db) t" using ih by simp
      then show "runtime_of db' t = runtime_of db t" using a by (auto simp: runtime_of_mark_ready)
    next
      fix t show "runtime_of db' t = None \<longleftrightarrow> runtime_of db t = None" using ih none by simp
    qed
  next
    case False
    then have n: "\<not> releasable_row db c" and run: "release_loop cs db = Inr db'"
      using Cons.prems deps by (simp_all add: releasable_row_def)
    have "distinct (map t_id cs)" using Cons.prems by simp
    note ih = Cons.IH [OF run this]
    show ?thesis using ih n by (intro conjI) (simp, fastforce, simp, blast)
  qed
qed simp

definition ready_number :: "store \<Rightarrow> ident \<Rightarrow> int option" where
  "ready_number db t = Option.bind (runtime_of db t) r_ready_sequence"

lemma release_loop_numbers_differ:
  "release_loop cs db = Inr db' \<Longrightarrow> distinct (map t_id cs) \<Longrightarrow>
    c1 \<in> set cs \<Longrightarrow> c2 \<in> set cs \<Longrightarrow> c1 \<noteq> c2 \<Longrightarrow> releasable_row db c1 \<Longrightarrow> releasable_row db c2 \<Longrightarrow>
    runtime_of db (t_id c1) \<noteq> None \<Longrightarrow> runtime_of db (t_id c2) \<noteq> None \<Longrightarrow>
    ready_number db' (t_id c1) \<noteq> ready_number db' (t_id c2)"
proof (induction cs arbitrary: db c1 c2)
  case (Cons c cs)
  have dist: "distinct (map t_id cs)" "\<And>x. x \<in> set cs \<Longrightarrow> t_id x \<noteq> t_id c"
    using Cons.prems(2) by (auto simp: image_def)
  have same: "releasable_row (mark_ready i db) = releasable_row db" for i
    by (simp add: fun_eq_iff releasable_row_def)
  have none: "runtime_of (mark_ready i db) t = None \<longleftrightarrow> runtime_of db t = None" for i t
    by (simp add: runtime_of_mark_ready)
  have head: "ready_number db' (t_id c) \<noteq> ready_number db' (t_id x)"
    if x: "x \<in> set cs" "releasable_row db x" "runtime_of db (t_id x) \<noteq> None"
      "releasable_row db c" "runtime_of db (t_id c) \<noteq> None" for x
  proof -
    have run: "release_loop cs (mark_ready (t_id c) db) = Inr db'"
      using Cons.prems(1) x(4) by (auto simp: releasable_row_def)
    note sq = release_loop_sequences [OF run dist(1), unfolded same none next_mark_ready]
    have "runtime_of db' (t_id c) = runtime_of (mark_ready (t_id c) db) (t_id c)"
      using sq dist(2) by blast
    then have "ready_number db' (t_id c) = Some (tb_next_ready db)"
      using x(5) by (auto simp: ready_number_def runtime_of_mark_ready)
    moreover obtain n where "map_option r_ready_sequence (runtime_of db' (t_id x)) = Some (Some n)"
      "tb_next_ready db + 1 \<le> n" using sq x(1,2,3) by blast
    ultimately show ?thesis by (auto simp: ready_number_def)
  qed
  have tail: "ready_number db' (t_id c1) \<noteq> ready_number db' (t_id c2)"
    if m1: "c1 \<in> set cs" and m2: "c2 \<in> set cs"
  proof (cases "releasable_row db c")
    case True
    then have "release_loop cs (mark_ready (t_id c) db) = Inr db'"
      using Cons.prems(1) by (auto simp: releasable_row_def)
    from Cons.IH [OF this dist(1) m1 m2] Cons.prems(5-9) show ?thesis by (simp add: same none)
  next
    case False
    then have "release_loop cs db = Inr db'"
      using Cons.prems(1) by (auto simp: releasable_row_def split: option.splits if_splits)
    from Cons.IH [OF this dist(1) m1 m2] Cons.prems(5-9) show ?thesis by simp
  qed
  from Cons.prems(3-5) consider "c1 = c" "c2 \<in> set cs" | "c2 = c" "c1 \<in> set cs" | "c1 \<in> set cs" "c2 \<in> set cs"
    by auto
  then show ?case
  proof cases
    case 1 then show ?thesis using head [of c2] Cons.prems(6-9) by simp
  next
    case 2 then show ?thesis using head [of c1] Cons.prems(6-9) by (simp add: not_sym)
  next
    case 3 then show ?thesis by (rule tail)
  qed
qed simp

lemma queued_candidates:
  assumes "distinct (map t_id (tb_tasks db))"
  defines "cs \<equiv> sort_key t_created (sort_key t_id (filter (\<lambda>t. t_status t = TQueued) (tb_tasks db)))"
  shows "distinct (map t_id cs)" and "c \<in> set cs \<longleftrightarrow> task_of db (t_id c) = Some c \<and> t_status c = TQueued"
proof -
  have "distinct (map t_id (filter (\<lambda>t. t_status t = TQueued) (tb_tasks db)))"
    by (rule distinct_map_filter [OF assms(1)])
  then show "distinct (map t_id cs)" by (simp add: cs_def distinct_map)
  show "c \<in> set cs \<longleftrightarrow> task_of db (t_id c) = Some c \<and> t_status c = TQueued"
    using find_row_unique [OF assms(1), of c] rows.sel_mem [of t_id "t_id c" "tb_tasks db" c]
    by (auto simp: cs_def sel_row_def)
qed

text \<open>C5. Releasing is exact: a task becomes ready if and only if it was queued and every
  dependency is completed or integrated, and no other task changes.\<close>

theorem release_ready_exact:
  assumes run: "release_ready db = Inr db'" and ids: "distinct (map t_id (tb_tasks db))"
  shows "task_of db' t = map_option (\<lambda>r. if t_status r = TQueued \<and> releasable_row db r
      then r\<lparr>t_status := TReady\<rparr> else r) (task_of db t)"
proof (cases "task_of db t")
  case None
  then show ?thesis using release_loop_tasks [OF run [unfolded release_ready_def]] by simp
next
  case (Some r)
  have key: "t_id r = t" by (rule rows.sel_key [OF Some])
  let ?cs = "sort_key t_created (sort_key t_id (filter (\<lambda>t. t_status t = TQueued) (tb_tasks db)))"
  have "t_status r = TQueued \<and> (\<exists>c \<in> set ?cs. t_id c = t \<and> releasable_row db c) \<longleftrightarrow>
      t_status r = TQueued \<and> releasable_row db r"
    using queued_candidates(2) [OF ids] Some key by (metis option.inject)
  then show ?thesis
    using release_loop_tasks [OF run [unfolded release_ready_def], of t] unfolding Some by (simp only: option.map)
qed

text \<open>The dispatch order is well defined: tasks released together get ready sequences that are
  pairwise different, not below the counter before the release and below the counter after it.\<close>

theorem release_ready_fresh_sequences:
  assumes run: "release_ready db = Inr db'" and ids: "distinct (map t_id (tb_tasks db))"
    and c: "task_of db t = Some c" "t_status c = TQueued" "releasable_row db c" "runtime_of db t \<noteq> None"
    and c': "task_of db t' = Some c'" "t_status c' = TQueued" "releasable_row db c'" "runtime_of db t' \<noteq> None"
    and ne: "t \<noteq> t'"
  shows "\<exists>n n'. ready_number db' t = Some n \<and> ready_number db' t' = Some n' \<and> n \<noteq> n'
    \<and> {n, n'} \<subseteq> {tb_next_ready db ..< tb_next_ready db'}"
proof -
  note run' = run [unfolded release_ready_def] and cand = queued_candidates [OF ids]
  have k: "t_id c = t" "t_id c' = t'" by (rule rows.sel_key [OF c(1)], rule rows.sel_key [OF c'(1)])
  have in_cs: "c \<in> set (sort_key t_created (sort_key t_id (filter (\<lambda>t. t_status t = TQueued) (tb_tasks db))))"
    "c' \<in> set (sort_key t_created (sort_key t_id (filter (\<lambda>t. t_status t = TQueued) (tb_tasks db))))"
    using cand(2) c c' k by simp_all
  note sq = release_loop_sequences [OF run' cand(1)]
  obtain n where n: "map_option r_ready_sequence (runtime_of db' t) = Some (Some n)"
    "tb_next_ready db \<le> n" "n < tb_next_ready db'" using sq in_cs(1) c k by blast
  obtain n' where n': "map_option r_ready_sequence (runtime_of db' t') = Some (Some n')"
    "tb_next_ready db \<le> n'" "n' < tb_next_ready db'" using sq in_cs(2) c' k by blast
  have "ready_number db' t \<noteq> ready_number db' t'"
    using release_loop_numbers_differ [OF run' cand(1) in_cs] c c' k ne by auto
  then show ?thesis using n n' by (auto simp: ready_number_def)
qed

section \<open>A small run\<close>

definition dep_row :: "ident \<Rightarrow> task_status \<Rightarrow> ident list \<Rightarrow> task_row" where
  "dep_row i st deps = \<lparr>t_id = i, t_run = ''r'', t_status = st, t_deps = Some deps,
     t_max_attempts = 3, t_created = i\<rparr>"

definition dep_runtime :: "ident \<Rightarrow> task_runtime_row" where
  "dep_runtime i = \<lparr>r_task = i, r_launch = ''l'', r_work_revision = 1, r_group = i,
     r_max_active_ms = 3600000, r_ready_sequence = None, r_payload = [], r_policy = [], r_expected_sha256 = []\<rparr>"

definition dep_sample :: store where
  "dep_sample = empty_store\<lparr>
     tb_tasks := [dep_row ''a'' TCompleted [], dep_row ''b'' TQueued [''a''], dep_row ''c'' TQueued [''a''],
                  dep_row ''d'' TFailed [], dep_row ''e'' TQueued [''d''], dep_row ''f'' TQueued [''e'']],
     tb_runtime := map dep_runtime [''a'', ''b'', ''c'', ''d'', ''e'', ''f'']\<rparr>"

lemmas dep_sample_eval = dep_sample_def empty_store_def dep_row_def dep_runtime_def sel_row_def upd_row_def
  releasable_row_def dep_done_def done_status_def

lemma dep_sample_ids: "distinct (map t_id (tb_tasks dep_sample))"
  by (simp add: dep_sample_def dep_row_def)

lemma dep_sample_releases: "\<exists>db'. release_ready dep_sample = Inr db'"
proof -
  have "\<forall>c \<in> set cs. t_deps c \<noteq> None \<Longrightarrow> \<exists>db'. release_loop cs db = Inr db'" for cs db
    by (induction cs arbitrary: db) auto
  then show ?thesis by (simp add: release_ready_def dep_sample_def dep_row_def)
qed

lemma dep_sample_blocks: "\<exists>db'. block_failed_dependencies [] dep_sample = Inr db'"
  by (simp add: block_failed_dependencies_def dep_sample_def dep_row_def)


theorem release_ready_exact_witness:
  "\<exists>db'. release_ready dep_sample = Inr db' \<and> map_option t_status (task_of db' ''b'') = Some TReady
     \<and> map_option t_status (task_of db' ''e'') = Some TQueued"
proof -
  obtain db' where r: "release_ready dep_sample = Inr db'" using dep_sample_releases by blast
  have "task_of dep_sample ''b'' = Some (dep_row ''b'' TQueued [''a''])"
    "task_of dep_sample ''e'' = Some (dep_row ''e'' TQueued [''d''])"
    "releasable_row dep_sample (dep_row ''b'' TQueued [''a''])"
    "\<not> releasable_row dep_sample (dep_row ''e'' TQueued [''d''])"
    by (simp_all add: dep_sample_eval)
  with r release_ready_exact [OF r dep_sample_ids] show ?thesis by (simp add: dep_row_def)
qed

theorem release_ready_fresh_sequences_witness:
  "\<exists>db' n n'. release_ready dep_sample = Inr db' \<and> ready_number db' ''b'' = Some n
     \<and> ready_number db' ''c'' = Some n' \<and> n \<noteq> n'"
proof -
  obtain db' where r: "release_ready dep_sample = Inr db'" using dep_sample_releases by blast
  have "task_of dep_sample ''b'' = Some (dep_row ''b'' TQueued [''a''])"
    "t_status (dep_row ''b'' TQueued [''a'']) = TQueued" "releasable_row dep_sample (dep_row ''b'' TQueued [''a''])"
    "runtime_of dep_sample ''b'' \<noteq> None"
    "task_of dep_sample ''c'' = Some (dep_row ''c'' TQueued [''a''])"
    "t_status (dep_row ''c'' TQueued [''a'']) = TQueued" "releasable_row dep_sample (dep_row ''c'' TQueued [''a''])"
    "runtime_of dep_sample ''c'' \<noteq> None" "''b'' \<noteq> ''c''"
    by (simp_all add: dep_sample_eval)
  from release_ready_fresh_sequences [OF r dep_sample_ids this] r show ?thesis by blast
qed

end
