(* ===== verification/Store_Lifecycle.thy ===== *)
theory Store_Lifecycle
  imports Store_Deps
begin

text \<open>
  The life of an execution segment as the store sees it: the host events that move it
  (\<open>applyEvent\<close>, \<open>materializePendingReportQuestion\<close>, \<open>ensureQuestionStop\<close> and \<open>applyExit\<close> of
  \<open>internal/store/host_events.go\<close>), the pre-start rejection (\<open>launch_rejected.go\<close>) and the owner's
  stop requests (\<open>lifecycle.go\<close>). Each operation is one SQL transaction, a function on the tables.

  Three read-only gates come in as parameters: whether an adapter payload is a filter-target
  action, whether a question matches a typed provider binding, and which reserved new-base
  targets may be released. The theorems hold for every choice of them.
\<close>

record lifecycle_env =
  filter_target :: "string \<Rightarrow> bool"
  question_gate :: "store \<Rightarrow> host_event \<Rightarrow> store_error + unit"
  target_free :: "store \<Rightarrow> ident \<Rightarrow> bool"

text \<open>The clock and the random identifiers of one transaction; \<open>None\<close> is a failing \<open>newID\<close>.\<close>

record tx_input =
  in_command :: "ident option"
  in_deadline :: int
  in_now :: string

definition set_segrun :: "ident \<Rightarrow> (segment_runtime_row \<Rightarrow> segment_runtime_row) \<Rightarrow> store \<Rightarrow> store" where
  "set_segrun seg f db = db\<lparr>tb_segrun := upd_row s_segment seg f (tb_segrun db)\<rparr>"

section \<open>Progress, unknown and outcome events\<close>

definition progress_status :: "event_kind \<Rightarrow> segment_status option" where
  "progress_status k = (case k of EvPrepared \<Rightarrow> Some SPrepared | EvSpawned \<Rightarrow> Some SSpawned
     | EvRunning \<Rightarrow> Some SRunning | _ \<Rightarrow> None)"

definition progress_allowed :: "segment_status \<Rightarrow> segment_status \<Rightarrow> bool" where
  "progress_allowed target old \<longleftrightarrow>
    (case target of
       SPrepared \<Rightarrow> old = SLaunchRequested \<or> old = SPrepared
     | SSpawned \<Rightarrow> old = SPrepared \<or> old = SSpawned
     | SRunning \<Rightarrow> old = SSpawned \<or> old = SRunning
     | _ \<Rightarrow> False)"

definition apply_progress :: "segment_status \<Rightarrow> host_event \<Rightarrow> store \<Rightarrow> store_error + store" where
  "apply_progress target ev db =
    (case segrun_of db (ev_segment ev) of
       None \<Rightarrow> Inr db
     | Some s \<Rightarrow>
         if progress_allowed target (s_status s)
         then Inr (set_segment_row_status target (ev_segment ev)
                (set_segrun (ev_segment ev) (s_status_update (\<lambda>_. target)) db))
         else Inr db)"

definition outcome_of_kind :: "event_kind \<Rightarrow> segment_outcome" where
  "outcome_of_kind k = (case k of EvQuestion \<Rightarrow> OQuestion | EvResult \<Rightarrow> OResult
     | EvStopped \<Rightarrow> OStopped | EvFailed \<Rightarrow> OFailed | _ \<Rightarrow> ONone)"

definition apply_outcome :: "host_event \<Rightarrow> store \<Rightarrow> store_error + store" where
  "apply_outcome ev db =
    (let out = outcome_of_kind (ev_kind ev);
         db1 = set_segrun (ev_segment ev) (\<lambda>s. if s_status s \<noteq> SExited \<and> (s_outcome s = ONone \<or> s_outcome s = out)
                 then s\<lparr>s_outcome := out\<rparr> else s) db
     in Inr (if ev_kind ev = EvStopped
             then db1\<lparr>tb_stops := upd_row p_segment (ev_segment ev) (p_status_update (\<lambda>_. StopAccepted)) (tb_stops db1)\<rparr>
             else db1))"

definition apply_unknown :: "host_event \<Rightarrow> store \<Rightarrow> store_error + store" where
  "apply_unknown ev db =
    (case segrun_of db (ev_segment ev) of
       None \<Rightarrow> Inr db
     | Some s \<Rightarrow>
         if s_status s = SExited then Inr db
         else Inr (set_task_status TUnknown (ev_task ev)
                (set_attempt_status AUnknown (ev_attempt ev)
                  (set_segment_row_status SUnknown (ev_segment ev)
                    (set_segrun (ev_segment ev) (s_status_update (\<lambda>_. SUnknown)) db)))))"

section \<open>Questions and sessions\<close>

definition apply_question :: "lifecycle_env \<Rightarrow> host_event \<Rightarrow> store \<Rightarrow> store_error + store" where
  "apply_question env ev db =
    rbind (question_gate env db ev) (\<lambda>_.
      if ev_question_id ev = [] \<or> ev_question_revision ev < 1 \<or> ev_session_kind ev = [] \<or> ev_session_id ev = []
      then Inl (CodeError ''invalid_question'')
      else case segrun_of db (ev_segment ev) of
        None \<Rightarrow> Inl ErrNoRows
      | Some s \<Rightarrow>
        if s_status s = SExited then Inr db
        else if exists_row (\<lambda>q. q_id q = ev_question_id ev
               \<or> q_task q = ev_task ev \<and> q_revision q = ev_question_revision ev) (tb_questions db)
        then Inl ErrConflict
        else (let db1 = db\<lparr>tb_questions := tb_questions db @
                    [\<lparr>q_id = ev_question_id ev, q_task = ev_task ev, q_attempt = ev_attempt ev,
                      q_segment = ev_segment ev, q_revision = ev_question_revision ev,
                      q_work_revision = ev_work_revision ev, q_session_kind = ev_session_kind ev,
                      q_session_id = ev_session_id ev, q_status = QOpen\<rparr>]\<rparr>
              in if s_outcome s = ONone
                 then Inr (set_segrun (ev_segment ev) (s_outcome_update (\<lambda>_. OQuestion)) db1)
                 else Inl ErrConflict))"

text \<open>\<open>applyEvent\<close> on a question event, the only kind it is called with from inside a transaction.\<close>

definition apply_question_event :: "lifecycle_env \<Rightarrow> host_event \<Rightarrow> store \<Rightarrow> store_error + store" where
  "apply_question_event env ev db =
    (case segrun_of db (ev_segment ev) of
       None \<Rightarrow> Inl ErrNoRows
     | Some s \<Rightarrow> if s_status s = SNotStarted then Inr db else apply_question env ev db)"

definition stoppable :: "segment_status \<Rightarrow> bool" where
  "stoppable s \<longleftrightarrow> s = SPrepared \<or> s = SSpawned \<or> s = SRunning"

definition ensure_question_stop :: "tx_input \<Rightarrow> host_event \<Rightarrow> store \<Rightarrow> store_error + store" where
  "ensure_question_stop inp ev db =
    (case stop_of db (ev_segment ev) of
       Some p \<Rightarrow> if p_reason p \<noteq> ''waiting_question'' then Inl ErrConflict else Inr db
     | None \<Rightarrow>
       (case in_command inp of
          None \<Rightarrow> Inl (CodeError ''random_unavailable'')
        | Some c \<Rightarrow>
          (case segrun_of db (ev_segment ev) of
             None \<Rightarrow> Inl ErrConflict
           | Some s \<Rightarrow>
             if \<not> stoppable (s_status s) then Inl ErrConflict
             else if exists_row (\<lambda>p. p_command p = c) (tb_stops db) then Inl ConstraintFailed
             else Inr (set_task_status TStopping (ev_task ev)
                    (set_segrun (ev_segment ev) (s_status_update (\<lambda>_. SStopping))
                      (db\<lparr>tb_stops := tb_stops db @
                         [\<lparr>p_command = c, p_host = s_host s, p_segment = ev_segment ev,
                           p_reason = ''waiting_question'', p_deadline = in_deadline inp,
                           p_status = StopPending, p_created = in_now inp\<rparr>]\<rparr>))))))"

definition pending_question_report :: "store \<Rightarrow> ident \<Rightarrow> (report_event_row \<times> ident) option" where
  "pending_question_report db seg =
    (case sort_key (\<lambda>e. rp_sequence (fst e))
       (concat (map (\<lambda>e. map (\<lambda>c. (e, c_task c))
            (filter (\<lambda>c. c_id c = rp_capability e \<and> c_segment c = seg) (tb_caps db)))
          (filter (\<lambda>e. rp_kind e = EvQuestion \<and> rp_delivery e = DPendingSession) (tb_reports db)))) of
       [] \<Rightarrow> None
     | x # _ \<Rightarrow> Some x)"

definition materialize_pending_question ::
  "lifecycle_env \<Rightarrow> tx_input \<Rightarrow> ident \<Rightarrow> string \<Rightarrow> string \<Rightarrow> store \<Rightarrow> store_error + store" where
  "materialize_pending_question env inp seg kind session db =
    (case pending_question_report db seg of
       None \<Rightarrow> Inr db
     | Some (e, task) \<Rightarrow>
       (case rp_body e of
          None \<Rightarrow> Inl ErrConflict
        | Some body \<Rightarrow>
          if ev_kind body \<noteq> EvQuestion \<or> ev_segment body \<noteq> seg then Inl ErrConflict
          else
            (let ev = body\<lparr>ev_session_kind := kind, ev_session_id := session\<rparr>;
                 db1 = db\<lparr>tb_reports := upd_rows
                     (\<lambda>r. rp_event_id r = rp_event_id e \<and> rp_delivery r = DPendingSession)
                     (\<lambda>r. r\<lparr>rp_body := Some ev, rp_delivery := DPending\<rparr>) (tb_reports db)\<rparr>
             in if exists_row (\<lambda>o'. fst o' = rp_event_id e) (tb_delivery db1) then Inl ErrConflict
                else rbind (apply_question_event env ev
                       (db1\<lparr>tb_delivery := tb_delivery db1 @ [(rp_event_id e, task)]\<rparr>))
                  (ensure_question_stop inp ev))))"

definition apply_session :: "lifecycle_env \<Rightarrow> tx_input \<Rightarrow> host_event \<Rightarrow> store \<Rightarrow> store_error + store" where
  "apply_session env inp ev db =
    (if ev_session_kind ev = [] \<or> length (ev_session_kind ev) > 64
        \<or> ev_session_id ev = [] \<or> length (ev_session_id ev) > 512
     then Inl (CodeError ''invalid_session'')
     else case segrun_of db (ev_segment ev) of
       None \<Rightarrow> Inl ErrNoRows
     | Some s \<Rightarrow>
       if s_status s = SExited then Inr db
       else (case sel_row n_segment (ev_segment ev) (tb_sessions db) of
          Some n \<Rightarrow>
            if n_kind n \<noteq> ev_session_kind ev \<or> n_session n \<noteq> ev_session_id ev then Inl ErrConflict
            else materialize_pending_question env inp (ev_segment ev) (n_kind n) (n_session n) db
        | None \<Rightarrow>
            if exists_row (\<lambda>n. n_event n = ev_id ev) (tb_sessions db) then Inl ErrConflict
            else materialize_pending_question env inp (ev_segment ev) (ev_session_kind ev) (ev_session_id ev)
              (db\<lparr>tb_sessions := tb_sessions db @
                 [\<lparr>n_segment = ev_segment ev, n_attempt = ev_attempt ev, n_kind = ev_session_kind ev,
                   n_session = ev_session_id ev, n_event = ev_id ev\<rparr>]\<rparr>)))"

section \<open>Exit and rejection\<close>

definition ascii_lower :: "string \<Rightarrow> string" where
  "ascii_lower s = map (\<lambda>c. let n = (of_char c :: nat) in if 65 \<le> n \<and> n \<le> 90 then char_of (n + 32) else c) s"

definition settled_ms :: "int \<Rightarrow> int \<Rightarrow> int" where
  "settled_ms active grant = (let used = (if active \<le> 0 then grant else active) in if used > grant then grant else used)"

definition exit_statuses ::
  "lifecycle_env \<Rightarrow> segment_outcome \<Rightarrow> host_event \<Rightarrow> store \<Rightarrow> store_error + (attempt_status \<times> task_status)" where
  "exit_statuses env out ev db =
    (case out of
       OResult \<Rightarrow>
         (case runtime_of db (ev_task ev) of
            None \<Rightarrow> Inl ErrNoRows
          | Some r \<Rightarrow>
            if \<not> filter_target env (r_payload r) \<and> ev_exit_code ev \<noteq> Some 0 then Inr (AFailed, TFailed)
            else if r_policy r = ''exit_success_fixture''
              \<or> r_policy r = ''artifact'' \<and>
                (case ev_artifact ev of None \<Rightarrow> False | Some f \<Rightarrow> ascii_lower (f_sha256 f) = r_expected_sha256 r)
            then Inr (AResultReady, TCompleted)
            else Inr (AResultReady, TResultReady))
     | OQuestion \<Rightarrow> Inr (AInterrupted, TWaitingQuestion)
     | OFailed \<Rightarrow> Inr (AFailed, TFailed)
     | _ \<Rightarrow> Inr (AInterrupted, TInterrupted))"

definition resolve_resumed :: "host_event \<Rightarrow> store \<Rightarrow> store" where
  "resolve_resumed ev db = db\<lparr>tb_questions := upd_rows
     (\<lambda>q. q_task q = ev_task ev \<and> q_attempt q = ev_attempt ev \<and> q_status q = QResumeStarted)
     (q_status_update (\<lambda>_. QResolved)) (tb_questions db)\<rparr>"

definition settle_exit :: "ident \<Rightarrow> ident \<Rightarrow> int \<Rightarrow> store \<Rightarrow> store" where
  "settle_exit seg reservation used db =
    (let db1 = set_segment_row_status SExited seg (set_segrun seg (s_status_update (\<lambda>_. SExited)) db)
     in db1\<lparr>tb_budget := upd_row b_id reservation (\<lambda>b. b\<lparr>b_status := BSettled, b_used := used\<rparr>) (tb_budget db1),
            tb_stops := upd_row p_segment seg (p_status_update (\<lambda>_. StopCompleted)) (tb_stops db1)\<rparr>)"

definition apply_exit :: "lifecycle_env \<Rightarrow> host_event \<Rightarrow> store \<Rightarrow> store_error + store" where
  "apply_exit env ev db =
    (case segrun_of db (ev_segment ev) of
       None \<Rightarrow> Inl ErrNoRows
     | Some s \<Rightarrow>
       (case budget_of db (s_reservation s) of
          None \<Rightarrow> Inl DecodeFailed
        | Some b \<Rightarrow>
          if s_status s = SExited \<or> s_status s = SNotStarted then Inr db
          else
            (let db1 = settle_exit (ev_segment ev) (s_reservation s) (settled_ms (ev_active_ms ev) (b_granted b)) db
             in rbind (exit_statuses env (s_outcome s) ev db1) (\<lambda>(ast, tst).
                  let db2 = set_task_status tst (ev_task ev)
                        (resolve_resumed ev (set_attempt_status ast (ev_attempt ev) db1))
                  in if tst = TCompleted then release_ready db2
                     else if tst = TFailed
                     then rbind (execution_exhausted db2 (ev_task ev))
                       (\<lambda>exhausted. if exhausted then block_failed_dependencies [] db2 else Inr db2)
                     else Inr db2))))"

definition valid_hex :: "char \<Rightarrow> bool" where
  "valid_hex c \<longleftrightarrow> (let n = (of_char c :: nat) in
     48 \<le> n \<and> n \<le> 57 \<or> 65 \<le> n \<and> n \<le> 70 \<or> 97 \<le> n \<and> n \<le> 102)"

definition valid_digest :: "string \<Rightarrow> bool" where
  "valid_digest v \<longleftrightarrow> length v = 64 \<and> list_all valid_hex v"

abbreviation rejection_unproved :: store_error where
  "rejection_unproved \<equiv> CodeError ''launch_rejection_unproved''"

definition rejection_shape :: "host_event \<Rightarrow> bool" where
  "rejection_shape e \<longleftrightarrow>
    \<not> ev_process e \<and> ev_exit_code e = None \<and> ev_active_ms e = 0 \<and> ev_session_kind e = [] \<and> ev_session_id e = []
    \<and> ev_question_id e = [] \<and> ev_question_revision e = 0 \<and> ev_question_kind e = []
    \<and> (case ev_artifact e of
         None \<Rightarrow> False
       | Some f \<Rightarrow> f_id f = ''launch-failure'' \<and> take 1 (f_path f) = ''/'' \<and> 1 \<le> f_size f \<and> f_size f \<le> 256
           \<and> valid_digest (f_sha256 f) \<and> ev_payload_hash e = f_sha256 f)"

definition rejection_evidence :: "store \<Rightarrow> host_event \<Rightarrow> (segment_status \<times> segment_outcome) option" where
  "rejection_evidence db e =
    (case segrun_of db (ev_segment e) of
       None \<Rightarrow> None
     | Some s \<Rightarrow>
       (case (attempt_of db (s_attempt s), budget_of db (s_reservation s),
              find_row (\<lambda>c. c_segment c = ev_segment e) (tb_caps db)) of
          (Some a, Some b, Some c) \<Rightarrow>
            (case task_of db (a_task a) of
               None \<Rightarrow> None
             | Some t \<Rightarrow>
                 if t_run t = ev_run e \<and> t_id t = ev_task e \<and> s_attempt s = ev_attempt e
                    \<and> s_host s = ev_producer e \<and> s_command s = ev_command e
                    \<and> c_work_revision c = ev_work_revision e \<and> b_status b = BReserved \<and> b_used b = 0
                 then Some (s_status s, s_outcome s) else None)
        | _ \<Rightarrow> None))"

definition started_evidence :: "store \<Rightarrow> host_event \<Rightarrow> bool" where
  "started_evidence db e \<longleftrightarrow>
    exists_row (\<lambda>r. ev_segment (re_event r) = ev_segment e \<and>
      (ev_kind (re_event r) \<noteq> EvPrepared \<or> ev_process (re_event r) \<or> ev_exit_code (re_event r) \<noteq> None
       \<or> ev_artifact (re_event r) \<noteq> None \<or> ev_session_id (re_event r) \<noteq> [] \<or> ev_session_kind (re_event r) \<noteq> []))
      (tb_events db)
    \<or> exists_row (\<lambda>n. n_segment n = ev_segment e) (tb_sessions db)
    \<or> exists_row (\<lambda>r. exists_row (\<lambda>c. c_id c = rp_capability r \<and> c_segment c = ev_segment e) (tb_caps db)) (tb_reports db)
    \<or> exists_row (\<lambda>s. s_attempt s = ev_attempt e \<and> s_segment s \<noteq> ev_segment e
        \<and> s_status s \<noteq> SExited \<and> s_status s \<noteq> SNotStarted) (tb_segrun db)"

definition validate_launch_rejection :: "store \<Rightarrow> host_event \<Rightarrow> store_error + unit" where
  "validate_launch_rejection db e =
    (if \<not> rejection_shape e then Inl rejection_unproved
     else case rejection_evidence db e of
       None \<Rightarrow> Inl rejection_unproved
     | Some (st, out) \<Rightarrow>
       (let allowed =
          (if st = SStopping \<and> out = OStopped
           then count_rows (\<lambda>p. p_segment p = ev_segment e \<and> p_host p = ev_producer e \<and> p_status p = StopPending)
                  (tb_stops db) = 1
           else (st = SLaunchRequested \<or> st = SPrepared) \<and> out = ONone)
        in if \<not> allowed then Inl rejection_unproved
           else if started_evidence db e then Inl rejection_unproved else Inr ()))"

definition apply_launch_rejection :: "host_event \<Rightarrow> store \<Rightarrow> store" where
  "apply_launch_rejection e db =
    (let seg = ev_segment e;
         db1 = (case segrun_of db seg of
                  None \<Rightarrow> db
                | Some s \<Rightarrow> db\<lparr>tb_budget := upd_row b_id (s_reservation s)
                    (\<lambda>b. if b_status b = BReserved then b\<lparr>b_status := BSettled, b_used := 0\<rparr> else b) (tb_budget db)\<rparr>);
         db2 = set_segment_row_status SNotStarted seg
                 (set_segrun seg (\<lambda>s. s\<lparr>s_status := SNotStarted, s_outcome := OLaunchRejected\<rparr>) db1);
         db3 = db2\<lparr>tb_caps := upd_rows (\<lambda>c. c_segment c = seg) (c_status_update (\<lambda>_. CapRevoked)) (tb_caps db2),
                   tb_stops := upd_rows (\<lambda>p. p_segment p = seg \<and> p_host p = ev_producer e \<and> p_status p = StopPending)
                     (p_status_update (\<lambda>_. StopCompleted)) (tb_stops db2)\<rparr>
     in set_task_status TFailed (ev_task e) (set_attempt_status AFailed (ev_attempt e) (resolve_resumed e db3)))"

section \<open>The event handler\<close>

definition apply_event :: "lifecycle_env \<Rightarrow> tx_input \<Rightarrow> host_event \<Rightarrow> store \<Rightarrow> store_error + store" where
  "apply_event env inp ev db =
    (case segrun_of db (ev_segment ev) of
       None \<Rightarrow> Inl ErrNoRows
     | Some s \<Rightarrow>
       if s_status s = SNotStarted then Inr db
       else (case ev_kind ev of
          EvWorkspaceCleanup \<Rightarrow> Inr db
        | EvCandidateResource \<Rightarrow> Inr db
        | EvLaunchRejected \<Rightarrow> Inr (apply_launch_rejection ev db)
        | EvPrepared \<Rightarrow> apply_progress SPrepared ev db
        | EvSpawned \<Rightarrow> apply_progress SSpawned ev db
        | EvRunning \<Rightarrow> apply_progress SRunning ev db
        | EvSession \<Rightarrow> apply_session env inp ev db
        | EvQuestion \<Rightarrow> apply_question env ev db
        | EvResult \<Rightarrow> apply_outcome ev db
        | EvStopped \<Rightarrow> apply_outcome ev db
        | EvFailed \<Rightarrow> apply_outcome ev db
        | EvUnknown \<Rightarrow> apply_unknown ev db
        | EvExited \<Rightarrow> apply_exit env ev db
        | _ \<Rightarrow> Inl (CodeError ''invalid_event_kind'')))"

section \<open>Stop requests\<close>

record stop_dispatch =
  sd_host :: ident
  sd_command :: ident
  sd_segment :: ident
  sd_reason :: string
  sd_deadline :: int

definition no_dispatch :: stop_dispatch where
  "no_dispatch = \<lparr>sd_host = [], sd_command = [], sd_segment = [], sd_reason = [], sd_deadline = 0\<rparr>"

definition refresh_new_base_targets :: "lifecycle_env \<Rightarrow> store \<Rightarrow> store" where
  "refresh_new_base_targets env db =
    db\<lparr>tb_targets := upd_rows (\<lambda>z. \<not> z_released z \<and> target_free env db (z_task z))
        (z_released_update (\<lambda>_. True)) (tb_targets db)\<rparr>"

definition latest_active_segment :: "store \<Rightarrow> ident \<Rightarrow> segment_runtime_row option" where
  "latest_active_segment db task =
    (case rev (sort_key s_created (filter (\<lambda>s. task_of_attempt db (s_attempt s) = Some task
        \<and> active_segment (s_status s)) (tb_segrun db))) of
       [] \<Rightarrow> None | s # _ \<Rightarrow> Some s)"

definition request_stop_tx ::
  "lifecycle_env \<Rightarrow> tx_input \<Rightarrow> ident \<Rightarrow> int \<Rightarrow> string \<Rightarrow> store \<Rightarrow> store_error + (stop_dispatch \<times> store)" where
  "request_stop_tx env inp task work_revision reason db =
    rbind (initial_owner_run_fence db task) (\<lambda>_.
      case (task_of db task, runtime_of db task) of
        (Some t, Some r) \<Rightarrow>
          if r_work_revision r \<noteq> work_revision then Inl ErrConflict
          else if t_status t \<in> {TQueued, TReady, TResumeQueued}
          then rbind (block_failed_dependencies [task]
                 (retire_decision_bindings task (set_task_status TCancelled task db)))
               (\<lambda>db'. Inr (no_dispatch, refresh_new_base_targets env db'))
          else (case latest_active_segment db task of
              None \<Rightarrow> Inl ErrConflict
            | Some s \<Rightarrow>
              (case stop_of db (s_segment s) of
                 Some p \<Rightarrow> Inr (\<lparr>sd_host = s_host s, sd_command = p_command p, sd_segment = p_segment p,
                     sd_reason = p_reason p, sd_deadline = p_deadline p\<rparr>, db)
               | None \<Rightarrow>
                 (case in_command inp of
                    None \<Rightarrow> Inl (CodeError ''random_unavailable'')
                  | Some c \<Rightarrow>
                    if exists_row (\<lambda>p. p_command p = c) (tb_stops db) then Inl ConstraintFailed
                    else Inr (\<lparr>sd_host = s_host s, sd_command = c, sd_segment = s_segment s,
                        sd_reason = reason, sd_deadline = in_deadline inp\<rparr>,
                      set_task_status TStopping task
                        (set_segrun (s_segment s) (\<lambda>x. x\<lparr>s_status := SStopping, s_outcome := OStopped\<rparr>)
                          (db\<lparr>tb_stops := tb_stops db @
                             [\<lparr>p_command = c, p_host = s_host s, p_segment = s_segment s, p_reason = reason,
                               p_deadline = in_deadline inp, p_status = StopPending, p_created = in_now inp\<rparr>]\<rparr>))))))
      | _ \<Rightarrow> Inl ErrNotFound)"

definition request_stop ::
  "lifecycle_env \<Rightarrow> tx_input \<Rightarrow> ident \<Rightarrow> int \<Rightarrow> string \<Rightarrow> store \<Rightarrow> store_error + (stop_dispatch \<times> store)" where
  "request_stop env inp task work_revision reason db =
    (if task = [] \<or> work_revision < 1 \<or> reason = [] then Inl (CodeError ''invalid_stop'')
     else rbind (require_published_task db task) (\<lambda>_. request_stop_tx env inp task work_revision reason db))"

definition mark_stopping_unknown :: "store \<Rightarrow> store" where
  "mark_stopping_unknown db =
    (let sr = upd_rows (\<lambda>s. s_status s = SStopping) (s_status_update (\<lambda>_. SUnknown)) (tb_segrun db);
         lost = (\<lambda>a. exists_row (\<lambda>s. s_attempt s = a_id a \<and> s_status s = SUnknown) sr)
     in db\<lparr>tb_segrun := sr,
           tb_attempts := upd_rows lost (a_status_update (\<lambda>_. AUnknown)) (tb_attempts db),
           tb_tasks := upd_rows (\<lambda>t. exists_row (\<lambda>a. a_task a = t_id t \<and> lost a) (tb_attempts db))
             (t_status_update (\<lambda>_. TUnknown)) (tb_tasks db),
           tb_stops := upd_rows (\<lambda>p. p_status p = StopPending \<or> p_status p = StopAccepted)
             (p_status_update (\<lambda>_. StopUnknown)) (tb_stops db)\<rparr>)"

definition pending_stops :: "store \<Rightarrow> ident \<Rightarrow> stop_dispatch list" where
  "pending_stops db host = map (\<lambda>p. \<lparr>sd_host = host, sd_command = p_command p, sd_segment = p_segment p,
      sd_reason = p_reason p, sd_deadline = p_deadline p\<rparr>)
    (sort_key p_created (filter (\<lambda>p. p_host p = host \<and> p_status p = StopPending) (tb_stops db)))"

definition active_tasks :: "store \<Rightarrow> (ident \<times> int) list" where
  "active_tasks db = concat (map (\<lambda>t. map (\<lambda>r. (t_id t, r_work_revision r))
      (filter (\<lambda>r. r_task r = t_id t) (tb_runtime db)))
    (sort_key t_id (filter (\<lambda>t. exists_row (\<lambda>s. task_of_attempt db (s_attempt s) = Some (t_id t)
        \<and> active_segment (s_status s)) (tb_segrun db)) (tb_tasks db))))"

end
