(* ===== verification/Store_Invariants.thy ===== *)
theory Store_Invariants
  imports Store_Lifecycle
begin

text \<open>
  What every lifecycle operation keeps. \<open>evolves\<close> relates the tables before and after an
  operation: segment rows keep their identity and never leave a terminal status, and a
  reservation row changes only when its own segment ends, by being settled within its grant.
  The budget invariant, the decreasing charge and the absorbing terminals follow from it.
\<close>

section \<open>Operations as data\<close>

datatype store_op =
  OpEvent tx_input host_event
| OpStop tx_input ident int string
| OpHostLost

text \<open>As in \<open>commitHostEvent\<close>, a launch rejection is validated before it is applied.\<close>

definition accept_event :: "lifecycle_env \<Rightarrow> tx_input \<Rightarrow> host_event \<Rightarrow> store \<Rightarrow> store_error + store" where
  "accept_event env inp ev db =
    rbind (if ev_kind ev = EvLaunchRejected then validate_launch_rejection db ev else Inr ())
      (\<lambda>_. apply_event env inp ev db)"

fun run_op :: "lifecycle_env \<Rightarrow> store_op \<Rightarrow> store \<Rightarrow> store_error + store" where
  "run_op env (OpEvent inp ev) db = accept_event env inp ev db"
| "run_op env (OpStop inp task revision reason) db =
     rbind (request_stop env inp task revision reason db) (\<lambda>(_, db'). Inr db')"
| "run_op env OpHostLost db = Inr (mark_stopping_unknown db)"

section \<open>Evolution of segments and reservations\<close>

definition seg_keeps :: "segment_runtime_row \<Rightarrow> segment_runtime_row \<Rightarrow> bool" where
  "seg_keeps s s' \<longleftrightarrow> s_segment s' = s_segment s \<and> s_reservation s' = s_reservation s \<and> s_attempt s' = s_attempt s
    \<and> (\<not> active_segment (s_status s) \<longrightarrow> s_status s' = s_status s)"

definition settles :: "budget_row \<Rightarrow> budget_row \<Rightarrow> bool" where
  "settles b b' \<longleftrightarrow> b_id b' = b_id b \<and> b_group b' = b_group b \<and> b_segment b' = b_segment b
    \<and> b_granted b' = b_granted b \<and> b_status b' = BSettled
    \<and> (0 \<le> b_granted b \<longrightarrow> 0 \<le> b_used b' \<and> b_used b' \<le> b_granted b)"

definition evolves :: "store \<Rightarrow> store \<Rightarrow> bool" where
  "evolves db db' \<longleftrightarrow> (\<exists>h k. tb_segrun db' = map h (tb_segrun db) \<and> tb_budget db' = map k (tb_budget db)
    \<and> (\<forall>s \<in> set (tb_segrun db). seg_keeps s (h s))
    \<and> (\<forall>b \<in> set (tb_budget db). k b = b \<or> settles b (k b) \<and>
         (\<exists>s \<in> set (tb_segrun db). s_reservation s = b_id b \<and> active_segment (s_status s)
            \<and> \<not> active_segment (s_status (h s)))))"

lemma seg_keeps_trans: "seg_keeps a b \<Longrightarrow> seg_keeps b c \<Longrightarrow> seg_keeps a c"
  by (simp add: seg_keeps_def)

lemma evolves_trans:
  assumes "evolves a b" and "evolves b c"
  shows "evolves a c"
proof -
  obtain h1 k1 where 1: "tb_segrun b = map h1 (tb_segrun a)" "tb_budget b = map k1 (tb_budget a)"
    "\<forall>s \<in> set (tb_segrun a). seg_keeps s (h1 s)"
    "\<forall>x \<in> set (tb_budget a). k1 x = x \<or> settles x (k1 x) \<and> (\<exists>s \<in> set (tb_segrun a).
       s_reservation s = b_id x \<and> active_segment (s_status s) \<and> \<not> active_segment (s_status (h1 s)))"
    using assms(1) unfolding evolves_def by blast
  obtain h2 k2 where 2: "tb_segrun c = map h2 (tb_segrun b)" "tb_budget c = map k2 (tb_budget b)"
    "\<forall>s \<in> set (tb_segrun b). seg_keeps s (h2 s)"
    "\<forall>x \<in> set (tb_budget b). k2 x = x \<or> settles x (k2 x) \<and> (\<exists>s \<in> set (tb_segrun b).
       s_reservation s = b_id x \<and> active_segment (s_status s) \<and> \<not> active_segment (s_status (h2 s)))"
    using assms(2) unfolding evolves_def by blast
  have keep: "\<forall>s \<in> set (tb_segrun a). seg_keeps s (h1 s) \<and> seg_keeps (h1 s) (h2 (h1 s))"
    using 1(1,3) 2(3) by simp
  have "k2 (k1 x) = x \<or> settles x (k2 (k1 x)) \<and> (\<exists>s \<in> set (tb_segrun a).
      s_reservation s = b_id x \<and> active_segment (s_status s) \<and> \<not> active_segment (s_status (h2 (h1 s))))"
    if x: "x \<in> set (tb_budget a)" for x
  proof (cases "k2 (k1 x) = k1 x")
    case True
    show ?thesis
    proof (cases "k1 x = x")
      case False
      with 1(4) x obtain s where s: "s \<in> set (tb_segrun a)" "s_reservation s = b_id x"
        "active_segment (s_status s)" "\<not> active_segment (s_status (h1 s))" "settles x (k1 x)" by blast
      then have "\<not> active_segment (s_status (h2 (h1 s)))" using keep by (simp add: seg_keeps_def)
      with s True show ?thesis by auto
    qed (use True in simp)
  next
    case False
    with 2(2,4) 1(2) x obtain s where s: "s \<in> set (tb_segrun b)" "s_reservation s = b_id (k1 x)"
      "active_segment (s_status s)" "\<not> active_segment (s_status (h2 s))" "settles (k1 x) (k2 (k1 x))"
      by fastforce
    then obtain r where r: "r \<in> set (tb_segrun a)" "s = h1 r" using 1(1) by auto
    have id: "b_id (k1 x) = b_id x" "b_granted (k1 x) = b_granted x" "b_group (k1 x) = b_group x"
      "b_segment (k1 x) = b_segment x" using 1(4) x by (auto simp: settles_def)
    have "s_reservation r = s_reservation s" "active_segment (s_status r)"
      using keep r s(3) by (auto simp: seg_keeps_def)
    moreover have "settles x (k2 (k1 x))" using s(5) id by (simp add: settles_def)
    ultimately show ?thesis using r s id by auto
  qed
  then show ?thesis unfolding evolves_def
    by (intro exI [of _ "h2 \<circ> h1"] exI [of _ "k2 \<circ> k1"])
      (use 1 2 keep in \<open>auto intro: seg_keeps_trans\<close>)
qed

lemma evolves_same:
  "tb_segrun db' = tb_segrun db \<Longrightarrow> tb_budget db' = tb_budget db \<Longrightarrow> evolves db db'"
  unfolding evolves_def by (intro exI [of _ id]) (simp add: seg_keeps_def)

lemma evolves_refl [simp]: "evolves db db"
  by (simp add: evolves_same)

lemma evolves_segrun:
  assumes "tb_budget db' = tb_budget db" and "tb_segrun db' = upd_rows P f (tb_segrun db)"
    and "\<And>s. s \<in> set (tb_segrun db) \<Longrightarrow> P s \<Longrightarrow> seg_keeps s (f s)"
  shows "evolves db db'"
  unfolding evolves_def
  by (intro exI [of _ "\<lambda>s. if P s then f s else s"] exI [of _ id])
    (use assms in \<open>auto simp: upd_rows_def seg_keeps_def\<close>)

lemma distinct_key_eq:
  "distinct (map key rs) \<Longrightarrow> r \<in> set rs \<Longrightarrow> sel_row key k rs = Some s \<Longrightarrow> key r = k \<Longrightarrow> r = s"
  using find_row_unique [of key rs r] by (simp add: sel_row_def)

lemma evolves_set_segrun:
  assumes "distinct (map s_segment (tb_segrun db))" and "segrun_of db seg = Some s"
    and "seg_keeps s (f s)"
    and "tb_budget db' = tb_budget db" and "tb_segrun db' = upd_row s_segment seg f (tb_segrun db)"
  shows "evolves db db'"
proof (rule evolves_segrun [OF assms(4) assms(5) [unfolded upd_row_def]])
  fix r assume r: "r \<in> set (tb_segrun db)" "s_segment r = seg"
  have "r = s" by (rule distinct_key_eq [OF assms(1) r(1) assms(2) r(2)])
  then show "seg_keeps r (f r)" using assms(3) by simp
qed

lemma evolves_end:
  assumes d: "distinct (map s_segment (tb_segrun db))" and s: "segrun_of db seg = Some s"
    and a: "active_segment (s_status s)" and f: "seg_keeps s (f s)" "\<not> active_segment (s_status (f s))"
    and b: "tb_budget db' = upd_row b_id (s_reservation s) k (tb_budget db)"
    and k: "\<And>x. x \<in> set (tb_budget db) \<Longrightarrow> b_id x = s_reservation s \<Longrightarrow> k x = x \<or> settles x (k x)"
    and t: "tb_segrun db' = upd_row s_segment seg f (tb_segrun db)"
  shows "evolves db db'"
proof -
  have one: "r = s" if "r \<in> set (tb_segrun db)" "s_segment r = seg" for r
    by (rule distinct_key_eq [OF d that(1) s that(2)])
  have m: "s \<in> set (tb_segrun db)" "s_segment s = seg"
    by (rule rows.sel_mem [OF s], rule rows.sel_key [OF s])
  define h where "h = (\<lambda>r. if s_segment r = seg then f r else r)"
  define j where "j = (\<lambda>x. if b_id x = s_reservation s then k x else x)"
  have "tb_segrun db' = map h (tb_segrun db)" "tb_budget db' = map j (tb_budget db)"
    by (simp_all add: h_def j_def t b upd_row_def upd_rows_def)
  moreover have "seg_keeps r (h r)" if "r \<in> set (tb_segrun db)" for r
    using one [OF that] f(1) by (auto simp: h_def seg_keeps_def)
  moreover have "j x = x \<or> settles x (j x) \<and> (\<exists>s \<in> set (tb_segrun db). s_reservation s = b_id x
      \<and> active_segment (s_status s) \<and> \<not> active_segment (s_status (h s)))" if "x \<in> set (tb_budget db)" for x
  proof (cases "j x = x")
    case False
    then have "b_id x = s_reservation s" "settles x (j x)" using k [OF that] by (auto simp: j_def split: if_splits)
    then show ?thesis using m a f(2) by (auto simp: h_def intro!: bexI [of _ s])
  qed simp
  ultimately show ?thesis unfolding evolves_def by blast
qed

section \<open>Every operation is an evolution\<close>

lemma release_loop_frame:
  "release_loop cs db = Inr db' \<Longrightarrow> tb_segrun db' = tb_segrun db \<and> tb_budget db' = tb_budget db"
  by (induction cs arbitrary: db)
    (auto simp: mark_ready_def take_ready_sequence_def split: option.splits if_splits)

lemma release_ready_frame:
  "release_ready db = Inr db' \<Longrightarrow> tb_segrun db' = tb_segrun db \<and> tb_budget db' = tb_budget db"
  unfolding release_ready_def by (rule release_loop_frame)

lemma block_failed_frame:
  assumes "block_failed_dependencies roots db = Inr db'"
  shows "tb_segrun db' = tb_segrun db" "tb_budget db' = tb_budget db" "tb_stops db' = tb_stops db"
  using assms by (auto simp: block_failed_dependencies_def rbind_Inr_iff)

lemma resolve_resumed_frame [simp]:
  "tb_segrun (resolve_resumed ev db) = tb_segrun db" "tb_budget (resolve_resumed ev db) = tb_budget db"
  "tb_tasks (resolve_resumed ev db) = tb_tasks db"
  by (simp_all add: resolve_resumed_def)

lemma settled_ms_bounds:
  "0 \<le> g \<Longrightarrow> 0 \<le> settled_ms a g \<and> settled_ms a g \<le> g"
  by (simp add: settled_ms_def Let_def)

definition exit_settled :: "host_event \<Rightarrow> segment_runtime_row \<Rightarrow> budget_row \<Rightarrow> store \<Rightarrow> store" where
  "exit_settled ev s b = settle_exit (ev_segment ev) (s_reservation s) (settled_ms (ev_active_ms ev) (b_granted b))"

definition exit_marked ::
  "host_event \<Rightarrow> segment_runtime_row \<Rightarrow> budget_row \<Rightarrow> attempt_status \<Rightarrow> task_status \<Rightarrow> store \<Rightarrow> store" where
  "exit_marked ev s b ast tst db = set_task_status tst (ev_task ev) (resolve_resumed ev
     (set_attempt_status ast (ev_attempt ev) (exit_settled ev s b db)))"

definition exit_follows :: "task_status \<Rightarrow> store \<Rightarrow> store \<Rightarrow> bool" where
  "exit_follows tst db db' \<longleftrightarrow>
    tst = TCompleted \<and> release_ready db = Inr db'
    \<or> tst = TFailed \<and> (db' = db \<or> block_failed_dependencies [] db = Inr db')
    \<or> tst \<noteq> TCompleted \<and> tst \<noteq> TFailed \<and> db' = db"

lemma apply_exit_cases:
  assumes "apply_exit env ev db = Inr db'" and "segrun_of db (ev_segment ev) = Some s"
    and "active_segment (s_status s)"
  obtains b ast tst where "budget_of db (s_reservation s) = Some b"
    "exit_statuses env (s_outcome s) ev (exit_settled ev s b db) = Inr (ast, tst)"
    "exit_follows tst (exit_marked ev s b ast tst db) db'"
  using assms
  by (auto simp: apply_exit_def exit_follows_def exit_marked_def exit_settled_def rbind_Inr_iff active_segment_iff
      Let_def split: option.splits if_splits prod.splits)

lemma exit_settled_tables:
  "tb_segrun (exit_settled ev s b db) = upd_row s_segment (ev_segment ev) (s_status_update (\<lambda>_. SExited)) (tb_segrun db)"
  "tb_budget (exit_settled ev s b db) = upd_row b_id (s_reservation s)
     (\<lambda>x. x\<lparr>b_status := BSettled, b_used := settled_ms (ev_active_ms ev) (b_granted b)\<rparr>) (tb_budget db)"
  "tb_tasks (exit_settled ev s b db) = tb_tasks db" "tb_runtime (exit_settled ev s b db) = tb_runtime db"
  by (simp_all add: exit_settled_def settle_exit_def set_segrun_def Let_def)

lemma exit_follows_frame:
  "exit_follows tst db db' \<Longrightarrow> tb_segrun db' = tb_segrun db \<and> tb_budget db' = tb_budget db"
  unfolding exit_follows_def using release_ready_frame block_failed_frame by blast

lemma apply_exit_tables:
  assumes "apply_exit env ev db = Inr db'" and "segrun_of db (ev_segment ev) = Some s"
    and "active_segment (s_status s)"
  obtains b where "budget_of db (s_reservation s) = Some b"
    "tb_segrun db' = upd_row s_segment (ev_segment ev) (s_status_update (\<lambda>_. SExited)) (tb_segrun db)"
    "tb_budget db' = upd_row b_id (s_reservation s)
       (\<lambda>x. x\<lparr>b_status := BSettled, b_used := settled_ms (ev_active_ms ev) (b_granted b)\<rparr>) (tb_budget db)"
proof -
  obtain b ast tst where b: "budget_of db (s_reservation s) = Some b"
    and f: "exit_follows tst (exit_marked ev s b ast tst db) db'"
    using apply_exit_cases [OF assms] by blast
  show thesis
    by (rule that [OF b]) (simp_all add: exit_follows_frame [OF f] exit_marked_def exit_settled_tables)
qed

definition budget_inv :: "store \<Rightarrow> bool" where
  "budget_inv db \<longleftrightarrow> distinct (map s_segment (tb_segrun db)) \<and> distinct (map s_reservation (tb_segrun db))
    \<and> distinct (map b_id (tb_budget db))
    \<and> (\<forall>b \<in> set (tb_budget db). 0 \<le> b_used b \<and> b_used b \<le> b_granted b
        \<and> (exists_row (\<lambda>s. s_reservation s = b_id b \<and> active_segment (s_status s)) (tb_segrun db)
           \<longrightarrow> b_status b = BReserved))"

lemma budget_inv_distinct:
  "budget_inv db \<Longrightarrow> distinct (map s_segment (tb_segrun db))"
  "budget_inv db \<Longrightarrow> distinct (map b_id (tb_budget db))"
  by (simp_all add: budget_inv_def)

lemma evolves_exit:
  assumes inv: "budget_inv db" and e: "apply_exit env ev db = Inr db'"
  shows "evolves db db'"
proof (cases "segrun_of db (ev_segment ev)")
  case None
  with e show ?thesis by (simp add: apply_exit_def)
next
  case (Some s)
  show ?thesis
  proof (cases "active_segment (s_status s)")
    case False
    with e Some have "db' = db" by (auto simp: apply_exit_def active_segment_iff split: option.splits)
    then show ?thesis by simp
  next
    case True
    obtain b where b: "budget_of db (s_reservation s) = Some b"
      and t: "tb_segrun db' = upd_row s_segment (ev_segment ev) (s_status_update (\<lambda>_. SExited)) (tb_segrun db)"
      and w: "tb_budget db' = upd_row b_id (s_reservation s)
        (\<lambda>x. x\<lparr>b_status := BSettled, b_used := settled_ms (ev_active_ms ev) (b_granted b)\<rparr>) (tb_budget db)"
      using apply_exit_tables [OF e Some True] by blast
    show ?thesis
    proof (rule evolves_end [OF budget_inv_distinct(1) [OF inv] Some True _ _ w _ t])
      show "seg_keeps s (s\<lparr>s_status := SExited\<rparr>)" using True by (simp add: seg_keeps_def)
      show "\<not> active_segment (s_status (s\<lparr>s_status := SExited\<rparr>))" by simp
      fix x assume x: "x \<in> set (tb_budget db)" "b_id x = s_reservation s"
      have "x = b" by (rule distinct_key_eq [OF budget_inv_distinct(2) [OF inv] x(1) b x(2)])
      then show "x\<lparr>b_status := BSettled, b_used := settled_ms (ev_active_ms ev) (b_granted b)\<rparr> = x
          \<or> settles x (x\<lparr>b_status := BSettled, b_used := settled_ms (ev_active_ms ev) (b_granted b)\<rparr>)"
        by (simp add: settles_def settled_ms_bounds)
    qed
  qed
qed

lemma evolves_rejection:
  assumes inv: "budget_inv db" and s: "segrun_of db (ev_segment ev) = Some s" and a: "active_segment (s_status s)"
  shows "evolves db (apply_launch_rejection ev db)"
proof (rule evolves_end [OF budget_inv_distinct(1) [OF inv] s a])
  show "seg_keeps s (s\<lparr>s_status := SNotStarted, s_outcome := OLaunchRejected\<rparr>)"
    using a by (simp add: seg_keeps_def)
  show "\<not> active_segment (s_status (s\<lparr>s_status := SNotStarted, s_outcome := OLaunchRejected\<rparr>))" by simp
  show "tb_budget (apply_launch_rejection ev db) = upd_row b_id (s_reservation s)
      (\<lambda>b. if b_status b = BReserved then b\<lparr>b_status := BSettled, b_used := 0\<rparr> else b) (tb_budget db)"
    by (simp add: apply_launch_rejection_def s set_segrun_def Let_def)
  show "tb_segrun (apply_launch_rejection ev db) = upd_row s_segment (ev_segment ev)
      (\<lambda>s. s\<lparr>s_status := SNotStarted, s_outcome := OLaunchRejected\<rparr>) (tb_segrun db)"
    by (simp add: apply_launch_rejection_def s set_segrun_def Let_def)
  show "(if b_status x = BReserved then x\<lparr>b_status := BSettled, b_used := 0\<rparr> else x) = x
      \<or> settles x (if b_status x = BReserved then x\<lparr>b_status := BSettled, b_used := 0\<rparr> else x)" for x
    by (simp add: settles_def)
qed

lemma validated_rejection_active:
  assumes "validate_launch_rejection db ev = Inr ()"
  obtains s where "segrun_of db (ev_segment ev) = Some s" "active_segment (s_status s)"
proof -
  obtain st out where e: "rejection_evidence db ev = Some (st, out)"
    and "st = SStopping \<or> st = SLaunchRequested \<or> st = SPrepared"
    using assms by (auto simp: validate_launch_rejection_def Let_def split: if_splits option.splits)
  then show thesis
    using that by (auto simp: rejection_evidence_def split: option.splits if_splits)
qed

lemma evolves_set_segrun_status:
  assumes inv: "budget_inv db" and s: "segrun_of db seg = Some s"
    and f: "\<And>r. s_segment (f r) = s_segment r \<and> s_reservation (f r) = s_reservation r \<and> s_attempt (f r) = s_attempt r"
    and st: "\<not> active_segment (s_status s) \<Longrightarrow> s_status (f s) = s_status s"
    and db': "tb_budget db' = tb_budget db" "tb_segrun db' = upd_row s_segment seg f (tb_segrun db)"
  shows "evolves db db'"
  by (rule evolves_set_segrun [OF budget_inv_distinct(1) [OF inv] s _ db']) (use f st in \<open>simp add: seg_keeps_def\<close>)

lemma evolves_progress:
  assumes "budget_inv db" and "apply_progress target ev db = Inr db'"
  shows "evolves db db'"
proof (cases "segrun_of db (ev_segment ev)")
  case None
  with assms show ?thesis by (simp add: apply_progress_def)
next
  case (Some s)
  show ?thesis
  proof (cases "progress_allowed target (s_status s)")
    case True
    then have "active_segment (s_status s)"
      by (auto simp: progress_allowed_def active_segment_iff split: segment_status.splits)
    then show ?thesis
      using assms True Some
      by (intro evolves_set_segrun_status [OF assms(1) Some, of "s_status_update (\<lambda>_. target)"])
        (auto simp: apply_progress_def set_segrun_def)
  qed (use assms Some in \<open>simp add: apply_progress_def\<close>)
qed

lemma evolves_unknown:
  assumes "budget_inv db" and "apply_unknown ev db = Inr db'"
    and "segrun_of db (ev_segment ev) = Some s" and "s_status s \<noteq> SNotStarted"
  shows "evolves db db'"
proof (cases "s_status s = SExited")
  case False
  then show ?thesis
    using assms
    by (intro evolves_set_segrun_status [OF assms(1,3), of "s_status_update (\<lambda>_. SUnknown)"])
      (auto simp: apply_unknown_def set_segrun_def active_segment_iff)
qed (use assms in \<open>simp add: apply_unknown_def\<close>)

lemma evolves_outcome:
  assumes "budget_inv db" and "apply_outcome ev db = Inr db'"
    and "segrun_of db (ev_segment ev) = Some s"
  shows "evolves db db'"
  using assms(2)
  by (intro evolves_set_segrun_status [OF assms(1,3),
        of "\<lambda>s. if s_status s \<noteq> SExited \<and> (s_outcome s = ONone \<or> s_outcome s = outcome_of_kind (ev_kind ev))
              then s\<lparr>s_outcome := outcome_of_kind (ev_kind ev)\<rparr> else s"])
    (auto simp: apply_outcome_def set_segrun_def Let_def split: if_splits)

lemma evolves_question:
  assumes "budget_inv db" and "apply_question env ev db = Inr db'"
  shows "evolves db db'"
proof (cases "segrun_of db (ev_segment ev)")
  case None
  with assms show ?thesis by (auto simp: apply_question_def rbind_Inr_iff split: if_splits)
next
  case (Some s)
  show ?thesis
  proof (cases "s_status s = SExited")
    case True
    with assms Some have "db' = db" by (auto simp: apply_question_def rbind_Inr_iff split: if_splits)
    then show ?thesis by simp
  next
    case False
    then show ?thesis
      using assms(2) Some
      by (intro evolves_set_segrun_status [OF assms(1) Some, of "s_outcome_update (\<lambda>_. OQuestion)"])
        (auto simp: apply_question_def set_segrun_def Let_def rbind_Inr_iff split: if_splits)
  qed
qed

lemma evolves_question_event:
  assumes "budget_inv db" and "apply_question_event env ev db = Inr db'"
  shows "evolves db db'"
  using assms evolves_question by (auto simp: apply_question_event_def split: option.splits if_splits)

lemma evolves_question_stop:
  assumes "budget_inv db" and "ensure_question_stop inp ev db = Inr db'"
  shows "evolves db db'"
proof (cases "stop_of db (ev_segment ev)")
  case None
  then obtain s where s: "segrun_of db (ev_segment ev) = Some s" "stoppable (s_status s)"
    using assms(2) by (auto simp: ensure_question_stop_def split: option.splits if_splits)
  then have "active_segment (s_status s)" by (auto simp: stoppable_def)
  with assms(2) None s show ?thesis
    by (intro evolves_set_segrun_status [OF assms(1) s(1), of "s_status_update (\<lambda>_. SStopping)"])
      (auto simp: ensure_question_stop_def set_segrun_def split: option.splits if_splits)
qed (use assms in \<open>auto simp: ensure_question_stop_def split: if_splits\<close>)

section \<open>What evolution keeps\<close>

lemma evolves_budget_inv:
  assumes inv: "budget_inv db" and ev: "evolves db db'"
  shows "budget_inv db'"
proof -
  obtain h k where h: "tb_segrun db' = map h (tb_segrun db)" "\<forall>s \<in> set (tb_segrun db). seg_keeps s (h s)"
    and k: "tb_budget db' = map k (tb_budget db)"
      "\<forall>b \<in> set (tb_budget db). k b = b \<or> settles b (k b) \<and> (\<exists>s \<in> set (tb_segrun db).
        s_reservation s = b_id b \<and> active_segment (s_status s) \<and> \<not> active_segment (s_status (h s)))"
    using ev unfolding evolves_def by blast
  have keys: "map s_segment (tb_segrun db') = map s_segment (tb_segrun db)"
    "map s_reservation (tb_segrun db') = map s_reservation (tb_segrun db)"
    "map b_id (tb_budget db') = map b_id (tb_budget db)"
    using h k by (auto simp: seg_keeps_def settles_def)
  have "0 \<le> b_used (k b) \<and> b_used (k b) \<le> b_granted (k b) \<and>
      (exists_row (\<lambda>s. s_reservation s = b_id (k b) \<and> active_segment (s_status s)) (tb_segrun db')
        \<longrightarrow> b_status (k b) = BReserved)" if b: "b \<in> set (tb_budget db)" for b
  proof (cases "k b = b")
    case True
    have "exists_row (\<lambda>s. s_reservation s = b_id b \<and> active_segment (s_status s)) (tb_segrun db)"
      if after: "exists_row (\<lambda>s. s_reservation s = b_id b \<and> active_segment (s_status s)) (tb_segrun db')"
    proof -
      obtain s where "s \<in> set (tb_segrun db)" "s_reservation (h s) = b_id b" "active_segment (s_status (h s))"
        using h(1) after by (auto simp: exists_row_iff)
      moreover from this have "s_reservation s = b_id b" "active_segment (s_status s)"
        using h(2) by (auto simp: seg_keeps_def)
      ultimately show ?thesis by (auto simp: exists_row_iff)
    qed
    then show ?thesis using True b inv by (simp add: budget_inv_def)
  next
    case False
    then obtain s where s: "s \<in> set (tb_segrun db)" "s_reservation s = b_id b"
      "\<not> active_segment (s_status (h s))" and st: "settles b (k b)" using k(2) b by blast
    have inj: "inj_on s_reservation (set (tb_segrun db))" using inv by (simp add: budget_inv_def distinct_map)
    have "r = s" if "r \<in> set (tb_segrun db)" "s_reservation r = b_id b" for r
      by (rule inj_onD [OF inj _ that(1) s(1)]) (simp add: that(2) s(2))
    then have "\<not> exists_row (\<lambda>s. s_reservation s = b_id b \<and> active_segment (s_status s)) (tb_segrun db')"
      using h s(3) by (auto simp: exists_row_iff seg_keeps_def)
    then show ?thesis using st b inv by (auto simp: settles_def budget_inv_def)
  qed
  then have rows: "\<forall>b \<in> set (tb_budget db'). 0 \<le> b_used b \<and> b_used b \<le> b_granted b \<and>
      (exists_row (\<lambda>s. s_reservation s = b_id b \<and> active_segment (s_status s)) (tb_segrun db')
        \<longrightarrow> b_status b = BReserved)" by (simp add: k(1))
  show ?thesis unfolding budget_inv_def keys using inv rows by (simp add: budget_inv_def)
qed

lemma evolves_charge:
  assumes inv: "budget_inv db" and ev: "evolves db db'"
  shows "charged_group_active_ms db' grp \<le> charged_group_active_ms db grp"
proof -
  obtain h k where k: "tb_segrun db' = map h (tb_segrun db)" "tb_budget db' = map k (tb_budget db)"
      "\<forall>s \<in> set (tb_segrun db). seg_keeps s (h s)"
      "\<forall>b \<in> set (tb_budget db). k b = b \<or> settles b (k b) \<and> (\<exists>s \<in> set (tb_segrun db).
        s_reservation s = b_id b \<and> active_segment (s_status s) \<and> \<not> active_segment (s_status (h s)))"
    using ev unfolding evolves_def by blast
  have pt: "b_group (k b) = b_group b \<and> budget_charge (k b) \<le> budget_charge b"
    if b: "b \<in> set (tb_budget db)" for b
  proof (cases "k b = b")
    case False
    then obtain s where "s \<in> set (tb_segrun db)" "s_reservation s = b_id b" "active_segment (s_status s)"
      and st: "settles b (k b)" using k(4) b by blast
    then have "b_status b = BReserved \<and> 0 \<le> b_granted b"
      using inv b by (fastforce simp: budget_inv_def exists_row_iff)
    with st show ?thesis by (simp add: settles_def budget_charge_def)
  qed simp
  have "\<forall>b \<in> set bs. b_group (k b) = b_group b \<and> budget_charge (k b) \<le> budget_charge b \<Longrightarrow>
      sum_rows (\<lambda>b. b_group b = grp) budget_charge (map k bs) \<le> sum_rows (\<lambda>b. b_group b = grp) budget_charge bs" for bs
    by (induction bs) (auto simp: add_mono)
  then show ?thesis using k(2) pt by (simp add: charged_group_active_ms_def)
qed

lemma evolves_terminal:
  assumes "evolves db db'" and "segrun_of db seg = Some s" and "\<not> active_segment (s_status s)"
  shows "\<exists>s'. segrun_of db' seg = Some s' \<and> s_status s' = s_status s"
proof -
  obtain h where h: "tb_segrun db' = map h (tb_segrun db)" "\<forall>s \<in> set (tb_segrun db). seg_keeps s (h s)"
    using assms(1) unfolding evolves_def by blast
  have "\<forall>s \<in> set rs. seg_keeps s (h s) \<Longrightarrow> sel_row s_segment seg (map h rs) = map_option h (sel_row s_segment seg rs)" for rs
    by (induction rs) (auto simp: sel_row_def seg_keeps_def)
  with h assms(2) have "segrun_of db' seg = Some (h s)" by simp
  moreover have "s \<in> set (tb_segrun db)" by (rule rows.sel_mem [OF assms(2)])
  ultimately show ?thesis using h(2) assms(3) by (simp add: seg_keeps_def)
qed

lemma evolves_materialize:
  assumes inv: "budget_inv db" and run: "materialize_pending_question env inp seg kind session db = Inr db'"
  shows "evolves db db'"
proof (cases "pending_question_report db seg")
  case None
  with run show ?thesis by (simp add: materialize_pending_question_def)
next
  case (Some p)
  obtain e task where p: "p = (e, task)" by (cases p)
  obtain ev db1 db2 where db1: "tb_segrun db1 = tb_segrun db" "tb_budget db1 = tb_budget db"
    and q: "apply_question_event env ev db1 = Inr db2" and st: "ensure_question_stop inp ev db2 = Inr db'"
    using run
    by (auto simp: materialize_pending_question_def Some p Let_def rbind_Inr_iff split: option.splits if_splits
        intro: that [rotated 2])
  have e1: "evolves db db1" by (rule evolves_same [OF db1])
  have e2: "evolves db1 db2" by (rule evolves_question_event [OF evolves_budget_inv [OF inv e1] q])
  have e3: "evolves db2 db'"
    by (rule evolves_question_stop [OF evolves_budget_inv [OF evolves_budget_inv [OF inv e1] e2] st])
  show ?thesis by (rule evolves_trans [OF evolves_trans [OF e1 e2] e3])
qed

lemma evolves_session:
  assumes inv: "budget_inv db" and run: "apply_session env inp ev db = Inr db'"
  shows "evolves db db'"
proof -
  obtain s where s: "segrun_of db (ev_segment ev) = Some s"
    using run by (auto simp: apply_session_def split: if_splits option.splits)
  show ?thesis
  proof (cases "s_status s = SExited")
    case True
    with run s have "db' = db" by (auto simp: apply_session_def split: if_splits)
    then show ?thesis by simp
  next
    case False
    then obtain db1 kind session where db1: "tb_segrun db1 = tb_segrun db" "tb_budget db1 = tb_budget db"
      and m: "materialize_pending_question env inp (ev_segment ev) kind session db1 = Inr db'"
      using run s by (auto simp: apply_session_def split: if_splits option.splits intro: that [rotated 2])
    have e1: "evolves db db1" by (rule evolves_same [OF db1])
    show ?thesis
      by (rule evolves_trans [OF e1 evolves_materialize [OF evolves_budget_inv [OF inv e1] m]])
  qed
qed

lemma evolves_event:
  assumes inv: "budget_inv db" and run: "accept_event env inp ev db = Inr db'"
  shows "evolves db db'"
proof -
  have ap: "apply_event env inp ev db = Inr db'" using run by (auto simp: accept_event_def rbind_Inr_iff)
  then obtain s where s: "segrun_of db (ev_segment ev) = Some s"
    by (auto simp: apply_event_def split: option.splits)
  show ?thesis
  proof (cases "s_status s = SNotStarted")
    case True
    with ap s have "db' = db" by (simp add: apply_event_def)
    then show ?thesis by simp
  next
    case False
    note ap' = ap [unfolded apply_event_def, simplified s False option.case if_False]
    show ?thesis
    proof (cases "ev_kind ev")
      case EvLaunchRejected
      with run have "validate_launch_rejection db ev = Inr ()"
        by (auto simp: accept_event_def rbind_Inr_iff)
      then obtain r where r: "segrun_of db (ev_segment ev) = Some r" "active_segment (s_status r)"
        by (rule validated_rejection_active)
      show ?thesis using ap' EvLaunchRejected evolves_rejection [OF inv r] by simp
    qed (use ap' in \<open>auto intro: evolves_progress [OF inv] evolves_session [OF inv] evolves_question [OF inv]
        evolves_outcome [OF inv _ s] evolves_unknown [OF inv _ s False] evolves_exit [OF inv]\<close>)
  qed
qed

lemma latest_active_segment_row:
  "latest_active_segment db task = Some s \<Longrightarrow> s \<in> set (tb_segrun db) \<and> active_segment (s_status s)
    \<and> task_of_attempt db (s_attempt s) = Some task"
proof -
  assume l: "latest_active_segment db task = Some s"
  let ?l = "rev (sort_key s_created (filter (\<lambda>s. task_of_attempt db (s_attempt s) = Some task
        \<and> active_segment (s_status s)) (tb_segrun db)))"
  obtain xs where "?l = s # xs" using l unfolding latest_active_segment_def by (cases ?l) simp_all
  then have "s \<in> set ?l" by (metis list.set_intros(1))
  then show ?thesis by simp
qed

lemma evolves_stop:
  assumes inv: "budget_inv db" and run: "request_stop env inp task revision reason db = Inr (d, db')"
  shows "evolves db db'"
proof -
  have tx: "request_stop_tx env inp task revision reason db = Inr (d, db')"
    using run by (auto simp: request_stop_def rbind_Inr_iff split: if_splits)
  obtain t r where t: "task_of db task = Some t" and r: "runtime_of db task = Some r"
    using tx by (auto simp: request_stop_tx_def rbind_Inr_iff split: option.splits)
  show ?thesis
  proof (cases "t_status t \<in> {TQueued, TReady, TResumeQueued}")
    case True
    then obtain db1 where "block_failed_dependencies [task]
        (retire_decision_bindings task (set_task_status TCancelled task db)) = Inr db1"
      "db' = refresh_new_base_targets env db1"
      using tx t r by (auto simp: request_stop_tx_def rbind_Inr_iff split: if_splits)
    then show ?thesis
      by (intro evolves_same)
        (auto dest: block_failed_frame simp: refresh_new_base_targets_def retire_decision_bindings_def)
  next
    case False
    then obtain s where l: "latest_active_segment db task = Some s"
      using tx t r by (auto simp: request_stop_tx_def rbind_Inr_iff split: if_splits option.splits)
    note s = latest_active_segment_row [OF l]
    then have sel: "segrun_of db (s_segment s) = Some s"
      using find_row_unique [OF budget_inv_distinct(1) [OF inv]] by (simp add: sel_row_def)
    show ?thesis
    proof (cases "stop_of db (s_segment s)")
      case None
      then have "tb_segrun db' = upd_row s_segment (s_segment s)
          (\<lambda>x. x\<lparr>s_status := SStopping, s_outcome := OStopped\<rparr>) (tb_segrun db)" "tb_budget db' = tb_budget db"
        using tx t r l False
        by (auto simp: request_stop_tx_def rbind_Inr_iff set_segrun_def split: if_splits option.splits)
      then show ?thesis
        using s by (intro evolves_set_segrun_status [OF inv sel,
              of "\<lambda>x. x\<lparr>s_status := SStopping, s_outcome := OStopped\<rparr>"]) auto
    next
      case (Some p)
      then have "db' = db"
        using tx t r l False by (auto simp: request_stop_tx_def rbind_Inr_iff split: if_splits option.splits)
      then show ?thesis by simp
    qed
  qed
qed

lemma evolves_lost: "evolves db (mark_stopping_unknown db)"
  by (rule evolves_segrun [of _ _ "\<lambda>s. s_status s = SStopping" "s_status_update (\<lambda>_. SUnknown)"])
    (auto simp: mark_stopping_unknown_def Let_def seg_keeps_def)

lemma evolves_run_op:
  assumes "budget_inv db" and "run_op env op db = Inr db'"
  shows "evolves db db'"
  using assms by (cases op) (auto simp: rbind_Inr_iff evolves_event evolves_stop evolves_lost)

section \<open>Runs of operations\<close>

text \<open>The charge of a group as a bounded ledger: no lifecycle operation raises it.\<close>

interpretation charges: bounded_ledger "\<lambda>db. charged_group_active_ms db grp" cap
    "\<lambda>op db. budget_inv db" "run_op env" for grp cap env
proof
  fix op and db db' :: store
  assume "budget_inv db" "charged_group_active_ms db grp \<le> cap" "run_op env op db = Inr db'"
  then show "charged_group_active_ms db' grp \<le> cap"
    using evolves_charge [of db db' grp] evolves_run_op by fastforce
next
  fix op op' and db db' :: store
  assume "run_op env op db = Inr db'" "budget_inv db"
  then show "budget_inv db'" using evolves_budget_inv evolves_run_op by blast
qed

lemma run_steps_evolves:
  "run_steps (run_op env) ops db = Inr db' \<Longrightarrow> budget_inv db \<Longrightarrow> evolves db db' \<and> budget_inv db'"
proof (induction ops arbitrary: db)
  case (Cons op ops)
  then obtain db1 where "run_op env op db = Inr db1" "run_steps (run_op env) ops db1 = Inr db'"
    by (auto simp: rbind_Inr_iff)
  with Cons show ?case using evolves_run_op evolves_budget_inv evolves_trans by blast
qed simp

text \<open>C6. Whatever host events, stop requests and host losses happen, in any order, the active time
  charged to a budget group never grows: charges are made only when a segment is dispatched, and
  ending a segment can only return part of its grant. The budget invariant survives as well.\<close>

theorem lifecycle_charge_bounded:
  assumes "run_steps (run_op env) ops db = Inr db'" and "budget_inv db"
  shows "charged_group_active_ms db' grp \<le> charged_group_active_ms db grp \<and> budget_inv db'"
proof -
  have "\<forall>op \<in> set ops. budget_inv db" using assms(2) by simp
  from charges.batch_within [OF assms(1) this order.refl] run_steps_evolves [OF assms]
  show ?thesis by blast
qed

text \<open>C7. A terminal segment stays terminal: once a segment has exited or is known never to have
  started, no sequence of host events, stop requests and host losses changes its status.\<close>

theorem lifecycle_terminal_absorbing:
  assumes "run_steps (run_op env) ops db = Inr db'" and "budget_inv db"
    and "segrun_of db seg = Some s" and "s_status s = SExited \<or> s_status s = SNotStarted"
  shows "\<exists>s'. segrun_of db' seg = Some s' \<and> s_status s' = s_status s"
proof -
  have "\<not> active_segment (s_status s)" using assms(4) by auto
  then show ?thesis using evolves_terminal assms(3) run_steps_evolves [OF assms(1,2)] by blast
qed

text \<open>C8. An exit settles the reservation of its segment exactly once: the reported active time if
  it is positive and within the grant, the whole grant otherwise; the segment is exited, and a
  second exit event of the segment changes nothing.\<close>

theorem apply_exit_settles_once:
  assumes run: "apply_exit env ev db = Inr db'" and s: "segrun_of db (ev_segment ev) = Some s"
    and a: "active_segment (s_status s)" and b: "budget_of db (s_reservation s) = Some b"
    and again: "ev_segment ev' = ev_segment ev"
  shows "budget_of db' (s_reservation s) = Some (b\<lparr>b_status := BSettled,
        b_used := (if 0 < ev_active_ms ev \<and> ev_active_ms ev \<le> b_granted b then ev_active_ms ev else b_granted b)\<rparr>)
    \<and> map_option s_status (segrun_of db' (ev_segment ev)) = Some SExited
    \<and> apply_exit env ev' db' = Inr db'"
proof -
  obtain b' where b': "budget_of db (s_reservation s) = Some b'"
    and t: "tb_segrun db' = upd_row s_segment (ev_segment ev) (s_status_update (\<lambda>_. SExited)) (tb_segrun db)"
    and w: "tb_budget db' = upd_row b_id (s_reservation s)
        (\<lambda>x. x\<lparr>b_status := BSettled, b_used := settled_ms (ev_active_ms ev) (b_granted b')\<rparr>) (tb_budget db)"
    using apply_exit_tables [OF run s a] by blast
  have used: "settled_ms (ev_active_ms ev) (b_granted b) =
      (if 0 < ev_active_ms ev \<and> ev_active_ms ev \<le> b_granted b then ev_active_ms ev else b_granted b)"
    by (simp add: settled_ms_def Let_def)
  have bud: "budget_of db' (s_reservation s) = Some (b\<lparr>b_status := BSettled,
      b_used := settled_ms (ev_active_ms ev) (b_granted b)\<rparr>)"
    using b b' by (simp add: w rows.sel_upd_same)
  have seg: "segrun_of db' (ev_segment ev) = Some (s\<lparr>s_status := SExited\<rparr>)"
    using s by (simp add: t rows.sel_upd_same)
  then have "apply_exit env ev' db' = Inr db'" using bud again by (simp add: apply_exit_def)
  with bud seg used show ?thesis by simp
qed

definition exit_completes :: "lifecycle_env \<Rightarrow> segment_outcome \<Rightarrow> host_event \<Rightarrow> task_runtime_row \<Rightarrow> bool" where
  "exit_completes env out ev r \<longleftrightarrow> out = OResult \<and> (filter_target env (r_payload r) \<or> ev_exit_code ev = Some 0)
    \<and> (r_policy r = ''exit_success_fixture''
       \<or> r_policy r = ''artifact'' \<and> (\<exists>f. ev_artifact ev = Some f \<and> ascii_lower (f_sha256 f) = r_expected_sha256 r))"

lemma exit_statuses_completed:
  assumes "exit_statuses env out ev db = Inr (ast, tst)" and "runtime_of db (ev_task ev) = Some r"
  shows "tst = TCompleted \<longleftrightarrow> exit_completes env out ev r"
proof -
  define accepted where "accepted \<longleftrightarrow> r_policy r = ''exit_success_fixture''
    \<or> r_policy r = ''artifact'' \<and> (case ev_artifact ev of None \<Rightarrow> False | Some f \<Rightarrow> ascii_lower (f_sha256 f) = r_expected_sha256 r)"
  have acc: "exit_completes env out ev r \<longleftrightarrow> out = OResult \<and> (filter_target env (r_payload r) \<or> ev_exit_code ev = Some 0) \<and> accepted"
    unfolding exit_completes_def accepted_def by (simp split: option.split)
  show ?thesis
    using assms(1) unfolding acc exit_statuses_def assms(2) option.case accepted_def [symmetric]
    by (cases out) (auto split: if_splits)
qed

lemma release_ready_task:
  assumes "release_ready db = Inr db'" and "task_of db t = Some r" and "t_status r \<noteq> TQueued"
  shows "task_of db' t = Some r"
  using release_loop_tasks [OF assms(1) [unfolded release_ready_def], of t] assms(2,3) by simp

lemma block_failed_task:
  assumes "block_failed_dependencies roots db = Inr db'" and "task_of db t = Some r"
    and "\<not> waiting_status (t_status r)"
  shows "task_of db' t = Some r"
  using assms by (auto simp: block_failed_dependencies_def rbind_Inr_iff task_of_fold_block)

text \<open>C9. An exit completes a task only with proof: exactly when the segment had reported a result,
  the process exited with code zero (or the action is one that runs no provider), and the
  completion policy accepts it - the fixture policy, or an artifact with the expected digest.\<close>

theorem apply_exit_completes_iff:
  assumes run: "apply_exit env ev db = Inr db'" and s: "segrun_of db (ev_segment ev) = Some s"
    and a: "active_segment (s_status s)" and t: "task_of db (ev_task ev) = Some t"
    and r: "runtime_of db (ev_task ev) = Some r"
  shows "map_option t_status (task_of db' (ev_task ev)) = Some TCompleted \<longleftrightarrow>
    exit_completes env (s_outcome s) ev r"
proof -
  obtain b ast tst where st: "exit_statuses env (s_outcome s) ev (exit_settled ev s b db) = Inr (ast, tst)"
    and fin: "exit_follows tst (exit_marked ev s b ast tst db) db'"
    using apply_exit_cases [OF run s a] by blast
  have two: "task_of (exit_marked ev s b ast tst db) (ev_task ev) = Some (t\<lparr>t_status := tst\<rparr>)"
    by (simp add: exit_marked_def task_of_set_task_status exit_settled_tables t)
  have completed: "map_option t_status (task_of db' (ev_task ev)) = Some TCompleted \<longleftrightarrow> tst = TCompleted"
    using fin unfolding exit_follows_def
  proof (elim disjE conjE)
    assume "tst = TCompleted" "release_ready (exit_marked ev s b ast tst db) = Inr db'"
    with release_ready_task [OF _ two] show ?thesis by simp
  next
    assume f: "tst = TFailed" "block_failed_dependencies [] (exit_marked ev s b ast tst db) = Inr db'"
    with block_failed_task [OF f(2) two] show ?thesis by (simp add: waiting_status_def)
  qed (use two in auto)
  show ?thesis unfolding completed
    by (rule exit_statuses_completed [OF st]) (simp add: exit_settled_tables r)
qed

end
