(* ===== verification/Store_Stops.thy ===== *)
theory Store_Stops
  imports Store_Invariants
begin

text \<open>
  Stop requests (\<open>RequestStop\<close>, \<open>requestStopTx\<close> of \<open>internal/store/lifecycle.go\<close>): what a request does
  to a task that waits and to one that runs, and runs of the lifecycle on a small store.
\<close>

section \<open>Helpers\<close>

lemma insort_key_map: "insort_key f (h x) (map h xs) = map h (insort_key (f \<circ> h) x xs)"
  by (induction xs) auto

lemma sort_key_map: "sort_key f (map h xs) = map h (sort_key (f \<circ> h) xs)"
  by (induction xs) (simp_all add: insort_key_map [unfolded comp_def] comp_def)

lemma sort_filter_map:
  assumes "\<And>x. f (h x) = f x" and "\<And>x. x \<in> set xs \<Longrightarrow> P (h x) = P x"
  shows "sort_key f (filter P (map h xs)) = map h (sort_key f (filter P xs))"
proof -
  have "filter P (map h xs) = map h (filter P xs)" using assms(2) by (induction xs) auto
  moreover have "f \<circ> h = f" using assms(1) by (simp add: fun_eq_iff)
  ultimately show ?thesis by (simp add: sort_key_map)
qed

lemma find_row_append: "find_row P (xs @ ys) = (case find_row P xs of None \<Rightarrow> find_row P ys | Some r \<Rightarrow> Some r)"
  by (induction xs) auto

lemma request_stop_tx_waiting:
  assumes "request_stop_tx env inp task revision reason db = Inr (d, db')"
    and "task_of db task = Some t" and "t_status t \<in> {TQueued, TReady, TResumeQueued}"
  obtains db1 where "block_failed_dependencies [task]
      (retire_decision_bindings task (set_task_status TCancelled task db)) = Inr db1"
    "db' = refresh_new_base_targets env db1" "d = no_dispatch"
  using assms by (auto simp: request_stop_tx_def rbind_Inr_iff split: option.splits if_splits)

lemma request_stop_fence:
  assumes keys: "map (\<lambda>t. (t_id t, t_run t)) (tb_tasks db') = map (\<lambda>t. (t_id t, t_run t)) (tb_tasks db)"
    and rec: "tb_recoveries db' = tb_recoveries db"
  shows "initial_owner_run_fence db' task = initial_owner_run_fence db task"
proof -
  from keys have "(\<lambda>t. (t_id t, t_run t)) ` set (tb_tasks db') = (\<lambda>t. (t_id t, t_run t)) ` set (tb_tasks db)"
    by (metis list.set_map)
  moreover have "exists_row (\<lambda>t. t_run t = r \<and> t_id t = task) ts \<longleftrightarrow>
      (task, r) \<in> (\<lambda>t. (t_id t, t_run t)) ` set ts" for r and ts :: "task_row list"
    by (auto simp: exists_row_iff image_iff)
  ultimately have "exists_row (\<lambda>t. t_run t = r \<and> t_id t = task) (tb_tasks db') =
      exists_row (\<lambda>t. t_run t = r \<and> t_id t = task) (tb_tasks db)" for r
    by simp
  then show ?thesis by (simp add: initial_owner_run_fence_def rec)
qed

lemma block_failed_bindings:
  assumes "block_failed_dependencies roots db = Inr db'"
  shows "\<exists>l. tb_bindings db' = upd_rows (\<lambda>d. d_task d \<in> set l \<and> pending_binding d)
      (d_retired_update (\<lambda>_. True)) (tb_bindings db)"
proof -
  obtain l where "db' = fold block_task l db"
    using assms by (auto simp: block_failed_dependencies_def rbind_Inr_iff Let_def)
  then show ?thesis using fold_block_bindings by blast
qed

lemma retire_task:
  "\<forall>b \<in> set (upd_rows (\<lambda>d. d_task d = t \<and> pending_binding d) (d_retired_update (\<lambda>_. True)) ds).
     d_task b = t \<longrightarrow> \<not> pending_binding b"
  by (induction ds) (simp_all add: pending_binding_def)

lemma retire_more:
  "\<forall>b \<in> set ds. d_task b = t \<longrightarrow> \<not> pending_binding b \<Longrightarrow>
   \<forall>b \<in> set (upd_rows (\<lambda>d. d_task d \<in> A \<and> pending_binding d) (d_retired_update (\<lambda>_. True)) ds).
     d_task b = t \<longrightarrow> \<not> pending_binding b"
  by (induction ds) (simp_all add: pending_binding_def)

lemma set_task_status_keys:
  "map t_id (tb_tasks (set_task_status st t db)) = map t_id (tb_tasks db)"
  "map (\<lambda>t. (t_id t, t_run t)) (tb_tasks (set_task_status st t db)) = map (\<lambda>t. (t_id t, t_run t)) (tb_tasks db)"
  by (simp_all add: set_task_status_def upd_row_def)

section \<open>Properties\<close>


lemma latest_active_segment_stopping:
  assumes l: "latest_active_segment db task = Some s"
    and sr: "tb_segrun db' = upd_row s_segment (s_segment s) (\<lambda>x. x\<lparr>s_status := SStopping, s_outcome := OStopped\<rparr>) (tb_segrun db)"
    and at: "tb_attempts db' = tb_attempts db" and d: "distinct (map s_segment (tb_segrun db))"
  shows "latest_active_segment db' task = Some (s\<lparr>s_status := SStopping, s_outcome := OStopped\<rparr>)"
proof -
  define h :: "segment_runtime_row \<Rightarrow> segment_runtime_row" where
    "h = (\<lambda>x. if s_segment x = s_segment s then x\<lparr>s_status := SStopping, s_outcome := OStopped\<rparr> else x)"
  define P :: "segment_runtime_row \<Rightarrow> bool" where
    "P = (\<lambda>x. task_of_attempt db (s_attempt x) = Some task \<and> active_segment (s_status x))"
  note row = latest_active_segment_row [OF l]
  have P': "(\<lambda>x. task_of_attempt db' (s_attempt x) = Some task \<and> active_segment (s_status x)) = P"
    by (simp add: P_def task_of_attempt_def at)
  have sr': "tb_segrun db' = map h (tb_segrun db)" by (simp add: sr h_def upd_row_def upd_rows_def)
  have one: "x = s" if "x \<in> set (tb_segrun db)" "s_segment x = s_segment s" for x
    using row d that by (auto simp: distinct_map dest: inj_onD)
  have "sort_key s_created (filter P (map h (tb_segrun db))) = map h (sort_key s_created (filter P (tb_segrun db)))"
  proof (rule sort_filter_map)
    show "s_created (h x) = s_created x" for x by (simp add: h_def)
    show "P (h x) = P x" if "x \<in> set (tb_segrun db)" for x
      using one [OF that] row by (auto simp: h_def P_def)
  qed
  moreover obtain xs where "rev (sort_key s_created (filter P (tb_segrun db))) = s # xs"
    using l unfolding latest_active_segment_def P_def [symmetric]
    by (cases "rev (sort_key s_created (filter P (tb_segrun db)))") simp_all
  ultimately have "rev (sort_key s_created (filter P (tb_segrun db'))) = h s # map h xs"
    by (simp add: sr' rev_map [symmetric])
  then show ?thesis unfolding latest_active_segment_def P' by (simp add: h_def)
qed

lemma request_stop_tx_running:
  assumes run: "request_stop_tx env inp task revision reason db = Inr (d, db')"
    and t: "task_of db task = Some t" and w: "t_status t \<notin> {TQueued, TReady, TResumeQueued}"
  obtains r s where "initial_owner_run_fence db task = Inr ()" "runtime_of db task = Some r"
    "r_work_revision r = revision" "latest_active_segment db task = Some s"
    "\<And>p. stop_of db (s_segment s) = Some p \<Longrightarrow> db' = db \<and> d = \<lparr>sd_host = s_host s, sd_command = p_command p,
       sd_segment = p_segment p, sd_reason = p_reason p, sd_deadline = p_deadline p\<rparr>"
    "stop_of db (s_segment s) = None \<Longrightarrow> \<exists>c. d = \<lparr>sd_host = s_host s, sd_command = c, sd_segment = s_segment s,
         sd_reason = reason, sd_deadline = in_deadline inp\<rparr>
       \<and> db' = set_task_status TStopping task
           (set_segrun (s_segment s) (\<lambda>x. x\<lparr>s_status := SStopping, s_outcome := OStopped\<rparr>)
             (db\<lparr>tb_stops := tb_stops db @
                [\<lparr>p_command = c, p_host = s_host s, p_segment = s_segment s, p_reason = reason,
                  p_deadline = in_deadline inp, p_status = StopPending, p_created = in_now inp\<rparr>]\<rparr>))"
proof -
  obtain r s where r: "initial_owner_run_fence db task = Inr ()" "runtime_of db task = Some r"
      "r_work_revision r = revision" and s: "latest_active_segment db task = Some s"
    using run t w by (auto simp: request_stop_tx_def rbind_Inr_iff split: option.splits if_splits)
  show thesis
    by (rule that [OF r s])
      (use run t w r s in \<open>auto simp: request_stop_tx_def rbind_Inr_iff split: option.splits if_splits\<close>)
qed

text \<open>C11. Stop requests are idempotent: asking again to stop a running task returns the command that
  was issued the first time, whatever new reason is given, and changes nothing.\<close>

theorem request_stop_idempotent:
  assumes run: "request_stop_tx env inp task revision reason db = Inr (d, db')"
    and t: "task_of db task = Some t" and w: "t_status t \<notin> {TQueued, TReady, TResumeQueued}"
    and d: "distinct (map s_segment (tb_segrun db))"
  shows "request_stop_tx env inp' task revision reason' db' = Inr (d, db')"
proof -
  obtain r s where r: "initial_owner_run_fence db task = Inr ()" "runtime_of db task = Some r"
      "r_work_revision r = revision" "latest_active_segment db task = Some s"
    and old: "\<And>p. stop_of db (s_segment s) = Some p \<Longrightarrow> db' = db \<and> d = \<lparr>sd_host = s_host s,
       sd_command = p_command p, sd_segment = p_segment p, sd_reason = p_reason p, sd_deadline = p_deadline p\<rparr>"
    and new: "stop_of db (s_segment s) = None \<Longrightarrow> \<exists>c. d = \<lparr>sd_host = s_host s, sd_command = c,
         sd_segment = s_segment s, sd_reason = reason, sd_deadline = in_deadline inp\<rparr>
       \<and> db' = set_task_status TStopping task
           (set_segrun (s_segment s) (\<lambda>x. x\<lparr>s_status := SStopping, s_outcome := OStopped\<rparr>)
             (db\<lparr>tb_stops := tb_stops db @
                [\<lparr>p_command = c, p_host = s_host s, p_segment = s_segment s, p_reason = reason,
                  p_deadline = in_deadline inp, p_status = StopPending, p_created = in_now inp\<rparr>]\<rparr>))"
    using request_stop_tx_running [OF run t w] by blast
  show ?thesis
  proof (cases "stop_of db (s_segment s)")
    case (Some p)
    with old [OF Some] t w r show ?thesis by (simp add: request_stop_tx_def)
  next
    case None
    then obtain c where dd: "d = \<lparr>sd_host = s_host s, sd_command = c, sd_segment = s_segment s,
         sd_reason = reason, sd_deadline = in_deadline inp\<rparr>"
      and db': "db' = set_task_status TStopping task
           (set_segrun (s_segment s) (\<lambda>x. x\<lparr>s_status := SStopping, s_outcome := OStopped\<rparr>)
             (db\<lparr>tb_stops := tb_stops db @
                [\<lparr>p_command = c, p_host = s_host s, p_segment = s_segment s, p_reason = reason,
                  p_deadline = in_deadline inp, p_status = StopPending, p_created = in_now inp\<rparr>]\<rparr>))"
      using new by blast
    have "initial_owner_run_fence db' task = Inr ()"
      using request_stop_fence [of db' db task] r(1)
      by (simp add: db' set_task_status_keys set_segrun_def)
    moreover have "task_of db' task = Some (t\<lparr>t_status := TStopping\<rparr>)"
      unfolding db' task_of_set_task_status by (simp add: set_segrun_def t)
    moreover have "runtime_of db' task = Some r" using r(2) by (simp add: db' set_segrun_def)
    moreover have "latest_active_segment db' task = Some (s\<lparr>s_status := SStopping, s_outcome := OStopped\<rparr>)"
      by (rule latest_active_segment_stopping [OF r(4) _ _ d]) (simp_all add: db' set_segrun_def)
    moreover have "stop_of db' (s_segment s) = Some \<lparr>p_command = c, p_host = s_host s, p_segment = s_segment s,
        p_reason = reason, p_deadline = in_deadline inp, p_status = StopPending, p_created = in_now inp\<rparr>"
      using None by (simp add: db' set_segrun_def sel_row_def find_row_append)
    ultimately show ?thesis using r(3) dd by (simp add: request_stop_tx_def)
  qed
qed

section \<open>A small run\<close>

text \<open>One task with a running segment that holds a one-hour reservation, and a dependent task.\<close>

definition sample_env :: lifecycle_env where
  "sample_env = \<lparr>filter_target = (\<lambda>_. False), question_gate = (\<lambda>_ _. Inr ()), target_free = (\<lambda>_ _. False)\<rparr>"

definition sample_input :: tx_input where
  "sample_input = \<lparr>in_command = Some ''stop-1'', in_deadline = 10, in_now = ''5''\<rparr>"

definition sample_segment :: segment_runtime_row where
  "sample_segment = \<lparr>s_segment = ''s'', s_attempt = ''a'', s_host = ''h'', s_command = ''c'', s_reservation = ''b'',
     s_status = SRunning, s_outcome = ONone, s_created = ''1''\<rparr>"

definition sample_task :: task_row where
  "sample_task = \<lparr>t_id = ''t'', t_run = ''r'', t_status = TRunning, t_deps = Some [], t_max_attempts = 3, t_created = ''1''\<rparr>"

definition sample_runtime :: task_runtime_row where
  "sample_runtime = \<lparr>r_task = ''t'', r_launch = ''l'', r_work_revision = 1, r_group = ''g'', r_max_active_ms = 3600000,
     r_ready_sequence = Some 1, r_payload = [], r_policy = ''exit_success_fixture'', r_expected_sha256 = []\<rparr>"

definition sample_budget :: budget_row where
  "sample_budget = \<lparr>b_id = ''b'', b_group = ''g'', b_segment = ''s'', b_granted = 3600000, b_used = 0, b_status = BReserved\<rparr>"

definition sample_store :: store where
  "sample_store = empty_store\<lparr>tb_tasks := [sample_task, dep_row ''u'' TQueued [''t'']],
     tb_runtime := [sample_runtime, dep_runtime ''u''],
     tb_attempts := [\<lparr>a_id = ''a'', a_task = ''t'', a_no = 1, a_status = ARunning\<rparr>],
     tb_segments := [\<lparr>g_id = ''s'', g_attempt = ''a'', g_no = 1, g_status = SRunning\<rparr>],
     tb_segrun := [sample_segment], tb_budget := [sample_budget]\<rparr>"

definition sample_event :: "event_kind \<Rightarrow> host_event" where
  "sample_event k = \<lparr>ev_producer = ''h'', ev_id = ''e'', ev_run = ''r'', ev_task = ''t'', ev_attempt = ''a'',
     ev_segment = ''s'', ev_work_revision = 1, ev_command = ''c'', ev_sequence = 1, ev_kind = k, ev_payload_hash = [],
     ev_process = False, ev_exit_code = Some 0, ev_artifact = None, ev_active_ms = 1000, ev_question_id = [],
     ev_question_revision = 0, ev_question_kind = [], ev_session_kind = [], ev_session_id = []\<rparr>"

lemma sample_store_inv: "budget_inv sample_store"
  by (simp add: budget_inv_def sample_store_def empty_store_def sample_segment_def sample_budget_def)

lemma sample_store_rows:
  "segrun_of sample_store ''s'' = Some sample_segment" "budget_of sample_store ''b'' = Some sample_budget"
  "task_of sample_store ''t'' = Some sample_task" "runtime_of sample_store ''t'' = Some sample_runtime"
  "task_of_attempt sample_store ''a'' = Some ''t''" "stop_of sample_store ''s'' = None"
  by (simp_all add: sample_store_def empty_store_def sel_row_def task_of_attempt_def sample_segment_def
      sample_budget_def sample_task_def sample_runtime_def)

lemma sample_rows [simp]:
  "s_status sample_segment = SRunning" "s_reservation sample_segment = ''b''" "s_outcome sample_segment = ONone"
  "s_segment sample_segment = ''s''" "s_attempt sample_segment = ''a''"
  "b_granted sample_budget = 3600000" "b_status sample_budget = BReserved" "t_status sample_task = TRunning"
  "r_work_revision sample_runtime = 1" "ev_segment (sample_event k) = ''s''" "ev_kind (sample_event k) = k"
  "ev_task (sample_event k) = ''t''" "ev_active_ms (sample_event k) = 1000"
  by (simp_all add: sample_segment_def sample_budget_def sample_task_def sample_runtime_def sample_event_def)

definition after_result :: store where
  "after_result = set_segrun ''s'' (\<lambda>s. s\<lparr>s_outcome := OResult\<rparr>) sample_store"

lemma sample_result: "accept_event sample_env sample_input (sample_event EvResult) sample_store = Inr after_result"
proof -
  have "set_segrun ''s'' (\<lambda>s. if s_status s \<noteq> SExited \<and> (s_outcome s = ONone \<or> s_outcome s = OResult)
      then s\<lparr>s_outcome := OResult\<rparr> else s) sample_store = after_result"
    by (simp add: after_result_def set_segrun_def sample_store_def upd_row_def)
  then show ?thesis
    by (simp add: accept_event_def apply_event_def sample_store_rows apply_outcome_def outcome_of_kind_def Let_def)
qed

lemma after_result_rows:
  "segrun_of after_result ''s'' = Some (sample_segment\<lparr>s_outcome := OResult\<rparr>)"
  "budget_of after_result ''b'' = Some sample_budget" "task_of after_result ''t'' = Some sample_task"
  "runtime_of after_result ''t'' = Some sample_runtime"
  by (simp_all add: after_result_def set_segrun_def rows.sel_upd_same sample_store_rows)

lemma sample_exit: "\<exists>db'. apply_exit sample_env (sample_event EvExited) after_result = Inr db'"
proof -
  have total: "\<forall>c \<in> set cs. t_deps c \<noteq> None \<Longrightarrow> \<exists>db'. release_loop cs db = Inr db'" for cs db
    by (induction cs arbitrary: db) auto
  have st: "exit_statuses sample_env OResult (sample_event EvExited) db = Inr (AResultReady, TCompleted)"
    if "runtime_of db ''t'' = Some sample_runtime" for db
    using that by (simp add: exit_statuses_def sample_runtime_def sample_event_def)
  have "\<forall>t \<in> set (tb_tasks after_result). t_deps t \<noteq> None"
    by (simp add: after_result_def set_segrun_def sample_store_def sample_task_def dep_row_def)
  then have "\<exists>db'. release_ready (set_task_status st ''t'' (resolve_resumed ev (set_attempt_status ast x
      (settle_exit g y u after_result)))) = Inr db'" for st ev ast x g y u
    unfolding release_ready_def
    by (intro total) (auto simp: set_task_status_def upd_row_def set_upd_rows settle_exit_def set_segrun_def Let_def)
  then show ?thesis
    by (simp add: apply_exit_def after_result_rows st settle_exit_def set_segrun_def Let_def)
qed

lemma sample_run:
  "\<exists>db'. run_steps (run_op sample_env)
     [OpEvent sample_input (sample_event EvResult), OpEvent sample_input (sample_event EvExited)] sample_store = Inr db'"
proof -
  obtain db' where "apply_exit sample_env (sample_event EvExited) after_result = Inr db'"
    using sample_exit by blast
  then have "accept_event sample_env sample_input (sample_event EvExited) after_result = Inr db'"
    by (simp add: accept_event_def apply_event_def after_result_rows)
  then show ?thesis by (simp add: sample_result)
qed

theorem lifecycle_charge_bounded_witness:
  "\<exists>ops db'. run_steps (run_op sample_env) ops sample_store = Inr db' \<and> length ops = 2
     \<and> charged_group_active_ms db' ''g'' \<le> 3600000"
proof -
  have "charged_group_active_ms sample_store ''g'' = 3600000"
    by (simp add: charged_group_active_ms_def sample_store_def sample_budget_def budget_charge_def)
  then show ?thesis
    using sample_run lifecycle_charge_bounded [OF _ sample_store_inv, of sample_env _ _ "''g''"]
    by (metis length_Cons list.size(3) numeral_2_eq_2)
qed

lemma sample_exit_result:
  obtains db' where "apply_exit sample_env (sample_event EvExited) after_result = Inr db'"
  using sample_exit by blast

lemma after_result_inv: "budget_inv after_result"
  using evolves_budget_inv [OF sample_store_inv evolves_event [OF sample_store_inv sample_result]] .

lemma sample_exit_status:
  assumes "apply_exit sample_env (sample_event EvExited) after_result = Inr db'"
  shows "budget_inv db'" "\<exists>s. segrun_of db' ''s'' = Some s \<and> s_status s = SExited"
proof -
  show "budget_inv db'"
    by (rule evolves_budget_inv [OF after_result_inv evolves_exit [OF after_result_inv assms]])
  have "active_segment (s_status (sample_segment\<lparr>s_outcome := OResult\<rparr>))" by simp
  with assms obtain b where "tb_segrun db' = upd_row s_segment ''s'' (s_status_update (\<lambda>_. SExited)) (tb_segrun after_result)"
    using apply_exit_tables [of sample_env "sample_event EvExited" after_result db'
        "sample_segment\<lparr>s_outcome := OResult\<rparr>"] after_result_rows(1) by auto
  then show "\<exists>s. segrun_of db' ''s'' = Some s \<and> s_status s = SExited"
    by (simp add: rows.sel_upd_same after_result_rows)
qed

theorem lifecycle_terminal_absorbing_witness:
  "\<exists>db db' s'. run_steps (run_op sample_env) [OpHostLost] db = Inr db' \<and> segrun_of db' ''s'' = Some s'
     \<and> s_status s' = SExited"
proof -
  obtain db where db: "apply_exit sample_env (sample_event EvExited) after_result = Inr db"
    by (rule sample_exit_result)
  obtain s where s: "segrun_of db ''s'' = Some s" "s_status s = SExited" using sample_exit_status(2) [OF db] by blast
  have run: "run_steps (run_op sample_env) [OpHostLost] db = Inr (mark_stopping_unknown db)" by simp
  have ended: "s_status s = SExited \<or> s_status s = SNotStarted" using s(2) by simp
  show ?thesis
    using lifecycle_terminal_absorbing [OF run sample_exit_status(1) [OF db] s(1) ended] run s(2) by auto
qed

theorem apply_exit_settles_once_witness:
  "\<exists>db'. apply_exit sample_env (sample_event EvExited) after_result = Inr db'
     \<and> map_option b_used (budget_of db' ''b'') = Some 1000"
proof -
  obtain db' where db: "apply_exit sample_env (sample_event EvExited) after_result = Inr db'"
    by (rule sample_exit_result)
  have s: "segrun_of after_result (ev_segment (sample_event EvExited)) = Some (sample_segment\<lparr>s_outcome := OResult\<rparr>)"
    by (simp add: after_result_rows)
  have a: "active_segment (s_status (sample_segment\<lparr>s_outcome := OResult\<rparr>))" by simp
  have b: "budget_of after_result (s_reservation (sample_segment\<lparr>s_outcome := OResult\<rparr>)) = Some sample_budget"
    by (simp add: after_result_rows)
  from apply_exit_settles_once [OF db s a b refl] db show ?thesis by simp
qed

theorem apply_exit_completes_iff_witness:
  "\<exists>db'. apply_exit sample_env (sample_event EvExited) after_result = Inr db'
     \<and> map_option t_status (task_of db' ''t'') = Some TCompleted"
proof -
  obtain db' where db: "apply_exit sample_env (sample_event EvExited) after_result = Inr db'"
    by (rule sample_exit_result)
  have s: "segrun_of after_result (ev_segment (sample_event EvExited)) = Some (sample_segment\<lparr>s_outcome := OResult\<rparr>)"
    and t: "task_of after_result (ev_task (sample_event EvExited)) = Some sample_task"
    and r: "runtime_of after_result (ev_task (sample_event EvExited)) = Some sample_runtime"
    by (simp_all add: after_result_rows)
  have a: "active_segment (s_status (sample_segment\<lparr>s_outcome := OResult\<rparr>))" by simp
  have "exit_completes sample_env OResult (sample_event EvExited) sample_runtime"
    by (simp add: exit_completes_def sample_event_def sample_runtime_def)
  with apply_exit_completes_iff [OF db s a t r] db show ?thesis by simp
qed

lemma dep_sample_stop_runs: "\<exists>x. request_stop_tx sample_env sample_input ''b'' 1 ''why'' dep_sample = Inr x"
proof -
  have rows: "task_of dep_sample ''b'' = Some (dep_row ''b'' TQueued [''a''])"
    "runtime_of dep_sample ''b'' = Some (dep_runtime ''b'')" "tb_recoveries dep_sample = []"
    by (simp_all add: dep_sample_def empty_store_def dep_row_def dep_runtime_def sel_row_def)
  have "\<exists>l. load_tasks (tb_tasks (retire_decision_bindings ''b'' (set_task_status TCancelled ''b'' dep_sample))) = Inr l"
    by (simp add: retire_decision_bindings_def set_task_status_def dep_sample_def dep_row_def upd_row_def)
  then show ?thesis
    by (auto simp: request_stop_tx_def initial_owner_run_fence_def rows block_failed_dependencies_def
        dep_row_def dep_runtime_def Let_def)
qed


theorem request_stop_idempotent_witness:
  "\<exists>d db'. request_stop_tx sample_env sample_input ''t'' 1 ''why'' sample_store = Inr (d, db')
     \<and> request_stop_tx sample_env sample_input ''t'' 1 ''other'' db' = Inr (d, db') \<and> sd_command d = ''stop-1''"
proof -
  have l: "latest_active_segment sample_store ''t'' = Some sample_segment"
    by (simp add: latest_active_segment_def sample_store_rows sample_store_def task_of_attempt_def sel_row_def)
  have stop_of_empty: "sel_row p_segment ''s'' [] = None" by (simp add: sel_row_def)
  have none: "tb_stops sample_store = []" "tb_recoveries sample_store = []"
    by (simp_all add: sample_store_def empty_store_def)
  obtain d db' where r: "request_stop_tx sample_env sample_input ''t'' 1 ''why'' sample_store = Inr (d, db')"
    and c: "sd_command d = ''stop-1''"
    by (simp add: request_stop_tx_def initial_owner_run_fence_def none sample_store_rows l sample_input_def
        stop_of_empty)
  have w: "t_status sample_task \<notin> {TQueued, TReady, TResumeQueued}" by simp
  have dist: "distinct (map s_segment (tb_segrun sample_store))" by (simp add: sample_store_def)
  from request_stop_idempotent [OF r sample_store_rows(3) w dist] r c show ?thesis by blast
qed

end
