(* ===== verification/Codex_Shapes.thy ===== *)
theory Codex_Shapes
  imports Go_Json
begin

text \<open>
  The pinned-shape matcher of \<open>internal/codexsession/shapes.go\<close>: strict decoding of a frame into a
  JSON value without duplicate keys, and matching of the value against the embedded
  schemas. Depth and work are bounded; both bounds are part of the state of a match.

  The token stream is the one \<open>encoding/json\<close>'s decoder yields for the bytes; a token the
  decoder rejects is \<open>TBad\<close>, the end of the input is the end of the list.
\<close>

section \<open>Budgets\<close>

definition max_shape_depth :: nat where
  "max_shape_depth = 64"

definition max_shape_work :: nat where
  "max_shape_work = 8388608"

datatype shape_error = ShapeLimit | ShapeProtocol

record shape_budget =
  bg_work :: nat
  bg_limit :: bool

definition fresh_budget :: shape_budget where
  "fresh_budget = \<lparr>bg_work = 0, bg_limit = False\<rparr>"

definition spend :: "nat \<Rightarrow> shape_budget \<Rightarrow> bool \<times> shape_budget" where
  "spend n b =
    (if n > max_shape_work - bg_work b then (False, b\<lparr>bg_limit := True\<rparr>)
     else (\<not> bg_limit b, b\<lparr>bg_work := bg_work b + n\<rparr>))"

text \<open>Tests that thread the budget and stop at the first failure.\<close>

type_synonym shape_test = "shape_budget \<Rightarrow> bool \<times> shape_budget"

definition st_bool :: "bool \<Rightarrow> shape_test" where
  "st_bool p b = (p, b)"

definition st_and :: "shape_test \<Rightarrow> shape_test \<Rightarrow> shape_test" where
  "st_and f g b = (case f b of (ok, b') \<Rightarrow> if ok then g b' else (False, b'))"

fun st_all :: "('a \<Rightarrow> shape_test) \<Rightarrow> 'a list \<Rightarrow> shape_test" where
  "st_all f [] = st_bool True"
| "st_all f (x # xs) = st_and (f x) (st_all f xs)"

section \<open>Strict decoding\<close>

datatype json_token =
  TObj | TObjEnd | TArr | TArrEnd | TScalar json | TBad

definition more_tokens :: "json_token list \<Rightarrow> bool" where
  "more_tokens ts \<longleftrightarrow> (case ts of [] \<Rightarrow> False | t # _ \<Rightarrow> t \<noteq> TObjEnd \<and> t \<noteq> TArrEnd)"

type_synonym decoded = "shape_error + json \<times> json_token list \<times> shape_budget"

text \<open>
  The three loops of \<open>strictValue\<close>; the fuel bounds the number of calls, and the caller gives
  enough for every token.
\<close>

fun strict_value :: "nat \<Rightarrow> nat \<Rightarrow> json_token list \<Rightarrow> shape_budget \<Rightarrow> decoded"
  and strict_members :: "nat \<Rightarrow> nat \<Rightarrow> (string \<times> json) list \<Rightarrow> json_token list \<Rightarrow> shape_budget \<Rightarrow> decoded"
  and strict_elements :: "nat \<Rightarrow> nat \<Rightarrow> json list \<Rightarrow> json_token list \<Rightarrow> shape_budget \<Rightarrow> decoded" where
  "strict_value 0 depth ts b = Inl ShapeLimit"
| "strict_value (Suc n) depth ts b =
    (if depth > max_shape_depth then Inl ShapeLimit
     else case spend 1 b of (ok, b') \<Rightarrow>
       if \<not> ok then Inl ShapeLimit
       else (case ts of
          TObj # r \<Rightarrow> strict_members n depth [] r b'
        | TArr # r \<Rightarrow> strict_elements n depth [] r b'
        | TScalar v # r \<Rightarrow> Inr (v, r, b')
        | _ \<Rightarrow> Inl ShapeProtocol))"
| "strict_members 0 depth m ts b = Inl ShapeLimit"
| "strict_members (Suc n) depth m ts b =
    (if more_tokens ts then
       (case ts of
          TScalar (JStr k) # r \<Rightarrow>
            if has_key m k then Inl ShapeProtocol
            else (case strict_value n (depth + 1) r b of
                    Inl e \<Rightarrow> Inl e
                  | Inr (v, r', b') \<Rightarrow> strict_members n depth (m @ [(k, v)]) r' b')
        | _ \<Rightarrow> Inl ShapeProtocol)
     else (case ts of TObjEnd # r \<Rightarrow> Inr (JObj m, r, b) | _ \<Rightarrow> Inl ShapeProtocol))"
| "strict_elements 0 depth xs ts b = Inl ShapeLimit"
| "strict_elements (Suc n) depth xs ts b =
    (if more_tokens ts then
       (case strict_value n (depth + 1) ts b of
          Inl e \<Rightarrow> Inl e
        | Inr (v, r', b') \<Rightarrow> strict_elements n depth (xs @ [v]) r' b')
     else (case ts of TArrEnd # r \<Rightarrow> Inr (JArr xs, r, b) | _ \<Rightarrow> Inl ShapeProtocol))"

definition decode_fuel :: "json_token list \<Rightarrow> nat" where
  "decode_fuel ts = 2 * length ts + 2"

definition strict_decode :: "(string \<Rightarrow> json_token list) \<Rightarrow> string \<Rightarrow> shape_error + json" where
  "strict_decode tokens raw =
    (if \<not> valid_utf8 raw then Inl ShapeProtocol
     else (let ts = tokens raw
           in case strict_value (decode_fuel ts) 0 ts fresh_budget of
                Inl e \<Rightarrow> Inl e
              | Inr (v, r, _) \<Rightarrow> if r = [] then Inr v else Inl ShapeProtocol))"

section \<open>Numbers\<close>

text \<open>The exact value of a JSON number, mantissa and power of ten, as \<open>big.Rat\<close> holds it.\<close>

definition split_at :: "(char \<Rightarrow> bool) \<Rightarrow> string \<Rightarrow> string \<times> string" where
  "split_at p s = (takeWhile (\<lambda>c. \<not> p c) s, dropWhile (\<lambda>c. \<not> p c) s)"

definition exp_char :: "char \<Rightarrow> bool" where
  "exp_char c \<longleftrightarrow> c = CHR ''e'' \<or> c = CHR ''E''"

definition number_value :: "string \<Rightarrow> (int \<times> int) option" where
  "number_value s =
    (let (head, tail) = split_at exp_char s;
         (whole, frac) = split_at (\<lambda>c. c = CHR ''.'') head;
         neg = (case whole of c # _ \<Rightarrow> c = CHR ''-'' | [] \<Rightarrow> False);
         digits = (if neg then tl whole else whole) @ tl frac
     in if digits = [] \<or> \<not> list_all is_digit digits then None
        else case (if tail = [] then Some 0 else parse_int 64 (tl tail)) of
               None \<Rightarrow> None
             | Some e \<Rightarrow> Some ((if neg then - int (digits_val digits) else int (digits_val digits)),
                 e - int (length (tl frac))))"

definition scaled_less :: "int \<times> int \<Rightarrow> int \<times> int \<Rightarrow> bool" where
  "scaled_less x y = (case (x, y) of ((m, e), (m', e')) \<Rightarrow>
     let low = min e e' in m * 10 ^ nat (e - low) < m' * 10 ^ nat (e' - low))"

definition below_minimum :: "string \<Rightarrow> string \<Rightarrow> bool" where
  "below_minimum number minimum =
    (case (number_value number, number_value minimum) of
       (Some a, Some c) \<Rightarrow> scaled_less a c
     | _ \<Rightarrow> True)"

definition format_ok :: "string \<Rightarrow> string \<Rightarrow> bool" where
  "format_ok format number =
    (if format = ''int32'' then parse_int 32 number \<noteq> None
     else if format = ''int64'' then parse_int 64 number \<noteq> None
     else if format = ''uint'' then parse_uint 64 number \<noteq> None
     else if format = ''uint16'' then parse_uint 16 number \<noteq> None
     else if format = ''uint32'' then parse_uint 32 number \<noteq> None
     else False)"

section \<open>One schema node\<close>

definition type_matches :: "json \<Rightarrow> json \<Rightarrow> bool option" where
  "type_matches name val =
    (if name = JStr ''null'' then Some (val = JNull)
     else if name = JStr ''object'' then Some (case val of JObj _ \<Rightarrow> True | _ \<Rightarrow> False)
     else if name = JStr ''array'' then Some (case val of JArr _ \<Rightarrow> True | _ \<Rightarrow> False)
     else if name = JStr ''boolean'' then Some (case val of JBool _ \<Rightarrow> True | _ \<Rightarrow> False)
     else if name = JStr ''string'' then Some (case val of JStr _ \<Rightarrow> True | _ \<Rightarrow> False)
     else if name = JStr ''integer'' then Some (case val of
        JNum n \<Rightarrow> n \<noteq> [] \<and> \<not> list_ex (\<lambda>c. c = CHR ''.'' \<or> exp_char c) n | _ \<Rightarrow> False)
     else if name = JStr ''number'' then Some (case val of JNum _ \<Rightarrow> True | _ \<Rightarrow> False)
     else None)"

definition type_ok :: "(string \<times> json) list \<Rightarrow> json \<Rightarrow> bool" where
  "type_ok node val =
    (if \<not> has_key node ''type'' then True
     else (let kind = fld node ''type'';
               types = (case kind of JArr xs \<Rightarrow> xs | _ \<Rightarrow> [kind])
           in list_all (\<lambda>t. type_matches t val \<noteq> None) types
              \<and> list_ex (\<lambda>t. type_matches t val = Some True) types))"

definition json_eq :: "json \<Rightarrow> json \<Rightarrow> bool" where
  "json_eq a b \<longleftrightarrow> sort_obj a = sort_obj b"

definition enum_ok :: "(string \<times> json) list \<Rightarrow> json \<Rightarrow> bool" where
  "enum_ok node val =
    (case fld node ''enum'' of JArr choices \<Rightarrow> list_ex (\<lambda>c. json_eq c val) choices | _ \<Rightarrow> True)"

definition required_ok :: "(string \<times> json) list \<Rightarrow> json \<Rightarrow> bool" where
  "required_ok node val =
    (case val of
       JObj m \<Rightarrow> (case fld node ''required'' of
          JArr names \<Rightarrow> list_all (\<lambda>f. case f of JStr k \<Rightarrow> has_key m k | _ \<Rightarrow> False) names
        | _ \<Rightarrow> True)
     | _ \<Rightarrow> True)"

definition length_ok :: "(string \<times> json) list \<Rightarrow> json \<Rightarrow> shape_test" where
  "length_ok node val =
    (case (val, fld node ''minLength'') of
       (JStr text, JNum minimum) \<Rightarrow>
         (case parse_int 64 minimum of
            None \<Rightarrow> st_bool False
          | Some n \<Rightarrow> st_and (spend (length text)) (st_bool (n \<le> int (rune_count text))))
     | _ \<Rightarrow> st_bool True)"

definition st_limit :: shape_test where
  "st_limit b = (False, b\<lparr>bg_limit := True\<rparr>)"

definition number_ok :: "(string \<times> json) list \<Rightarrow> json \<Rightarrow> shape_test" where
  "number_ok node val =
    (case val of
       JNum number \<Rightarrow>
         st_and (spend (length number))
           (let tail = snd (split_at exp_char number);
                exponent = (if tail = [] then Some 0 else parse_int 32 (tl tail))
            in if length number > 1024 then st_limit
               else (case exponent of
                  None \<Rightarrow> st_limit
                | Some e \<Rightarrow>
                    if e < - 1024 \<or> e > 1024 then st_limit
                    else st_bool ((case fld node ''minimum'' of JNum m \<Rightarrow> \<not> below_minimum number m | _ \<Rightarrow> True)
                           \<and> (case fld node ''format'' of JStr f \<Rightarrow> format_ok f number | _ \<Rightarrow> True))))
     | _ \<Rightarrow> st_bool True)"

definition st_open :: shape_test where
  "st_open b = (\<not> bg_limit b, b)"

definition atomic_shape :: "(string \<times> json) list \<Rightarrow> json \<Rightarrow> shape_test" where
  "atomic_shape node val =
    st_and (st_bool (type_ok node val))
     (st_and (st_bool (enum_ok node val))
      (st_and (st_bool (required_ok node val))
       (st_and (length_ok node val)
        (st_and (number_ok node val) st_open))))"

section \<open>The matcher\<close>

definition schema_keys :: "string list" where
  "schema_keys = [''$ref'', ''additionalProperties'', ''allOf'', ''anyOf'', ''enum'', ''format'', ''items'',
     ''minLength'', ''minimum'', ''oneOf'', ''properties'', ''required'', ''type'']"

definition without :: "(string \<times> json) list \<Rightarrow> string \<Rightarrow> json" where
  "without node key = JObj (filter (\<lambda>(k, _). k \<noteq> key) node)"

definition definition_prefix :: string where
  "definition_prefix = ''#/definitions/''"

text \<open>What the first loop of \<open>match\<close> finds: a part that rejects, a part to expand at the same object
  level (\<open>$ref\<close>, \<open>allOf\<close>), a union, or none of these.\<close>

datatype expansion =
  Reject
| Expand "json list"
| AnyOf "json list list"
| OneOf "json list list"
| Flat

definition expand_node ::
  "(string \<times> json) list \<Rightarrow> json list \<Rightarrow> (string \<times> json) list \<Rightarrow> json list \<Rightarrow> expansion" where
  "expand_node defs pre node ps =
    (if \<not> list_all (\<lambda>(k, _). k \<in> set schema_keys) node then Reject
     else (case fld node ''$ref'' of
        JStr ref \<Rightarrow>
          (let name = drop (length definition_prefix) ref
           in if take (length definition_prefix) ref \<noteq> definition_prefix \<or> \<not> has_key defs name then Reject
              else Expand (pre @ [without node ''$ref'', fld defs name] @ ps))
      | _ \<Rightarrow> (case fld node ''allOf'' of
           JArr children \<Rightarrow> Expand (pre @ (without node ''allOf'' # children) @ ps)
         | _ \<Rightarrow> (case fld node ''anyOf'' of
              JArr children \<Rightarrow> AnyOf (map (\<lambda>c. pre @ [without node ''anyOf'', c] @ ps) children)
            | _ \<Rightarrow> (case fld node ''oneOf'' of
                 JArr children \<Rightarrow> OneOf (map (\<lambda>c. pre @ [without node ''oneOf'', c] @ ps) children)
               | _ \<Rightarrow> Flat)))))"

fun expand :: "(string \<times> json) list \<Rightarrow> json list \<Rightarrow> json list \<Rightarrow> expansion" where
  "expand defs pre [] = Flat"
| "expand defs pre (p # ps) =
    (let found = (case p of
        JBool truth \<Rightarrow> if truth then Flat else Reject
      | JObj node \<Rightarrow> expand_node defs pre node ps
      | _ \<Rightarrow> Reject)
     in if found = Flat then expand defs (pre @ [p]) ps else found)"

text \<open>\<open>anyOf\<close> stops at the first match, \<open>oneOf\<close> counts; a spent budget ends both.\<close>

fun any_of :: "(json list \<Rightarrow> shape_test) \<Rightarrow> json list list \<Rightarrow> shape_test" where
  "any_of f [] b = (False, b)"
| "any_of f (x # xs) b =
    (case f x b of (ok, b') \<Rightarrow> if ok then (True, b') else if bg_limit b' then (False, b') else any_of f xs b')"

fun count_of :: "(json list \<Rightarrow> shape_test) \<Rightarrow> json list list \<Rightarrow> nat \<Rightarrow> shape_test" where
  "count_of f [] n b = (n = 1, b)"
| "count_of f (x # xs) n b =
    (case f x b of (ok, b') \<Rightarrow>
       if bg_limit b' then (False, b') else count_of f xs (if ok then n + 1 else n) b')"

definition nodes :: "json list \<Rightarrow> (string \<times> json) list list" where
  "nodes parts = concat (map (\<lambda>p. case p of JObj node \<Rightarrow> [node] | _ \<Rightarrow> []) parts)"

definition known_children :: "(string \<times> json) list list \<Rightarrow> string \<Rightarrow> json list" where
  "known_children ns key =
    concat (map (\<lambda>node. case fld node ''properties'' of
       JObj props \<Rightarrow> (if has_key props key then [fld props key] else []) | _ \<Rightarrow> []) ns)"

definition object_shape :: "(string \<times> json) list list \<Rightarrow> bool" where
  "object_shape ns \<longleftrightarrow> list_ex (\<lambda>node. (case fld node ''properties'' of JObj _ \<Rightarrow> True | _ \<Rightarrow> False)
      \<or> fld node ''type'' = JStr ''object'') ns"

definition deny_extras :: "(string \<times> json) list list \<Rightarrow> bool" where
  "deny_extras ns \<longleftrightarrow>
    list_ex (\<lambda>node. has_key node ''additionalProperties'' \<and> fld node ''additionalProperties'' = JBool False) ns"

definition extra_children :: "(string \<times> json) list list \<Rightarrow> json list" where
  "extra_children ns = concat (map (\<lambda>node.
     if has_key node ''additionalProperties'' \<and> fld node ''additionalProperties'' \<noteq> JBool False
     then [fld node ''additionalProperties''] else []) ns)"

definition match_node :: "(json list \<Rightarrow> json \<Rightarrow> shape_test) \<Rightarrow> json \<Rightarrow> (string \<times> json) list \<Rightarrow> shape_test" where
  "match_node rec val node =
    st_and (atomic_shape node val)
      (case val of
         JArr entries \<Rightarrow>
           if has_key node ''items'' then st_all (rec [fld node ''items'']) entries else st_bool True
       | _ \<Rightarrow> st_bool True)"

definition match_member ::
  "(json list \<Rightarrow> json \<Rightarrow> shape_test) \<Rightarrow> (string \<times> json) list list \<Rightarrow> string \<times> json \<Rightarrow> shape_test" where
  "match_member rec ns kv = (case kv of (key, child) \<Rightarrow>
     let known = known_children ns key;
         constraints = (if known = [] then extra_children ns else known)
     in if known = [] \<and> (deny_extras ns \<or> extra_children ns = []) then st_bool False
        else st_and (spend (length key + 1)) (rec constraints child))"

definition match_flat :: "(json list \<Rightarrow> json \<Rightarrow> shape_test) \<Rightarrow> json list \<Rightarrow> json \<Rightarrow> shape_test" where
  "match_flat rec parts val =
    (let ns = nodes parts
     in st_and (st_all (match_node rec val) ns)
         (st_and (case val of
             JObj m \<Rightarrow> if object_shape ns then st_all (match_member rec ns) m else st_bool True
           | _ \<Rightarrow> st_bool True) st_open))"

definition match_step ::
  "(string \<times> json) list \<Rightarrow> (json list \<Rightarrow> json \<Rightarrow> shape_test) \<Rightarrow> json list \<Rightarrow> json \<Rightarrow> shape_test" where
  "match_step defs rec parts val b =
    (case spend (length parts + 1) b of (ok, b') \<Rightarrow>
       if \<not> ok then st_limit b'
       else (case expand defs [] parts of
          Reject \<Rightarrow> (False, b')
        | Expand parts' \<Rightarrow> rec parts' val b'
        | AnyOf alts \<Rightarrow> any_of (\<lambda>ps. rec ps val) alts b'
        | OneOf alts \<Rightarrow> count_of (\<lambda>ps. rec ps val) alts 0 b'
        | Flat \<Rightarrow> match_flat rec parts val b'))"

text \<open>The first argument is the depth that is left: \<open>depth > maxShapeDepth\<close> is zero.\<close>

primrec match_shape :: "(string \<times> json) list \<Rightarrow> nat \<Rightarrow> json list \<Rightarrow> json \<Rightarrow> shape_test" where
  "match_shape defs 0 = (\<lambda>parts val. st_limit)"
| "match_shape defs (Suc n) = match_step defs (match_shape defs n)"

record native_shapes =
  ns_schemas :: "(string \<times> json) list"
  ns_definitions :: "(string \<times> json) list"
  ns_tokens :: "string \<Rightarrow> json_token list"

definition match_value :: "native_shapes \<Rightarrow> json \<Rightarrow> json \<Rightarrow> bool \<times> shape_budget" where
  "match_value sh schema val =
    match_shape (ns_definitions sh) (Suc max_shape_depth) [schema] val fresh_budget"

definition shape_object :: "native_shapes \<Rightarrow> string \<Rightarrow> string \<Rightarrow> shape_error + (string \<times> json) list" where
  "shape_object sh name raw =
    (if \<not> has_key (ns_schemas sh) name then Inl ShapeProtocol
     else case strict_decode (ns_tokens sh) raw of
       Inl e \<Rightarrow> Inl e
     | Inr val \<Rightarrow>
       (case match_value sh (fld (ns_schemas sh) name) val of (ok, b) \<Rightarrow>
          if \<not> ok then (if bg_limit b then Inl ShapeLimit else Inl ShapeProtocol)
          else (case val of JObj m \<Rightarrow> Inr m | _ \<Rightarrow> Inl ShapeProtocol)))"

section \<open>Bounds\<close>

definition budget_le :: "shape_budget \<Rightarrow> shape_budget \<Rightarrow> bool" where
  "budget_le b b' \<longleftrightarrow> bg_work b \<le> bg_work b' \<and> (bg_limit b \<longrightarrow> bg_limit b')
    \<and> (bg_work b \<le> max_shape_work \<longrightarrow> bg_work b' \<le> max_shape_work)"

lemma budget_le_refl [simp]: "budget_le b b"
  by (simp add: budget_le_def)

lemma budget_le_trans: "budget_le a b \<Longrightarrow> budget_le b c \<Longrightarrow> budget_le a c"
  by (auto simp: budget_le_def)

definition within_budget :: "shape_test \<Rightarrow> bool" where
  "within_budget t \<longleftrightarrow> (\<forall>b. budget_le b (snd (t b)))"

lemma withinD: "within_budget t \<Longrightarrow> t b = (ok, b') \<Longrightarrow> budget_le b b'"
  by (metis within_budget_def snd_conv)

named_theorems budget_intros \<open>tests that stay within the budget\<close>

lemma within_st_bool [budget_intros]: "within_budget (st_bool p)"
  by (simp add: within_budget_def st_bool_def)

lemma within_st_limit [budget_intros]: "within_budget st_limit"
  by (simp add: within_budget_def st_limit_def budget_le_def)

lemma within_st_open [budget_intros]: "within_budget st_open"
  by (simp add: within_budget_def st_open_def)

lemma within_spend [budget_intros]: "within_budget (spend n)"
  by (auto simp: within_budget_def spend_def budget_le_def)

lemma within_st_and [budget_intros]:
  assumes "within_budget f" and "within_budget g"
  shows "within_budget (st_and f g)"
  unfolding within_budget_def
proof
  fix b
  obtain ok b' where f: "f b = (ok, b')" by fastforce
  obtain ok' b'' where g: "g b' = (ok', b'')" by fastforce
  show "budget_le b (snd (st_and f g b))"
    using withinD [OF assms(1) f] withinD [OF assms(2) g] budget_le_trans
    by (simp add: st_and_def f g)
qed

lemma within_st_all [budget_intros]: "(\<And>x. x \<in> set xs \<Longrightarrow> within_budget (f x)) \<Longrightarrow> within_budget (st_all f xs)"
  by (induction xs) (simp_all add: budget_intros)

lemma within_if [budget_intros]: "within_budget f \<Longrightarrow> within_budget g \<Longrightarrow> within_budget (if p then f else g)"
  by simp

lemma within_any_of:
  assumes "\<And>x. within_budget (f x)"
  shows "within_budget (any_of f xs)"
proof (induction xs)
  case Nil
  show ?case by (simp add: within_budget_def)
next
  case (Cons x xs)
  show ?case unfolding within_budget_def
  proof
    fix b
    obtain ok b' where f: "f x b = (ok, b')" by fastforce
    have "budget_le b b'" "budget_le b' (snd (any_of f xs b'))"
      using withinD [OF assms f] Cons by (simp_all add: within_budget_def)
    then show "budget_le b (snd (any_of f (x # xs) b))" using budget_le_trans by (simp add: f)
  qed
qed

lemma within_count_of:
  assumes "\<And>x. within_budget (f x)"
  shows "within_budget (count_of f xs n)"
proof (induction xs arbitrary: n)
  case Nil
  show ?case by (simp add: within_budget_def)
next
  case (Cons x xs)
  show ?case unfolding within_budget_def
  proof
    fix b
    obtain ok b' where f: "f x b = (ok, b')" by fastforce
    have "budget_le b b'" "budget_le b' (snd (count_of f xs m b'))" for m
      using withinD [OF assms f] Cons by (simp_all add: within_budget_def)
    then show "budget_le b (snd (count_of f (x # xs) n b))" using budget_le_trans by (simp add: f)
  qed
qed

lemma within_atomic [budget_intros]: "within_budget (atomic_shape node val)"
proof -
  have "within_budget (length_ok node val)"
    by (auto simp: length_ok_def intro!: budget_intros split: json.splits option.splits)
  moreover have "within_budget (number_ok node val)"
  proof (cases val)
    case (JNum number)
    show ?thesis unfolding number_ok_def JNum json.case Let_def
      by (intro budget_intros) (auto intro!: budget_intros split: option.splits)
  qed (simp_all add: number_ok_def budget_intros)
  ultimately show ?thesis by (simp add: atomic_shape_def budget_intros)
qed

lemma within_match_node:
  assumes "\<And>ps v. within_budget (rec ps v)"
  shows "within_budget (match_node rec val node)"
proof -
  have "within_budget (st_all (rec ps) entries)" for ps entries
    by (intro budget_intros assms)
  then show ?thesis unfolding match_node_def
    by (intro budget_intros) (cases val, simp_all add: budget_intros)
qed

lemma within_match_member:
  assumes "\<And>ps v. within_budget (rec ps v)"
  shows "within_budget (match_member rec ns kv)"
  by (cases kv) (simp add: match_member_def Let_def budget_intros assms)

lemma within_match_flat:
  assumes "\<And>ps v. within_budget (rec ps v)"
  shows "within_budget (match_flat rec parts val)"
proof -
  have a: "within_budget (st_all (match_node rec val) xs)" for xs
    by (intro budget_intros within_match_node assms)
  have b: "within_budget (st_all (match_member rec ns) m)" for ns m
    by (intro budget_intros within_match_member assms)
  show ?thesis unfolding match_flat_def Let_def
    by (intro budget_intros a) (cases val, simp_all add: budget_intros b)
qed

lemma within_match_shape: "within_budget (match_shape defs n parts val)"
proof (induction n arbitrary: parts val)
  case 0
  show ?case by (simp add: budget_intros)
next
  case (Suc n)
  show ?case unfolding within_budget_def match_shape.simps
  proof
    fix b
    obtain ok b' where sp: "spend (length parts + 1) b = (ok, b')" by fastforce
    have 1: "budget_le b b'" by (rule withinD [OF within_spend sp])
    have 2: "budget_le b' (snd (t b'))" if "within_budget t" for t using that by (simp add: within_budget_def)
    have tests: "budget_le b (snd (st_limit b'))"
      "budget_le b (snd (match_flat (match_shape defs n) parts val b'))"
      "budget_le b (snd (any_of (\<lambda>ps. match_shape defs n ps val) alts b'))"
      "budget_le b (snd (count_of (\<lambda>ps. match_shape defs n ps val) alts 0 b'))"
      "budget_le b (snd (match_shape defs n ps val b'))" for alts ps
      by (rule budget_le_trans [OF 1 2], rule within_st_limit within_match_flat within_any_of within_count_of Suc,
          (rule Suc)?)+
    show "budget_le b (snd (match_step defs (match_shape defs n) parts val b))"
      using 1 tests by (simp add: match_step_def sp [simplified] split: expansion.split)
  qed
qed

section \<open>Acceptance never hides an exceeded limit\<close>

definition honest :: "shape_test \<Rightarrow> bool" where
  "honest t \<longleftrightarrow> (\<forall>b b'. t b = (True, b') \<longrightarrow> \<not> bg_limit b \<longrightarrow> \<not> bg_limit b')"

lemma honest_any_of: "(\<And>x. honest (f x)) \<Longrightarrow> honest (any_of f xs)"
proof (induction xs)
  case (Cons x xs)
  then have "honest (f x)" "honest (any_of f xs)" by simp_all
  then show ?case by (auto simp: honest_def split: prod.splits if_splits)
qed (simp add: honest_def)

lemma honest_count_of: "honest (count_of f xs n)"
  by (induction xs arbitrary: n) (auto simp: honest_def split: prod.splits if_splits)

lemma honest_flat: "honest (match_flat rec parts val)"
proof -
  have "st_and f g b = (True, b') \<Longrightarrow> \<exists>b1. g b1 = (True, b')" for f g b b'
    by (auto simp: st_and_def split: prod.splits if_splits)
  then show ?thesis unfolding honest_def match_flat_def Let_def st_open_def [abs_def] by blast
qed

lemma honest_match_shape: "honest (match_shape defs n parts val)"
proof (induction n arbitrary: parts val)
  case 0
  show ?case by (simp add: honest_def st_limit_def)
next
  case (Suc n)
  show ?case unfolding honest_def match_shape.simps
  proof (intro allI impI)
    fix b b' assume run: "match_step defs (match_shape defs n) parts val b = (True, b')" and open_b: "\<not> bg_limit b"
    obtain ok b1 where sp: "spend (length parts + 1) b = (ok, b1)" by fastforce
    with run have ok: ok by (auto simp: match_step_def st_limit_def split: if_splits)
    then have o1: "\<not> bg_limit b1" using sp open_b by (auto simp: spend_def split: if_splits)
    have "honest (any_of (\<lambda>ps. match_shape defs n ps val) alts)" for alts by (rule honest_any_of [OF Suc])
    then show "\<not> bg_limit b'"
      using run sp ok o1 Suc honest_count_of honest_flat unfolding honest_def
      by (auto simp: match_step_def split: expansion.splits)
  qed
qed

text \<open>Matching a frame against a pinned shape is bounded: whatever the schema and the value, the
  work stays within its limit, and a value is accepted only if no limit was hit on the way.\<close>

theorem match_value_bounded:
  "bg_work (snd (match_value sh schema val)) \<le> max_shape_work
   \<and> (fst (match_value sh schema val) \<longrightarrow> \<not> bg_limit (snd (match_value sh schema val)))"
proof -
  have "budget_le fresh_budget (snd (match_value sh schema val))"
    using within_match_shape by (simp add: within_budget_def match_value_def del: match_shape.simps)
  moreover have "honest (match_shape (ns_definitions sh) (Suc max_shape_depth) [schema] val)"
    by (rule honest_match_shape)
  ultimately show ?thesis
    unfolding match_value_def
    by (cases "match_shape (ns_definitions sh) (Suc max_shape_depth) [schema] val fresh_budget")
      (auto simp: budget_le_def fresh_budget_def honest_def)
qed

section \<open>Closed objects\<close>

definition closed_node :: "(string \<times> json) list \<Rightarrow> (string \<times> json) list \<Rightarrow> bool" where
  "closed_node node props \<longleftrightarrow> list_all (\<lambda>(k, _). k \<in> {''additionalProperties'', ''properties'', ''required'', ''type''}) node
    \<and> fld node ''properties'' = JObj props \<and> has_key node ''additionalProperties''
    \<and> fld node ''additionalProperties'' = JBool False"

lemma fld_absent: "list_all (\<lambda>(k, _). k \<in> A) node \<Longrightarrow> k \<notin> A \<Longrightarrow> fld node k = JNull"
  by (induction node) auto

lemma closed_node_flat:
  assumes "closed_node node props"
  shows "expand defs [] [JObj node] = Flat"
proof -
  have keys: "list_all (\<lambda>(k, _). k \<in> {''additionalProperties'', ''properties'', ''required'', ''type''}) node"
    using assms by (simp add: closed_node_def)
  have sub: "{''additionalProperties'', ''properties'', ''required'', ''type''} \<subseteq> set schema_keys"
    by (simp add: schema_keys_def)
  have "list_all (\<lambda>(k, _). k \<in> set schema_keys) node"
    using keys sub unfolding list_all_iff by blast
  moreover have "fld node ''$ref'' = JNull" "fld node ''allOf'' = JNull" "fld node ''anyOf'' = JNull" "fld node ''oneOf'' = JNull"
    by (rule fld_absent [OF keys], simp)+
  ultimately show ?thesis by (simp add: expand_node_def)
qed

lemma st_and_True: "fst (st_and f g b) \<Longrightarrow> fst (f b) \<and> fst (g (snd (f b)))"
  by (auto simp: st_and_def split: prod.splits if_splits)

lemma st_all_member:
  "fst (st_all f xs b) \<Longrightarrow> x \<in> set xs \<Longrightarrow> \<exists>b'. fst (f x b')"
proof (induction xs arbitrary: b)
  case (Cons y ys)
  from Cons.prems(1) have "fst (f y b) \<and> fst (st_all f ys (snd (f y b)))"
    using st_and_True [of "f y" "st_all f ys" b] by simp
  then show ?case using Cons.IH Cons.prems(2) by auto
qed simp

text \<open>C12. A closed object shape is closed: an accepted object has every required field and no field
  that the shape does not declare.\<close>

theorem closed_shape_exact:
  assumes closed: "closed_node node props" and ok: "fst (match_value sh (JObj node) (JObj m))"
  shows "(\<forall>(k, v) \<in> set m. has_key props k)
    \<and> (\<forall>names k. fld node ''required'' = JArr names \<longrightarrow> JStr k \<in> set names \<longrightarrow> has_key m k)"
proof -
  define rec where "rec = match_shape (ns_definitions sh) max_shape_depth"
  have "fst (match_step (ns_definitions sh) rec [JObj node] (JObj m) fresh_budget)"
    using ok by (simp add: match_value_def rec_def)
  then obtain b where flat: "fst (match_flat rec [JObj node] (JObj m) b)"
    using closed_node_flat [OF closed] by (auto simp: match_step_def st_limit_def split: prod.splits if_splits)
  have ns: "nodes [JObj node] = [node]" by (simp add: nodes_def)
  have shape: "object_shape [node]" "deny_extras [node]"
    using closed by (simp_all add: object_shape_def deny_extras_def closed_node_def)
  have "match_flat rec [JObj node] (JObj m) =
      st_and (st_all (match_node rec (JObj m)) [node]) (st_and (st_all (match_member rec [node]) m) st_open)"
    by (simp add: match_flat_def ns shape Let_def)
  then obtain b1 where first: "fst (st_all (match_node rec (JObj m)) [node] b)"
    and rest: "fst (st_and (st_all (match_member rec [node]) m) st_open b1)"
    using flat st_and_True by metis
  obtain b0 where head: "fst (match_node rec (JObj m) node b0)"
    using st_all_member [OF first] by (metis list.set_intros(1))
  obtain b2 where members: "fst (st_all (match_member rec [node]) m b2)"
    using st_and_True [OF rest] by blast
  have "has_key props k" if kv: "(k, v) \<in> set m" for k v
  proof (rule ccontr)
    assume "\<not> has_key props k"
    then have "known_children [node] k = []"
      using closed by (simp add: known_children_def closed_node_def)
    then have "match_member rec [node] (k, v) = st_bool False"
      by (simp add: match_member_def shape(2))
    then show False using st_all_member [OF members kv] by (simp add: st_bool_def)
  qed
  moreover have "required_ok node (JObj m)"
    using head by (auto simp: match_node_def atomic_shape_def st_and_def st_bool_def split: prod.splits if_splits)
  ultimately show ?thesis by (fastforce simp: required_ok_def list_all_iff)
qed

section \<open>Strict decoding\<close>

fun distinct_keys :: "json \<Rightarrow> bool" where
  "distinct_keys (JArr xs) = list_all distinct_keys xs"
| "distinct_keys (JObj m) = (distinct (map fst m) \<and> list_all (\<lambda>(k, v). distinct_keys v) m)"
| "distinct_keys v = True"

definition scalar_tokens :: "json_token list \<Rightarrow> bool" where
  "scalar_tokens ts \<longleftrightarrow> (\<forall>v. TScalar v \<in> set ts \<longrightarrow> distinct_keys v)"

lemma strict_consumes:
  "strict_value n depth ts b = Inr (v, r, b') \<Longrightarrow> length r < length ts \<and> set r \<subseteq> set ts"
  "strict_members n depth m ts b = Inr (v, r, b') \<Longrightarrow> length r < length ts \<and> set r \<subseteq> set ts"
  "strict_elements n depth xs ts b = Inr (v, r, b') \<Longrightarrow> length r < length ts \<and> set r \<subseteq> set ts"
proof (induction n depth ts b and n depth m ts b and n depth xs ts b
    arbitrary: v r b' and v r b' and v r b'
    rule: strict_value_strict_members_strict_elements.induct)
  case (2 n depth ts b)
  then show ?case
    by (auto split: if_splits prod.splits list.splits json_token.splits) fastforce+
next
  case (4 n depth m ts b)
  then show ?case
    by (auto split: if_splits list.splits json_token.splits json.splits sum.splits prod.splits) fastforce+
next
  case (6 n depth xs ts b)
  then show ?case
    by (auto split: if_splits list.splits json_token.splits sum.splits prod.splits) fastforce+
qed simp_all

lemma scalar_tokens_subset: "scalar_tokens ts \<Longrightarrow> set r \<subseteq> set ts \<Longrightarrow> scalar_tokens r"
  by (auto simp: scalar_tokens_def)

lemma strict_distinct:
  "strict_value n depth ts b = Inr (v, r, b') \<Longrightarrow> scalar_tokens ts \<Longrightarrow> distinct_keys v"
  "strict_members n depth m ts b = Inr (v, r, b') \<Longrightarrow> scalar_tokens ts \<Longrightarrow> distinct_keys (JObj m) \<Longrightarrow> distinct_keys v"
  "strict_elements n depth xs ts b = Inr (v, r, b') \<Longrightarrow> scalar_tokens ts \<Longrightarrow> distinct_keys (JArr xs) \<Longrightarrow> distinct_keys v"
proof (induction n depth ts b and n depth m ts b and n depth xs ts b
    arbitrary: v r b' and v r b' and v r b'
    rule: strict_value_strict_members_strict_elements.induct)
  case (2 n depth ts b)
  obtain ok b1 where sp: "spend 1 b = (ok, b1)" by fastforce
  with 2 show ?case
    by (cases ts; cases "hd ts") (auto simp: scalar_tokens_def split: if_splits)
next
  case (4 n depth m ts b)
  show ?case
  proof (cases "more_tokens ts")
    case True
    with 4(3) obtain k rest where ts: "ts = TScalar (JStr k) # rest" and new: "\<not> has_key m k"
      by (auto split: list.splits json_token.splits json.splits if_splits)
    from 4(3) True ts new obtain w r1 b1 where w: "strict_value n (depth + 1) rest b = Inr (w, r1, b1)"
      and go: "strict_members n depth (m @ [(k, w)]) r1 b1 = Inr (v, r, b')"
      by (auto split: sum.splits)
    have sc: "scalar_tokens rest" "scalar_tokens r1"
      using 4(4) strict_consumes(1) [OF w] unfolding ts scalar_tokens_def by auto
    have dw: "distinct_keys w" using 4(1) [OF True ts refl refl new w sc(1)] .
    have "k \<notin> set (map fst m)" using new by (auto simp: has_key_def map_of_eq_None_iff)
    then have "distinct_keys (JObj (m @ [(k, w)]))" using 4(5) dw by simp
    then show ?thesis using 4(2) True ts new w go sc(2) by blast
  qed (use 4(3,5) in \<open>auto split: list.splits json_token.splits\<close>)
next
  case (6 n depth xs ts b)
  show ?case
  proof (cases "more_tokens ts")
    case True
    with 6(3) obtain w r1 b1 where w: "strict_value n (depth + 1) ts b = Inr (w, r1, b1)"
      and go: "strict_elements n depth (xs @ [w]) r1 b1 = Inr (v, r, b')"
      by (auto split: sum.splits)
    have sc: "scalar_tokens r1" using 6(4) strict_consumes(1) [OF w] scalar_tokens_subset by blast
    have dw: "distinct_keys w" using 6(1) [OF True w 6(4)] .
    then have "distinct_keys (JArr (xs @ [w]))" using 6(5) by simp
    then show ?thesis using 6(2) True w go sc by blast
  qed (use 6(3,5) in \<open>auto split: list.splits json_token.splits\<close>)
qed simp_all

lemma strict_fuel:
  "2 * length ts + 1 \<le> n \<Longrightarrow> strict_value (Suc n) depth ts b = strict_value n depth ts b"
  "2 * length ts + 1 \<le> n \<Longrightarrow> strict_members (Suc n) depth m ts b = strict_members n depth m ts b"
  "2 * length ts + 2 \<le> n \<Longrightarrow> strict_elements (Suc n) depth xs ts b = strict_elements n depth xs ts b"
proof (induction n depth ts b and n depth m ts b and n depth xs ts b
    rule: strict_value_strict_members_strict_elements.induct)
  case (2 n depth ts b)
  obtain ok b1 where sp: "spend 1 b = (ok, b1)" by fastforce
  show ?case
  proof (cases ts)
    case (Cons t rest)
    have a: "2 * length rest + 1 \<le> n" "2 * length rest + 2 \<le> n" using 2(3) Cons by simp_all
    have "depth \<le> max_shape_depth \<Longrightarrow> ok \<Longrightarrow> t = TObj \<Longrightarrow>
        strict_members (Suc n) depth [] rest b1 = strict_members n depth [] rest b1"
      using 2(1) [OF _ sp [symmetric] _ Cons] a by simp
    moreover have "depth \<le> max_shape_depth \<Longrightarrow> ok \<Longrightarrow> t = TArr \<Longrightarrow>
        strict_elements (Suc n) depth [] rest b1 = strict_elements n depth [] rest b1"
      using 2(2) [OF _ sp [symmetric] _ Cons] a by simp
    ultimately show ?thesis using sp Cons
      by (cases t) (simp_all del: strict_members.simps strict_elements.simps)
  qed (simp split: prod.split)
next
  case (4 n depth m ts b)
  show ?case
  proof (cases "more_tokens ts \<and> (\<exists>k rest. ts = TScalar (JStr k) # rest \<and> \<not> has_key m k)")
    case True
    then obtain k rest where ts: "ts = TScalar (JStr k) # rest" and new: "\<not> has_key m k" and mo: "more_tokens ts" by blast
    have v: "strict_value (Suc n) (depth + 1) rest b = strict_value n (depth + 1) rest b"
      using 4(1) [OF mo ts refl refl new] 4(3) ts by simp
    show ?thesis
    proof (cases "strict_value n (depth + 1) rest b")
      case (Inl e)
      then show ?thesis using v mo ts new by (simp del: strict_value.simps)
    next
      case (Inr x)
      obtain w r1 b1 where x: "x = (w, r1, b1)" by (cases x)
      have len: "length r1 < length rest" using strict_consumes(1) Inr x by blast
      have "strict_members (Suc n) depth (m @ [(k, w)]) r1 b1 = strict_members n depth (m @ [(k, w)]) r1 b1"
        using 4(2) [OF mo ts refl refl new Inr x [symmetric] refl] len 4(3) ts by simp
      then show ?thesis using v mo ts new Inr x by (simp del: strict_value.simps strict_members.simps add: strict_members.simps(2))
    qed
  next
    case False
    then show ?thesis by (auto split: list.splits json_token.splits json.splits)
  qed
next
  case (6 n depth xs ts b)
  show ?case
  proof (cases "more_tokens ts")
    case True
    have v: "strict_value (Suc n) (depth + 1) ts b = strict_value n (depth + 1) ts b"
      using 6(1) [OF True] 6(3) by simp
    show ?thesis
    proof (cases "strict_value n (depth + 1) ts b")
      case (Inl e)
      then show ?thesis using v True by (simp del: strict_value.simps)
    next
      case (Inr x)
      obtain w r1 b1 where x: "x = (w, r1, b1)" by (cases x)
      have len: "length r1 < length ts" using strict_consumes(1) Inr x by blast
      have "strict_elements (Suc n) depth (xs @ [w]) r1 b1 = strict_elements n depth (xs @ [w]) r1 b1"
        using 6(2) [OF True Inr x [symmetric] refl] len 6(3) by simp
      then show ?thesis using v True Inr x by (simp del: strict_value.simps strict_elements.simps add: strict_elements.simps(2))
    qed
  qed simp
qed simp_all

lemma strict_fuel_more:
  "2 * length ts + 1 \<le> n \<Longrightarrow> strict_value (n + extra) depth ts b = strict_value n depth ts b"
  by (induction extra) (simp_all del: strict_value.simps add: strict_fuel(1))

text \<open>Strict decoding accepts only UTF-8 and only objects without duplicate keys, at every depth,
  and the fuel it is given is never the reason for its answer: any larger amount gives the same.\<close>

theorem strict_decode_sound:
  assumes ok: "strict_decode tokens raw = Inr v" and sc: "scalar_tokens (tokens raw)"
  shows "distinct_keys v \<and> valid_utf8 raw
    \<and> strict_value (decode_fuel (tokens raw) + extra) 0 (tokens raw) fresh_budget
        = strict_value (decode_fuel (tokens raw)) 0 (tokens raw) fresh_budget"
proof -
  obtain r b where run: "strict_value (decode_fuel (tokens raw)) 0 (tokens raw) fresh_budget = Inr (v, r, b)"
    and utf8: "valid_utf8 raw"
    using ok by (auto simp: strict_decode_def Let_def simp del: strict_value.simps split: if_splits sum.splits)
  moreover have "strict_value (decode_fuel (tokens raw) + extra) 0 (tokens raw) fresh_budget
      = strict_value (decode_fuel (tokens raw)) 0 (tokens raw) fresh_budget"
    by (rule strict_fuel_more) (simp add: decode_fuel_def)
  ultimately show ?thesis using strict_distinct(1) [OF run sc] by blast
qed

section \<open>Small inputs\<close>

definition sample_tokens :: "string \<Rightarrow> json_token list" where
  "sample_tokens raw = [TObj, TScalar (JStr ''a''), TArr, TScalar JNull, TArrEnd, TObjEnd]"

theorem strict_decode_sound_witness:
  "strict_decode sample_tokens ''x'' = Inr (JObj [(''a'', JArr [JNull])]) \<and> distinct_keys (JObj [(''a'', JArr [JNull])])"
proof -
  have fuel: "decode_fuel (sample_tokens ''x'') =
      Suc (Suc (Suc (Suc (Suc (Suc (Suc (Suc (Suc (Suc (Suc (Suc (Suc (Suc 0)))))))))))))"
    by (simp add: decode_fuel_def sample_tokens_def)
  have run: "strict_decode sample_tokens ''x'' = Inr (JObj [(''a'', JArr [JNull])])"
    unfolding strict_decode_def Let_def fuel
    by (simp add: valid_utf8_ascii byte_def sample_tokens_def fresh_budget_def spend_def max_shape_work_def
        max_shape_depth_def more_tokens_def)
  have sc: "scalar_tokens (sample_tokens ''x'')" by (simp add: scalar_tokens_def sample_tokens_def)
  show ?thesis using run strict_decode_sound [OF run sc] by blast
qed

definition sample_node :: "(string \<times> json) list" where
  "sample_node = [(''type'', JStr ''object''), (''properties'', JObj [(''a'', JObj [(''type'', JStr ''string'')])]),
     (''required'', JArr [JStr ''a'']), (''additionalProperties'', JBool False)]"

definition sample_shapes :: native_shapes where
  "sample_shapes = \<lparr>ns_schemas = [], ns_definitions = [], ns_tokens = sample_tokens\<rparr>"

lemma sample_closed: "closed_node sample_node [(''a'', JObj [(''type'', JStr ''string'')])]"
  by (simp add: closed_node_def sample_node_def)

lemma sample_accepted: "fst (match_value sample_shapes (JObj sample_node) (JObj [(''a'', JStr ''x'')]))"
proof -
  note c = sample_closed
  have keys: "list_all (\<lambda>(k, _). k \<in> set schema_keys) sample_node"
    "list_all (\<lambda>(k, _). k \<in> set schema_keys) [(''type'', JStr ''string'')]"
    by (simp_all add: sample_node_def schema_keys_def)
  have child: "expand [] [] [JObj [(''type'', JStr ''string'')]] = Flat"
    using keys(2) by (simp add: expand_node_def)
  have ns: "nodes [JObj sample_node] = [sample_node]"
    "nodes [JObj [(''type'', JStr ''string'')]] = [[(''type'', JStr ''string'')]]" by (simp_all add: nodes_def)
  have inner: "match_shape [] (Suc n) [JObj [(''type'', JStr ''string'')]] (JStr ''x'') b =
      (\<not> bg_limit b, b\<lparr>bg_work := bg_work b + 2\<rparr>)" if "bg_work b \<le> 100" "\<not> bg_limit b" for n b
  proof -
    have q: "\<not> 8388608 - bg_work b < Suc (Suc 0)" using that(1) by simp
    show ?thesis using that child q
    by (simp add: match_step_def match_flat_def match_node_def ns atomic_shape_def type_ok_def type_matches_def
        enum_ok_def required_ok_def length_ok_def number_ok_def st_and_def st_bool_def st_open_def spend_def
        max_shape_work_def object_shape_def Let_def ex_bool_eq del: expand.simps)
  qed
  have outer: "fst (match_shape [] (Suc (Suc n)) [JObj sample_node] (JObj [(''a'', JStr ''x'')]) fresh_budget)" for n
    unfolding match_shape.simps(2) [of "[]" "Suc n"] match_step_def
    using closed_node_flat [OF c, of "[]"]
    by (simp add: match_flat_def match_node_def ns atomic_shape_def type_ok_def type_matches_def
        enum_ok_def required_ok_def length_ok_def number_ok_def st_and_def st_bool_def st_open_def spend_def
        max_shape_work_def object_shape_def match_member_def known_children_def deny_extras_def fresh_budget_def
        Let_def inner sample_node_def nodes_def ex_bool_eq del: expand.simps match_shape.simps)
  show ?thesis
    unfolding match_value_def sample_shapes_def using outer [of 63]
    by (simp add: max_shape_depth_def del: match_shape.simps)
qed

theorem match_value_bounded_witness:
  "\<not> bg_limit (snd (match_value sample_shapes (JObj sample_node) (JObj [(''a'', JStr ''x'')])))"
  using match_value_bounded [of sample_shapes "JObj sample_node" "JObj [(''a'', JStr ''x'')]"] sample_accepted by blast

theorem closed_shape_exact_witness:
  "closed_node sample_node [(''a'', JObj [(''type'', JStr ''string'')])]
   \<and> has_key [(''a'', JObj [(''type'', JStr ''string'')])] ''a''"
  using sample_closed closed_shape_exact [OF sample_closed sample_accepted] by simp

end
