(* ===== verification/State_Exception.thy ===== *)
theory State_Exception
  imports Prelude
begin

text \<open>
  Stateful code that can fail: an action maps a state to an error or a value and to the state
  it leaves, also when it fails (a Go method that mutates its receiver before it returns an
  error). \<open>keeps\<close> is an invariant in every outcome, \<open>gives\<close> a postcondition on success.
\<close>

type_synonym ('s, 'e, 'a) action = "'s \<Rightarrow> ('e + 'a) \<times> 's"

definition ret :: "'a \<Rightarrow> ('s, 'e, 'a) action" where
  "ret a s = (Inr a, s)"

definition fail :: "'e \<Rightarrow> ('s, 'e, 'a) action" where
  "fail e s = (Inl e, s)"

definition andthen :: "('s, 'e, 'a) action \<Rightarrow> ('a \<Rightarrow> ('s, 'e, 'b) action) \<Rightarrow> ('s, 'e, 'b) action" where
  "andthen m f s = (case m s of (Inl e, s') \<Rightarrow> (Inl e, s') | (Inr a, s') \<Rightarrow> f a s')"

definition chain :: "('s, 'e, unit) action \<Rightarrow> ('s, 'e, 'b) action \<Rightarrow> ('s, 'e, 'b) action" where
  "chain m m' = andthen m (\<lambda>_. m')"

definition reads :: "('s \<Rightarrow> ('s, 'e, 'a) action) \<Rightarrow> ('s, 'e, 'a) action" where
  "reads f s = f s s"

definition modify :: "('s \<Rightarrow> 's) \<Rightarrow> ('s, 'e, unit) action" where
  "modify f s = (Inr (), f s)"

definition check :: "bool \<Rightarrow> 'e \<Rightarrow> ('s, 'e, unit) action" where
  "check ok e = (if ok then ret () else fail e)"

definition lift_result :: "'e + 'a \<Rightarrow> ('s, 'e, 'a) action" where
  "lift_result r s = (r, s)"

fun each :: "('x \<Rightarrow> ('s, 'e, unit) action) \<Rightarrow> 'x list \<Rightarrow> ('s, 'e, unit) action" where
  "each f [] = ret ()"
| "each f (x # xs) = chain (f x) (each f xs)"

section \<open>Running\<close>

named_theorems run_simps \<open>how actions run\<close>

lemma run_ret [run_simps]: "ret a s = (Inr a, s)" by (simp add: ret_def)
lemma run_fail [run_simps]: "fail e s = (Inl e, s)" by (simp add: fail_def)
lemma run_modify [run_simps]: "modify f s = (Inr (), f s)" by (simp add: modify_def)
lemma run_reads [run_simps]: "reads f s = f s s" by (simp add: reads_def)
lemma run_check [run_simps]: "check ok e s = (if ok then Inr () else Inl e, s)"
  by (simp add: check_def ret_def fail_def)
lemma run_lift [run_simps]: "lift_result r s = (r, s)" by (simp add: lift_result_def)

lemma andthen_Inr [run_simps]:
  "andthen m f s = (Inr b, t) \<longleftrightarrow> (\<exists>a u. m s = (Inr a, u) \<and> f a u = (Inr b, t))"
  by (auto simp: andthen_def split: prod.splits sum.splits)

lemma chain_Inr [run_simps]:
  "chain m m' s = (Inr b, t) \<longleftrightarrow> (\<exists>u. m s = (Inr (), u) \<and> m' u = (Inr b, t))"
  by (auto simp: chain_def andthen_Inr)

section \<open>Invariants\<close>

definition keeps :: "('s \<Rightarrow> bool) \<Rightarrow> ('s, 'e, 'a) action \<Rightarrow> bool" where
  "keeps I m \<longleftrightarrow> (\<forall>s. I s \<longrightarrow> I (snd (m s)))"

definition gives :: "('s \<Rightarrow> bool) \<Rightarrow> ('s, 'e, 'a) action \<Rightarrow> ('a \<Rightarrow> 's \<Rightarrow> bool) \<Rightarrow> bool" where
  "gives P m Q \<longleftrightarrow> (\<forall>s a t. P s \<longrightarrow> m s = (Inr a, t) \<longrightarrow> Q a t)"

named_theorems keeps_intros \<open>invariant rules\<close>

lemma keepsD: "keeps I m \<Longrightarrow> I s \<Longrightarrow> m s = (r, t) \<Longrightarrow> I t"
  by (metis keeps_def snd_conv)

lemma keeps_ret [keeps_intros]: "keeps I (ret a)" by (simp add: keeps_def ret_def)
lemma keeps_fail [keeps_intros]: "keeps I (fail e)" by (simp add: keeps_def fail_def)
lemma keeps_check [keeps_intros]: "keeps I (check ok e)" by (simp add: keeps_def check_def ret_def fail_def)
lemma keeps_lift [keeps_intros]: "keeps I (lift_result r)" by (simp add: keeps_def lift_result_def)

lemma keeps_modify: "(\<And>s. I s \<Longrightarrow> I (f s)) \<Longrightarrow> keeps I (modify f)"
  by (simp add: keeps_def modify_def)

lemma keeps_andthen [keeps_intros]:
  assumes "keeps I m" and "\<And>a. keeps I (f a)"
  shows "keeps I (andthen m f)"
  unfolding keeps_def
proof (intro allI impI)
  fix s assume s: "I s"
  obtain r t where m: "m s = (r, t)" by fastforce
  have "I t" by (rule keepsD [OF assms(1) s m])
  then show "I (snd (andthen m f s))"
    using assms(2) by (cases r) (simp_all add: andthen_def m keeps_def)
qed

lemma keeps_chain [keeps_intros]: "keeps I m \<Longrightarrow> keeps I m' \<Longrightarrow> keeps I (chain m m')"
  by (simp add: chain_def keeps_andthen)

lemma keeps_reads [keeps_intros]: "(\<And>x. keeps I (f x)) \<Longrightarrow> keeps I (reads f)"
  by (simp add: keeps_def reads_def)

lemma keeps_if [keeps_intros]: "keeps I m \<Longrightarrow> keeps I m' \<Longrightarrow> keeps I (if p then m else m')"
  by simp

lemma keeps_each [keeps_intros]: "(\<And>x. x \<in> set xs \<Longrightarrow> keeps I (f x)) \<Longrightarrow> keeps I (each f xs)"
  by (induction xs) (simp_all add: keeps_intros)

lemma keeps_option [keeps_intros]:
  "keeps I m \<Longrightarrow> (\<And>x. keeps I (f x)) \<Longrightarrow> keeps I (case v of None \<Rightarrow> m | Some x \<Rightarrow> f x)"
  by (cases v) simp_all

lemma keeps_sum [keeps_intros]:
  "(\<And>x. keeps I (f x)) \<Longrightarrow> (\<And>x. keeps I (g x)) \<Longrightarrow> keeps I (case v of Inl x \<Rightarrow> f x | Inr x \<Rightarrow> g x)"
  by (cases v) simp_all

lemma keeps_prod [keeps_intros]: "(\<And>x y. keeps I (f x y)) \<Longrightarrow> keeps I (case v of (x, y) \<Rightarrow> f x y)"
  by (cases v) simp_all

section \<open>Postconditions of both outcomes\<close>

definition leads :: "('s \<Rightarrow> bool) \<Rightarrow> ('s, 'e, 'a) action \<Rightarrow> ('a \<Rightarrow> 's \<Rightarrow> bool) \<Rightarrow> ('s \<Rightarrow> bool) \<Rightarrow> bool" where
  "leads P m Q E \<longleftrightarrow> (\<forall>s. P s \<longrightarrow> (case m s of (Inl _, t) \<Rightarrow> E t | (Inr a, t) \<Rightarrow> Q a t))"

lemma leadsD: "leads P m Q E \<Longrightarrow> P s \<Longrightarrow> (case m s of (Inl _, t) \<Rightarrow> E t | (Inr a, t) \<Rightarrow> Q a t)"
  by (simp add: leads_def)

lemma leads_chain: "leads P m (\<lambda>_. R) E \<Longrightarrow> leads R m' Q E \<Longrightarrow> leads P (chain m m') Q E"
  by (fastforce simp: leads_def chain_def andthen_def split: prod.split prod.splits sum.split sum.splits)

lemma leads_andthen: "leads P m R E \<Longrightarrow> (\<And>a. leads (R a) (f a) Q E) \<Longrightarrow> leads P (andthen m f) Q E"
  by (fastforce simp: leads_def andthen_def split: prod.split prod.splits sum.split sum.splits)

lemma leads_keeps: "keeps P m \<Longrightarrow> (\<And>s. P s \<Longrightarrow> E s) \<Longrightarrow> leads P m (\<lambda>_. P) E"
  by (fastforce simp: leads_def keeps_def split: prod.split sum.split)

lemma leads_modify: "(\<And>s. P s \<Longrightarrow> Q () (f s)) \<Longrightarrow> leads P (modify f) Q E"
  by (simp add: leads_def modify_def)

lemma leads_check: "(\<And>s. P s \<Longrightarrow> \<not> ok \<Longrightarrow> E s) \<Longrightarrow> leads P (check ok e) (\<lambda>_ s. P s \<and> ok) E"
  by (simp add: leads_def check_def ret_def fail_def)

lemma leads_fail: "(\<And>s. P s \<Longrightarrow> E s) \<Longrightarrow> leads P (fail e) Q E"
  by (simp add: leads_def fail_def)

lemma leads_ret: "(\<And>s. P s \<Longrightarrow> Q a s) \<Longrightarrow> leads P (ret a) Q E"
  by (simp add: leads_def ret_def)

lemma leads_reads: "(\<And>x. P x \<Longrightarrow> leads (\<lambda>s. s = x) (f x) Q E) \<Longrightarrow> leads P (reads f) Q E"
  by (simp add: leads_def reads_def)

lemma leads_pre: "leads P m Q E \<Longrightarrow> (\<And>s. P' s \<Longrightarrow> P s) \<Longrightarrow> leads P' m Q E"
  by (simp add: leads_def)

lemma leads_post: "leads P m Q E \<Longrightarrow> (\<And>a s. Q a s \<Longrightarrow> Q' a s) \<Longrightarrow> leads P m Q' E"
  by (fastforce simp: leads_def split: prod.split prod.splits sum.split sum.splits)

end
