(* ===== verification/Codex_Session.thy ===== *)
theory Codex_Session
  imports Codex_Shapes State_Exception
begin

text \<open>
  The state of one native turn and the checks on what the agent process says about it
  (\<open>internal/codexsession/state.go\<close>, \<open>failure.go\<close>, \<open>host_tools.go\<close>). Every method of \<open>sessionState\<close> is
  an action on the record \<open>session\<close>; errors leave the state as it is at that point, because
  \<open>Run\<close> still reports the outcome and the failure facts found there.

  Maps are association lists. The replies handed to the transport are kept in \<open>ss_sent\<close>. What is
  outside the reducer comes in with the environment: the pinned shapes, SHA-256, the options of
  the caller, whether the context is done at a check, whether \<open>Respond\<close> succeeds, the host's
  tool callback and the decoder of the final message.
\<close>

section \<open>State\<close>

datatype session_error =
  EProtocol | EInput | EPolicy | ECallback | ENative | EPermission | EOutput | EStateLimit
| EShapeLimit | EFrameLimit | ECancelled

datatype failure_check = NotChecked | Passed | Failed

record failure_facts =
  ff_phase :: string
  ff_boundary :: string
  ff_branch :: string
  ff_method :: string
  ff_method_sha :: string
  ff_shape :: failure_check
  ff_scope :: failure_check
  ff_item :: string
  ff_item_sha :: string

record thread_binding =
  bd_thread :: string
  bd_model :: string
  bd_provider :: string
  bd_path :: string
  bd_history :: string

record session_options =
  op_stdout_eof :: bool
  op_cwd :: string
  op_home :: string
  op_family :: string
  op_os :: string
  op_prompt :: string
  op_resume :: string
  op_tools :: "bool option"
  op_model_override :: string

record item_view =
  iv_id :: string
  iv_kind :: string
  iv_phase :: string
  iv_text :: string
  iv_hash :: string
  iv_completed :: bool
  iv_dynamic_final :: bool

record turn_view =
  tv_id :: string
  tv_status :: string
  tv_view :: string
  tv_hash :: string
  tv_items :: "item_view list"
  tv_error :: bool

record host_call =
  hc_claim :: string
  hc_requested :: bool
  hc_responded :: bool
  hc_result :: string

text \<open>\<open>rq_key\<close> is the JSON encoding of the request id, \<open>None\<close> when it has none.\<close>

record rpc_request =
  rq_key :: "string option"
  rq_method :: string
  rq_params :: string

record rpc_notification =
  no_method :: string
  no_params :: string

record sent_reply =
  sr_key :: string
  sr_method :: string
  sr_result :: json

record task_completion =
  tc_kind :: string
  tc_text :: string

record session =
  ss_phase :: string
  ss_binding :: thread_binding
  ss_turn :: string
  ss_status :: string
  ss_completion :: "task_completion option"
  ss_model :: json
  ss_effort :: json
  ss_tier :: json
  ss_callback_done :: bool
  ss_permission :: bool
  ss_provisional_thread :: string
  ss_provisional_turn :: string
  ss_thread_started :: "string option"
  ss_persistence :: "(string \<times> string) option"
  ss_started_turn :: "string option"
  ss_early_events :: nat
  ss_early_bytes :: nat
  ss_final_bytes :: nat
  ss_items :: "(string \<times> item_view) list"
  ss_requests :: "string list"
  ss_terminal :: "turn_view option"
  ss_failure :: failure_facts
  ss_calls :: "(string \<times> host_call) list"
  ss_pending :: "rpc_request list"
  ss_sent :: "sent_reply list"

record tool_call =
  to_thread :: string
  to_turn :: string
  to_call :: string
  to_tool :: string
  to_arguments :: string

record session_env =
  se_shapes :: native_shapes
  se_sha256 :: "string \<Rightarrow> string"
  se_options :: session_options
  se_cancelled :: "string \<Rightarrow> nat \<Rightarrow> bool"
  se_respond :: "string \<Rightarrow> bool"
  se_tool :: "tool_call \<Rightarrow> (string \<times> bool) option"
  se_completion :: "string \<Rightarrow> task_completion option"
  se_verify_config :: "string \<Rightarrow> bool"
  se_projection :: "(string \<times> json) list option"
  se_schema :: json
  se_instruction :: string

type_synonym 'a act = "(session, session_error, 'a) action"

definition max_early_events :: nat where "max_early_events = 32"
definition max_early_bytes :: nat where "max_early_bytes = 262144"
definition max_items :: nat where "max_items = 256"
definition max_final_bytes :: nat where "max_final_bytes = 65536"
definition max_scalar_bytes :: nat where "max_scalar_bytes = 256"
definition max_consumed_requests :: nat where "max_consumed_requests = 1024"
definition max_remote_requests :: nat where "max_remote_requests = 16"
definition max_tool_arguments :: nat where "max_tool_arguments = 65536"
definition max_tool_result :: nat where "max_tool_result = 262144"

definition no_failure :: failure_facts where
  "no_failure = \<lparr>ff_phase = ''none'', ff_boundary = [], ff_branch = [], ff_method = ''none'', ff_method_sha = [],
     ff_shape = NotChecked, ff_scope = NotChecked, ff_item = ''none'', ff_item_sha = []\<rparr>"

definition no_binding :: thread_binding where
  "no_binding = \<lparr>bd_thread = [], bd_model = [], bd_provider = [], bd_path = [], bd_history = []\<rparr>"

definition new_session :: session where
  "new_session = \<lparr>ss_phase = [], ss_binding = no_binding, ss_turn = [], ss_status = [], ss_completion = None,
     ss_model = JNull, ss_effort = JNull, ss_tier = JNull, ss_callback_done = False, ss_permission = False,
     ss_provisional_thread = [], ss_provisional_turn = [], ss_thread_started = None, ss_persistence = None,
     ss_started_turn = None, ss_early_events = 0, ss_early_bytes = 0, ss_final_bytes = 0, ss_items = [],
     ss_requests = [], ss_terminal = None, ss_failure = no_failure, ss_calls = [], ss_pending = [], ss_sent = []\<rparr>"

definition valid_scalar :: "string \<Rightarrow> bool" where
  "valid_scalar v \<longleftrightarrow> valid_utf8 v \<and> v \<noteq> [] \<and> length v \<le> max_scalar_bytes \<and> nul \<notin> set v \<and> \<not> blank v"

definition digest :: "session_env \<Rightarrow> json \<Rightarrow> string" where
  "digest env v = se_sha256 env (marshal v)"

definition rpc_id :: "json \<Rightarrow> string" where
  "rpc_id v = (case v of
     JNum n \<Rightarrow> (case parse_int 64 n of None \<Rightarrow> [] | Some i \<Rightarrow> dec_int i)
   | JStr t \<Rightarrow> enc_string t
   | _ \<Rightarrow> [])"

section \<open>Failure facts\<close>

definition failure_phase :: "string \<Rightarrow> string" where
  "failure_phase phase =
    (if phase \<in> {''initialize'', ''initialized'', ''config/read'', ''thread/start'', ''thread/resume'', ''binding'',
        ''turn/start'', ''running''} then phase else ''none'')"

definition after_colon :: "string \<Rightarrow> string option" where
  "after_colon key = (case dropWhile (\<lambda>c. c \<noteq> CHR '':'') key of [] \<Rightarrow> None | _ # r \<Rightarrow> Some r)"

definition note_failure :: "session_env \<Rightarrow> string \<Rightarrow> string \<Rightarrow> string \<Rightarrow> unit act" where
  "note_failure env boundary branch meth = modify (\<lambda>s.
     let known = list_ex (\<lambda>(key, _). after_colon key = Some meth) (ns_schemas (se_shapes env));
         name = (if meth = [] then ''none'' else if known then meth else ''other'');
         hash = (if meth \<noteq> [] \<and> \<not> known then se_sha256 env meth else [])
     in s\<lparr>ss_failure := \<lparr>ff_phase = failure_phase (ss_phase s), ff_boundary = boundary, ff_branch = branch,
          ff_method = name, ff_method_sha = hash, ff_shape = NotChecked, ff_scope = NotChecked,
          ff_item = ''none'', ff_item_sha = []\<rparr>\<rparr>)"

definition failure_branch :: "string \<Rightarrow> string \<Rightarrow> unit act" where
  "failure_branch boundary branch = modify (\<lambda>s. s\<lparr>ss_failure := (ss_failure s)\<lparr>ff_boundary := boundary,
     ff_branch := branch, ff_item := ''none'', ff_item_sha := []\<rparr>\<rparr>)"

definition item_kinds :: "string list" where
  "item_kinds = [''userMessage'', ''hookPrompt'', ''agentMessage'', ''functionCallOutput'', ''plan'', ''reasoning'',
     ''commandExecution'', ''fileChange'', ''mcpToolCall'', ''dynamicToolCall'', ''collabAgentToolCall'',
     ''subAgentActivity'', ''webSearch'', ''imageView'', ''sleep'', ''imageGeneration'', ''enteredReviewMode'',
     ''exitedReviewMode'', ''contextCompaction'']"

definition failure_item :: "session_env \<Rightarrow> string \<Rightarrow> unit act" where
  "failure_item env kind = modify (\<lambda>s. s\<lparr>ss_failure := (ss_failure s)\<lparr>
     ff_item := (if kind \<in> set item_kinds then kind else ''other''),
     ff_item_sha := (if kind \<in> set item_kinds then [] else se_sha256 env kind)\<rparr>\<rparr>)"

definition set_branch :: "string \<Rightarrow> unit act" where
  "set_branch branch = modify (\<lambda>s. s\<lparr>ss_failure := (ss_failure s)\<lparr>ff_branch := branch\<rparr>\<rparr>)"

definition set_shape :: "failure_check \<Rightarrow> unit act" where
  "set_shape c = modify (\<lambda>s. s\<lparr>ss_failure := (ss_failure s)\<lparr>ff_shape := c\<rparr>\<rparr>)"

definition set_scope :: "failure_check \<Rightarrow> unit act" where
  "set_scope c = modify (\<lambda>s. s\<lparr>ss_failure := (ss_failure s)\<lparr>ff_scope := c\<rparr>\<rparr>)"

definition check_shape :: "session_env \<Rightarrow> string \<Rightarrow> string \<Rightarrow> (string \<times> json) list act" where
  "check_shape env name raw =
    (case shape_object (se_shapes env) name raw of
       Inl ShapeProtocol \<Rightarrow> fail EProtocol
     | Inl ShapeLimit \<Rightarrow> fail EShapeLimit
     | Inr m \<Rightarrow> ret m)"

section \<open>Identities\<close>

definition thread_id :: "session_env \<Rightarrow> string \<Rightarrow> unit act" where
  "thread_id env i =
    chain (check (valid_scalar i) EProtocol) (reads (\<lambda>s.
      if bd_thread (ss_binding s) \<noteq> [] then check (bd_thread (ss_binding s) = i) EProtocol
      else chain (check (ss_phase s = ''thread/start'' \<or> ss_phase s = ''thread/resume'') EProtocol)
        (chain (check (\<not> (op_resume (se_options env) \<noteq> [] \<and> op_resume (se_options env) \<noteq> i
              \<or> ss_provisional_thread s \<noteq> [] \<and> ss_provisional_thread s \<noteq> i)) EProtocol)
          (modify (\<lambda>s. s\<lparr>ss_provisional_thread := i\<rparr>)))))"

definition turn_id :: "string \<Rightarrow> unit act" where
  "turn_id i = reads (\<lambda>s.
     chain (check (valid_scalar i \<and> bd_thread (ss_binding s) \<noteq> [] \<and> ss_callback_done s) EProtocol)
       (if ss_turn s \<noteq> [] then check (ss_turn s = i) EProtocol
        else chain (check (ss_phase s = ''turn/start''
                 \<and> \<not> (ss_provisional_turn s \<noteq> [] \<and> ss_provisional_turn s \<noteq> i)) EProtocol)
          (modify (\<lambda>s. s\<lparr>ss_provisional_turn := i\<rparr>))))"

definition scope :: "session_env \<Rightarrow> (string \<times> json) list \<Rightarrow> unit act" where
  "scope env m =
    chain (if fld m ''threadId'' \<noteq> JNull then thread_id env (str (fld m ''threadId'')) else ret ())
     (chain (if fld m ''turnId'' \<noteq> JNull then turn_id (str (fld m ''turnId'')) else ret ())
       (if fld m ''itemId'' \<noteq> JNull then check (valid_scalar (str (fld m ''itemId''))) EProtocol else ret ()))"

section \<open>Policy of a thread\<close>

definition read_only :: "(string \<times> json) list \<Rightarrow> bool" where
  "read_only m \<longleftrightarrow> fld m ''type'' = JStr ''readOnly''
     \<and> (fld m ''networkAccess'' = JNull \<or> fld m ''networkAccess'' = JBool False)"

definition policy_ok :: "session_env \<Rightarrow> (string \<times> json) list \<Rightarrow> string \<Rightarrow> bool" where
  "policy_ok env m sandbox \<longleftrightarrow> fld m ''cwd'' = JStr (op_cwd (se_options env))
     \<and> fld m ''approvalPolicy'' = JStr ''on-request'' \<and> fld m ''approvalsReviewer'' = JStr ''user''
     \<and> read_only (obj (fld m sandbox))"

definition workspace_roots :: "session_env \<Rightarrow> json \<Rightarrow> bool" where
  "workspace_roots env v \<longleftrightarrow> arr v = [JStr (op_cwd (se_options env))]"

definition environment_ok :: "session_env \<Rightarrow> (string \<times> json) list \<Rightarrow> bool" where
  "environment_ok env thread \<longleftrightarrow>
    (\<not> has_key thread ''environments'' \<or>
      (case arr (fld thread ''environments'') of
         [e] \<Rightarrow> fld (obj e) ''environmentId'' = JStr ''local'' \<and> fld (obj e) ''cwd'' = JStr (op_cwd (se_options env))
             \<and> workspace_roots env (fld (obj e) ''runtimeWorkspaceRoots'')
       | _ \<Rightarrow> False))"

definition thread_policy :: "session_env \<Rightarrow> json \<Rightarrow> (string \<times> json) list \<Rightarrow> string \<Rightarrow> bool" where
  "thread_policy env effort thread model \<longleftrightarrow>
     valid_scalar (str (fld thread ''id'')) \<and> valid_scalar (str (fld thread ''sessionId''))
     \<and> fld thread ''cwd'' = JStr (op_cwd (se_options env)) \<and> fld thread ''modelProvider'' = JStr ''openai''
     \<and> fld thread ''ephemeral'' = JBool False \<and> fld (obj (fld thread ''status'')) ''type'' = JStr ''idle''
     \<and> arr (fld thread ''turns'') = []
     \<and> environment_ok env thread
     \<and> fld thread ''extra'' = JNull
     \<and> (\<not> has_key thread ''canAcceptDirectInput'' \<or> fld thread ''canAcceptDirectInput'' = JBool True)
     \<and> (fld thread ''daybreakEnabled'' = JNull \<or> fld thread ''daybreakEnabled'' = JBool False)
     \<and> fld thread ''agentRole'' = JNull \<and> fld thread ''agentNickname'' = JNull
     \<and> fld thread ''parentThreadId'' = JNull \<and> fld thread ''forkedFromId'' = JNull
     \<and> fld (obj (fld thread ''source'')) ''subAgent'' = JNull
     \<and> \<not> (fld thread ''model'' \<noteq> JNull \<and> model \<noteq> [] \<and> fld thread ''model'' \<noteq> JStr model)
     \<and> \<not> (fld thread ''reasoningEffort'' \<noteq> JNull \<and> effort \<noteq> JNull \<and> fld thread ''reasoningEffort'' \<noteq> effort)"

definition check_thread :: "session_env \<Rightarrow> (string \<times> json) list \<Rightarrow> string \<Rightarrow> unit act" where
  "check_thread env thread model = reads (\<lambda>s.
     chain (check (thread_policy env (ss_effort s) thread model) EPolicy)
       (let p = (str (fld thread ''path''), str (fld thread ''historyMode''))
        in chain (check (ss_persistence s = None \<or> ss_persistence s = Some p) EProtocol)
             (modify (\<lambda>s. s\<lparr>ss_persistence := Some p\<rparr>))))"

definition check_settings :: "session_env \<Rightarrow> (string \<times> json) list \<Rightarrow> unit act" where
  "check_settings env m = reads (\<lambda>s.
     let mode = obj (fld m ''collaborationMode''); settings = obj (fld mode ''settings'')
     in check (bd_thread (ss_binding s) \<noteq> [] \<and> policy_ok env m ''sandboxPolicy''
          \<and> fld m ''model'' = JStr (bd_model (ss_binding s)) \<and> fld m ''modelProvider'' = JStr ''openai''
          \<and> fld m ''effort'' = ss_effort s \<and> fld m ''serviceTier'' = ss_tier s
          \<and> fld m ''activePermissionProfile'' = JNull \<and> fld m ''summary'' = JNull \<and> fld m ''personality'' = JNull
          \<and> fld mode ''mode'' = JStr ''default'' \<and> fld settings ''model'' = JStr (bd_model (ss_binding s))
          \<and> fld settings ''reasoning_effort'' = ss_effort s \<and> fld settings ''developer_instructions'' = JNull) EPolicy)"

section \<open>Host tools\<close>

definition tool_spec :: "string \<Rightarrow> string \<Rightarrow> string list \<Rightarrow> json" where
  "tool_spec name description required =
    JObj [(''type'', JStr ''function''), (''name'', JStr name), (''description'', JStr description),
      (''deferLoading'', JBool False),
      (''inputSchema'', JObj [(''type'', JStr ''object''),
         (''properties'', JObj (map (\<lambda>k. (k, JObj [(''type'', JStr ''string'')])) required)),
         (''required'', JArr (map JStr required)), (''additionalProperties'', JBool False)])]"

definition host_tool_specs :: "bool \<Rightarrow> json" where
  "host_tool_specs writable =
    JArr [JObj [(''type'', JStr ''namespace''), (''name'', JStr ''agent_bird''),
      (''description'', JStr ''Agent Bird constrained workspace tools v1''),
      (''tools'', JArr ([tool_spec ''read_file'' ''Read one bounded UTF-8 file and its SHA-256.'' [''path''],
          tool_spec ''list_files'' ''List one bounded directory in the authorized workspace.'' [''path'']]
        @ (if writable then [tool_spec ''write_file''
             ''Replace a bounded UTF-8 file only when expectedSHA256 matches; empty hash creates a new file.''
             [''path'', ''expectedSHA256'', ''content'']] else [])))]]"

definition tool_schema :: "bool \<Rightarrow> string \<Rightarrow> json" where
  "tool_schema writable tool =
    (case filter (\<lambda>t. fld (obj t) ''name'' = JStr tool)
        (arr (fld (obj (hd (arr (host_tool_specs writable)))) ''tools'')) of
       [] \<Rightarrow> JNull | t # ts \<Rightarrow> fld (obj (last (t # ts))) ''inputSchema'')"

definition call_of :: "session \<Rightarrow> string \<Rightarrow> host_call option" where
  "call_of s i = map_of (ss_calls s) i"

definition put_call :: "string \<Rightarrow> host_call \<Rightarrow> session \<Rightarrow> session" where
  "put_call i c s = s\<lparr>ss_calls := AList.update i c (ss_calls s)\<rparr>"

text \<open>\<open>hostToolClaim\<close> returns a pointer into the map; here the caller reads the entry again.\<close>

definition host_tool_claim :: "session_env \<Rightarrow> (string \<times> json) list \<Rightarrow> string \<Rightarrow> host_call act" where
  "host_tool_claim env m i =
    (case op_tools (se_options env) of
       None \<Rightarrow> fail EPolicy
     | Some writable \<Rightarrow>
       chain (check (fld m ''namespace'' = JStr ''agent_bird'' \<and> valid_scalar i) EPolicy)
        (let tool = str (fld m ''tool'')
         in chain (check (tool = ''read_file'' \<or> tool = ''list_files'' \<or> tool = ''write_file'' \<and> writable) EPolicy)
          (chain (check (length (marshal (fld m ''arguments'')) \<le> max_tool_arguments) EStateLimit)
           (chain (check (fst (match_value (se_shapes env) (tool_schema writable tool) (fld m ''arguments''))) EProtocol)
             (let claim = digest env (JObj [(''namespace'', fld m ''namespace''), (''tool'', JStr tool),
                    (''arguments'', fld m ''arguments'')])
              in reads (\<lambda>s. case call_of s i of
                   Some old \<Rightarrow> if hc_claim old \<noteq> claim then fail EProtocol else ret old
                 | None \<Rightarrow>
                     chain (check (length (ss_calls s) < max_items) EStateLimit)
                      (let c = \<lparr>hc_claim = claim, hc_requested = False, hc_responded = False, hc_result = []\<rparr>
                       in chain (modify (put_call i c)) (ret c))))))))"

definition tool_reply :: "string \<Rightarrow> bool \<Rightarrow> json" where
  "tool_reply text success =
    JObj [(''contentItems'', JArr [JObj [(''type'', JStr ''inputText''), (''text'', JStr text)]]), (''success'', JBool success)]"

definition respond :: "rpc_request \<Rightarrow> string \<Rightarrow> json \<Rightarrow> unit act" where
  "respond rq key reply = modify (\<lambda>s. s\<lparr>ss_sent := ss_sent s @
     [\<lparr>sr_key = key, sr_method = rq_method rq, sr_result = reply\<rparr>]\<rparr>)"

definition execute_host_tool ::
  "session_env \<Rightarrow> rpc_request \<Rightarrow> (string \<times> json) list \<Rightarrow> host_call option \<Rightarrow> unit act" where
  "execute_host_tool env rq m call = reads (\<lambda>s.
     let i = str (fld m ''callId''); key = (case rq_key rq of None \<Rightarrow> [] | Some k \<Rightarrow> k)
     in case call of
       None \<Rightarrow> fail EProtocol
     | Some c \<Rightarrow>
       chain (check (ss_terminal s = None \<and> ss_phase s = ''running'' \<and> ss_turn s \<noteq> []
            \<and> fld m ''turnId'' = JStr (ss_turn s) \<and> fld m ''threadId'' = JStr (bd_thread (ss_binding s))
            \<and> \<not> hc_responded c) EProtocol)
        (chain (check (\<not> se_cancelled env key 0) ECancelled)
          (case se_tool env \<lparr>to_thread = bd_thread (ss_binding s), to_turn = ss_turn s, to_call = i,
                  to_tool = str (fld m ''tool''), to_arguments = marshal (fld m ''arguments'')\<rparr> of
             None \<Rightarrow> fail ECallback
           | Some (text, success) \<Rightarrow>
             chain (check (valid_utf8 text \<and> length text \<le> max_tool_result) EStateLimit)
              (let reply = tool_reply text success
               in andthen (check_shape env ''response:item/tool/call'' (marshal reply)) (\<lambda>_.
                 chain (check (\<not> se_cancelled env key 1) ECancelled)
                  (chain (check (se_respond env key) EProtocol)
                   (chain (respond rq key reply)
                     (modify (put_call i (c\<lparr>hc_responded := True, hc_result := digest env reply\<rparr>))))))))))"

definition accept_host_tool :: "session_env \<Rightarrow> rpc_request \<Rightarrow> (string \<times> json) list \<Rightarrow> host_call \<Rightarrow> unit act" where
  "accept_host_tool env rq m c =
    chain (check (\<not> hc_requested c) EProtocol)
     (case rq_key rq of
        None \<Rightarrow> fail EProtocol
      | Some key \<Rightarrow> reads (\<lambda>s.
          chain (check (key \<notin> set (ss_requests s)) EProtocol)
           (chain (check (length (ss_requests s) < max_consumed_requests) EStateLimit)
            (chain (modify (\<lambda>s. put_call (str (fld m ''callId'')) (c\<lparr>hc_requested := True\<rparr>)
                 (s\<lparr>ss_requests := ss_requests s @ [key]\<rparr>)))
              (if ss_turn s = []
               then chain (check (length (ss_pending s) < max_remote_requests) EStateLimit)
                     (modify (\<lambda>s. s\<lparr>ss_pending := ss_pending s @ [rq]\<rparr>))
               else execute_host_tool env rq m (Some (c\<lparr>hc_requested := True\<rparr>)))))))"

definition host_tool_request :: "session_env \<Rightarrow> rpc_request \<Rightarrow> (string \<times> json) list \<Rightarrow> unit act" where
  "host_tool_request env rq m =
    andthen (host_tool_claim env m (str (fld m ''callId''))) (accept_host_tool env rq m)"

definition flush_host_tools :: "session_env \<Rightarrow> unit act" where
  "flush_host_tools env = reads (\<lambda>s.
     chain (modify (\<lambda>s. s\<lparr>ss_pending := []\<rparr>))
      (each (\<lambda>rq. andthen (check_shape env ''request:item/tool/call'' (rq_params rq)) (\<lambda>m.
         reads (\<lambda>s. execute_host_tool env rq m (call_of s (str (fld m ''callId'')))))) (ss_pending s)))"

definition host_tool_item :: "session_env \<Rightarrow> (string \<times> json) list \<Rightarrow> bool act" where
  "host_tool_item env m =
    andthen (host_tool_claim env m (str (fld m ''id''))) (\<lambda>c.
      if fld m ''status'' = JStr ''inProgress''
      then chain (check (fld m ''contentItems'' = JNull \<and> fld m ''success'' = JNull \<and> fld m ''durationMs'' = JNull) EProtocol)
            (ret False)
      else chain (check (hc_responded c \<and> digest env (JObj [(''contentItems'', fld m ''contentItems''),
              (''success'', fld m ''success'')]) = hc_result c) EProtocol)
        (chain (check (\<not> (fld m ''success'' = JBool True \<and> fld m ''status'' \<noteq> JStr ''completed''
               \<or> fld m ''success'' = JBool False \<and> fld m ''status'' \<noteq> JStr ''failed'')) EProtocol)
          (ret True)))"

section \<open>Items and turns\<close>

definition plain_kinds :: "string list" where
  "plain_kinds = [''userMessage'', ''reasoning'', ''plan'', ''commandExecution'', ''fileChange'', ''imageView'', ''contextCompaction'']"

definition read_item :: "session_env \<Rightarrow> json \<Rightarrow> item_view act" where
  "read_item env v =
    (let m = obj v;
         view = \<lparr>iv_id = str (fld m ''id''), iv_kind = str (fld m ''type''), iv_phase = [], iv_text = [],
                 iv_hash = digest env (JObj m), iv_completed = False, iv_dynamic_final = False\<rparr>
     in chain (failure_branch ''item'' ''view'')
       (chain (failure_item env (iv_kind view))
        (chain (check (valid_scalar (iv_id view)) EProtocol)
          (if iv_kind view = ''dynamicToolCall''
           then andthen (host_tool_item env m) (\<lambda>fin. ret (view\<lparr>iv_dynamic_final := fin\<rparr>))
           else if iv_kind view = ''agentMessage''
           then chain (check (fld m ''delivery'' = JNull \<and> arr (fld m ''questions'') = []) EOutput)
             (let phase = str (fld m ''phase''); text = (if phase \<noteq> ''commentary'' then str (fld m ''text'') else [])
              in chain (check (length text \<le> max_final_bytes) EStateLimit)
                  (ret (view\<lparr>iv_phase := phase, iv_text := text\<rparr>)))
           else if iv_kind view \<in> set plain_kinds
           then chain (check (fld m ''cwd'' = JNull \<or> fld m ''cwd'' = JStr (op_cwd (se_options env))) EPolicy)
             (chain (check (fld m ''pluginId'' = JNull \<and> fld m ''scriptPath'' = JNull) EPolicy) (ret view))
           else fail EProtocol))))"

definition item_of :: "session \<Rightarrow> string \<Rightarrow> item_view option" where
  "item_of s i = map_of (ss_items s) i"

definition store_item :: "item_view \<Rightarrow> bool \<Rightarrow> unit act" where
  "store_item view completed =
    chain (if completed
           then chain (modify (\<lambda>s. s\<lparr>ss_final_bytes := ss_final_bytes s + length (iv_text view)\<rparr>))
                 (reads (\<lambda>s. check (ss_final_bytes s \<le> max_final_bytes) EStateLimit))
           else ret ())
     (modify (\<lambda>s. s\<lparr>ss_items := AList.update (iv_id view)
        (view\<lparr>iv_text := (if completed then iv_text view else []), iv_completed := completed\<rparr>) (ss_items s)\<rparr>))"

definition put_item :: "session_env \<Rightarrow> item_view \<Rightarrow> bool \<Rightarrow> unit act" where
  "put_item env view completed =
    chain (check (\<not> (iv_kind view = ''dynamicToolCall'' \<and> iv_dynamic_final view \<noteq> completed)) EProtocol)
     (chain (failure_branch ''item'' ''lifecycle'')
      (chain (failure_item env (iv_kind view))
       (reads (\<lambda>s. case item_of s (iv_id view) of
          Some old \<Rightarrow>
            chain (check (iv_kind old = iv_kind view) EProtocol)
             (if iv_completed old then check (completed \<and> iv_hash old = iv_hash view) EProtocol
              else if \<not> completed then check (iv_hash old = iv_hash view) EProtocol
              else store_item view completed)
        | None \<Rightarrow>
            chain (check (ss_terminal s = None) EProtocol)
             (chain (check (length (ss_items s) < max_items) EStateLimit)
               (store_item view completed))))))"

fun read_items :: "session_env \<Rightarrow> json list \<Rightarrow> string list \<Rightarrow> nat \<Rightarrow> item_view list act" where
  "read_items env [] seen bytes = ret []"
| "read_items env (v # vs) seen bytes =
    andthen (read_item env v) (\<lambda>item.
      chain (failure_branch ''turn'' ''view'')
       (chain (check (iv_id item \<notin> set seen) EProtocol)
        (chain (check (bytes + length (iv_text item) \<le> max_final_bytes) EStateLimit)
         (andthen (read_items env vs (iv_id item # seen) (bytes + length (iv_text item)))
           (\<lambda>rest. ret (item # rest))))))"

definition read_turn :: "session_env \<Rightarrow> (string \<times> json) list \<Rightarrow> turn_view act" where
  "read_turn env m =
    (let shown = (if str (fld m ''itemsView'') = [] then ''full'' else str (fld m ''itemsView''));
         items = arr (fld m ''items'')
     in chain (failure_branch ''turn'' ''view'')
       (chain (check (valid_scalar (str (fld m ''id''))) EProtocol)
        (chain (check (\<not> (shown = ''notLoaded'' \<and> items \<noteq> [])) EProtocol)
         (chain (check (length items \<le> max_items) EStateLimit)
          (andthen (read_items env items [] 0) (\<lambda>views.
            ret \<lparr>tv_id = str (fld m ''id''), tv_status = str (fld m ''status''), tv_view = shown,
                 tv_hash = digest env (JObj m), tv_items = views, tv_error = (fld m ''error'' \<noteq> JNull)\<rparr>))))))"

definition partial_item :: "item_view \<Rightarrow> unit act" where
  "partial_item view = reads (\<lambda>s. case item_of s (iv_id view) of
     Some old \<Rightarrow> check (iv_kind old = iv_kind view) EProtocol
   | None \<Rightarrow> check (\<not> (iv_kind view = ''agentMessage'' \<and> iv_phase view \<noteq> ''commentary'')) EOutput)"

definition complete_turn :: "session_env \<Rightarrow> turn_view \<Rightarrow> unit act" where
  "complete_turn env view = reads (\<lambda>s.
     chain (check (ss_pending s = []) EProtocol)
      (chain (check (list_all (\<lambda>(_, c). hc_responded c) (ss_calls s)) EProtocol)
       (chain (failure_branch ''turn'' ''complete'')
        (chain (check (\<not> (tv_status view = ''inProgress'' \<or> tv_status view = ''completed'' \<and> tv_error view
              \<or> tv_status view = ''failed'' \<and> \<not> tv_error view \<or> tv_status view = ''interrupted'' \<and> tv_error view)) EProtocol)
         (case ss_terminal s of
            Some old \<Rightarrow> check (tv_hash old = tv_hash view) EProtocol
          | None \<Rightarrow>
            chain (if tv_view view = ''full''
               then chain (each (\<lambda>item. chain (put_item env item True) (failure_branch ''turn'' ''complete'')) (tv_items view))
                 (reads (\<lambda>s. check (list_all (\<lambda>(i, item). iv_completed item \<and> i \<in> set (map iv_id (tv_items view)))
                     (ss_items s)) EProtocol))
               else each partial_item (tv_items view))
             (modify (\<lambda>s. s\<lparr>ss_terminal := Some (view\<lparr>tv_items := []\<rparr>), ss_status := tv_status view\<rparr>)))))))"

section \<open>Responses\<close>

definition initialize_ok :: "session_env \<Rightarrow> (string \<times> json) list \<Rightarrow> bool" where
  "initialize_ok env m \<longleftrightarrow> fld m ''codexHome'' = JStr (op_home (se_options env))
     \<and> fld m ''platformFamily'' = JStr (op_family (se_options env))
     \<and> fld m ''platformOs'' = JStr (op_os (se_options env)) \<and> valid_scalar (str (fld m ''userAgent''))"

definition read_config :: "session_env \<Rightarrow> (string \<times> json) list \<Rightarrow> unit act" where
  "read_config env m =
    (let config = obj (fld m ''config'');
         model = (if op_model_override (se_options env) \<noteq> [] then JStr (op_model_override (se_options env))
                  else fld config ''model'')
     in chain (check (se_verify_config env (marshal (JObj config)) \<and> fld config ''sandbox_mode'' = JStr ''read-only'') EPolicy)
        (chain (modify (\<lambda>s. s\<lparr>ss_model := model, ss_effort := fld config ''model_reasoning_effort'',
             ss_tier := fld config ''service_tier''\<rparr>))
          (check (model = JNull \<or> valid_scalar (str model)) EPolicy)))"

definition bind_thread_policy :: "session_env \<Rightarrow> session \<Rightarrow> (string \<times> json) list \<Rightarrow> bool" where
  "bind_thread_policy env s m \<longleftrightarrow>
     valid_scalar (str (fld m ''model'')) \<and> fld m ''modelProvider'' = JStr ''openai'' \<and> policy_ok env m ''sandbox''
     \<and> (ss_model s = JNull \<or> ss_model s = JStr (str (fld m ''model'')))
     \<and> (ss_effort s = JNull \<or> ss_effort s = fld m ''reasoningEffort'')
     \<and> (ss_tier s = JNull \<or> ss_tier s = fld m ''serviceTier'')
     \<and> (\<not> has_key m ''runtimeWorkspaceRoots'' \<or> workspace_roots env (fld m ''runtimeWorkspaceRoots''))
     \<and> (\<not> has_key m ''multiAgentMode'' \<or> fld m ''multiAgentMode'' = JStr ''explicitRequestOnly'')
     \<and> fld m ''activePermissionProfile'' = JNull \<and> fld m ''initialTurnsPage'' = JNull
     \<and> (fld (obj (fld m ''thread'')) ''reasoningEffort'' = JNull
         \<or> fld (obj (fld m ''thread'')) ''reasoningEffort'' = fld m ''reasoningEffort'')"

definition bind_thread :: "session_env \<Rightarrow> (string \<times> json) list \<Rightarrow> unit act" where
  "bind_thread env m =
    (let model = str (fld m ''model''); thread = obj (fld m ''thread''); i = str (fld thread ''id'');
         resume = op_resume (se_options env)
     in reads (\<lambda>s. chain (check (bind_thread_policy env s m) EPolicy)
        (chain (check_thread env thread model)
         (chain (check (\<not> (ss_provisional_thread s \<noteq> [] \<and> ss_provisional_thread s \<noteq> i
               \<or> resume \<noteq> [] \<and> resume \<noteq> i)) EProtocol)
          (chain (modify (\<lambda>s. s\<lparr>ss_binding := \<lparr>bd_thread = i, bd_model = model, bd_provider = ''openai'',
                 bd_path = str (fld thread ''path''), bd_history = str (fld thread ''historyMode'')\<rparr>,
               ss_model := JStr model, ss_effort := fld m ''reasoningEffort'', ss_tier := fld m ''serviceTier''\<rparr>))
            (if resume = [] then modify (\<lambda>s. s\<lparr>ss_early_events := 0, ss_early_bytes := 0\<rparr>) else ret ()))))))"

definition bind_turn_item :: "session_env \<Rightarrow> item_view \<Rightarrow> unit act" where
  "bind_turn_item env item = reads (\<lambda>s.
     let put = chain (put_item env item False) (failure_branch ''response'' ''turn_binding'')
     in case item_of s (iv_id item) of
          Some old \<Rightarrow>
            if iv_completed old
            then chain (failure_branch ''item'' ''lifecycle'')
                  (chain (failure_item env (iv_kind item)) (check (iv_kind old = iv_kind item) EProtocol))
            else put
        | None \<Rightarrow> put)"

definition bind_turn :: "session_env \<Rightarrow> (string \<times> json) list \<Rightarrow> unit act" where
  "bind_turn env m =
    andthen (read_turn env (obj (fld m ''turn''))) (\<lambda>view.
      chain (failure_branch ''response'' ''turn_binding'') (reads (\<lambda>s.
        chain (check (ss_callback_done s \<and> valid_scalar (tv_id view)
            \<and> \<not> (ss_provisional_turn s \<noteq> [] \<and> ss_provisional_turn s \<noteq> tv_id view)) EProtocol)
         (chain (check (tv_status view = ''inProgress'' \<or>
              (case ss_terminal s of None \<Rightarrow> False | Some old \<Rightarrow> tv_hash old = tv_hash view)) EProtocol)
          (chain (check (\<not> tv_error view) ENative)
           (chain (modify (\<lambda>s. s\<lparr>ss_turn := tv_id view, ss_early_events := 0, ss_early_bytes := 0\<rparr>))
            (chain (check (\<not> ss_permission s) EPermission)
              (if tv_status view = ''inProgress'' then each (bind_turn_item env) (tv_items view) else ret ()))))))))"

section \<open>Requests of the agent process\<close>

definition count_early :: "nat \<Rightarrow> unit act" where
  "count_early n =
    chain (modify (\<lambda>s. s\<lparr>ss_early_events := ss_early_events s + 1, ss_early_bytes := ss_early_bytes s + n\<rparr>))
      (reads (\<lambda>s. if ss_early_events s > max_early_events \<or> ss_early_bytes s > max_early_bytes
         then chain (set_branch ''early_limit'') (fail EStateLimit) else ret ()))"

definition deny_reply :: "string \<Rightarrow> json option" where
  "deny_reply meth =
    (if meth = ''item/commandExecution/requestApproval'' \<or> meth = ''item/fileChange/requestApproval''
     then Some (JObj [(''decision'', JStr ''decline'')])
     else if meth = ''item/permissions/requestApproval''
     then Some (JObj [(''permissions'', JObj []), (''scope'', JStr ''turn'')])
     else None)"

definition deny_request :: "session_env \<Rightarrow> rpc_request \<Rightarrow> json \<Rightarrow> unit act" where
  "deny_request env rq reply =
    (case rq_key rq of
       None \<Rightarrow> fail EProtocol
     | Some key \<Rightarrow> reads (\<lambda>s.
        chain (check (length (ss_requests s) < max_consumed_requests) EStateLimit)
         (chain (check (key \<notin> set (ss_requests s)) EProtocol)
          (chain (modify (\<lambda>s. s\<lparr>ss_requests := ss_requests s @ [key]\<rparr>))
           (chain (check (\<not> se_cancelled env key 0) ECancelled)
            (chain (set_branch ''denial_write'')
             (chain (check (se_respond env key) (if se_cancelled env key 1 then ECancelled else EProtocol))
              (chain (respond rq key reply)
               (chain (modify (\<lambda>s. s\<lparr>ss_permission := True\<rparr>))
                (chain (set_branch ''permission'')
                  (check (ss_turn s = []) EPermission)))))))))))"

definition handle_request :: "session_env \<Rightarrow> rpc_request \<Rightarrow> unit act" where
  "handle_request env rq =
    chain (note_failure env ''request'' ''shape'' (rq_method rq))
     (chain (set_shape Failed)
      (andthen (check_shape env (''request:'' @ rq_method rq) (rq_params rq)) (\<lambda>m.
        chain (set_shape Passed) (chain (set_branch ''phase'') (reads (\<lambda>s.
         chain (check (bd_thread (ss_binding s) \<noteq> [] \<and> ss_callback_done s
             \<and> (ss_phase s = ''turn/start'' \<or> ss_phase s = ''running'') \<and> ss_terminal s = None) EProtocol)
          (chain (set_branch ''scope'') (chain (set_scope Failed)
           (chain (scope env m)
            (chain (set_scope Passed) (chain (set_branch ''validation'')
             (chain (check (fld m ''cwd'' = JNull \<or> fld m ''cwd'' = JStr (op_cwd (se_options env))) EPolicy)
              (chain (if ss_turn s = [] then count_early (length (rq_params rq)) else ret ())
                (if rq_method rq = ''item/tool/call'' then host_tool_request env rq m
                 else case deny_reply (rq_method rq) of
                        None \<Rightarrow> fail EProtocol
                      | Some reply \<Rightarrow> deny_request env rq reply))))))))))))))"

section \<open>Notifications\<close>

definition informational :: "string list" where
  "informational = [''thread/name/updated'', ''thread/tokenUsage/updated'', ''account/rateLimits/updated'',
     ''turn/diff/updated'', ''turn/plan/updated'', ''item/agentMessage/delta'', ''item/plan/delta'',
     ''item/reasoning/summaryTextDelta'', ''item/reasoning/summaryPartAdded'', ''item/reasoning/textDelta'',
     ''item/commandExecution/outputDelta'', ''item/commandExecution/terminalInteraction'',
     ''item/fileChange/outputDelta'', ''item/fileChange/patchUpdated'', ''thread/compacted'',
     ''model/verification'', ''turn/moderationMetadata'', ''model/safetyBuffering/updated'', ''warning'',
     ''deprecationNotice'']"

definition remote_control :: "(string \<times> json) list \<Rightarrow> unit act" where
  "remote_control m =
    chain (check (fld m ''status'' = JStr ''disabled'' \<and> fld m ''environmentId'' = JNull) EPolicy)
     (each (\<lambda>key. check (length (str (fld m key)) \<le> max_scalar_bytes \<and> valid_utf8 (str (fld m key))) EStateLimit)
       [''installationId'', ''serverName''])"

definition thread_started :: "session_env \<Rightarrow> (string \<times> json) list \<Rightarrow> unit act" where
  "thread_started env m = reads (\<lambda>s.
     chain (check (ss_phase s = ''thread/start'' \<or> ss_phase s = ''thread/resume'' \<or> bd_thread (ss_binding s) \<noteq> []) EProtocol)
      (let thread = obj (fld m ''thread'');
           model = (if bd_model (ss_binding s) \<noteq> [] then bd_model (ss_binding s) else str (ss_model s));
           hash = digest env (JObj thread)
       in chain (check_thread env thread model)
         (chain (set_branch ''scope'') (chain (set_scope Failed)
          (chain (thread_id env (str (fld thread ''id'')))
           (chain (set_scope Passed) (chain (set_branch ''validation'')
            (reads (\<lambda>s. chain (check (ss_thread_started s = None \<or> ss_thread_started s = Some hash) EProtocol)
              (modify (\<lambda>s. s\<lparr>ss_thread_started := Some hash\<rparr>)))))))))))"

definition active_flag :: "json \<Rightarrow> unit act" where
  "active_flag flag =
    (if flag = JStr ''waitingOnUserInput'' then chain (set_branch ''thread_waiting_user'') (fail EProtocol)
     else if flag = JStr ''waitingOnApproval'' then modify (\<lambda>s. s\<lparr>ss_permission := True\<rparr>)
     else ret ())"

definition thread_status :: "(string \<times> json) list \<Rightarrow> unit act" where
  "thread_status m = reads (\<lambda>s.
     let status = obj (fld m ''status''); kind = fld status ''type''
     in if kind = JStr ''idle'' then ret ()
        else if kind = JStr ''active''
        then chain (set_branch ''thread_active'')
          (chain (check (ss_callback_done s \<and> (ss_phase s = ''turn/start'' \<or> ss_phase s = ''running'')) EProtocol)
            (each active_flag (arr (fld status ''activeFlags''))))
        else if kind = JStr ''notLoaded'' then chain (set_branch ''thread_not_loaded'') (fail ENative)
        else if kind = JStr ''systemError'' then chain (set_branch ''thread_system_error'') (fail ENative)
        else fail ENative)"

definition turn_started :: "session_env \<Rightarrow> turn_view \<Rightarrow> unit act" where
  "turn_started env view = reads (\<lambda>s.
     chain (check (tv_status view = ''inProgress'' \<and> \<not> tv_error view) EProtocol)
      (if ss_terminal s \<noteq> None then check (ss_started_turn s = Some (tv_hash view)) EProtocol
       else chain (check (ss_started_turn s = None \<or> ss_started_turn s = Some (tv_hash view)) EProtocol)
         (chain (modify (\<lambda>s. s\<lparr>ss_started_turn := Some (tv_hash view)\<rparr>))
           (each (\<lambda>item. put_item env item False) (tv_items view)))))"

definition turn_event :: "session_env \<Rightarrow> string \<Rightarrow> (string \<times> json) list \<Rightarrow> unit act" where
  "turn_event env meth m =
    andthen (read_turn env (obj (fld m ''turn''))) (\<lambda>view.
      chain (failure_branch ''notification'' ''scope'') (chain (set_scope Failed)
       (chain (turn_id (tv_id view))
        (chain (set_scope Passed) (chain (failure_branch ''turn'' ''lifecycle'')
          (if meth = ''turn/started'' then turn_started env view else complete_turn env view))))))"

definition restored_usage :: "session_env \<Rightarrow> session \<Rightarrow> string \<Rightarrow> (string \<times> json) list \<Rightarrow> bool" where
  "restored_usage env s meth m \<longleftrightarrow> meth = ''thread/tokenUsage/updated'' \<and> op_resume (se_options env) \<noteq> []
     \<and> fld m ''threadId'' = JStr (op_resume (se_options env)) \<and> ss_turn s = []
     \<and> (ss_phase s = ''thread/resume'' \<or> ss_phase s = ''binding'' \<or> ss_phase s = ''turn/start'')"

definition dispatch_notification :: "session_env \<Rightarrow> string \<Rightarrow> (string \<times> json) list \<Rightarrow> unit act" where
  "dispatch_notification env meth m =
    (if meth \<in> set informational then ret ()
     else if meth = ''remoteControl/status/changed'' then remote_control m
     else if meth = ''thread/started'' then thread_started env m
     else if meth = ''thread/status/changed'' then thread_status m
     else if meth = ''thread/settings/updated'' then check_settings env (obj (fld m ''threadSettings''))
     else if meth = ''serverRequest/resolved'' then reads (\<lambda>s.
       check (bd_thread (ss_binding s) \<noteq> [] \<and> rpc_id (fld m ''requestId'') \<in> set (ss_requests s)) EProtocol)
     else if meth = ''error'' then fail ENative
     else if meth = ''turn/started'' \<or> meth = ''turn/completed'' then turn_event env meth m
     else if meth = ''item/started'' \<or> meth = ''item/completed''
     then andthen (read_item env (fld m ''item'')) (\<lambda>item. put_item env item (meth = ''item/completed''))
     else fail EProtocol)"

definition handle_notification :: "session_env \<Rightarrow> rpc_notification \<Rightarrow> unit act" where
  "handle_notification env n =
    chain (note_failure env ''notification'' ''shape'' (no_method n))
     (chain (set_shape Failed)
      (andthen (check_shape env (''notification:'' @ no_method n) (no_params n)) (\<lambda>m.
        chain (set_shape Passed) (reads (\<lambda>s.
         chain (if bd_thread (ss_binding s) = [] \<or> ss_turn s = [] \<and> ss_phase s = ''turn/start''
                  \<or> restored_usage env s (no_method n) m
                then count_early (length (no_params n)) else ret ())
          (chain (set_branch ''scope'') (chain (set_scope Failed)
           (if restored_usage env s (no_method n) m
            then chain (thread_id env (str (fld m ''threadId'')))
              (chain (check (valid_scalar (str (fld m ''turnId''))) EProtocol) (set_scope Passed))
            else chain (scope env m)
              (chain (set_scope Passed) (chain (set_branch ''validation'')
                (dispatch_notification env (no_method n) m)))))))))))"

definition handle_event :: "session_env \<Rightarrow> rpc_request option \<times> rpc_notification option \<Rightarrow> unit act" where
  "handle_event env ev =
    chain (note_failure env ''event'' ''envelope'' [])
     (case ev of
        (Some rq, None) \<Rightarrow> handle_request env rq
      | (None, Some n) \<Rightarrow> handle_notification env n
      | _ \<Rightarrow> fail EProtocol)"

section \<open>Finish\<close>

definition final_candidate :: "item_view \<Rightarrow> bool" where
  "final_candidate item \<longleftrightarrow> iv_kind item = ''agentMessage'' \<and> iv_phase item \<noteq> ''commentary''"

definition call_finished :: "session \<Rightarrow> string \<times> host_call \<Rightarrow> bool" where
  "call_finished s ic \<longleftrightarrow> (case ic of (i, c) \<Rightarrow> hc_responded c \<and>
     (case item_of s i of None \<Rightarrow> False | Some item \<Rightarrow> iv_completed item \<and> iv_kind item = ''dynamicToolCall''))"

definition finish :: "session_env \<Rightarrow> task_completion act" where
  "finish env =
    chain (note_failure env ''finish'' ''terminal_binding'' []) (reads (\<lambda>s.
      chain (check (list_all (call_finished s) (ss_calls s)) EProtocol)
       (case ss_terminal s of
          None \<Rightarrow> fail EProtocol
        | Some view \<Rightarrow>
          chain (check (ss_turn s \<noteq> [] \<and> tv_id view = ss_turn s) EProtocol)
           (chain (set_branch ''permission'') (chain (check (\<not> ss_permission s) EPermission)
            (chain (set_branch ''native_status'') (chain (check (tv_status view = ''completed'') ENative)
             (chain (set_branch ''final_selection'')
              (chain (check (list_all (\<lambda>(_, i). iv_completed i \<or> \<not> final_candidate i) (ss_items s)) EOutput)
               (case filter (\<lambda>(_, i). final_candidate i) (ss_items s) of
                  [(_, item)] \<Rightarrow>
                    chain (set_branch ''decode_final'')
                     (case se_completion env (iv_text item) of
                        None \<Rightarrow> fail EOutput
                      | Some c \<Rightarrow> chain (modify (\<lambda>s. s\<lparr>ss_completion := Some c\<rparr>)) (ret c))
                | _ \<Rightarrow> fail EOutput))))))))))"

end
