(* ===== verification/Codex_Run.thy ===== *)
theory Codex_Run
  imports Codex_Session
begin

text \<open>
  The run of one turn (\<open>Run\<close> of \<open>internal/codexsession/session.go\<close>): admission of the options, the
  calls it launches, what it does with each reply, and its loop. The loop receives from two
  channels; one iteration takes an observation of them (what a poll of the event channel and
  the select would deliver), so a run is a fold over any sequence of observations, and a
  theorem about every sequence covers every schedule.
\<close>

section \<open>Admission\<close>

definition plugin_model :: string where
  "plugin_model = ''gpt-5.6-sol''"

definition valid_path :: "string \<Rightarrow> bool" where
  "valid_path path \<longleftrightarrow> valid_utf8 path \<and> nul \<notin> set path \<and> clean_absolute path"

text \<open>\<open>callbacks\<close> is whether \<open>OnThread\<close>, and \<open>OnTool\<close> when there are host tools, are given; \<open>resume_hash\<close>
  the contract hash the caller authenticated.\<close>

definition host_tool_contract :: "session_env \<Rightarrow> bool \<Rightarrow> string" where
  "host_tool_contract env writable =
    se_sha256 env (''agent-bird/codex-host-tools/v1'' @ [char_of (10::nat)] @ marshal (host_tool_specs writable))"

definition options_ok :: "session_options \<Rightarrow> bool" where
  "options_ok o' \<longleftrightarrow>
     \<not> (op_model_override o' \<noteq> [] \<and> (op_tools o' = None \<or> op_resume o' \<noteq> [] \<or> op_model_override o' \<noteq> plugin_model))
     \<and> valid_path (op_cwd o') \<and> valid_path (op_home o') \<and> valid_scalar (op_family o') \<and> valid_scalar (op_os o')
     \<and> valid_utf8 (op_prompt o') \<and> \<not> blank (op_prompt o') \<and> (op_resume o' = [] \<or> valid_scalar (op_resume o'))"

definition run_admission :: "session_env \<Rightarrow> bool \<Rightarrow> bool \<Rightarrow> bool \<Rightarrow> string \<Rightarrow> session_error + unit" where
  "run_admission env callbacks deadline cancelled resume_hash =
    (let o' = se_options env in
     if \<not> callbacks \<or> \<not> options_ok o' then Inl EInput
     else if \<not> deadline then Inl EInput
     else if cancelled then Inl ECancelled
     else if (case op_tools o' of None \<Rightarrow> False
          | Some w \<Rightarrow> op_resume o' \<noteq> [] \<and> resume_hash \<noteq> host_tool_contract env w) then Inl EInput
     else (case se_projection env of
        None \<Rightarrow> Inl EPolicy
      | Some g \<Rightarrow> if fld g ''sandbox_mode'' = JStr ''read-only'' then Inr () else Inl EPolicy))"

section \<open>Calls\<close>

definition max_frame_bytes :: nat where
  "max_frame_bytes = 1048576"

definition bounded_call :: "string \<Rightarrow> json \<Rightarrow> session_error + string" where
  "bounded_call meth params =
    (if length (marshal (JObj [(''id'', JStr ''local-18446744073709551615''), (''method'', JStr meth),
          (''params'', params)])) > max_frame_bytes
     then Inl EFrameLimit else Inr (marshal params))"

definition opt_field :: "string \<Rightarrow> json \<Rightarrow> (string \<times> json) list" where
  "opt_field k v = (if v = JNull then [] else [(k, v)])"

definition initialize_params :: "session_env \<Rightarrow> json" where
  "initialize_params env = JObj
    [(''clientInfo'', JObj [(''name'', JStr ''agent-bird-managed''), (''version'', JStr ''1''), (''title'', JStr ''Agent Bird'')]),
     (''capabilities'', JObj [(''experimentalApi'', JBool (op_tools (se_options env) \<noteq> None)),
        (''requestAttestation'', JBool False)])]"

definition config_params :: "session_env \<Rightarrow> json" where
  "config_params env = JObj [(''cwd'', JStr (op_cwd (se_options env))), (''includeLayers'', JBool False)]"

definition thread_params :: "session_env \<Rightarrow> session \<Rightarrow> string \<times> json" where
  "thread_params env s =
    (let common = [(''cwd'', JStr (op_cwd (se_options env))), (''modelProvider'', JStr ''openai''),
           (''approvalPolicy'', JStr ''on-request''), (''approvalsReviewer'', JStr ''user''),
           (''sandbox'', JStr ''read-only'')] @ opt_field ''model'' (ss_model s) @ opt_field ''serviceTier'' (ss_tier s)
     in if op_resume (se_options env) \<noteq> []
        then (''thread/resume'', JObj (common @ [(''threadId'', JStr (op_resume (se_options env))),
               (''excludeTurns'', JBool True)]))
        else (''thread/start'', JObj (common @ [(''ephemeral'', JBool False)] @
               (case op_tools (se_options env) of None \<Rightarrow> []
                | Some w \<Rightarrow> [(''dynamicTools'', host_tool_specs w)]))))"

definition newline :: char where
  "newline = char_of (10::nat)"

definition turn_params :: "session_env \<Rightarrow> thread_binding \<Rightarrow> json \<Rightarrow> json \<Rightarrow> json" where
  "turn_params env b effort tier =
    JObj ([(''threadId'', JStr (bd_thread b)), (''cwd'', JStr (op_cwd (se_options env))), (''model'', JStr (bd_model b)),
       (''approvalPolicy'', JStr ''on-request''), (''approvalsReviewer'', JStr ''user''),
       (''sandboxPolicy'', JObj [(''type'', JStr ''readOnly''), (''networkAccess'', JBool False)]),
       (''input'', JArr [JObj [(''type'', JStr ''text''),
          (''text'', JStr (op_prompt (se_options env) @ [newline, newline] @ se_instruction env)),
          (''text_elements'', JArr [])]]),
       (''outputSchema'', se_schema env)] @ opt_field ''effort'' effort @ opt_field ''serviceTier'' tier)"

text \<open>The worst-case turn frame is checked before anything is sent.\<close>

definition worst_binding :: thread_binding where
  "worst_binding = \<lparr>bd_thread = replicate max_scalar_bytes (CHR ''x''), bd_model = replicate max_scalar_bytes (CHR ''x''),
     bd_provider = ''openai'', bd_path = [], bd_history = []\<rparr>"

section \<open>The run\<close>

datatype job = JobCall string | JobNotify | JobBinding

text \<open>\<open>rs_calls\<close> records the methods handed to the client, in order; \<open>rs_open\<close> is that the event channel
  has not been seen closed.\<close>

record run_state =
  rs_session :: session
  rs_job :: "job option"
  rs_open :: bool
  rs_write_closed :: bool
  rs_calls :: "string list"

type_synonym 'a ract = "(run_state, session_error, 'a) action"

definition in_session :: "'a act \<Rightarrow> 'a ract" where
  "in_session m r = (case m (rs_session r) of (res, s') \<Rightarrow> (res, r\<lparr>rs_session := s'\<rparr>))"

definition set_job :: "job option \<Rightarrow> unit ract" where
  "set_job j = modify (\<lambda>r. r\<lparr>rs_job := j\<rparr>)"

definition set_phase :: "string \<Rightarrow> unit act" where
  "set_phase p = modify (\<lambda>s. s\<lparr>ss_phase := p\<rparr>)"

definition launch :: "session_env \<Rightarrow> bool \<Rightarrow> string \<Rightarrow> json \<Rightarrow> unit ract" where
  "launch env cancelled meth params =
    chain (in_session (note_failure env ''call'' ''bounds'' meth))
     (andthen (lift_result (bounded_call meth params)) (\<lambda>raw.
       chain (if meth \<noteq> ''initialized''
              then in_session (chain (set_branch ''shape'') (chain (set_shape Failed)
                (andthen (check_shape env (''call:'' @ meth) raw) (\<lambda>_. set_shape Passed))))
              else ret ())
        (chain (check (\<not> cancelled) ECancelled)
         (chain (in_session (set_phase meth))
          (chain (modify (\<lambda>r. r\<lparr>rs_calls := rs_calls r @ [meth]\<rparr>))
            (set_job (Some (if meth = ''initialized'' then JobNotify else JobCall meth))))))))"

text \<open>A call's error as the code classifies it.\<close>

datatype job_error = CallbackFailed | RemoteError | TransportError

type_synonym rpc_event = "rpc_request option \<times> rpc_notification option"

datatype delivery = Delivered rpc_event | ChannelClosed bool

record observation =
  ob_cancelled :: bool
  ob_poll :: "delivery option"
  ob_client_error :: bool
  ob_close_write :: bool
  ob_select :: "delivery + ((job_error + string) \<times> delivery list)"

text \<open>\<open>acceptClosedEvents\<close>; the flag says that the reader ended at a clean end of file.\<close>

definition accept_closed :: "session_env \<Rightarrow> bool \<Rightarrow> bool \<Rightarrow> unit ract" where
  "accept_closed env cancelled clean =
    chain (check (\<not> cancelled) ECancelled)
     (if op_stdout_eof (se_options env) \<and> clean then modify (\<lambda>r. r\<lparr>rs_open := False\<rparr>)
      else chain (in_session (note_failure env ''transport'' ''events_closed'' [])) (fail EProtocol))"

definition take_delivery :: "session_env \<Rightarrow> bool \<Rightarrow> delivery \<Rightarrow> unit ract" where
  "take_delivery env cancelled d =
    (case d of
       Delivered ev \<Rightarrow> in_session (handle_event env ev)
     | ChannelClosed clean \<Rightarrow> accept_closed env cancelled clean)"

text \<open>Queued events are handled before the reply that overtook them; a closed channel ends the drain.\<close>

fun drain :: "session_env \<Rightarrow> bool \<Rightarrow> delivery list \<Rightarrow> unit ract" where
  "drain env cancelled [] = check (\<not> cancelled) ECancelled"
| "drain env cancelled (d # ds) =
    chain (check (\<not> cancelled) ECancelled)
     (chain (take_delivery env cancelled d)
       (case d of Delivered _ \<Rightarrow> drain env cancelled ds | ChannelClosed _ \<Rightarrow> ret ()))"

definition on_response :: "session_env \<Rightarrow> bool \<Rightarrow> string \<Rightarrow> (string \<times> json) list \<Rightarrow> unit ract" where
  "on_response env cancelled phase m =
    (if phase = ''initialize''
     then chain (in_session (chain (set_branch ''initialize'') (check (initialize_ok env m) EPolicy)))
            (launch env cancelled ''initialized'' JNull)
     else if phase = ''config/read''
     then chain (in_session (chain (set_branch ''config'') (read_config env m)))
            (reads (\<lambda>r. case thread_params env (rs_session r) of (meth, params) \<Rightarrow> launch env cancelled meth params))
     else if phase = ''thread/start'' \<or> phase = ''thread/resume''
     then chain (in_session (chain (set_branch ''thread_binding'') (bind_thread env m)))
            (chain (in_session (set_phase ''binding'')) (set_job (Some JobBinding)))
     else if phase = ''turn/start''
     then in_session (chain (set_branch ''turn_binding'') (chain (bind_turn env m)
            (chain (set_phase ''running'') (flush_host_tools env))))
     else in_session (chain (set_branch ''phase'') (fail EProtocol)))"

definition on_job :: "session_env \<Rightarrow> bool \<Rightarrow> job_error + string \<Rightarrow> delivery list \<Rightarrow> unit ract" where
  "on_job env cancelled result queued =
    chain (set_job None)
     (case result of
        Inl e \<Rightarrow>
          chain (check (\<not> cancelled) ECancelled)
           (reads (\<lambda>r. case e of
              CallbackFailed \<Rightarrow> chain (in_session (note_failure env ''callback'' ''returned_error'' [])) (fail ECallback)
            | RemoteError \<Rightarrow> chain (in_session (note_failure env ''call_result'' ''rpc_error'' (ss_phase (rs_session r)))) (fail EProtocol)
            | TransportError \<Rightarrow> chain (in_session (note_failure env ''transport'' ''call_error'' [])) (fail EProtocol)))
      | Inr raw \<Rightarrow>
          chain (drain env cancelled queued)
           (reads (\<lambda>r. let phase = ss_phase (rs_session r); s = rs_session r
              in if phase = ''binding''
                 then chain (in_session (modify (\<lambda>s. s\<lparr>ss_callback_done := True\<rparr>)))
                        (launch env cancelled ''turn/start'' (turn_params env (ss_binding s) (ss_effort s) (ss_tier s)))
                 else if phase = ''initialized'' then launch env cancelled ''config/read'' (config_params env)
                 else chain (in_session (note_failure env ''response'' ''shape'' phase))
                  (chain (in_session (set_shape Failed))
                   (andthen (in_session (check_shape env (''response:'' @ phase) raw)) (\<lambda>m.
                     chain (in_session (set_shape Passed)) (on_response env cancelled phase m)))))))"

definition wait_select :: "session_env \<Rightarrow> observation \<Rightarrow> task_completion option ract" where
  "wait_select env ob = reads (\<lambda>r.
     chain (check (\<not> ob_cancelled ob) ECancelled)
      (chain (case ob_select ob of
          Inl d \<Rightarrow> if rs_open r then take_delivery env (ob_cancelled ob) d else ret ()
        | Inr (result, queued) \<Rightarrow>
            if rs_job r = None then ret ()
            else on_job env (ob_cancelled ob) result (if rs_open r then queued else []))
       (ret None)))"

definition finish_run :: "session_env \<Rightarrow> task_completion option ract" where
  "finish_run env = in_session (andthen (finish env) (\<lambda>c. ret (Some c)))"

text \<open>One iteration of the loop: \<open>Some\<close> is a finished run.\<close>

definition run_iteration :: "session_env \<Rightarrow> observation \<Rightarrow> task_completion option ract" where
  "run_iteration env ob = reads (\<lambda>r.
     let s = rs_session r in
     chain (check (\<not> ob_cancelled ob) ECancelled)
      (if \<not> rs_open r \<and> rs_job r = None \<and> ss_terminal s = None
       then chain (in_session (note_failure env ''transport'' ''events_closed'' [])) (fail EProtocol)
       else if ss_terminal s \<noteq> None \<and> rs_job r = None
       then (case (if rs_open r then ob_poll ob else None) of
          Some d \<Rightarrow> chain (take_delivery env (ob_cancelled ob) d) (ret None)
        | None \<Rightarrow>
            if \<not> rs_open r then finish_run env
            else chain (if ob_client_error ob
                   then chain (in_session (note_failure env ''transport'' ''client_error'' [])) (fail EProtocol) else ret ())
              (if \<not> op_stdout_eof (se_options env) then finish_run env
               else if rs_write_closed r then wait_select env ob
               else chain (if ob_close_write ob then ret ()
                      else chain (in_session (note_failure env ''transport'' ''close_write'' [])) (fail EProtocol))
                 (chain (modify (\<lambda>r. r\<lparr>rs_write_closed := True\<rparr>)) (wait_select env ob))))
       else wait_select env ob))"

fun run_loop :: "session_env \<Rightarrow> observation list \<Rightarrow> task_completion option ract" where
  "run_loop env [] = ret None"
| "run_loop env (ob # obs) =
    andthen (run_iteration env ob) (\<lambda>out. case out of Some c \<Rightarrow> ret (Some c) | None \<Rightarrow> run_loop env obs)"

definition start_run :: "session_env \<Rightarrow> unit ract" where
  "start_run env =
    chain (in_session (note_failure env ''call'' ''bounds'' ''turn/start''))
     (andthen (lift_result (bounded_call ''turn/start'' (turn_params env worst_binding
          (fld (case se_projection env of None \<Rightarrow> [] | Some g \<Rightarrow> g) ''model_reasoning_effort'')
          (fld (case se_projection env of None \<Rightarrow> [] | Some g \<Rightarrow> g) ''service_tier'')))) (\<lambda>_.
       launch env False ''initialize'' (initialize_params env)))"

definition fresh_run :: run_state where
  "fresh_run = \<lparr>rs_session = new_session, rs_job = None, rs_open = True, rs_write_closed = False, rs_calls = []\<rparr>"

definition run_turn :: "session_env \<Rightarrow> observation list \<Rightarrow> task_completion option ract" where
  "run_turn env obs = chain (start_run env) (run_loop env obs)"

text \<open>\<open>withFailure\<close>: what \<open>Run\<close> reports beside an error; a cancellation carries no facts.\<close>

record failure_report =
  fr_facts :: failure_facts
  fr_thread_bound :: bool
  fr_turn_bound :: bool
  fr_callback_done :: bool

definition with_failure :: "session \<Rightarrow> session_error \<Rightarrow> failure_report option" where
  "with_failure s e =
    (if e = ECancelled then None
     else Some \<lparr>fr_facts = ss_failure s, fr_thread_bound = (bd_thread (ss_binding s) \<noteq> []),
            fr_turn_bound = (ss_turn s \<noteq> []), fr_callback_done = ss_callback_done s\<rparr>)"

end
