(* ===== verification/Codex_Invariants.thy ===== *)
theory Codex_Invariants
  imports Codex_Run "HOL-Library.Sublist"
begin

text \<open>
  Invariants of the session reducer. \<open>session_invariant\<close> lists the primitive state changes an event
  can make, each with the guard the code checks first; an invariant that survives each of them
  survives every event, whatever the agent process sends and however the event fails.
  \<open>turn_invariant\<close> adds the changes made while a turn is bound and finished, \<open>run_invariant\<close> those
  only \<open>Run\<close> makes. They are interpreted for the bounds on
  what is retained, for the safety of the replies, and for what can never change again.
\<close>

lemma run_chain: "chain m m' s = (case m s of (Inl e, t) \<Rightarrow> (Inl e, t) | (Inr _, t) \<Rightarrow> m' t)"
  by (simp add: chain_def andthen_def)

lemma keeps_at: "(\<And>s. I s \<Longrightarrow> I (snd (f s s))) \<Longrightarrow> keeps I (reads f)"
  by (simp add: keeps_def reads_def)

lemma keeps_check_then: "(ok \<Longrightarrow> keeps I m) \<Longrightarrow> keeps I (chain (check ok e) m)"
  by (cases ok) (simp_all add: keeps_def run_chain check_def ret_def fail_def)

lemma snd_check_then: "(ok \<Longrightarrow> I (snd (m s))) \<Longrightarrow> I s \<Longrightarrow> I (snd (chain (check ok e) m s))"
  by (cases ok) (simp_all add: run_chain check_def ret_def fail_def)

definition request_key :: "rpc_request \<Rightarrow> string" where
  "request_key rq = (case rq_key rq of None \<Rightarrow> [] | Some k \<Rightarrow> k)"

lemma keeps_both: "keeps I m \<Longrightarrow> keeps J m \<Longrightarrow> keeps (\<lambda>s. I s \<and> J s) m"
  by (simp add: keeps_def)

section \<open>What an item leaves alone\<close>

lemma put_item_terminal: "keeps (\<lambda>s. ss_terminal s = x) (put_item env view b)"
  unfolding put_item_def store_item_def failure_branch_def failure_item_def
  by (intro keeps_intros keeps_modify) simp_all

lemma failure_terminal: "keeps (\<lambda>s. ss_terminal s = x) (failure_branch a b)"
  by (simp add: failure_branch_def keeps_modify)

section \<open>The contract\<close>

locale session_invariant =
  fixes H :: "string list \<Rightarrow> session \<Rightarrow> bool"
  assumes failure: "H K s \<Longrightarrow> H K (s\<lparr>ss_failure := ff\<rparr>)"
    and provisional_thread: "H K s \<Longrightarrow> bd_thread (ss_binding s) = [] \<Longrightarrow> H K (s\<lparr>ss_provisional_thread := x\<rparr>)"
    and provisional_turn: "H K s \<Longrightarrow> ss_turn s = [] \<Longrightarrow> H K (s\<lparr>ss_provisional_turn := x\<rparr>)"
    and persistence: "H K s \<Longrightarrow> ss_persistence s = None \<or> ss_persistence s = Some p \<Longrightarrow> H K (s\<lparr>ss_persistence := Some p\<rparr>)"
    and started: "H K s \<Longrightarrow> ss_thread_started s = None \<or> ss_thread_started s = Some h \<Longrightarrow> H K (s\<lparr>ss_thread_started := Some h\<rparr>)"
    and started_turn: "H K s \<Longrightarrow> ss_started_turn s = None \<or> ss_started_turn s = Some h \<Longrightarrow> H K (s\<lparr>ss_started_turn := Some h\<rparr>)"
    and early: "H K s \<Longrightarrow> H K (s\<lparr>ss_early_events := n, ss_early_bytes := k\<rparr>)"
    and final_bytes: "H K s \<Longrightarrow> H K (s\<lparr>ss_final_bytes := n\<rparr>)"
    and permission: "H K s \<Longrightarrow> H K (s\<lparr>ss_permission := True\<rparr>)"
    and new_item: "H K s \<Longrightarrow> item_of s (iv_id v) = None \<Longrightarrow> ss_terminal s = None \<Longrightarrow> length (ss_items s) < max_items \<Longrightarrow>
      H K (s\<lparr>ss_items := AList.update (iv_id v) v (ss_items s)\<rparr>)"
    and complete_item: "H K s \<Longrightarrow> item_of s (iv_id v) = Some old \<Longrightarrow> \<not> iv_completed old \<Longrightarrow> iv_kind old = iv_kind v \<Longrightarrow>
      iv_completed v \<Longrightarrow> H K (s\<lparr>ss_items := AList.update (iv_id v) v (ss_items s)\<rparr>)"
    and terminal: "H K s \<Longrightarrow> ss_terminal s = None \<Longrightarrow> H K (s\<lparr>ss_terminal := Some tv, ss_status := st\<rparr>)"
    and new_call: "H K s \<Longrightarrow> call_of s i = None \<Longrightarrow> length (ss_calls s) < max_items \<Longrightarrow>
      H K (put_call i \<lparr>hc_claim = cl, hc_requested = False, hc_responded = False, hc_result = []\<rparr> s)"
    and accept_call: "H K s \<Longrightarrow> call_of s i = Some c \<Longrightarrow> \<not> hc_requested c \<Longrightarrow> key \<notin> set (ss_requests s) \<Longrightarrow>
      length (ss_requests s) < max_consumed_requests \<Longrightarrow>
      H (key # K) (put_call i (c\<lparr>hc_requested := True\<rparr>) (s\<lparr>ss_requests := ss_requests s @ [key]\<rparr>))"
    and hold_call: "H (request_key rq # K) s \<Longrightarrow> length (ss_pending s) < max_remote_requests \<Longrightarrow>
      H K (s\<lparr>ss_pending := ss_pending s @ [rq]\<rparr>)"
    and answer_call: "H (key # K) s \<Longrightarrow> call_of s i = Some c \<Longrightarrow> \<not> hc_responded c \<Longrightarrow>
      H K (put_call i (c\<lparr>hc_responded := True, hc_result := h\<rparr>)
        (s\<lparr>ss_sent := ss_sent s @ [\<lparr>sr_key = key, sr_method = meth, sr_result = tool_reply text success\<rparr>]\<rparr>))"
    and consume: "H K s \<Longrightarrow> key \<notin> set (ss_requests s) \<Longrightarrow> length (ss_requests s) < max_consumed_requests \<Longrightarrow>
      H (key # K) (s\<lparr>ss_requests := ss_requests s @ [key]\<rparr>)"
    and deny: "H (key # K) s \<Longrightarrow> deny_reply meth = Some j \<Longrightarrow>
      H K (s\<lparr>ss_sent := ss_sent s @ [\<lparr>sr_key = key, sr_method = meth, sr_result = j\<rparr>], ss_permission := True\<rparr>)"
    and drop_key: "H (key # K) s \<Longrightarrow> H K s"
begin

lemma k_failure [keeps_intros]:
  "keeps (H K) (note_failure env b br m)" "keeps (H K) (failure_branch b br)" "keeps (H K) (failure_item env k)"
  "keeps (H K) (set_branch br)" "keeps (H K) (set_shape c)" "keeps (H K) (set_scope c)"
  by (simp_all add: note_failure_def failure_branch_def failure_item_def set_branch_def set_shape_def set_scope_def
      keeps_modify failure Let_def)

lemma k_shape [keeps_intros]: "keeps (H K) (check_shape e name raw)"
  by (auto simp: check_shape_def keeps_intros split: sum.split shape_error.split)

lemma k_thread_id [keeps_intros]: "keeps (H K) (thread_id env i)"
  unfolding thread_id_def
  by (intro keeps_intros keeps_at) (auto simp: run_chain check_def ret_def fail_def modify_def provisional_thread)

lemma k_turn_id [keeps_intros]: "keeps (H K) (turn_id i)"
  unfolding turn_id_def
  by (intro keeps_at) (auto simp: run_chain check_def ret_def fail_def modify_def provisional_turn)

lemma k_scope [keeps_intros]: "keeps (H K) (scope env m)"
  unfolding scope_def by (intro keeps_intros)

lemma k_check_thread [keeps_intros]: "keeps (H K) (check_thread env t m)"
  unfolding check_thread_def Let_def
  by (intro keeps_at) (auto simp: run_chain check_def ret_def fail_def modify_def persistence)

lemma k_settings [keeps_intros]: "keeps (H K) (check_settings env m)"
  unfolding check_settings_def Let_def by (intro keeps_intros)

lemma k_early [keeps_intros]: "keeps (H K) (count_early n)"
  unfolding count_early_def by (intro keeps_intros keeps_modify early)

lemma k_claim [keeps_intros]: "keeps (H K) (host_tool_claim env m i)"
proof (cases "op_tools (se_options env)")
  case None
  then show ?thesis by (simp add: host_tool_claim_def keeps_intros)
next
  case (Some w)
  show ?thesis unfolding host_tool_claim_def Some option.case Let_def
    by (intro keeps_intros keeps_at)
      (auto simp: run_chain check_def ret_def fail_def modify_def new_call split: option.split)
qed

lemma execute_keeps:
  assumes s: "H (request_key rq # K) s" and call: "call = None \<or> call_of s (str (fld m ''callId'')) = call"
  shows "H K (snd (execute_host_tool env rq m call s))"
proof (cases call)
  case None
  then show ?thesis using drop_key [OF s] by (simp add: execute_host_tool_def reads_def fail_def)
next
  case (Some c)
  have c: "call_of s (str (fld m ''callId'')) = Some c"
    using call Some by simp
  show ?thesis
    using answer_call [OF s c] drop_key [OF s] unfolding Some
    by (auto simp: execute_host_tool_def reads_def run_chain check_def ret_def fail_def Let_def andthen_def
        check_shape_def respond_def modify_def request_key_def split: sum.split shape_error.split option.split)
qed

lemma execute_after:
  assumes "H K s" and "call_of s i = Some c" and "\<not> hc_requested c" and "key \<notin> set (ss_requests s)"
    and "length (ss_requests s) < max_consumed_requests" and "i = str (fld m ''callId'')" and "rq_key rq = Some key"
  shows "H K (snd (execute_host_tool env rq m (Some (c\<lparr>hc_requested := True\<rparr>))
    (put_call i (c\<lparr>hc_requested := True\<rparr>) (s\<lparr>ss_requests := ss_requests s @ [key]\<rparr>))))"
proof (rule execute_keeps)
  show "H (request_key rq # K) (put_call i (c\<lparr>hc_requested := True\<rparr>) (s\<lparr>ss_requests := ss_requests s @ [key]\<rparr>))"
    using accept_call [OF assms(1-5)] by (simp add: request_key_def assms(7))
qed (simp add: assms(6) call_of_def put_call_def update_conv')

lemma hold_after:
  assumes "H K s" and "call_of s i = Some c" and "\<not> hc_requested c" and "key \<notin> set (ss_requests s)"
    and "length (ss_requests s) < max_consumed_requests" and "rq_key rq = Some key"
    and "length (ss_pending s) < max_remote_requests"
  shows "H K ((put_call i (c\<lparr>hc_requested := True\<rparr>) (s\<lparr>ss_requests := ss_requests s @ [key]\<rparr>))
    \<lparr>ss_pending := ss_pending s @ [rq]\<rparr>)"
proof -
  have "H (request_key rq # K) (put_call i (c\<lparr>hc_requested := True\<rparr>) (s\<lparr>ss_requests := ss_requests s @ [key]\<rparr>))"
    using accept_call [OF assms(1-5)] by (simp add: request_key_def assms(6))
  from hold_call [OF this] show ?thesis using assms(7) by (simp add: put_call_def)
qed

lemma claim_call: "host_tool_claim env m i s = (Inr c, t) \<Longrightarrow> call_of t i = Some c"
  by (auto simp: host_tool_claim_def run_simps Let_def put_call_def call_of_def update_conv'
      split: option.splits if_splits)

lemma request_keeps:
  assumes "H K s" and "call_of s (str (fld m ''callId'')) = Some c"
  shows "H K (snd (accept_host_tool env rq m c s))"
  unfolding accept_host_tool_def
  using assms drop_key [OF accept_call [OF assms]] execute_after [OF assms] hold_after [OF assms]
  by (auto simp: run_chain check_def ret_def fail_def modify_def reads_def put_call_def split: option.split)

lemma k_tool_request [keeps_intros]: "keeps (H K) (host_tool_request env rq m)"
  unfolding keeps_def
proof (intro allI impI)
  fix s assume s: "H K s"
  obtain r t where r: "host_tool_claim env m (str (fld m ''callId'')) s = (r, t)" by fastforce
  have t: "H K t" by (rule keepsD [OF k_claim s r])
  show "H K (snd (host_tool_request env rq m s))"
    using t request_keeps [OF t, of m] claim_call [of env m "str (fld m ''callId'')" s _ t] r
    by (cases r) (simp_all add: host_tool_request_def andthen_def)
qed

lemma k_tool_item [keeps_intros]: "keeps (H K) (host_tool_item env m)"
  unfolding host_tool_item_def by (intro keeps_intros)

lemma k_read_item [keeps_intros]: "keeps (H K) (read_item env v)"
  unfolding read_item_def Let_def by (intro keeps_intros)

lemma k_read_items [keeps_intros]: "keeps (H K) (read_items env vs seen bytes)"
  by (induction vs arbitrary: seen bytes) (auto intro!: keeps_intros)

lemma k_read_turn [keeps_intros]: "keeps (H K) (read_turn env m)"
  unfolding read_turn_def Let_def by (intro keeps_intros)

lemma store_keeps:
  assumes s: "H K s"
    and ok: "item_of s (iv_id view) = None \<and> ss_terminal s = None \<and> length (ss_items s) < max_items
      \<or> (\<exists>old. item_of s (iv_id view) = Some old \<and> \<not> iv_completed old \<and> iv_kind old = iv_kind view \<and> completed)"
  shows "H K (snd (store_item view completed s))"
proof -
  let ?v = "view\<lparr>iv_text := (if completed then iv_text view else []), iv_completed := completed\<rparr>"
  have update: "H K (t\<lparr>ss_items := AList.update (iv_id view) ?v (ss_items t)\<rparr>)"
    if t: "H K t" "item_of t = item_of s" "ss_terminal t = ss_terminal s" "ss_items t = ss_items s" for t
    using ok new_item [OF t(1), of ?v] complete_item [OF t(1), of ?v] t(2-4) by (cases completed) auto
  have total: "H K (s\<lparr>ss_final_bytes := n\<rparr>)" for n by (rule final_bytes [OF s])
  have same: "item_of (s\<lparr>ss_final_bytes := n\<rparr>) = item_of s" for n by (rule ext) (simp add: item_of_def)
  show ?thesis
    using update [OF s] total update [OF total same]
    by (auto simp: store_item_def run_chain modify_def reads_def check_def ret_def fail_def)
qed

lemma k_put_item [keeps_intros]: "keeps (H K) (put_item env view b)"
  unfolding put_item_def
  by (intro keeps_intros keeps_at)
    (auto simp: run_chain check_def ret_def fail_def intro!: store_keeps split: option.split)

lemma k_partial [keeps_intros]: "keeps (H K) (partial_item view)"
  unfolding partial_item_def by (intro keeps_intros)

lemma terminal_then:
  assumes "keeps (\<lambda>t. H K t \<and> ss_terminal t = None) m" and "H K s" and "ss_terminal s = None"
  shows "H K (snd (chain m (modify (\<lambda>s. s\<lparr>ss_terminal := Some tv, ss_status := st\<rparr>)) s))"
proof -
  obtain r t where r: "m s = (r, t)" by fastforce
  have "H K t \<and> ss_terminal t = None" by (rule keepsD [OF assms(1) _ r]) (simp add: assms)
  then show ?thesis using terminal by (cases r) (simp_all add: run_chain r modify_def)
qed

lemma k_full_items:
  "keeps (\<lambda>t. H K t \<and> ss_terminal t = None)
     (each (\<lambda>item. chain (put_item env item True) (failure_branch a b)) items)"
  by (intro keeps_intros keeps_both k_put_item put_item_terminal failure_terminal)

lemma k_partial_items: "keeps (\<lambda>t. H K t \<and> ss_terminal t = None) (each partial_item items)"
  unfolding partial_item_def by (intro keeps_intros)

lemma complete_keeps:
  fixes view :: turn_view
  assumes "H K s"
  shows "H K (snd ((case ss_terminal s of
      Some old \<Rightarrow> check (tv_hash old = tv_hash view) EProtocol
    | None \<Rightarrow> chain (if tv_view view = ''full''
         then chain (each (\<lambda>item. chain (put_item env item True) (failure_branch a b)) (tv_items view))
           (reads (\<lambda>s. check (P s) EProtocol))
         else each partial_item (tv_items view))
       (modify (\<lambda>s. s\<lparr>ss_terminal := Some tv, ss_status := st\<rparr>))) s))"
proof (cases "ss_terminal s")
  case None
  show ?thesis unfolding None option.case
    by (rule terminal_then [OF _ assms None]) (intro keeps_intros k_full_items k_partial_items)
next
  case (Some old)
  then show ?thesis using assms by (simp add: check_def ret_def fail_def)
qed

lemma k_complete [keeps_intros]: "keeps (H K) (complete_turn env view)"
  unfolding complete_turn_def
proof (rule keeps_at)
  fix s assume s: "H K s"
  have at: "H K (s\<lparr>ss_failure := x\<rparr>)" for x by (rule failure [OF s])
  show "H K (snd (chain (check (ss_pending s = []) EProtocol)
      (chain (check (list_all (\<lambda>(_, c). hc_responded c) (ss_calls s)) EProtocol)
       (chain (failure_branch ''turn'' ''complete'')
        (chain (check (\<not> (tv_status view = ''inProgress'' \<or> tv_status view = ''completed'' \<and> tv_error view
              \<or> tv_status view = ''failed'' \<and> \<not> tv_error view \<or> tv_status view = ''interrupted'' \<and> tv_error view)) EProtocol)
         (case ss_terminal s of
            Some old \<Rightarrow> check (tv_hash old = tv_hash view) EProtocol
          | None \<Rightarrow>
            chain (if tv_view view = ''full''
               then chain (each (\<lambda>item. chain (put_item env item True) (failure_branch ''turn'' ''complete'')) (tv_items view))
                 (reads (\<lambda>s. check (list_all (\<lambda>(i, item). iv_completed item \<and> i \<in> set (map iv_id (tv_items view)))
                     (ss_items s)) EProtocol))
               else each partial_item (tv_items view))
             (modify (\<lambda>s. s\<lparr>ss_terminal := Some (view\<lparr>tv_items := []\<rparr>), ss_status := tv_status view\<rparr>)))))) s))"
    using s at complete_keeps [OF at, of view]
    by (simp add: run_chain check_def ret_def fail_def failure_branch_def modify_def)
qed

lemma k_deny: assumes reply: "deny_reply (rq_method rq) = Some j" shows "keeps (H K) (deny_request env rq j)"
proof (cases "rq_key rq")
  case None
  then show ?thesis by (simp add: deny_request_def keeps_intros)
next
  case (Some key)
  have sent: "H K (t\<lparr>ss_failure := x, ss_sent := ss_sent t @ [\<lparr>sr_key = key, sr_method = rq_method rq, sr_result = j\<rparr>],
      ss_permission := True\<rparr>)" if "H (key # K) t" for t x
    using deny [OF failure [OF that] reply] by simp
  have branch: "H K (t\<lparr>ss_failure := x\<rparr>)" if "H (key # K) t" for t x
    by (rule failure [OF drop_key [OF that]])
  show ?thesis unfolding deny_request_def Some option.case
  proof (rule keeps_at)
    fix s assume s: "H K s"
    show "H K (snd (chain (check (length (ss_requests s) < max_consumed_requests) EStateLimit)
         (chain (check (key \<notin> set (ss_requests s)) EProtocol)
          (chain (modify (\<lambda>s. s\<lparr>ss_requests := ss_requests s @ [key]\<rparr>))
           (chain (check (\<not> se_cancelled env key 0) ECancelled)
            (chain (set_branch ''denial_write'')
             (chain (check (se_respond env key) (if se_cancelled env key 1 then ECancelled else EProtocol))
              (chain (respond rq key j)
               (chain (modify (\<lambda>s. s\<lparr>ss_permission := True\<rparr>))
                (chain (set_branch ''permission'')
                  (check (ss_turn s = []) EPermission))))))))) s))"
      using s consume [OF s, of key] drop_key [OF consume [OF s, of key]] branch [OF consume [OF s, of key]]
        sent [OF consume [OF s, of key]] failure [OF sent [OF consume [OF s, of key]]]
      by (auto simp: run_chain check_def ret_def fail_def modify_def respond_def set_branch_def)
  qed
qed

lemma k_request [keeps_intros]: "keeps (H K) (handle_request env rq)"
proof (cases "deny_reply (rq_method rq)")
  case None
  show ?thesis unfolding handle_request_def None option.case by (intro keeps_intros)
next
  case (Some j)
  show ?thesis unfolding handle_request_def Some option.case by (intro keeps_intros k_deny [OF Some])
qed

lemma k_started [keeps_intros]: "keeps (H K) (thread_started env m)"
proof -
  have mark: "keeps (H K) (reads (\<lambda>s. chain (check (ss_thread_started s = None \<or> ss_thread_started s = Some h) EProtocol)
      (modify (\<lambda>s. s\<lparr>ss_thread_started := Some h\<rparr>))))" for h
    by (intro keeps_at) (auto simp: run_chain check_def ret_def fail_def modify_def started)
  show ?thesis unfolding thread_started_def Let_def
    by (rule keeps_reads) (intro keeps_chain keeps_check k_check_thread k_failure k_thread_id mark)
qed

lemma k_remote [keeps_intros]: "keeps (H K) (remote_control m)"
  unfolding remote_control_def by (intro keeps_intros)

lemma k_status [keeps_intros]: "keeps (H K) (thread_status m)"
  unfolding thread_status_def active_flag_def Let_def by (intro keeps_intros keeps_modify permission)

lemma k_turn_started [keeps_intros]: "keeps (H K) (turn_started env view)"
proof -
  have items: "keeps (H K) (each (\<lambda>item. put_item env item False) (tv_items view))"
    by (intro keeps_intros)
  show ?thesis unfolding turn_started_def
    by (intro keeps_at)
      (auto simp: run_chain check_def ret_def fail_def modify_def
         intro!: items [unfolded keeps_def, rule_format] started_turn)
qed

lemma k_turn_event [keeps_intros]: "keeps (H K) (turn_event env meth m)"
  unfolding turn_event_def by (intro keeps_intros)

lemma k_dispatch [keeps_intros]: "keeps (H K) (dispatch_notification env meth m)"
  unfolding dispatch_notification_def by (intro keeps_intros)

lemma k_notification [keeps_intros]: "keeps (H K) (handle_notification env n)"
  unfolding handle_notification_def by (intro keeps_intros)

lemma k_event: "keeps (H K) (handle_event env ev)"
proof -
  obtain a b where ev: "ev = (a, b)" by (cases ev)
  show ?thesis unfolding handle_event_def ev
    by (cases a; cases b) (auto intro!: keeps_intros)
qed

end

section \<open>The contract of a run\<close>

locale turn_invariant = session_invariant +
  assumes config: "H K s \<Longrightarrow> H K (s\<lparr>ss_model := a, ss_effort := b, ss_tier := c\<rparr>)"
    and turn: "H K s \<Longrightarrow> H K (s\<lparr>ss_turn := x, ss_early_events := 0, ss_early_bytes := 0\<rparr>)"
    and completion: "H K s \<Longrightarrow> H K (s\<lparr>ss_completion := x2\<rparr>)"
    and take_pending: "H K s \<Longrightarrow> H (map request_key (ss_pending s) @ K) (s\<lparr>ss_pending := []\<rparr>)"
begin

lemma k_config [keeps_intros]: "keeps (H K) (read_config env m)"
  unfolding read_config_def Let_def by (intro keeps_intros keeps_modify config)

lemma k_bind_item [keeps_intros]: "keeps (H K) (bind_turn_item env item)"
  unfolding bind_turn_item_def Let_def by (intro keeps_intros)

lemma k_bind_turn [keeps_intros]: "keeps (H K) (bind_turn env m)"
  unfolding bind_turn_def by (intro keeps_intros keeps_modify turn)

lemma drop_keys: "H (ks @ K) s \<Longrightarrow> H K s"
  by (induction ks) (auto dest: drop_key)

lemma flush_step:
  assumes "H (map request_key (rq # rqs) @ K) s"
  shows "H (map request_key rqs @ K) (snd (andthen (check_shape env ''request:item/tool/call'' (rq_params rq)) (\<lambda>m.
     reads (\<lambda>s. execute_host_tool env rq m (call_of s (str (fld m ''callId''))))) s))"
proof -
  have k: "H (request_key rq # map request_key rqs @ K) s" using assms by simp
  have call: "call = None \<or> call_of s i = call" if "call_of s i = call" for i call using that by simp
  show ?thesis
    using drop_key [OF k] execute_keeps [OF k]
    by (auto simp: andthen_def check_shape_def ret_def fail_def reads_def split: sum.split shape_error.split)
qed

lemma flush_all:
  "H (map request_key rqs @ K) s \<Longrightarrow>
   H K (snd (each (\<lambda>rq. andthen (check_shape env ''request:item/tool/call'' (rq_params rq)) (\<lambda>m.
     reads (\<lambda>s. execute_host_tool env rq m (call_of s (str (fld m ''callId'')))))) rqs s))"
proof (induction rqs arbitrary: s)
  case Nil
  then show ?case by (simp add: ret_def)
next
  case (Cons rq rqs)
  obtain r t where r: "andthen (check_shape env ''request:item/tool/call'' (rq_params rq)) (\<lambda>m.
     reads (\<lambda>s. execute_host_tool env rq m (call_of s (str (fld m ''callId''))))) s = (r, t)" by fastforce
  have t: "H (map request_key rqs @ K) t" using flush_step [OF Cons.prems, of env] by (simp add: r)
  then show ?case using Cons.IH [OF t] drop_keys [OF t] by (cases r) (simp_all add: run_chain r)
qed

lemma k_flush [keeps_intros]: "keeps (H K) (flush_host_tools env)"
  unfolding flush_host_tools_def
  by (intro keeps_at) (simp add: run_chain modify_def flush_all take_pending)

lemma k_finish [keeps_intros]: "keeps (H K) (finish env)"
proof -
  have last: "keeps (H K) (case xs of [(_, item)] \<Rightarrow> chain (set_branch b)
      (case se_completion env (iv_text item) of None \<Rightarrow> fail EOutput
       | Some c \<Rightarrow> chain (modify (\<lambda>s. s\<lparr>ss_completion := Some c\<rparr>)) (ret c)) | _ \<Rightarrow> fail EOutput)" for xs b
    by (auto intro!: keeps_intros keeps_modify completion split: list.split)
  show ?thesis unfolding finish_def by (intro keeps_intros last)
qed

end

locale run_invariant = turn_invariant +
  assumes phase: "H K s \<Longrightarrow> H K (s\<lparr>ss_phase := p\<rparr>)"
    and bind: "H K s \<Longrightarrow> H K (s\<lparr>ss_binding := bd, ss_model := a, ss_effort := b, ss_tier := c\<rparr>)"
    and callback: "H K s \<Longrightarrow> H K (s\<lparr>ss_callback_done := True\<rparr>)"
begin

lemma k_set_phase [keeps_intros]: "keeps (H K) (set_phase p)"
  by (simp add: set_phase_def keeps_modify phase)

lemma k_bind_thread [keeps_intros]: "keeps (H K) (bind_thread env m)"
  unfolding bind_thread_def Let_def by (intro keeps_intros keeps_modify bind early)

abbreviation HR :: "run_state \<Rightarrow> bool" where "HR r \<equiv> H [] (rs_session r)"

lemma k_in_session [keeps_intros]: "keeps (H []) m \<Longrightarrow> keeps HR (in_session m)"
  by (auto simp: keeps_def in_session_def split: prod.split)

lemma k_launch [keeps_intros]: "keeps HR (launch env c meth params)"
  unfolding launch_def set_job_def by (intro keeps_intros keeps_modify) simp_all

lemma k_delivery [keeps_intros]: "keeps HR (take_delivery env c d)"
  unfolding take_delivery_def accept_closed_def
  by (cases d) (auto intro!: keeps_intros keeps_modify k_event)

lemma k_drain [keeps_intros]: "keeps HR (drain env c ds)"
  by (induction ds) (auto intro!: keeps_intros split: delivery.split)

lemma k_callback: "keeps (H K) (modify (\<lambda>s. s\<lparr>ss_callback_done := True\<rparr>))"
  by (intro keeps_modify callback)

lemma k_response [keeps_intros]: "keeps HR (on_response env c p m)"
  unfolding on_response_def set_job_def by (intro keeps_intros keeps_modify) simp_all

lemma k_job [keeps_intros]: "keeps HR (on_job env c result queued)"
  unfolding on_job_def set_job_def Let_def
  by (cases result) (auto intro!: keeps_intros keeps_modify k_callback split: job_error.split)

lemma k_select [keeps_intros]: "keeps HR (wait_select env ob)"
  unfolding wait_select_def by (intro keeps_intros)

lemma k_iteration [keeps_intros]: "keeps HR (run_iteration env ob)"
  unfolding run_iteration_def finish_run_def Let_def by (intro keeps_intros keeps_modify) simp_all

lemma k_loop: "keeps HR (run_loop env obs)"
  by (induction obs) (auto intro!: keeps_intros)

lemma k_run: "keeps HR (run_turn env obs)"
  unfolding run_turn_def start_run_def by (intro keeps_intros k_loop)

end

section \<open>Bounds on what is kept\<close>

definition bounded_session :: "session \<Rightarrow> bool" where
  "bounded_session s \<longleftrightarrow> length (ss_items s) \<le> max_items \<and> distinct (map fst (ss_items s))
     \<and> length (ss_calls s) \<le> max_items \<and> distinct (map fst (ss_calls s))
     \<and> length (ss_requests s) \<le> max_consumed_requests \<and> length (ss_pending s) \<le> max_remote_requests"

lemma update_length: "distinct (map fst xs) \<Longrightarrow> length (AList.update k v xs) =
    (if map_of xs k = None then Suc (length xs) else length xs)"
  by (induction xs) auto

interpretation bounds: run_invariant "\<lambda>_. bounded_session"
  by unfold_locales
    (auto simp: bounded_session_def put_call_def item_of_def call_of_def update_length distinct_update)

section \<open>One reply a request\<close>

definition answered_once :: "string list \<Rightarrow> session \<Rightarrow> bool" where
  "answered_once K s \<longleftrightarrow> distinct (ss_requests s)
     \<and> distinct (map sr_key (ss_sent s) @ map request_key (ss_pending s) @ K)
     \<and> set (map sr_key (ss_sent s) @ map request_key (ss_pending s) @ K) \<subseteq> set (ss_requests s)"

interpretation once: run_invariant answered_once
  by unfold_locales (auto simp: answered_once_def put_call_def)

section \<open>Replies that grant nothing\<close>

definition grants_nothing :: "sent_reply \<Rightarrow> bool" where
  "grants_nothing r \<longleftrightarrow> (\<exists>text success. sr_result r = tool_reply text success)
     \<or> sr_result r = JObj [(''decision'', JStr ''decline'')]
     \<or> sr_result r = JObj [(''permissions'', JObj []), (''scope'', JStr ''turn'')]"

lemma deny_reply_cases: "deny_reply m = Some v \<Longrightarrow>
    v = JObj [(''decision'', JStr ''decline'')] \<or> v = JObj [(''permissions'', JObj []), (''scope'', JStr ''turn'')]"
  by (auto simp: deny_reply_def split: if_splits)

definition denial_noted :: "session \<Rightarrow> bool" where
  "denial_noted s \<longleftrightarrow> list_all grants_nothing (ss_sent s)
     \<and> (\<not> ss_permission s \<longrightarrow> list_all (\<lambda>r. \<exists>text success. sr_result r = tool_reply text success) (ss_sent s))"

interpretation denials: run_invariant "\<lambda>_. denial_noted"
  by unfold_locales (auto simp: denial_noted_def grants_nothing_def put_call_def list_all_iff dest: deny_reply_cases)

section \<open>What never changes again\<close>

definition items_kept :: "(string \<times> item_view) list \<Rightarrow> (string \<times> item_view) list \<Rightarrow> bool" where
  "items_kept xs ys \<longleftrightarrow> (\<forall>i v. map_of xs i = Some v \<longrightarrow>
     (\<exists>w. map_of ys i = Some w \<and> iv_kind w = iv_kind v \<and> (iv_completed v \<longrightarrow> w = v)))"

definition calls_kept :: "(string \<times> host_call) list \<Rightarrow> (string \<times> host_call) list \<Rightarrow> bool" where
  "calls_kept xs ys \<longleftrightarrow> (\<forall>i c. map_of xs i = Some c \<longrightarrow>
     (\<exists>d. map_of ys i = Some d \<and> hc_claim d = hc_claim c \<and> (hc_requested c \<longrightarrow> hc_requested d)
       \<and> (hc_responded c \<longrightarrow> hc_responded d \<and> hc_result d = hc_result c)))"

definition terminal_kept :: "session \<Rightarrow> session \<Rightarrow> bool" where
  "terminal_kept s t \<longleftrightarrow> (case ss_terminal s of None \<Rightarrow> True
     | Some tv \<Rightarrow> ss_terminal t = Some tv \<and> ss_status t = ss_status s
         \<and> dom (map_of (ss_items t)) = dom (map_of (ss_items s)))"

definition grows :: "session \<Rightarrow> session \<Rightarrow> bool" where
  "grows s t \<longleftrightarrow> items_kept (ss_items s) (ss_items t) \<and> calls_kept (ss_calls s) (ss_calls t) \<and> terminal_kept s t
     \<and> prefix (ss_requests s) (ss_requests t) \<and> prefix (ss_sent s) (ss_sent t)
     \<and> (ss_permission s \<longrightarrow> ss_permission t)"

lemma items_kept_new: "items_kept xs ys \<Longrightarrow> map_of ys i = None \<Longrightarrow> items_kept xs (AList.update i v ys)"
  by (fastforce simp: items_kept_def update_conv')

lemma items_kept_complete:
  "items_kept xs ys \<Longrightarrow> map_of ys i = Some old \<Longrightarrow> \<not> iv_completed old \<Longrightarrow> iv_kind old = iv_kind v \<Longrightarrow>
   items_kept xs (AList.update i v ys)"
  by (fastforce simp: items_kept_def update_conv')

lemma calls_kept_new: "calls_kept xs ys \<Longrightarrow> map_of ys i = None \<Longrightarrow> calls_kept xs (AList.update i c ys)"
  by (fastforce simp: calls_kept_def update_conv')

lemma calls_kept_set:
  "calls_kept xs ys \<Longrightarrow> map_of ys i = Some c \<Longrightarrow> hc_claim d = hc_claim c \<Longrightarrow> (hc_requested c \<longrightarrow> hc_requested d) \<Longrightarrow>
   (hc_responded c \<longrightarrow> hc_responded d \<and> hc_result d = hc_result c) \<Longrightarrow> calls_kept xs (AList.update i d ys)"
  by (fastforce simp: calls_kept_def update_conv')

lemma dom_update_old: "map_of xs i = Some old \<Longrightarrow> dom (map_of (AList.update i v xs)) = dom (map_of xs)"
  by (auto simp: update_conv')

lemmas kept = items_kept_new items_kept_complete calls_kept_new calls_kept_set prefix_def

interpretation growth: run_invariant "\<lambda>_. grows s0" for s0
  by unfold_locales
    (auto simp: grows_def terminal_kept_def put_call_def item_of_def call_of_def dom_update_old
       intro: kept split: option.splits)

lemma grows_refl: "grows s s"
  by (auto simp: grows_def items_kept_def calls_kept_def terminal_kept_def split: option.split)

section \<open>What only the run decides\<close>

definition same_identity :: "session \<Rightarrow> session \<Rightarrow> bool" where
  "same_identity s t \<longleftrightarrow> ss_binding t = ss_binding s \<and> ss_turn t = ss_turn s \<and> ss_phase t = ss_phase s
     \<and> ss_callback_done t = ss_callback_done s \<and> ss_model t = ss_model s \<and> ss_effort t = ss_effort s
     \<and> ss_tier t = ss_tier s \<and> ss_completion t = ss_completion s"

interpretation identity: session_invariant "\<lambda>_. same_identity s0" for s0
  by unfold_locales (auto simp: same_identity_def put_call_def)

text \<open>The phase, the callback and the bound thread: only \<open>Run\<close> moves them.\<close>

definition core :: "session \<Rightarrow> string \<times> bool \<times> thread_binding" where
  "core s = (ss_phase s, ss_callback_done s, ss_binding s)"

interpretation core: turn_invariant "\<lambda>_ s. core s = c" for c
  by unfold_locales (auto simp: core_def put_call_def)

end
