(* ===== verification/Codex_Order.thy ===== *)
theory Codex_Order
  imports Codex_Invariants
begin

text \<open>
  The order of a run: \<open>run_plan\<close> is the sequence of calls the protocol allows, \<open>standing\<close> where a run is in
  it between two iterations, \<open>in_order\<close> what is true of every state a run can end in, failed or not.
\<close>

definition run_plan :: "session_env \<Rightarrow> string list" where
  "run_plan env = [''initialize'', ''initialized'', ''config/read'',
     (if op_resume (se_options env) = [] then ''thread/start'' else ''thread/resume''), ''turn/start'']"

definition standing :: "session_env \<Rightarrow> nat \<Rightarrow> job option \<Rightarrow> string \<times> bool \<times> thread_binding \<Rightarrow> run_state \<Rightarrow> bool" where
  "standing env n j c r \<longleftrightarrow> rs_calls r = take n (run_plan env) \<and> rs_job r = j \<and> core (rs_session r) = c"

definition in_order :: "session_env \<Rightarrow> run_state \<Rightarrow> bool" where
  "in_order env r \<longleftrightarrow> prefix (rs_calls r) (run_plan env)
     \<and> length (rs_calls r) \<le> (if ss_callback_done (rs_session r) \<and> bd_thread (ss_binding (rs_session r)) \<noteq> [] then 5 else 4)"

lemma standing_order:
  "standing env n j c r \<Longrightarrow> n \<le> (if fst (snd c) \<and> bd_thread (snd (snd c)) \<noteq> [] then 5 else 4) \<Longrightarrow> in_order env r"
  by (auto simp: standing_def in_order_def core_def take_is_prefix run_plan_def split: if_splits)

lemma in_session_standing:
  assumes "keeps (\<lambda>s. core s = c) m" and "n \<le> (if fst (snd c) \<and> bd_thread (snd (snd c)) \<noteq> [] then 5 else 4)"
  shows "leads (standing env n j c) (in_session m) (\<lambda>_. standing env n j c) (in_order env)"
proof (rule leads_keeps)
  show "keeps (standing env n j c) (in_session m)"
    using assms(1) by (auto simp: keeps_def in_session_def standing_def split: prod.split)
qed (rule standing_order [OF _ assms(2)])

lemma launch_standing:
  assumes meth: "meth = run_plan env ! n" and n: "n < 5" and ok: "n = 4 \<Longrightarrow> cb \<and> bd_thread b \<noteq> []"
  shows "leads (standing env n j (p, cb, b)) (launch env cancelled meth params)
    (\<lambda>_. standing env (Suc n) (Some (if meth = ''initialized'' then JobNotify else JobCall meth)) (meth, cb, b)) (in_order env)"
proof -
  let ?S = "standing env n j (p, cb, b)"
  have le: "n \<le> (if fst (snd (p, cb, b)) \<and> bd_thread (snd (snd (p, cb, b))) \<noteq> [] then 5 else 4)"
    using n ok by auto
  have next_call: "take n (run_plan env) @ [run_plan env ! n] = take (Suc n) (run_plan env)"
    by (rule take_Suc_conv_app_nth [symmetric]) (use n in \<open>simp add: run_plan_def\<close>)
  note here = in_session_standing [OF _ le]
  have stay: "leads ?S (lift_result x) (\<lambda>_. ?S) (in_order env)" for x
    by (intro leads_keeps keeps_intros standing_order [OF _ le])
  have shape: "leads ?S (if meth \<noteq> ''initialized''
        then in_session (chain (set_branch ''shape'') (chain (set_shape Failed)
          (andthen (check_shape env (''call:'' @ meth) raw) (\<lambda>_. set_shape Passed))))
        else ret ()) (\<lambda>_. ?S) (in_order env)" for raw
    by (auto intro!: here core.k_failure core.k_shape keeps_intros leads_ret)
  have last: "leads ?S (chain (in_session (set_phase meth)) (chain (modify (\<lambda>r. r\<lparr>rs_calls := rs_calls r @ [meth]\<rparr>))
      (set_job (Some (if meth = ''initialized'' then JobNotify else JobCall meth)))))
    (\<lambda>_. standing env (Suc n) (Some (if meth = ''initialized'' then JobNotify else JobCall meth)) (meth, cb, b)) (in_order env)"
    by (auto simp: leads_def standing_def core_def run_chain in_session_def set_phase_def set_job_def modify_def meth next_call)
  have cancel: "leads ?S (check x e) (\<lambda>_. ?S) (in_order env)" for x e
    by (intro leads_keeps keeps_intros standing_order [OF _ le])
  show ?thesis
    unfolding launch_def
    by (intro leads_chain [OF here] leads_andthen [OF stay] leads_chain [OF shape] leads_chain [OF cancel] last core.k_failure)
qed


section \<open>Between two iterations\<close>

definition places :: "session_env \<Rightarrow> (nat \<times> job option \<times> string \<times> bool) list" where
  "places env = (let thread = run_plan env ! 3 in
     [(1, Some (JobCall ''initialize''), ''initialize'', False), (2, Some JobNotify, ''initialized'', False),
      (3, Some (JobCall ''config/read''), ''config/read'', False), (4, Some (JobCall thread), thread, False),
      (4, Some JobBinding, ''binding'', False), (5, Some (JobCall ''turn/start''), ''turn/start'', True),
      (5, None, ''running'', True)])"

definition must_be_bound :: "string \<Rightarrow> bool" where
  "must_be_bound p \<longleftrightarrow> p = ''binding'' \<or> p = ''turn/start'' \<or> p = ''running''"

definition settled :: "session_env \<Rightarrow> run_state \<Rightarrow> bool" where
  "settled env r \<longleftrightarrow> (\<exists>n j p cb b. (n, j, p, cb) \<in> set (places env) \<and> standing env n j (p, cb, b) r
     \<and> (must_be_bound p \<longrightarrow> bd_thread b \<noteq> []))"

lemma settledI:
  "standing env n j (p, cb, b) r \<Longrightarrow> (n, j, p, cb) \<in> set (places env) \<Longrightarrow> (must_be_bound p \<Longrightarrow> bd_thread b \<noteq> []) \<Longrightarrow>
   settled env r"
  unfolding settled_def by blast

lemma place_bound:
  "(n, j, p, cb) \<in> set (places env) \<Longrightarrow> (must_be_bound p \<Longrightarrow> bd_thread b \<noteq> []) \<Longrightarrow>
   n \<le> (if fst (snd (p, cb, b)) \<and> bd_thread (snd (snd (p, cb, b))) \<noteq> [] then 5 else 4)"
  by (auto simp: places_def Let_def must_be_bound_def)

lemma settled_order: "settled env r \<Longrightarrow> in_order env r"
  by (auto simp: settled_def intro: standing_order place_bound)

lemma thread_policy_id: "thread_policy env e th model \<Longrightarrow> str (fld th ''id'') \<noteq> []"
  by (simp add: thread_policy_def valid_scalar_def)

lemma bind_thread_bound: "bind_thread env m s = (Inr u, t) \<Longrightarrow> bd_thread (ss_binding t) \<noteq> []"
  by (auto simp: bind_thread_def run_simps Let_def check_thread_def split: if_splits dest: thread_policy_id)

lemma bind_thread_phase: "keeps (\<lambda>s. ss_phase s = p \<and> ss_callback_done s = cb) (bind_thread env m)"
  unfolding bind_thread_def Let_def check_thread_def
  by (intro keeps_intros keeps_modify; simp)

lemma bind_thread_core:
  assumes "core s = (p, cb, b)"
  shows "\<exists>b'. core (snd (bind_thread env m s)) = (p, cb, b')"
  using assms bind_thread_phase [of p cb env m] by (simp add: core_def keeps_def)

lemma take_delivery_standing:
  assumes "n \<le> (if fst (snd c) \<and> bd_thread (snd (snd c)) \<noteq> [] then 5 else 4)"
  shows "leads (standing env n j c) (take_delivery env x d) (\<lambda>_. standing env n j c) (in_order env)"
proof (rule leads_keeps)
  have "keeps (standing env n j c) (in_session m)" if "keeps (\<lambda>s. core s = c) m" for m :: "unit act"
    using that by (auto simp: keeps_def in_session_def standing_def split: prod.split)
  note session = this
  show "keeps (standing env n j c) (take_delivery env x d)"
  proof (cases d)
    case (Delivered ev)
    show ?thesis unfolding take_delivery_def Delivered delivery.case by (rule session [OF core.k_event])
  next
    case (ChannelClosed clean)
    have closed: "keeps (standing env n j c) (modify (\<lambda>r. r\<lparr>rs_open := False\<rparr>))"
      by (rule keeps_modify) (simp add: standing_def)
    show ?thesis unfolding take_delivery_def ChannelClosed delivery.case accept_closed_def
      by (intro keeps_chain keeps_if keeps_check keeps_fail closed session core.k_failure)
  qed
qed (rule standing_order [OF _ assms])

lemma drain_standing:
  assumes "n \<le> (if fst (snd c) \<and> bd_thread (snd (snd c)) \<noteq> [] then 5 else 4)"
  shows "leads (standing env n j c) (drain env x ds) (\<lambda>_. standing env n j c) (in_order env)"
proof (induction ds)
  case Nil
  show ?case using standing_order [OF _ assms] by (auto intro: leads_keeps keeps_intros)
next
  case (Cons d ds)
  have check: "leads (standing env n j c) (check ok e) (\<lambda>_. standing env n j c) (in_order env)" for ok e
    by (intro leads_keeps keeps_intros standing_order [OF _ assms])
  have rest: "leads (standing env n j c) (case d of Delivered _ \<Rightarrow> drain env x ds | ChannelClosed _ \<Rightarrow> ret ())
      (\<lambda>_. standing env n j c) (in_order env)"
    using Cons.IH by (cases d) (auto intro: leads_ret)
  show ?case by (simp del: split_paired_All) (intro leads_chain [OF check] leads_chain [OF take_delivery_standing [OF assms]] rest)
qed

section \<open>Replies\<close>

lemma in_session_leads:
  assumes "\<And>s. core s = c \<Longrightarrow> (case m s of (Inl _, t) \<Rightarrow> True | (Inr _, t) \<Rightarrow> core t = c')"
    and "\<And>s t e. core s = c \<Longrightarrow> m s = (Inl e, t) \<Longrightarrow> \<exists>c''. core t = c'' \<and>
          n \<le> (if fst (snd c'') \<and> bd_thread (snd (snd c'')) \<noteq> [] then 5 else 4)"
  shows "leads (standing env n j c) (in_session m) (\<lambda>_. standing env n j c') (in_order env)"
  unfolding leads_def
proof (intro allI impI)
  fix r assume r: "standing env n j c r"
  then have c: "core (rs_session r) = c" by (simp add: standing_def)
  obtain res t where m: "m (rs_session r) = (res, t)" by fastforce
  show "case in_session m r of (Inl _, t) \<Rightarrow> in_order env t | (Inr a, t) \<Rightarrow> standing env n j c' t"
  proof (cases res)
    case (Inl e)
    obtain c'' where "core t = c''" "n \<le> (if fst (snd c'') \<and> bd_thread (snd (snd c'')) \<noteq> [] then 5 else 4)"
      using assms(2) [OF c m [unfolded Inl]] by blast
    then show ?thesis
      using r Inl by (auto simp: in_session_def m standing_def intro!: standing_order [of env n j c''])
  next
    case (Inr a)
    then show ?thesis using r assms(1) [OF c] by (simp add: in_session_def m standing_def)
  qed
qed

lemma job_standing: "leads (standing env n j c) (set_job j') (\<lambda>_. standing env n j' c) E"
  by (simp add: leads_def set_job_def modify_def standing_def)

lemma plan_nth [simp]:
  "run_plan env ! 0 = ''initialize''" "run_plan env ! Suc 0 = ''initialized''" "run_plan env ! 2 = ''config/read''"
  "run_plan env ! 4 = ''turn/start''" "length (run_plan env) = 5"
  by (simp_all add: run_plan_def)

lemma thread_call: "run_plan env ! 3 \<in> {''thread/start'', ''thread/resume''}"
  by (simp add: run_plan_def)

lemma thread_call_simps:
  "run_plan env ! 3 \<noteq> ''initialized''" "\<not> must_be_bound (run_plan env ! 3)"
  "\<not> must_be_bound ''initialize''" "\<not> must_be_bound ''initialized''" "\<not> must_be_bound ''config/read''"
  using thread_call [of env] by (auto simp: must_be_bound_def)

lemma places_in:
  "(1, Some (JobCall ''initialize''), ''initialize'', False) \<in> set (places env)"
  "(2, Some JobNotify, ''initialized'', False) \<in> set (places env)"
  "(3, Some (JobCall ''config/read''), ''config/read'', False) \<in> set (places env)"
  "(4, Some (JobCall (run_plan env ! 3)), run_plan env ! 3, False) \<in> set (places env)"
  "(4, Some JobBinding, ''binding'', False) \<in> set (places env)"
  "(5, Some (JobCall ''turn/start''), ''turn/start'', True) \<in> set (places env)"
  "(5, None, ''running'', True) \<in> set (places env)"
  by (simp_all add: places_def Let_def)

lemma launch_settled:
  assumes "meth = run_plan env ! n" and "n < 5" and "n = 4 \<Longrightarrow> cb \<and> bd_thread b \<noteq> []"
    and "(Suc n, Some (if meth = ''initialized'' then JobNotify else JobCall meth), meth, cb) \<in> set (places env)"
    and "must_be_bound meth \<Longrightarrow> bd_thread b \<noteq> []"
  shows "leads (standing env n j (p, cb, b)) (launch env x meth ps) (\<lambda>_. settled env) (in_order env)"
proof (rule leads_post [OF launch_standing [OF assms(1-3)]])
  fix r
  assume "standing env (Suc n) (Some (if meth = ''initialized'' then JobNotify else JobCall meth)) (meth, cb, b) r"
  then show "settled env r" by (rule settledI [OF _ assms(4,5)])
qed

lemma initialize_settled: "leads (standing env 0 j (p, False, b)) (launch env x ''initialize'' ps) (\<lambda>_. settled env) (in_order env)"
  by (rule launch_settled) (simp_all add: places_in [unfolded One_nat_def] thread_call_simps)

lemma initialized_settled: "leads (standing env 1 j (p, False, b)) (launch env x ''initialized'' ps) (\<lambda>_. settled env) (in_order env)"
  by (rule launch_settled) (simp_all add: places_in [unfolded numeral_2_eq_2] thread_call_simps)

lemma config_settled: "leads (standing env 2 j (p, False, b)) (launch env x ''config/read'' ps) (\<lambda>_. settled env) (in_order env)"
  by (rule launch_settled) (use places_in(3) in \<open>simp_all add: thread_call_simps\<close>)

lemma thread_settled: "leads (standing env 3 j (p, False, b)) (launch env x (run_plan env ! 3) ps) (\<lambda>_. settled env) (in_order env)"
  by (rule launch_settled) (use places_in(4) in \<open>simp_all add: thread_call_simps\<close>)

lemma turn_settled:
  "bd_thread b \<noteq> [] \<Longrightarrow>
   leads (standing env 4 j (p, True, b)) (launch env x ''turn/start'' ps) (\<lambda>_. settled env) (in_order env)"
  by (rule launch_settled) (use places_in(6) in \<open>simp_all add: thread_call_simps\<close>)

lemma on_response_simps:
  "on_response env x ''initialize'' m =
    chain (in_session (chain (set_branch ''initialize'') (check (initialize_ok env m) EPolicy))) (launch env x ''initialized'' JNull)"
  "on_response env x ''config/read'' m =
    chain (in_session (chain (set_branch ''config'') (read_config env m)))
      (reads (\<lambda>r. case thread_params env (rs_session r) of (meth, params) \<Rightarrow> launch env x meth params))"
  "p \<in> {''thread/start'', ''thread/resume''} \<Longrightarrow> on_response env x p m =
    chain (in_session (chain (set_branch ''thread_binding'') (bind_thread env m)))
      (chain (in_session (set_phase ''binding'')) (set_job (Some JobBinding)))"
  "on_response env x ''turn/start'' m =
    in_session (chain (set_branch ''turn_binding'') (chain (bind_turn env m) (chain (set_phase ''running'') (flush_host_tools env))))"
  "on_response env x ''running'' m = in_session (chain (set_branch ''phase'') (fail EProtocol))"
  by (auto simp: on_response_def)

lemma answer_initialize:
  "leads (standing env 1 None (''initialize'', False, b)) (on_response env x ''initialize'' m) (\<lambda>_. settled env) (in_order env)"
proof -
  have a: "leads (standing env 1 None (''initialize'', False, b)) (in_session (chain (set_branch ''initialize'')
      (check (initialize_ok env m) EPolicy))) (\<lambda>_. standing env 1 None (''initialize'', False, b)) (in_order env)"
    by (rule in_session_standing) (auto intro: keeps_intros core.k_failure)
  show ?thesis unfolding on_response_simps by (rule leads_chain [OF a initialized_settled])
qed

lemma answer_config:
  "leads (standing env 3 None (''config/read'', False, b)) (on_response env x ''config/read'' m) (\<lambda>_. settled env) (in_order env)"
proof -
  have a: "leads (standing env 3 None (''config/read'', False, b)) (in_session (chain (set_branch ''config'') (read_config env m)))
      (\<lambda>_. standing env 3 None (''config/read'', False, b)) (in_order env)"
    by (rule in_session_standing) (auto intro: keeps_intros core.k_failure core.k_config)
  have p: "fst (thread_params env s) = run_plan env ! 3" for s
    by (simp add: thread_params_def run_plan_def Let_def)
  have l: "leads (standing env 3 None (''config/read'', False, b)) (reads (\<lambda>r. case thread_params env (rs_session r) of
      (meth, params) \<Rightarrow> launch env x meth params)) (\<lambda>_. settled env) (in_order env)"
    by (rule leads_reads) (simp add: case_prod_beta p, rule leads_pre [OF thread_settled], simp)
  show ?thesis unfolding on_response_simps by (rule leads_chain [OF a l])
qed

lemma answer_thread:
  "leads (standing env 4 None (run_plan env ! 3, False, b)) (on_response env x (run_plan env ! 3) m)
     (\<lambda>_. settled env) (in_order env)"
proof -
  have "case on_response env x (run_plan env ! 3) m r of (Inl _, t) \<Rightarrow> in_order env t | (Inr _, t) \<Rightarrow> settled env t"
    if r: "standing env 4 None (run_plan env ! 3, False, b) r" for r
  proof -
    let ?s = "(rs_session r)\<lparr>ss_failure := (ss_failure (rs_session r))\<lparr>ff_branch := ''thread_binding''\<rparr>\<rparr>"
    obtain res t where t: "bind_thread env m ?s = (res, t)" by fastforce
    have "core ?s = (run_plan env ! 3, False, b)" using r by (simp add: standing_def core_def)
    from bind_thread_core [OF this, of env m] obtain b' where b': "core t = (run_plan env ! 3, False, b')" by (auto simp: t)
    show ?thesis
    proof (cases res)
      case (Inl e)
      have "standing env 4 None (run_plan env ! 3, False, b') (r\<lparr>rs_session := t\<rparr>)"
        using r b' by (simp add: standing_def)
      then show ?thesis
        using Inl standing_order [of env 4 None "(run_plan env ! 3, False, b')"]
        by (simp add: on_response_simps(3) [OF thread_call] run_chain in_session_def set_branch_def modify_def t)
    next
      case (Inr u)
      have "standing env 4 (Some JobBinding) (''binding'', False, b') (r\<lparr>rs_session := t\<lparr>ss_phase := ''binding''\<rparr>, rs_job := Some JobBinding\<rparr>)"
        using r b' by (simp add: standing_def core_def)
      then show ?thesis
        using Inr settledI [OF _ places_in(5)] bind_thread_bound [OF t [unfolded Inr]] b'
        by (simp add: on_response_simps(3) [OF thread_call] run_chain in_session_def set_branch_def modify_def t
            set_phase_def set_job_def core_def)
    qed
  qed
  then show ?thesis by (simp add: leads_def)
qed

lemma answer_turn:
  assumes b: "bd_thread b \<noteq> []"
  shows "leads (standing env 5 None (''turn/start'', True, b)) (on_response env x ''turn/start'' m) (\<lambda>_. settled env) (in_order env)"
proof -
  have before: "keeps (\<lambda>s. core s = (''turn/start'', True, b)) (chain (set_branch ''turn_binding'') (bind_turn env m))"
    by (intro keeps_intros core.k_failure core.k_bind_turn)
  have after: "keeps (\<lambda>s. core s = (''running'', True, b)) (flush_host_tools env)"
    by (rule core.k_flush)
  have split: "in_session (chain m1 (chain m2 (chain m3 m4))) = chain (in_session (chain m1 m2)) (chain (in_session m3) (in_session m4))"
    for m1 m2 m3 and m4 :: "unit act"
    by (rule ext) (auto simp: in_session_def run_chain split: prod.split sum.split)
  have phase: "leads (standing env 5 None (''turn/start'', True, b)) (in_session (set_phase ''running''))
      (\<lambda>_. standing env 5 None (''running'', True, b)) (in_order env)"
    by (simp add: leads_def in_session_def set_phase_def modify_def standing_def core_def)
  have rest: "leads (standing env 5 None (''running'', True, b)) (in_session (flush_host_tools env)) (\<lambda>_. settled env) (in_order env)"
    by (rule leads_post [OF in_session_standing [OF after]]) (use b places_in(7) in \<open>auto intro: settledI\<close>)
  show ?thesis unfolding on_response_simps split
    by (rule leads_chain [OF in_session_standing [OF before] leads_chain [OF phase rest]]) (simp add: b)
qed

lemma response_shape:
  assumes n: "n \<le> (if fst (snd c) \<and> bd_thread (snd (snd c)) \<noteq> [] then 5 else 4)"
    and answer: "\<And>m. leads (standing env n None c) (on_response env x p m) (\<lambda>_. settled env) (in_order env)"
  shows "leads (standing env n None c)
    (chain (in_session (note_failure env ''response'' ''shape'' p))
      (chain (in_session (set_shape Failed))
       (andthen (in_session (check_shape env (''response:'' @ p) raw)) (\<lambda>m.
         chain (in_session (set_shape Passed)) (on_response env x p m))))) (\<lambda>_. settled env) (in_order env)"
proof -
  have quiet: "leads (standing env n None c) (in_session m) (\<lambda>_. standing env n None c) (in_order env)"
    if "keeps (\<lambda>s. core s = c) m" for m :: "unit act"
    by (rule in_session_standing [OF that n])
  have shape: "leads (standing env n None c) (in_session (check_shape env nm raw)) (\<lambda>_. standing env n None c) (in_order env)" for nm
    by (rule in_session_standing [OF core.k_shape n])
  show ?thesis
    by (intro leads_chain [OF quiet] leads_andthen [OF shape] answer core.k_failure)
qed

lemma place_cases:
  assumes "(n, j, p, cb) \<in> set (places env)"
  obtains "n = 1" "p = ''initialize''" "\<not> cb" "j \<noteq> None" | "n = 2" "p = ''initialized''" "\<not> cb" "j \<noteq> None"
    | "n = 3" "p = ''config/read''" "\<not> cb" "j \<noteq> None" | "n = 4" "p = run_plan env ! 3" "\<not> cb" "j \<noteq> None"
    | "n = 4" "p = ''binding''" "\<not> cb" "j \<noteq> None" | "n = 5" "p = ''turn/start''" "cb" "j \<noteq> None"
    | "n = 5" "p = ''running''" "cb" "j = None"
proof -
  have "(n, j, p, cb) = (1, Some (JobCall ''initialize''), ''initialize'', False)
    \<or> (n, j, p, cb) = (2, Some JobNotify, ''initialized'', False)
    \<or> (n, j, p, cb) = (3, Some (JobCall ''config/read''), ''config/read'', False)
    \<or> (n, j, p, cb) = (4, Some (JobCall (run_plan env ! 3)), run_plan env ! 3, False)
    \<or> (n, j, p, cb) = (4, Some JobBinding, ''binding'', False)
    \<or> (n, j, p, cb) = (5, Some (JobCall ''turn/start''), ''turn/start'', True)
    \<or> (n, j, p, cb) = (5, None, ''running'', True)"
    using assms unfolding places_def Let_def by (simp only: set_simps insert_iff empty_iff simp_thms)
  then show thesis
    apply (elim disjE)
    subgoal by (rule that(1)) simp_all
    subgoal by (rule that(2)) simp_all
    subgoal by (rule that(3)) simp_all
    subgoal by (rule that(4)) simp_all
    subgoal by (rule that(5)) simp_all
    subgoal by (rule that(6)) simp_all
    subgoal by (rule that(7)) simp_all
    done
qed

text \<open>What \<open>on_job\<close> does once the events before the reply are handled.\<close>

definition on_reply :: "session_env \<Rightarrow> bool \<Rightarrow> string \<Rightarrow> session \<Rightarrow> string \<Rightarrow> unit ract" where
  "on_reply env x raw s p =
    (if p = ''binding''
     then chain (in_session (modify (\<lambda>s. s\<lparr>ss_callback_done := True\<rparr>)))
            (launch env x ''turn/start'' (turn_params env (ss_binding s) (ss_effort s) (ss_tier s)))
     else if p = ''initialized'' then launch env x ''config/read'' (config_params env)
     else chain (in_session (note_failure env ''response'' ''shape'' p))
      (chain (in_session (set_shape Failed))
       (andthen (in_session (check_shape env (''response:'' @ p) raw)) (\<lambda>m.
         chain (in_session (set_shape Passed)) (on_response env x p m)))))"

lemma reply_settled:
  assumes place: "(n, j, p, cb) \<in> set (places env)" and j: "j \<noteq> None"
    and b: "must_be_bound p \<Longrightarrow> bd_thread b \<noteq> []"
  shows "leads (standing env n None (p, cb, b)) (on_reply env x raw s p) (\<lambda>_. settled env) (in_order env)"
proof -
  note bound = place_bound [OF place b]
  show ?thesis
  proof (cases rule: place_cases [OF place])
    case 1
    have "leads (standing env n None (p, cb, b)) (on_response env x p m) (\<lambda>_. settled env) (in_order env)" for m
      using answer_initialize [of env b x m] 1 by simp
    from response_shape [OF bound this] show ?thesis using 1 by (simp add: on_reply_def)
  next
    case 2
    then show ?thesis using config_settled [of env None _ b x "config_params env"] by (simp add: on_reply_def)
  next
    case 3
    have "leads (standing env n None (p, cb, b)) (on_response env x p m) (\<lambda>_. settled env) (in_order env)" for m
      using answer_config [of env b x m] 3 by simp
    from response_shape [OF bound this] show ?thesis using 3 by (simp add: on_reply_def)
  next
    case 4
    have "leads (standing env n None (p, cb, b)) (on_response env x p m) (\<lambda>_. settled env) (in_order env)" for m
      using answer_thread [of env b x m] 4 by simp
    moreover have "p \<noteq> ''binding'' \<and> p \<noteq> ''initialized''" using 4 thread_call [of env] by auto
    ultimately show ?thesis using response_shape [OF bound, of env x p raw] by (simp add: on_reply_def)
  next
    case 5
    then have bd: "bd_thread b \<noteq> []" using b by (simp add: must_be_bound_def)
    have "leads (standing env 4 None (''binding'', False, b)) (in_session (modify (\<lambda>s. s\<lparr>ss_callback_done := True\<rparr>)))
        (\<lambda>_. standing env 4 None (''binding'', True, b)) (in_order env)"
      by (simp add: leads_def in_session_def modify_def standing_def core_def)
    from leads_chain [OF this turn_settled [OF bd]] show ?thesis using 5 by (simp add: on_reply_def)
  next
    case 6
    then have bd: "bd_thread b \<noteq> []" using b by (simp add: must_be_bound_def)
    have "leads (standing env n None (p, cb, b)) (on_response env x p m) (\<lambda>_. settled env) (in_order env)" for m
      using answer_turn [OF bd, of env x m] 6 by simp
    from response_shape [OF bound this] show ?thesis using 6 by (simp add: on_reply_def)
  next
    case 7
    then show ?thesis using j by simp
  qed
qed

section \<open>The loop\<close>

lemma job_settled:
  assumes place: "(n, j, p, cb) \<in> set (places env)" and j: "j \<noteq> None"
    and b: "must_be_bound p \<Longrightarrow> bd_thread b \<noteq> []"
  shows "leads (standing env n j (p, cb, b)) (on_job env x result queued) (\<lambda>_. settled env) (in_order env)"
proof -
  note bound = place_bound [OF place b]
  have check: "leads (standing env n None (p, cb, b)) (check ok e) (\<lambda>_. standing env n None (p, cb, b)) (in_order env)" for ok e
    by (intro leads_keeps keeps_intros standing_order [OF _ bound])
  have note_err: "leads (standing env n None (p, cb, b)) (chain (in_session (note_failure env a1 a2 a3)) (fail e))
      (\<lambda>_. settled env) (in_order env)" for a1 a2 a3 e
    by (rule leads_chain [OF in_session_standing [OF core.k_failure(1) bound] leads_fail]) (use b standing_order [OF _ bound] in \<open>blast+\<close>)
  show ?thesis
  proof (cases result)
    case (Inl e)
    have err: "leads (standing env n None (p, cb, b)) (reads (\<lambda>r. case e of
          CallbackFailed \<Rightarrow> chain (in_session (note_failure env ''callback'' ''returned_error'' [])) (fail ECallback)
        | RemoteError \<Rightarrow> chain (in_session (note_failure env ''call_result'' ''rpc_error'' (ss_phase (rs_session r)))) (fail EProtocol)
        | TransportError \<Rightarrow> chain (in_session (note_failure env ''transport'' ''call_error'' [])) (fail EProtocol)))
        (\<lambda>_. settled env) (in_order env)"
      by (rule leads_reads, cases e) (auto intro: leads_pre [OF note_err])
    show ?thesis unfolding on_job_def Inl sum.case
      by (rule leads_chain [OF job_standing leads_chain [OF check err]])
  next
    case (Inr raw)
    have reply: "leads (standing env n None (p, cb, b)) (reads (\<lambda>r. on_reply env x raw (rs_session r) (ss_phase (rs_session r))))
        (\<lambda>_. settled env) (in_order env)"
    proof (rule leads_reads)
      fix r assume r: "standing env n None (p, cb, b) r"
      then have "ss_phase (rs_session r) = p" by (simp add: standing_def core_def)
      then show "leads (\<lambda>s. s = r) (on_reply env x raw (rs_session r) (ss_phase (rs_session r))) (\<lambda>_. settled env) (in_order env)"
        using r reply_settled [OF place j b, of x raw "rs_session r"] by (auto simp: leads_def)
    qed
    have same: "on_job env x result queued = chain (set_job None) (chain (drain env x queued)
        (reads (\<lambda>r. on_reply env x raw (rs_session r) (ss_phase (rs_session r)))))"
      by (simp add: on_job_def on_reply_def Inr Let_def)
    show ?thesis unfolding same
      by (rule leads_chain [OF job_standing leads_chain [OF drain_standing [OF bound] reply]])
  qed
qed

text \<open>An action that leaves the place of the run alone.\<close>

definition stays :: "session_env \<Rightarrow> 'a ract \<Rightarrow> bool" where
  "stays env m \<longleftrightarrow> (\<forall>n j c. n \<le> (if fst (snd c) \<and> bd_thread (snd (snd c)) \<noteq> [] then 5 else 4) \<longrightarrow>
     leads (standing env n j c) m (\<lambda>_. standing env n j c) (in_order env))"

lemma settledE:
  assumes "settled env r"
  obtains n j p cb b where "(n, j, p, cb) \<in> set (places env)" "standing env n j (p, cb, b) r"
    "must_be_bound p \<Longrightarrow> bd_thread b \<noteq> []"
  using assms unfolding settled_def by blast

lemma stays_settled: "stays env m \<Longrightarrow> leads (settled env) m (\<lambda>_. settled env) (in_order env)"
proof -
  assume m: "stays env m"
  have "case m r of (Inl _, t) \<Rightarrow> in_order env t | (Inr _, t) \<Rightarrow> settled env t" if r: "settled env r" for r
  proof -
    obtain n j p cb b where place: "(n, j, p, cb) \<in> set (places env)" and at: "standing env n j (p, cb, b) r"
      and b: "must_be_bound p \<Longrightarrow> bd_thread b \<noteq> []"
      using settledE [OF r] by metis
    have "settled env t" if "standing env n j (p, cb, b) t" for t
      by (rule settledI [OF that place b])
    with leadsD [OF m [unfolded stays_def, rule_format, OF place_bound [OF place b]] at]
    show ?thesis by (cases "m r"; cases "fst (m r)") simp_all
  qed
  then show ?thesis by (simp add: leads_def)
qed

lemma stays_delivery: "stays env (take_delivery env x d)"
  by (simp add: stays_def take_delivery_standing)

lemma stays_session: "(\<And>c. keeps (\<lambda>s. core s = c) m) \<Longrightarrow> stays env (in_session m)"
  unfolding stays_def by (blast intro: in_session_standing)

lemma settled_check: "leads (settled env) (check ok e) (\<lambda>_. settled env) (in_order env)"
  by (intro leads_keeps keeps_check) (rule settled_order)

lemma settled_finish: "leads (settled env) (finish_run env) (\<lambda>_. settled env) (in_order env)"
  unfolding finish_run_def by (intro stays_settled stays_session keeps_intros core.k_finish)

lemma settled_note: "leads (settled env) (chain (in_session (note_failure env a b c)) (fail e)) Q (in_order env)"
  by (rule leads_chain [OF stays_settled [OF stays_session [OF core.k_failure(1)]] leads_fail]) (rule settled_order)

lemma settled_job:
  assumes r: "settled env r" and "rs_job r \<noteq> None"
  shows "leads (\<lambda>s. s = r) (on_job env x result queued) (\<lambda>_. settled env) (in_order env)"
proof -
  obtain n j p cb b where place: "(n, j, p, cb) \<in> set (places env)" and at: "standing env n j (p, cb, b) r"
    and b: "must_be_bound p \<Longrightarrow> bd_thread b \<noteq> []"
    using settledE [OF r] by metis
  have j: "j \<noteq> None" using assms(2) at by (simp add: standing_def)
  show ?thesis by (rule leads_pre [OF job_settled [OF place j b]]) (simp_all add: at)
qed

lemma settled_select: "leads (settled env) (wait_select env ob) (\<lambda>_. settled env) (in_order env)"
  unfolding wait_select_def
proof (rule leads_reads)
  fix r assume r: "settled env r"
  have d: "leads (\<lambda>s. s = r) (case ob_select ob of
        Inl d \<Rightarrow> if rs_open r then take_delivery env (ob_cancelled ob) d else ret ()
      | Inr (result, queued) \<Rightarrow> if rs_job r = None then ret ()
          else on_job env (ob_cancelled ob) result (if rs_open r then queued else [])) (\<lambda>_. settled env) (in_order env)"
    using r settled_job [OF r] leads_pre [OF stays_settled [OF stays_delivery], of "\<lambda>s. s = r"]
    by (auto intro!: leads_ret split: sum.split prod.split)
  have c: "leads (\<lambda>s. s = r) (check ok e) (\<lambda>_ s. s = r) (in_order env)" for ok e
    by (intro leads_keeps keeps_check) (use r settled_order in blast)
  show "leads (\<lambda>s. s = r) (chain (check (\<not> ob_cancelled ob) ECancelled)
      (chain (case ob_select ob of
          Inl d \<Rightarrow> if rs_open r then take_delivery env (ob_cancelled ob) d else ret ()
        | Inr (result, queued) \<Rightarrow> if rs_job r = None then ret ()
            else on_job env (ob_cancelled ob) result (if rs_open r then queued else []))
       (ret None))) (\<lambda>_. settled env) (in_order env)"
    by (rule leads_chain [OF c leads_chain [OF d leads_ret]])
qed

lemma settled_iteration: "leads (settled env) (run_iteration env ob) (\<lambda>_. settled env) (in_order env)"
  unfolding run_iteration_def Let_def
proof (rule leads_reads)
  fix r assume r: "settled env r"
  note select = settled_select [of env ob]
  have delivery: "leads (settled env) (chain (take_delivery env x d) (ret None)) (\<lambda>_. settled env) (in_order env)" for x d
    by (rule leads_chain [OF stays_settled [OF stays_delivery] leads_ret])
  have skip: "leads (settled env) (ret ()) (\<lambda>_. settled env) (in_order env)"
    by (rule leads_ret)
  have closed: "leads (settled env) (modify (\<lambda>r. r\<lparr>rs_write_closed := True\<rparr>)) (\<lambda>_. settled env) (in_order env)"
    by (rule leads_modify) (simp add: settled_def standing_def)
  have ifs: "leads (settled env) (if p then m else m') (\<lambda>_. settled env) (in_order env)"
    if "leads (settled env) m (\<lambda>_. settled env) (in_order env)" "leads (settled env) m' (\<lambda>_. settled env) (in_order env)"
    for p and m m' :: "'x ract"
    using that by simp
  have opts: "leads (settled env) (case v of Some d \<Rightarrow> f d | None \<Rightarrow> m) (\<lambda>_. settled env) (in_order env)"
    if "\<And>d. leads (settled env) (f d) (\<lambda>_. settled env) (in_order env)" "leads (settled env) m (\<lambda>_. settled env) (in_order env)"
    for v and f :: "delivery \<Rightarrow> 'x ract" and m
    using that by (cases v) simp_all
  have start: "leads (\<lambda>s. s = r) m Q (in_order env)" if "leads (settled env) m Q (in_order env)" for m :: "'x ract" and Q
    by (rule leads_pre [OF that]) (simp add: r)
  have units: "leads (settled env) (if p then m else m') (\<lambda>_. settled env) (in_order env)"
    if "leads (settled env) m (\<lambda>_. settled env) (in_order env)" "leads (settled env) m' (\<lambda>_. settled env) (in_order env)"
    for p and m m' :: "unit ract"
    using that by simp
  show "leads (\<lambda>s. s = r) (chain (check (\<not> ob_cancelled ob) ECancelled)
      (if \<not> rs_open r \<and> rs_job r = None \<and> ss_terminal (rs_session r) = None
       then chain (in_session (note_failure env ''transport'' ''events_closed'' [])) (fail EProtocol)
       else if ss_terminal (rs_session r) \<noteq> None \<and> rs_job r = None
       then (case (if rs_open r then ob_poll ob else None) of
          Some d \<Rightarrow> chain (take_delivery env (ob_cancelled ob) d) (ret None)
        | None \<Rightarrow>
            if \<not> rs_open r then finish_run env
            else chain (if ob_client_error ob
                   then chain (in_session (note_failure env ''transport'' ''client_error'' [])) (fail EProtocol) else ret ())
              (if \<not> op_stdout_eof (se_options env) then finish_run env
               else if rs_write_closed r then wait_select env ob
               else chain (if ob_close_write ob then ret ()
                      else chain (in_session (note_failure env ''transport'' ''close_write'' [])) (fail EProtocol))
                 (chain (modify (\<lambda>r. r\<lparr>rs_write_closed := True\<rparr>)) (wait_select env ob))))
       else wait_select env ob)) (\<lambda>_. settled env) (in_order env)"
    by (rule start) (intro leads_chain [OF settled_check] leads_chain [OF units] leads_chain [OF closed]
        ifs opts select delivery skip settled_note settled_finish)
qed

lemma settled_loop: "leads (settled env) (run_loop env obs) (\<lambda>_. settled env) (in_order env)"
proof (induction obs)
  case Nil
  show ?case by (simp add: leads_ret)
next
  case (Cons ob obs)
  have rest: "leads (settled env) (case out of Some c \<Rightarrow> ret (Some c) | None \<Rightarrow> run_loop env obs) (\<lambda>_. settled env) (in_order env)" for out
    by (cases out) (simp_all add: Cons.IH leads_ret)
  show ?case unfolding run_loop.simps by (rule leads_andthen [OF settled_iteration rest])
qed

lemma start_settled: "leads (\<lambda>r. r = fresh_run) (start_run env) (\<lambda>_. settled env) (in_order env)"
proof -
  let ?S = "standing env 0 None ([], False, no_binding)"
  have bound: "0 \<le> (if fst (snd ([], False, no_binding)) \<and> bd_thread (snd (snd ([], False, no_binding))) \<noteq> [] then 5 else (4::nat))"
    by simp
  have stay: "leads ?S (lift_result v) (\<lambda>_. ?S) (in_order env)" for v
    by (intro leads_keeps keeps_intros standing_order [OF _ bound])
  have "leads ?S (start_run env) (\<lambda>_. settled env) (in_order env)"
    unfolding start_run_def
    by (rule leads_chain [OF in_session_standing [OF core.k_failure(1) bound] leads_andthen [OF stay initialize_settled]])
  then show ?thesis
    by (rule leads_pre) (simp add: standing_def fresh_run_def core_def new_session_def)
qed

lemma run_in_order: "in_order env (snd (run_turn env obs fresh_run))"
proof -
  have "leads (\<lambda>r. r = fresh_run) (run_turn env obs) (\<lambda>_. settled env) (in_order env)"
    unfolding run_turn_def by (rule leads_chain [OF start_settled settled_loop])
  then show ?thesis
    by (cases "run_turn env obs fresh_run"; cases "fst (run_turn env obs fresh_run)") (auto simp: leads_def dest: settled_order)
qed

end
