(* ===== verification/Codex_Properties.thy ===== *)
theory Codex_Properties
  imports Codex_Order
begin

text \<open>
  What a native turn guarantees: what its success means, what it may have said to the agent
  process, the bounds on what it keeps and what an event can never undo.
\<close>

section \<open>Success\<close>

definition final_items :: "session \<Rightarrow> item_view list" where
  "final_items s = filter final_candidate (map snd (ss_items s))"

text \<open>The specification of a finished turn, without the order in which the code checks it.\<close>

definition finished :: "session_env \<Rightarrow> session \<Rightarrow> task_completion \<Rightarrow> bool" where
  "finished env s c \<longleftrightarrow> list_all (call_finished s) (ss_calls s) \<and> \<not> ss_permission s \<and> ss_turn s \<noteq> []
     \<and> (case ss_terminal s of None \<Rightarrow> False | Some v \<Rightarrow> tv_id v = ss_turn s \<and> tv_status v = ''completed'')
     \<and> (case final_items s of
          [item] \<Rightarrow> iv_completed item \<and> se_completion env (iv_text item) = Some c
        | _ \<Rightarrow> False)"

lemma call_finished_failure [simp]: "call_finished (s\<lparr>ss_failure := f\<rparr>) = call_finished s"
  by (rule ext) (simp add: call_finished_def item_of_def)

lemma candidates_all:
  "filter final_candidate (map snd xs) = [item] \<Longrightarrow>
   list_all (\<lambda>(_, i). iv_completed i \<or> \<not> final_candidate i) xs = iv_completed item"
proof -
  assume one: "filter final_candidate (map snd xs) = [item]"
  have "list_all (\<lambda>(_, i). iv_completed i \<or> \<not> final_candidate i) xs = list_all iv_completed (filter final_candidate (map snd xs))"
    by (auto simp: list_all_iff)
  then show ?thesis by (simp add: one)
qed

lemma filter_snd: "map snd (filter (\<lambda>(_, i). P i) xs) = filter P (map snd xs)"
  by (induction xs) auto

lemma filter_snd_cases:
  "(case filter (\<lambda>(_, i). P i) xs of [(_, item)] \<Rightarrow> f item | _ \<Rightarrow> d) = (case filter P (map snd xs) of [item] \<Rightarrow> f item | _ \<Rightarrow> d)"
  unfolding filter_snd [symmetric] by (simp split: list.split)

text \<open>C13. \<open>finish\<close> (state.go) returns a completion exactly when the bound turn is the terminal one and
  ended as completed, no permission was requested, every host tool call was answered and its item
  completed, and there is exactly one final message, which is completed and decodes to it.\<close>

theorem finish_exact: "fst (finish env s) = Inr c \<longleftrightarrow> finished env s c"
proof -
  note run = finish_def finished_def note_failure_def set_branch_def run_chain reads_def modify_def check_def
    ret_def fail_def Let_def final_items_def
  show ?thesis
  proof (cases "ss_terminal s")
    case None
    then show ?thesis by (simp add: run)
  next
    case (Some v)
    then show ?thesis
      by (auto simp: run filter_snd_cases candidates_all split: list.split option.split)
  qed
qed

lemma finish_session:
  "finish env s = (Inr c, t) \<Longrightarrow> \<exists>f. t = s\<lparr>ss_failure := f, ss_completion := Some c\<rparr>"
  by (auto simp: finish_def run_simps note_failure_def set_branch_def Let_def split: option.splits list.splits)

lemma finished_session: "finished env (s\<lparr>ss_failure := f, ss_completion := x\<rparr>) c = finished env s c"
proof -
  have "call_finished (s\<lparr>ss_failure := f, ss_completion := x\<rparr>) = call_finished s"
    by (rule ext) (simp add: call_finished_def item_of_def)
  then show ?thesis by (simp add: finished_def final_items_def cong: option.case_cong)
qed

lemma iteration_done:
  assumes "run_iteration env ob r = (Inr (Some c), t)"
  shows "rs_job r = None \<and> finish_run env r = (Inr (Some c), t)"
  using assms
  by (auto simp: run_iteration_def run_simps wait_select_def Let_def split: if_splits option.splits)

lemma loop_done:
  assumes "run_loop env obs r = (Inr (Some c), t)" and "settled env r"
  shows "\<exists>r'. settled env r' \<and> rs_job r' = None \<and> finish_run env r' = (Inr (Some c), t)"
  using assms
proof (induction obs arbitrary: r)
  case Nil
  then show ?case by (simp add: run_simps)
next
  case (Cons ob obs)
  from Cons.prems(1) obtain out u where u: "run_iteration env ob r = (Inr out, u)"
    and rest: "(case out of Some c \<Rightarrow> ret (Some c) | None \<Rightarrow> run_loop env obs) u = (Inr (Some c), t)"
    by (auto simp: run_simps)
  show ?case
  proof (cases out)
    case None
    have "settled env u" using leadsD [OF settled_iteration Cons.prems(2), of ob] by (simp add: u)
    then show ?thesis using Cons.IH rest None by simp
  next
    case (Some c')
    then have "run_iteration env ob r = (Inr (Some c), t)" using u rest by (simp add: run_simps)
    then show ?thesis using iteration_done Cons.prems(2) by blast
  qed
qed

lemma idle_place:
  assumes "settled env r" and "rs_job r = None"
  shows "\<exists>b. standing env 5 None (''running'', True, b) r \<and> bd_thread b \<noteq> []"
proof -
  obtain n j p cb b where place: "(n, j, p, cb) \<in> set (places env)" and at: "standing env n j (p, cb, b) r"
    and b: "must_be_bound p \<Longrightarrow> bd_thread b \<noteq> []"
    using settledE [OF assms(1)] by metis
  have "j = None" using assms(2) at by (simp add: standing_def)
  then have "n = 5 \<and> p = ''running'' \<and> cb"
    by (cases rule: place_cases [OF place]) simp_all
  then show ?thesis using at b \<open>j = None\<close> by (auto simp: must_be_bound_def)
qed

definition run_completed :: "session_env \<Rightarrow> run_state \<Rightarrow> task_completion \<Rightarrow> bool" where
  "run_completed env r c \<longleftrightarrow> finished env (rs_session r) c \<and> rs_calls r = run_plan env
     \<and> ss_callback_done (rs_session r) \<and> bd_thread (ss_binding (rs_session r)) \<noteq> []
     \<and> list_all (\<lambda>reply. \<exists>text success. sr_result reply = tool_reply text success) (ss_sent (rs_session r))"

lemma run_denials: "denial_noted (rs_session (snd (run_turn env obs fresh_run)))"
  using denials.k_run [of env obs] by (simp add: keeps_def denial_noted_def fresh_run_def new_session_def)

lemma run_done:
  assumes "run_turn env obs fresh_run = (Inr (Some c), t)"
  shows "run_completed env t c"
proof -
  obtain u where start: "start_run env fresh_run = (Inr (), u)" and loop: "run_loop env obs u = (Inr (Some c), t)"
    using assms by (auto simp: run_turn_def run_simps)
  have "settled env u" using leadsD [OF start_settled refl, of env] by (simp add: start)
  from loop_done [OF loop this] obtain r where r: "settled env r" "rs_job r = None"
    and fin: "finish_run env r = (Inr (Some c), t)" by blast
  obtain b where at: "standing env 5 None (''running'', True, b) r" and b: "bd_thread b \<noteq> []"
    using idle_place [OF r] by blast
  obtain s where s: "finish env (rs_session r) = (Inr c, s)" and t: "t = r\<lparr>rs_session := s\<rparr>"
    using fin by (auto simp: finish_run_def in_session_def run_simps split: prod.splits)
  obtain f where f: "s = (rs_session r)\<lparr>ss_failure := f, ss_completion := Some c\<rparr>"
    using finish_session [OF s] by blast
  have ready: "finished env (rs_session r) c" using finish_exact [of env "rs_session r" c] by (simp add: s)
  have fin': "finished env (rs_session t) c" using ready by (simp add: t f finished_session)
  have "\<not> ss_permission (rs_session t)" using fin' by (simp add: finished_def)
  then show ?thesis
    using fin' at b run_denials [of env obs] unfolding run_completed_def denial_noted_def
    by (simp add: assms t f standing_def core_def run_plan_def)
qed

text \<open>C14. A run that returns a completion has made every call of the plan in order, its thread callback
  succeeded, the final state satisfies the specification of a finished turn, and it never answered
  anything but host tool calls: a denied approval cannot end in success, on any schedule of
  events and replies.\<close>

theorem run_success:
  "case run_turn env obs fresh_run of (Inr (Some c), r) \<Rightarrow> run_completed env r c | _ \<Rightarrow> True"
  by (auto split: prod.split sum.split option.split dest: run_done)

section \<open>Safety of every run\<close>

text \<open>C15. Whatever the agent process sends and however the run ends, every answer it got is a host tool
  result, the decision to decline or an empty set of permissions for the turn; nothing is ever approved.\<close>

theorem run_grants_nothing: "list_all grants_nothing (ss_sent (rs_session (snd (run_turn env obs fresh_run))))"
  using run_denials [of env obs] by (simp add: denial_noted_def)

text \<open>C16. Every request of the agent process is consumed once and answered at most once: the ids consumed are
  distinct, and so are the ids of the answers and of the calls still pending, all of them consumed.\<close>

theorem run_answers_once: "answered_once [] (rs_session (snd (run_turn env obs fresh_run)))"
  using once.k_run [of env obs] by (simp add: keeps_def answered_once_def fresh_run_def new_session_def)

text \<open>The items, host tool calls, consumed ids and pending calls kept for one turn never exceed their
  limits, and no item or call is kept twice.\<close>

theorem run_bounded: "bounded_session (rs_session (snd (run_turn env obs fresh_run)))"
  using bounds.k_run [of env obs] by (simp add: keeps_def bounded_session_def fresh_run_def new_session_def)

text \<open>C17. The calls handed to the transport are a prefix of initialize, initialized, config/read, thread/start or
  thread/resume, turn/start on every run; the turn is started only after the thread is bound and
  its callback returned.\<close>

theorem run_calls_in_order: "in_order env (snd (run_turn env obs fresh_run))"
  by (rule run_in_order)

section \<open>What an event cannot undo\<close>

text \<open>An event changes no completed item, no claim or result of a host tool call and no terminal turn, adds
  no item after it, only appends to the consumed ids and the answers, keeps a noted permission
  request, and never moves the phase, the bound thread, model or turn; also when it fails.\<close>

theorem event_keeps_history:
  "grows s (snd (handle_event env ev s)) \<and> same_identity s (snd (handle_event env ev s))"
proof -
  have "same_identity s s" by (simp add: same_identity_def)
  then show ?thesis
    using growth.k_event [of s env ev] identity.k_event [of s env ev] grows_refl [of s] by (simp add: keeps_def)
qed

text \<open>The whole run has the same monotonicity: what a prefix of the observations established, the rest
  of the run keeps.\<close>

theorem loop_keeps_history: "grows (rs_session r) (rs_session (snd (run_loop env obs r)))"
  using growth.k_loop [of "rs_session r" env obs] grows_refl by (simp add: keeps_def)

end
