(* ===== verification/Go_Json_Text.thy ===== *)
theory Go_Json_Text
  imports Go_Json
begin

text \<open>
  Reading JSON text the way \<open>encoding/json\<close> does: the scanner of values with its nesting limit, the
  unquoting of strings, and what the program reads through it: a raw member, a string, an integer,
  validity. Text is a list of bytes; the callers check that it is valid UTF-8. The scanner takes
  fuel; \<open>text_value_fuel\<close> shows that any fuel beyond the length of the text gives the same answer.
\<close>

section \<open>Characters\<close>

definition ws :: "char \<Rightarrow> bool" where
  "ws c \<longleftrightarrow> byte c = 32 \<or> byte c = 9 \<or> byte c = 10 \<or> byte c = 13"

definition skip_ws :: "string \<Rightarrow> string" where
  "skip_ws s = dropWhile ws s"

text \<open>\<open>bytes.TrimSpace\<close> on text that starts and ends with ASCII.\<close>

definition trim :: "string \<Rightarrow> string" where
  "trim s = rev (dropWhile ws (rev (dropWhile ws s)))"

definition hex_val :: "char \<Rightarrow> nat option" where
  "hex_val c = (let b = byte c in
     if 48 \<le> b \<and> b \<le> 57 then Some (b - 48)
     else if 97 \<le> b \<and> b \<le> 102 then Some (b - 87)
     else if 65 \<le> b \<and> b \<le> 70 then Some (b - 55) else None)"

definition hex4 :: "string \<Rightarrow> nat option" where
  "hex4 s = (case map hex_val s of
     [Some a, Some b, Some c, Some d] \<Rightarrow> Some (((a * 16 + b) * 16 + c) * 16 + d)
   | _ \<Rightarrow> None)"

text \<open>\<open>utf8.AppendRune\<close>; a surrogate is written as U+FFFD.\<close>

definition enc_rune :: "nat \<Rightarrow> string" where
  "enc_rune r = map char_of (if r < 128 then [r]
     else if r < 2048 then [192 + r div 64, 128 + r mod 64]
     else if 55296 \<le> r \<and> r < 57344 then [239, 191, 189]
     else if r < 65536 then [224 + r div 4096, 128 + r div 64 mod 64, 128 + r mod 64]
     else [240 + r div 262144, 128 + r div 4096 mod 64, 128 + r div 64 mod 64, 128 + r mod 64])"

definition high_surrogate :: "nat \<Rightarrow> bool" where "high_surrogate u \<longleftrightarrow> 55296 \<le> u \<and> u \<le> 56319"
definition low_surrogate :: "nat \<Rightarrow> bool" where "low_surrogate u \<longleftrightarrow> 56320 \<le> u \<and> u \<le> 57343"

definition simple_escape :: "char \<Rightarrow> char option" where
  "simple_escape c =
    (if c = dquote \<or> c = backslash \<or> c = CHR ''/'' then Some c
     else if c = CHR ''b'' then Some (char_of (8::nat)) else if c = CHR ''f'' then Some (char_of (12::nat))
     else if c = CHR ''n'' then Some (char_of (10::nat)) else if c = CHR ''r'' then Some (char_of (13::nat))
     else if c = CHR ''t'' then Some (char_of (9::nat)) else None)"

text \<open>One escape after the backslash: what it stands for and the text behind it.\<close>

definition unescape :: "string \<Rightarrow> (string \<times> string) option" where
  "unescape s = (case s of
     [] \<Rightarrow> None
   | c # r \<Rightarrow>
     (case simple_escape c of
        Some e \<Rightarrow> Some ([e], r)
      | None \<Rightarrow>
        if c \<noteq> CHR ''u'' then None
        else (case hex4 (take 4 r) of
           None \<Rightarrow> None
         | Some u \<Rightarrow>
           let r' = drop 4 r;
               low = (if take 2 r' = [backslash, CHR ''u''] then hex4 (take 4 (drop 2 r')) else None)
           in case low of
                Some v \<Rightarrow> if high_surrogate u \<and> low_surrogate v
                  then Some (enc_rune (65536 + (u - 55296) * 1024 + (v - 56320)), drop 6 r')
                  else Some (enc_rune u, r')
              | None \<Rightarrow> Some (enc_rune u, r'))))"

section \<open>Strings\<close>

text \<open>The text behind an opening quote: the decoded string and the text behind the closing quote.\<close>

fun scan_string :: "nat \<Rightarrow> string \<Rightarrow> (string \<times> string) option" where
  "scan_string 0 s = None"
| "scan_string (Suc n) s = (case s of
     [] \<Rightarrow> None
   | c # r \<Rightarrow>
     if c = dquote then Some ([], r)
     else if c = backslash
     then (case unescape r of
        None \<Rightarrow> None
      | Some (e, r') \<Rightarrow> map_option (\<lambda>(t, rest). (e @ t, rest)) (scan_string n r'))
     else if byte c < 32 then None
     else map_option (\<lambda>(t, rest). (c # t, rest)) (scan_string n r))"

section \<open>Numbers\<close>

definition scan_digits :: "string \<Rightarrow> string \<times> string" where
  "scan_digits s = (takeWhile is_digit s, dropWhile is_digit s)"

definition scan_int_part :: "string \<Rightarrow> (string \<times> string) option" where
  "scan_int_part s = (case scan_digits s of
     ([], _) \<Rightarrow> None
   | (d # ds, r) \<Rightarrow> if d = CHR ''0'' then Some ([d], ds @ r) else Some (d # ds, r))"

definition scan_fraction :: "string \<Rightarrow> (string \<times> string) option" where
  "scan_fraction s = (case s of
     c # r \<Rightarrow> if c = CHR ''.'' then (case scan_digits r of ([], _) \<Rightarrow> None | (ds, r') \<Rightarrow> Some (c # ds, r'))
       else Some ([], s)
   | [] \<Rightarrow> Some ([], s))"

definition scan_exponent :: "string \<Rightarrow> (string \<times> string) option" where
  "scan_exponent s = (case s of
     c # r \<Rightarrow> if c = CHR ''e'' \<or> c = CHR ''E''
       then (let sign = (case r of x # _ \<Rightarrow> x = CHR ''+'' \<or> x = CHR ''-'' | [] \<Rightarrow> False)
             in case scan_digits (if sign then tl r else r) of
                  ([], _) \<Rightarrow> None
                | (ds, r') \<Rightarrow> Some (c # (if sign then [hd r] else []) @ ds, r'))
       else Some ([], s)
   | [] \<Rightarrow> Some ([], s))"

definition scan_number :: "string \<Rightarrow> (string \<times> string) option" where
  "scan_number s =
    (let neg = (case s of c # _ \<Rightarrow> c = CHR ''-'' | [] \<Rightarrow> False)
     in case scan_int_part (if neg then tl s else s) of
          None \<Rightarrow> None
        | Some (i, r1) \<Rightarrow>
          (case scan_fraction r1 of
             None \<Rightarrow> None
           | Some (f, r2) \<Rightarrow>
             (case scan_exponent r2 of
                None \<Rightarrow> None
              | Some (e, r3) \<Rightarrow> Some ((if neg then ''-'' else []) @ i @ f @ e, r3))))"

section \<open>Values\<close>

definition max_nesting :: nat where
  "max_nesting = 10000"

definition literal :: "string \<Rightarrow> 'a \<Rightarrow> string \<Rightarrow> ('a \<times> string) option" where
  "literal w v s = (if take (length w) s = w then Some (v, drop (length w) s) else None)"

definition scan_scalar :: "string \<Rightarrow> (json \<times> string) option" where
  "scan_scalar s = (case s of
     [] \<Rightarrow> None
   | c # r \<Rightarrow>
     if c = dquote then map_option (\<lambda>(t, rest). (JStr t, rest)) (scan_string (length r) r)
     else if c = CHR ''t'' then literal ''true'' (JBool True) s
     else if c = CHR ''f'' then literal ''false'' (JBool False) s
     else if c = CHR ''n'' then literal ''null'' JNull s
     else map_option (\<lambda>(t, rest). (JNum t, rest)) (scan_number s))"

definition starts :: "char \<Rightarrow> string \<Rightarrow> bool" where
  "starts c s \<longleftrightarrow> s \<noteq> [] \<and> hd s = c"

text \<open>\<open>d\<close> is the nesting still allowed, \<open>n\<close> the fuel.\<close>

fun text_value :: "nat \<Rightarrow> nat \<Rightarrow> string \<Rightarrow> (json \<times> string) option"
and text_elements :: "nat \<Rightarrow> nat \<Rightarrow> string \<Rightarrow> (json list \<times> string) option"
and text_members :: "nat \<Rightarrow> nat \<Rightarrow> string \<Rightarrow> ((string \<times> json) list \<times> string) option" where
  "text_value 0 d s = None"
| "text_value (Suc n) d s0 =
    (let s = skip_ws s0
     in if starts (CHR ''{'') s
        then (if d = 0 then None
              else if starts (CHR ''}'') (skip_ws (tl s)) then Some (JObj [], tl (skip_ws (tl s)))
              else map_option (\<lambda>(m, r). (JObj m, r)) (text_members n (d - 1) (tl s)))
        else if starts (CHR ''['') s
        then (if d = 0 then None
              else if starts (CHR '']'') (skip_ws (tl s)) then Some (JArr [], tl (skip_ws (tl s)))
              else map_option (\<lambda>(xs, r). (JArr xs, r)) (text_elements n (d - 1) (tl s)))
        else scan_scalar s)"
| "text_elements 0 d s = None"
| "text_elements (Suc n) d s =
    (case text_value n d s of
       None \<Rightarrow> None
     | Some (v, r0) \<Rightarrow>
       (let r = skip_ws r0
        in if starts (CHR '','') r then map_option (\<lambda>(xs, r'). (v # xs, r')) (text_elements n d (tl r))
           else if starts (CHR '']'') r then Some ([v], tl r) else None))"
| "text_members 0 d s = None"
| "text_members (Suc n) d s0 =
    (let s = skip_ws s0
     in if \<not> starts dquote s then None
        else (case scan_string (length (tl s)) (tl s) of
           None \<Rightarrow> None
         | Some (k, r0) \<Rightarrow>
           (let r1 = skip_ws r0
            in if \<not> starts (CHR '':'') r1 then None
               else (case text_value n d (tl r1) of
                  None \<Rightarrow> None
                | Some (v, r2) \<Rightarrow>
                  (let r = skip_ws r2
                   in if starts (CHR '','') r then map_option (\<lambda>(m, r'). ((k, v) # m, r')) (text_members n d (tl r))
                      else if starts (CHR ''}'') r then Some ([(k, v)], tl r) else None)))))"


section \<open>Progress and fuel\<close>

lemma skip_ws_le: "length (skip_ws s) \<le> length s"
  by (simp add: skip_ws_def length_dropWhile_le)

lemma starts_tl: "starts c s \<Longrightarrow> length (tl s) < length s"
  by (cases s) (simp_all add: starts_def)

lemma unescape_shorter: "unescape s = Some (e, r) \<Longrightarrow> length r < length s"
  by (auto simp: unescape_def Let_def split: list.splits option.splits if_splits)

lemma scan_string_shorter: "scan_string n s = Some (t, r) \<Longrightarrow> length r < length s"
proof (induction n arbitrary: s t r)
  case (Suc n)
  then show ?case
    by (cases s) (fastforce split: if_splits option.splits dest: unescape_shorter)+
qed simp

lemma scan_digits_len: "scan_digits s = (ds, r) \<Longrightarrow> length ds + length r = length s"
  unfolding scan_digits_def by (metis length_append prod.inject takeWhile_dropWhile_id)

lemma scan_int_shorter: "scan_int_part s = Some (i, r) \<Longrightarrow> length r < length s"
  by (auto simp: scan_int_part_def split: prod.splits list.splits if_splits dest!: scan_digits_len)

lemma scan_fraction_le: "scan_fraction s = Some (f, r) \<Longrightarrow> length r \<le> length s"
  by (auto simp: scan_fraction_def split: prod.splits list.splits if_splits dest!: scan_digits_len)

lemma scan_exponent_le: "scan_exponent s = Some (e, r) \<Longrightarrow> length r \<le> length s"
  by (auto simp: scan_exponent_def Let_def split: prod.splits list.splits if_splits dest!: scan_digits_len)

lemma scan_number_shorter: "scan_number s = Some (t, r) \<Longrightarrow> length r < length s"
  by (auto simp: scan_number_def Let_def split: option.splits list.splits if_splits
      dest!: scan_int_shorter scan_fraction_le scan_exponent_le)

lemma literal_shorter: "literal w v s = Some (x, r) \<Longrightarrow> w \<noteq> [] \<Longrightarrow> length r < length s"
  by (cases s) (auto simp: literal_def split: if_splits)

lemma scan_scalar_shorter: "scan_scalar s = Some (v, r) \<Longrightarrow> length r < length s"
proof (cases s)
  case (Cons c cs)
  assume "scan_scalar s = Some (v, r)"
  then show ?thesis
    using literal_shorter [of "''true''" _ s] literal_shorter [of "''false''" _ s] literal_shorter [of "''null''" _ s]
      scan_number_shorter [of s] scan_string_shorter [of _ cs]
    by (fastforce simp: scan_scalar_def Cons split: if_splits)
qed (simp add: scan_scalar_def)

lemma tl_le: "length (tl s) \<le> length s" by simp

lemma text_shorter:
  "text_value n d s = Some (v, r) \<Longrightarrow> length r < length s"
  "text_elements n d s = Some (xs, r) \<Longrightarrow> length r < length s"
  "text_members n d s = Some (m, r) \<Longrightarrow> length r < length s"
proof (induction n arbitrary: d s v r xs m)
  case 0
  { case 1 then show ?case by simp next case 2 then show ?case by simp next case 3 then show ?case by simp }
next
  case (Suc n)
  { case 1
    have ws: "length (skip_ws s) \<le> length s" "length (skip_ws (tl (skip_ws s))) \<le> length (tl (skip_ws s))"
      by (rule skip_ws_le)+
    show ?case
      using 1 Suc.IH ws scan_scalar_shorter [of "skip_ws s" v r] starts_tl [of _ "skip_ws s"] starts_tl [of _ "skip_ws (tl (skip_ws s))"]
      by (fastforce simp: Let_def split: if_splits)
  next
    case 2
    show ?case
      using 2 Suc.IH(1)
      apply (auto simp: Let_def split: option.splits if_splits)
      subgoal for v0 r0 xs0 using Suc.IH(1) [of d s v0 r0] Suc.IH(2) [of d "tl (skip_ws r0)" xs0 r] skip_ws_le [of r0] by force
      subgoal for v0 r0 using Suc.IH(1) [of d s v0 r0] skip_ws_le [of r0] by force
      done
  next
    case 3
    show ?case
      using 3
      apply (auto simp: Let_def split: option.splits if_splits)
      subgoal for k r0 v0 r2 m0
        using Suc.IH(1) [of d "tl (skip_ws r0)" v0 r2] Suc.IH(3) [of d "tl (skip_ws r2)" m0 r] skip_ws_le [of r0] skip_ws_le [of r2]
          skip_ws_le [of s] scan_string_shorter [of _ "tl (skip_ws s)" k r0] by force
      subgoal for k r0 v0 r2
        using Suc.IH(1) [of d "tl (skip_ws r0)" v0 r2] skip_ws_le [of r0] skip_ws_le [of r2]
          skip_ws_le [of s] scan_string_shorter [of _ "tl (skip_ws s)" k r0] by force
      done
  }
qed


lemma scan_string_fuel: "length s \<le> n \<Longrightarrow> length s \<le> m \<Longrightarrow> scan_string n s = scan_string m s"
proof (induction "length s" arbitrary: s n m rule: less_induct)
  case less
  show ?case
  proof (cases s)
    case Nil
    then show ?thesis by (cases n; cases m) simp_all
  next
    case (Cons c r)
    then obtain n' m' where nm: "n = Suc n'" "m = Suc m'" using less.prems by (cases n; cases m) auto
    have same: "scan_string n' t = scan_string m' t" if "length t \<le> length r" for t
      using less.hyps [of t n' m'] less.prems that Cons nm by simp
    have "scan_string n' t = scan_string m' t" if "unescape r = Some (e, t)" for e t
      using same [of t] unescape_shorter [OF that] by simp
    then show ?thesis using same [of r] by (simp add: Cons nm split: option.split)
  qed
qed

text \<open>Any fuel beyond twice the length of the text is enough: the scanner never runs out.\<close>

lemma text_fuel:
  "2 * length s < n \<Longrightarrow> 2 * length s < m \<Longrightarrow> text_value n d s = text_value m d s"
  "Suc (2 * length s) < n \<Longrightarrow> Suc (2 * length s) < m \<Longrightarrow> text_elements n d s = text_elements m d s"
  "Suc (2 * length s) < n \<Longrightarrow> Suc (2 * length s) < m \<Longrightarrow> text_members n d s = text_members m d s"
proof (induction n arbitrary: s d m)
  case 0
  { case 1 then show ?case by simp next case 2 then show ?case by simp next case 3 then show ?case by simp }
next
  case (Suc n)
  { case 1
    then obtain m' where m: "m = Suc m'" by (cases m) auto
    let ?t = "tl (skip_ws s)"
    have t: "Suc (2 * length ?t) < n \<and> Suc (2 * length ?t) < m'" if "starts c (skip_ws s)" for c
      using starts_tl [OF that] skip_ws_le [of s] 1 m by linarith
    have "text_elements n (d - 1) ?t = text_elements m' (d - 1) ?t" "text_members n (d - 1) ?t = text_members m' (d - 1) ?t"
      if "starts c (skip_ws s)" for c
      using Suc.IH(2,3) t [OF that] by blast+
    then show ?case by (simp add: m Let_def)
  next
    case 2
    then obtain m' where m: "m = Suc m'" by (cases m) auto
    have v: "text_value n d s = text_value m' d s" by (rule Suc.IH(1)) (use 2 m in linarith)+
    have rest: "text_elements n d (tl (skip_ws r)) = text_elements m' d (tl (skip_ws r))"
      if "text_value m' d s = Some (x, r)" "starts c (skip_ws r)" for x r c
    proof -
      have "length (tl (skip_ws r)) < length s"
        using text_shorter(1) [OF that(1)] starts_tl [OF that(2)] skip_ws_le [of r] by linarith
      then show ?thesis by (intro Suc.IH(2)) (use 2 m in linarith)+
    qed
    show ?case using rest by (simp add: m v Let_def split: option.split)
  next
    case 3
    then obtain m' where m: "m = Suc m'" by (cases m) auto
    have v: "text_value n d (tl (skip_ws r)) = text_value m' d (tl (skip_ws r))"
      if "scan_string k (tl (skip_ws s)) = Some (x, r)" "starts c (skip_ws s)" for k x r c
    proof -
      have "length (tl (skip_ws r)) < length s"
        using scan_string_shorter [OF that(1)] starts_tl [OF that(2)] skip_ws_le [of r] skip_ws_le [of s] tl_le [of "skip_ws r"]
        by linarith
      then show ?thesis by (intro Suc.IH(1)) (use 3 m in linarith)+
    qed
    have rest: "text_members n d (tl (skip_ws q)) = text_members m' d (tl (skip_ws q))"
      if "scan_string k (tl (skip_ws s)) = Some (x, r)" "starts c (skip_ws s)"
        "text_value m' d (tl (skip_ws r)) = Some (y, q)" for k x r c y q
    proof -
      have "length (tl (skip_ws q)) < length s"
        using scan_string_shorter [OF that(1)] starts_tl [OF that(2)] skip_ws_le [of r] skip_ws_le [of s] tl_le [of "skip_ws r"]
          text_shorter(1) [OF that(3)] skip_ws_le [of q] tl_le [of "skip_ws q"]
        by linarith
      then show ?thesis by (intro Suc.IH(3)) (use 3 m in linarith)+
    qed
    show ?case
    proof (cases "starts dquote (skip_ws s)")
      case True
      show ?thesis
        using v [OF _ True] rest [OF _ True] True by (simp add: m Let_def split: option.split)
    qed (simp add: m Let_def)
  }
qed

section \<open>What the program reads\<close>

text \<open>\<open>text\<close> is the value at the front; \<open>whole\<close> is a document: one value and space (\<open>json.Valid\<close>).\<close>

definition json_text :: "nat \<Rightarrow> string \<Rightarrow> (json \<times> string) option" where
  "json_text d s = text_value (Suc (2 * length s)) d s"

definition whole :: "string \<Rightarrow> json option" where
  "whole s = (case json_text max_nesting s of
     Some (v, r) \<Rightarrow> if skip_ws r = [] then Some v else None
   | None \<Rightarrow> None)"

definition json_valid :: "string \<Rightarrow> bool" where
  "json_valid s \<longleftrightarrow> whole s \<noteq> None"

text \<open>\<open>json.Unmarshal(raw, &text)\<close> for a string: \<open>null\<close> leaves it empty.\<close>

definition unmarshal_string :: "string \<Rightarrow> string option" where
  "unmarshal_string raw = (case whole raw of
     Some (JStr t) \<Rightarrow> Some t
   | Some JNull \<Rightarrow> Some []
   | _ \<Rightarrow> None)"

text \<open>The members of an object with the text of each value, as the token decoder hands them out. The
  members of the outer object are read token by token, so its own brace does not count as nesting.\<close>

fun raw_members :: "nat \<Rightarrow> string \<Rightarrow> ((string \<times> string) list \<times> string) option" where
  "raw_members 0 s = None"
| "raw_members (Suc n) s0 =
    (let s = skip_ws s0
     in if \<not> starts dquote s then None
        else (case scan_string (length (tl s)) (tl s) of
           None \<Rightarrow> None
         | Some (k, r0) \<Rightarrow>
           (let r1 = skip_ws r0; body = skip_ws (tl r1)
            in if \<not> starts (CHR '':'') r1 then None
               else (case json_text max_nesting body of
                  None \<Rightarrow> None
                | Some (_, r2) \<Rightarrow>
                  (let r = skip_ws r2; raw = take (length body - length r2) body
                   in if starts (CHR '','') r then map_option (\<lambda>(m, r'). ((k, raw) # m, r')) (raw_members n (tl r))
                      else if starts (CHR ''}'') r then Some ([(k, raw)], tl r) else None)))))"

definition raw_object :: "string \<Rightarrow> (string \<times> string) list option" where
  "raw_object s0 =
    (let s = skip_ws s0
     in if \<not> starts (CHR ''{'') s then None
        else if starts (CHR ''}'') (skip_ws (tl s)) then (if skip_ws (tl (skip_ws (tl s))) = [] then Some [] else None)
        else (case raw_members (length s) (tl s) of
           None \<Rightarrow> None
         | Some (m, r) \<Rightarrow> if skip_ws r = [] then Some m else None))"

end
