(* ===== verification/Rpc_Envelope.thy ===== *)
theory Rpc_Envelope
  imports Go_Json_Text Prelude
begin

text \<open>
  Frames of the agent process (\<open>internal/codexrpc/envelope.go\<close>): which bytes are a request, a
  notification, a result or an error, and which outbound payloads are sent.
\<close>

section \<open>Data\<close>

datatype rpc_error =
  RpcProtocol | RpcFrameLimit | RpcPendingLimit | RpcRemoteLimit | RpcEventLimit | RpcConsumedLimit | RpcWriterLimit
| RpcPending | RpcIDLimit | RpcMethodLimit | RpcIncompleteFrame | RpcIO | RpcClosed | RpcAuthority | RpcResponded
| RpcLimits | RpcPayload | RpcConstructor | RpcEOF | RpcCancelled

text \<open>A valid \<open>ID\<close>; the zero value of the struct is the \<open>None\<close> of an optional one.\<close>

datatype rpc_id_value = IdString string | IdInt int

record remote_error =
  er_code :: int
  er_message :: string
  er_data :: "string option"

datatype frame =
  RequestFrame rpc_id_value string "string option"
| NotificationFrame string "string option"
| ResultFrame rpc_id_value string
| ErrorFrame rpc_id_value remote_error

abbreviation scalar_limit :: nat where "scalar_limit \<equiv> 256"

section \<open>Fields\<close>

text \<open>\<open>objectFields\<close>: a second key with the same decoded text is rejected.\<close>

definition object_fields :: "string \<Rightarrow> (string \<times> string) list option" where
  "object_fields raw = (case raw_object raw of
     None \<Rightarrow> None
   | Some m \<Rightarrow> if distinct (map fst m) then Some m else None)"

definition allowed :: "(string \<times> string) list \<Rightarrow> string list \<Rightarrow> bool" where
  "allowed m names \<longleftrightarrow> list_all (\<lambda>(k, _). k \<in> set names) m"

definition raw_field :: "(string \<times> string) list \<Rightarrow> string \<Rightarrow> string option" where
  "raw_field m k = map_of m k"

definition parse_id :: "string \<Rightarrow> rpc_error + rpc_id_value" where
  "parse_id raw0 =
    (let raw = trim raw0 in
     if raw = [] then Inl RpcProtocol
     else if hd raw = dquote
     then (case unmarshal_string raw of
        None \<Rightarrow> Inl RpcProtocol
      | Some text \<Rightarrow> if length text > scalar_limit then Inl RpcIDLimit else Inr (IdString text))
     else (case parse_int 64 raw of None \<Rightarrow> Inl RpcProtocol | Some i \<Rightarrow> Inr (IdInt i)))"

definition method_value :: "string option \<Rightarrow> rpc_error + string" where
  "method_value raw =
    (case Option.bind raw unmarshal_string of
       None \<Rightarrow> Inl RpcProtocol
     | Some m \<Rightarrow> if m = [] then Inl RpcProtocol else if length m > scalar_limit then Inl RpcMethodLimit else Inr m)"

definition is_null :: "string \<Rightarrow> bool" where
  "is_null raw \<longleftrightarrow> trim raw = ''null''"

definition parse_rpc_error :: "string \<Rightarrow> rpc_error + remote_error" where
  "parse_rpc_error raw =
    (case object_fields raw of
       None \<Rightarrow> Inl RpcProtocol
     | Some m \<Rightarrow>
       if \<not> allowed m [''code'', ''message'', ''data''] then Inl RpcProtocol
       else (case (raw_field m ''code'', raw_field m ''message'') of
          (Some c, Some t) \<Rightarrow>
            (case (parse_int 64 (trim c), if is_null t then None else unmarshal_string t) of
               (Some code, Some message) \<Rightarrow> Inr \<lparr>er_code = code, er_message = message, er_data = raw_field m ''data''\<rparr>
             | _ \<Rightarrow> Inl RpcProtocol)
        | _ \<Rightarrow> Inl RpcProtocol))"

definition valid_trace :: "string \<Rightarrow> bool" where
  "valid_trace raw \<longleftrightarrow> is_null raw \<or>
    (case object_fields raw of
       None \<Rightarrow> False
     | Some m \<Rightarrow> allowed m [''traceparent'', ''tracestate'']
         \<and> list_all (\<lambda>(_, v). is_null v \<or> unmarshal_string v \<noteq> None) m)"

section \<open>Surrogates\<close>

text \<open>\<open>validUnicode\<close>: no escape of a lone UTF-16 surrogate, which the decoder would replace.\<close>

definition surrogate_escape :: "string \<Rightarrow> string option" where
  "surrogate_escape r =
    (if length r < 4 then None
     else case hex4 (take 4 r) of
       None \<Rightarrow> None
     | Some u \<Rightarrow>
       (let rest = drop 4 r in
        if high_surrogate u
        then (if length rest < 6 \<or> take 2 rest \<noteq> [backslash, CHR ''u''] then None
              else case hex4 (take 4 (drop 2 rest)) of
                None \<Rightarrow> None
              | Some v \<Rightarrow> if low_surrogate v then Some (drop 6 rest) else None)
        else if low_surrogate u then None else Some rest))"

fun valid_unicode :: "nat \<Rightarrow> bool \<Rightarrow> string \<Rightarrow> bool" where
  "valid_unicode 0 quoted s = True"
| "valid_unicode (Suc n) quoted s = (case s of
     [] \<Rightarrow> True
   | c # r \<Rightarrow>
     if c = dquote then valid_unicode n (\<not> quoted) r
     else if \<not> quoted \<or> c \<noteq> backslash then valid_unicode n quoted r
     else (case r of
        [] \<Rightarrow> False
      | e # r' \<Rightarrow>
        if e \<noteq> CHR ''u'' then valid_unicode n quoted r'
        else (case surrogate_escape r' of None \<Rightarrow> False | Some t \<Rightarrow> valid_unicode n quoted t)))"

definition unicode_ok :: "string \<Rightarrow> bool" where
  "unicode_ok raw = valid_unicode (length raw) False raw"

section \<open>Frames\<close>

definition timestamp_ok :: "(string \<times> string) list \<Rightarrow> bool" where
  "timestamp_ok m = (case raw_field m ''emittedAtMs'' of
     None \<Rightarrow> True
   | Some t \<Rightarrow> raw_field m ''method'' \<noteq> None \<and> raw_field m ''id'' = None \<and> raw_field m ''result'' = None
       \<and> raw_field m ''error'' = None \<and> (is_null t \<or> parse_int 64 (trim t) \<noteq> None))"

definition decode_call :: "(string \<times> string) list \<Rightarrow> rpc_error + frame" where
  "decode_call m =
    (if raw_field m ''result'' \<noteq> None \<or> raw_field m ''error'' \<noteq> None then Inl RpcProtocol
     else case method_value (raw_field m ''method'') of
       Inl e \<Rightarrow> Inl e
     | Inr meth \<Rightarrow>
       (case raw_field m ''id'' of
          None \<Rightarrow> if raw_field m ''trace'' = None then Inr (NotificationFrame meth (raw_field m ''params'')) else Inl RpcProtocol
        | Some raw \<Rightarrow>
          (case parse_id raw of
             Inl e \<Rightarrow> Inl e
           | Inr i \<Rightarrow>
             (case raw_field m ''trace'' of
                Some t \<Rightarrow> if valid_trace t then Inr (RequestFrame i meth (raw_field m ''params'')) else Inl RpcProtocol
              | None \<Rightarrow> Inr (RequestFrame i meth (raw_field m ''params''))))))"

definition decode_reply :: "(string \<times> string) list \<Rightarrow> rpc_error + frame" where
  "decode_reply m =
    (case raw_field m ''id'' of
       None \<Rightarrow> Inl RpcProtocol
     | Some raw \<Rightarrow>
       if (raw_field m ''result'' \<noteq> None) = (raw_field m ''error'' \<noteq> None)
          \<or> raw_field m ''params'' \<noteq> None \<or> raw_field m ''trace'' \<noteq> None then Inl RpcProtocol
       else (case parse_id raw of
          Inl e \<Rightarrow> Inl e
        | Inr i \<Rightarrow>
          (case (raw_field m ''result'', raw_field m ''error'') of
             (Some r, _) \<Rightarrow> Inr (ResultFrame i r)
           | (None, Some er) \<Rightarrow> map_sum id (ErrorFrame i) (parse_rpc_error er)
           | (None, None) \<Rightarrow> Inl RpcProtocol)))"

definition frame_fields :: "string list" where
  "frame_fields = [''id'', ''method'', ''params'', ''result'', ''error'', ''trace'', ''emittedAtMs'']"

definition decode_frame :: "string \<Rightarrow> rpc_error + frame" where
  "decode_frame raw =
    (if \<not> valid_utf8 raw \<or> \<not> unicode_ok raw then Inl RpcProtocol
     else case object_fields raw of
       None \<Rightarrow> Inl RpcProtocol
     | Some m \<Rightarrow>
       if \<not> allowed m frame_fields \<or> \<not> timestamp_ok m then Inl RpcProtocol
       else if raw_field m ''method'' \<noteq> None then decode_call m else decode_reply m)"

section \<open>Outbound payloads\<close>

definition raw_valid :: "string option \<Rightarrow> nat \<Rightarrow> rpc_error option" where
  "raw_valid raw limit = (case raw of
     None \<Rightarrow> None
   | Some r \<Rightarrow>
     if length r > limit then Some RpcFrameLimit
     else if \<not> json_valid r \<or> \<not> valid_utf8 r \<or> \<not> unicode_ok r then Some RpcPayload else None)"

definition outbound_valid :: "string \<Rightarrow> string option \<Rightarrow> nat \<Rightarrow> rpc_error option" where
  "outbound_valid meth raw limit =
    (if meth = [] \<or> \<not> valid_utf8 meth then Some RpcPayload
     else if length meth > scalar_limit then Some RpcMethodLimit
     else raw_valid raw limit)"

text \<open>\<open>json.Marshal\<close> of a raw message compacts it and escapes what HTML treats specially.\<close>

fun compact :: "bool \<Rightarrow> bool \<Rightarrow> string \<Rightarrow> string" where
  "compact quoted escaped [] = []"
| "compact quoted escaped (c # r) =
    (if \<not> quoted then (if ws c then compact False False r else c # compact (c = dquote) False r)
     else (if c = CHR ''<'' \<or> c = CHR ''>'' \<or> c = CHR ''&'' then esc_u (byte c)
           else if byte c = 226 \<and> map byte (take 2 r) \<in> {[128, 168], [128, 169]} then esc_u (8232 + (byte (r ! 1) - 168))
           else [c])
          @ (if byte c = 226 \<and> map byte (take 2 r) \<in> {[128, 168], [128, 169]}
             then compact True False (drop 2 r)
             else compact (c \<noteq> dquote \<or> escaped) (c = backslash \<and> \<not> escaped) r))"

definition member :: "string \<Rightarrow> string \<Rightarrow> string" where
  "member k v = enc_string k @ '':'' @ v"

definition optional_member :: "string \<Rightarrow> string option \<Rightarrow> string list" where
  "optional_member k v = (case v of None \<Rightarrow> [] | Some r \<Rightarrow> if r = [] then [] else [member k (compact False False r)])"

definition encoded_frame :: "string list \<Rightarrow> nat \<Rightarrow> rpc_error + string" where
  "encoded_frame ms limit =
    (let body = ''{'' @ commas ms @ ''}''
     in if length body > limit then Inl RpcFrameLimit else Inr (body @ [char_of (10::nat)]))"

definition enc_id :: "rpc_id_value \<Rightarrow> string" where
  "enc_id i = (case i of IdString t \<Rightarrow> enc_string t | IdInt n \<Rightarrow> dec_int n)"

definition call_frame :: "string \<Rightarrow> string \<Rightarrow> string option \<Rightarrow> nat \<Rightarrow> rpc_error + string" where
  "call_frame i meth params limit =
    encoded_frame ([member ''id'' (enc_string i), member ''method'' (enc_string meth)] @ optional_member ''params'' params) limit"

definition notify_frame :: "string \<Rightarrow> string option \<Rightarrow> nat \<Rightarrow> rpc_error + string" where
  "notify_frame meth params limit =
    encoded_frame ([member ''method'' (enc_string meth)] @ optional_member ''params'' params) limit"

text \<open>A reply is a result or an error.\<close>

definition enc_remote_error :: "remote_error \<Rightarrow> string" where
  "enc_remote_error e = ''{'' @ commas ([member ''code'' (dec_int (er_code e)), member ''message'' (enc_string (er_message e))]
     @ optional_member ''data'' (er_data e)) @ ''}''"

definition reply_frame :: "rpc_id_value \<Rightarrow> string + remote_error \<Rightarrow> nat \<Rightarrow> rpc_error + string" where
  "reply_frame i reply limit = (case reply of
     Inl r \<Rightarrow> encoded_frame [member ''id'' (enc_id i), member ''result'' (compact False False r)] limit
   | Inr e \<Rightarrow> encoded_frame [member ''id'' (enc_id i), member ''error'' (enc_remote_error e)] limit)"

definition reply_valid :: "string + remote_error \<Rightarrow> nat \<Rightarrow> rpc_error option" where
  "reply_valid reply limit = (case reply of
     Inl r \<Rightarrow> raw_valid (Some r) limit
   | Inr e \<Rightarrow>
     if length (er_message e) > limit then Some RpcFrameLimit
     else if \<not> valid_utf8 (er_message e) then Some RpcPayload
     else raw_valid (er_data e) limit)"

end
