(* ===== verification/Rpc_Client.thy ===== *)
theory Rpc_Client
  imports Rpc_Envelope "HOL-Library.Word"
begin

text \<open>
  The client of the agent process (\<open>internal/codexrpc/transport.go\<close>, \<open>api.go\<close>). The state is what the mutex
  guards; each definition is one critical section, so any interleaving of callers, the two
  pumps and context callbacks is a sequence of these steps. Pointers are handles: a job and a
  request are named by the number they were created with. A reply channel is the list of
  outcomes sent on it, so that a second send, which would block the client, is visible.
  Whether a context is done at a check, and what the stream does, come in as arguments.
\<close>

section \<open>Limits\<close>

record limits =
  lm_frame_bytes :: int
  lm_local_calls :: int
  lm_remote_requests :: int
  lm_events :: int
  lm_consumed_requests :: int

definition rpc_max_frame_bytes :: int where "rpc_max_frame_bytes = 1048576"
definition rpc_max_local_calls :: int where "rpc_max_local_calls = 16"
definition rpc_max_remote_requests :: int where "rpc_max_remote_requests = 16"
definition rpc_max_events :: int where "rpc_max_events = 128"
definition rpc_max_consumed :: int where "rpc_max_consumed = 1024"
definition writer_queue_size :: nat where "writer_queue_size = 32"

definition normal_limit :: "int \<Rightarrow> int \<Rightarrow> int option" where
  "normal_limit v most =
    (let w = (if v = 0 then most else v) in if w < 1 \<or> w > most then None else Some w)"

definition normalized :: "limits \<Rightarrow> rpc_error + limits" where
  "normalized l =
    (case (normal_limit (lm_frame_bytes l) rpc_max_frame_bytes, normal_limit (lm_local_calls l) rpc_max_local_calls,
           normal_limit (lm_remote_requests l) rpc_max_remote_requests, normal_limit (lm_events l) rpc_max_events,
           normal_limit (lm_consumed_requests l) rpc_max_consumed) of
       (Some a, Some b, Some c, Some d, Some e) \<Rightarrow>
         Inr \<lparr>lm_frame_bytes = a, lm_local_calls = b, lm_remote_requests = c, lm_events = d, lm_consumed_requests = e\<rparr>
     | _ \<Rightarrow> Inl RpcLimits)"

section \<open>State\<close>

datatype job_stage = Queued | Writing | Written | Finished | Dropped

datatype rpc_outcome = Result string | Remote remote_error | Failed_with rpc_error | Sent

record write_job =
  wj_call :: "string option"
  wj_request :: "nat option"
  wj_stage :: job_stage
  wj_frame :: string
  wj_response :: "rpc_outcome option"
  wj_reply :: "rpc_outcome list"

record remote_request =
  rr_id :: rpc_id_value
  rr_method :: string
  rr_params :: "string option"
  rr_responding :: bool

datatype client_event = EventRequest nat | EventNotification string "string option"

record client =
  cl_limits :: limits
  cl_err :: "rpc_error option"
  cl_write_closed :: bool
  cl_read_eof :: bool
  cl_closing :: bool
  cl_close_err :: "rpc_error option"
  cl_next :: "64 word"
  cl_jobs :: "write_job list"
  cl_pending :: "(string \<times> nat) list"
  cl_live :: "nat list"
  cl_out :: "nat list"
  cl_requests :: "remote_request list"
  cl_remote :: "(rpc_id_value \<times> nat) list"
  cl_consumed :: "rpc_id_value list"
  cl_responders :: int
  cl_events :: "client_event list"
  cl_wire :: "nat list"

definition new_client :: "limits \<Rightarrow> bool \<Rightarrow> rpc_error + client" where
  "new_client limits cancelled =
    (case normalized limits of
       Inl e \<Rightarrow> Inl e
     | Inr l \<Rightarrow> if cancelled then Inl RpcCancelled
       else Inr \<lparr>cl_limits = l, cl_err = None, cl_write_closed = False, cl_read_eof = False, cl_closing = False,
         cl_close_err = None, cl_next = 0, cl_jobs = [], cl_pending = [], cl_live = [], cl_out = [], cl_requests = [],
         cl_remote = [], cl_consumed = [], cl_responders = 0, cl_events = [], cl_wire = []\<rparr>)"

definition job_at :: "client \<Rightarrow> nat \<Rightarrow> write_job" where
  "job_at c j = cl_jobs c ! j"

definition set_client_job :: "nat \<Rightarrow> write_job \<Rightarrow> client \<Rightarrow> client" where
  "set_client_job j w c = c\<lparr>cl_jobs := (cl_jobs c)[j := w]\<rparr>"

definition over :: "job_stage \<Rightarrow> bool" where
  "over st \<longleftrightarrow> st = Finished \<or> st = Dropped"

definition drop_remote :: "rpc_id_value \<Rightarrow> client \<Rightarrow> client" where
  "drop_remote i c = c\<lparr>cl_remote := filter (\<lambda>(k, _). k \<noteq> i) (cl_remote c)\<rparr>"

section \<open>Ending a job\<close>

text \<open>\<open>finishLocked\<close>\<close>

definition release_responder :: "write_job \<Rightarrow> client \<Rightarrow> client" where
  "release_responder w c = (case wj_request w of
     Some r \<Rightarrow> if wj_stage w = Queued
       then c\<lparr>cl_requests := (cl_requests c)[r := (cl_requests c ! r)\<lparr>rr_responding := False\<rparr>],
              cl_responders := cl_responders c - 1\<rparr>
       else c
   | None \<Rightarrow> c)"

definition forget_call :: "write_job \<Rightarrow> client \<Rightarrow> client" where
  "forget_call w c = (case wj_call w of
     Some i \<Rightarrow> c\<lparr>cl_pending := filter (\<lambda>(k, _). k \<noteq> i) (cl_pending c)\<rparr>
   | None \<Rightarrow> c)"

definition finish_job :: "nat \<Rightarrow> rpc_outcome \<Rightarrow> job_stage \<Rightarrow> client \<Rightarrow> client" where
  "finish_job j out st c =
    (let w = job_at c j in
     if over (wj_stage w) then c
     else (let c1 = forget_call w (release_responder w c) in
       set_client_job j (w\<lparr>wj_stage := st, wj_frame := [], wj_response := None, wj_reply := wj_reply w @ [out]\<rparr>)
         (c1\<lparr>cl_live := filter (\<lambda>k. k \<noteq> j) (cl_live c1)\<rparr>)))"

text \<open>\<open>fail\<close>; the first error stays.\<close>

definition fail_client :: "rpc_error \<Rightarrow> client \<Rightarrow> client" where
  "fail_client e c =
    (if cl_err c \<noteq> None then c
     else foldl (\<lambda>c j. finish_job j (Failed_with e) Dropped c) (c\<lparr>cl_err := Some e\<rparr>) (cl_live c))"

text \<open>\<open>cancelJob\<close>: a queued job is dropped, one that may have been written ends the client.\<close>

definition cancel_job :: "nat \<Rightarrow> client \<Rightarrow> client" where
  "cancel_job j c =
    (let w = job_at c j in
     if over (wj_stage w) then c
     else if wj_stage w = Queued then finish_job j (Failed_with RpcCancelled) Dropped c
     else fail_client RpcCancelled c)"

section \<open>Sending\<close>

text \<open>Each operation gives its error, if any, and the error it then fails the client with.\<close>

type_synonym admitted = "(rpc_error option \<times> rpc_error option) \<times> client"

text \<open>\<open>enqueueLocked\<close>: the job takes the next handle.\<close>

definition enqueue :: "write_job \<Rightarrow> client \<Rightarrow> admitted" where
  "enqueue w c =
    (let j = length (cl_jobs c); c1 = c\<lparr>cl_jobs := cl_jobs c @ [w], cl_live := cl_live c @ [j]\<rparr>
     in if length (cl_out c1) < writer_queue_size then ((None, None), c1\<lparr>cl_out := cl_out c1 @ [j]\<rparr>)
        else ((Some RpcWriterLimit, Some RpcWriterLimit), finish_job j (Failed_with RpcWriterLimit) Dropped c1))"

definition call_id :: "64 word \<Rightarrow> string" where
  "call_id n = ''local-'' @ dec_nat (unat n)"

definition queued_call :: "string \<Rightarrow> string \<Rightarrow> write_job" where
  "queued_call i body = \<lparr>wj_call = Some i, wj_request = None, wj_stage = Queued, wj_frame = body,
     wj_response = None, wj_reply = []\<rparr>"

definition queued_send :: "nat option \<Rightarrow> string \<Rightarrow> write_job" where
  "queued_send r body = \<lparr>wj_call = None, wj_request = r, wj_stage = Queued, wj_frame = body,
     wj_response = None, wj_reply = []\<rparr>"

definition reject :: "rpc_error \<Rightarrow> client \<Rightarrow> admitted" where
  "reject e c = ((Some e, None), c)"

text \<open>\<open>Call\<close> up to the wait for its reply.\<close>

definition admit_call :: "bool \<Rightarrow> string \<Rightarrow> string option \<Rightarrow> client \<Rightarrow> admitted" where
  "admit_call cancelled meth params c =
    (let size = nat (lm_frame_bytes (cl_limits c)) in
     if cancelled then reject RpcCancelled c
     else case outbound_valid meth params size of
       Some e \<Rightarrow> reject e c
     | None \<Rightarrow>
       (case cl_err c of
          Some e \<Rightarrow> reject e c
        | None \<Rightarrow>
          if cl_write_closed c then reject RpcClosed c
          else if int (length (cl_pending c)) \<ge> lm_local_calls (cl_limits c) then reject RpcPendingLimit c
          else (let n = cl_next c + 1; c1 = c\<lparr>cl_next := n\<rparr>; i = call_id n in
            if n = 0 then ((Some RpcPendingLimit, Some RpcPendingLimit), c1)
            else case call_frame i meth params size of
              Inl e \<Rightarrow> reject e c1
            | Inr body \<Rightarrow>
                enqueue (queued_call i body) (c1\<lparr>cl_pending := cl_pending c1 @ [(i, length (cl_jobs c1))]\<rparr>))))"

text \<open>\<open>send\<close>; \<open>owner\<close> and the pointer comparison are the handle of the request.\<close>

definition admit_reply :: "nat \<Rightarrow> string \<Rightarrow> client \<Rightarrow> admitted" where
  "admit_reply r body c =
    (let q = cl_requests c ! r in
     if rr_id q \<in> set (cl_consumed c) then reject RpcResponded c
     else if map_of (cl_remote c) (rr_id q) \<noteq> Some r then reject RpcAuthority c
     else if rr_responding q then reject RpcResponded c
     else if int (length (cl_consumed c)) + cl_responders c \<ge> lm_consumed_requests (cl_limits c)
     then ((Some RpcConsumedLimit, Some RpcConsumedLimit), c)
     else enqueue (queued_send (Some r) body)
       (c\<lparr>cl_requests := (cl_requests c)[r := q\<lparr>rr_responding := True\<rparr>], cl_responders := cl_responders c + 1\<rparr>))"

definition admit_send :: "bool \<Rightarrow> string \<Rightarrow> nat option \<Rightarrow> client \<Rightarrow> admitted" where
  "admit_send cancelled body request c =
    (case cl_err c of
       Some e \<Rightarrow> reject e c
     | None \<Rightarrow>
       if cl_write_closed c then reject RpcClosed c
       else if cancelled then reject RpcCancelled c
       else (case request of
          Some r \<Rightarrow> admit_reply r body c
        | None \<Rightarrow> enqueue (queued_send None body) c))"

definition notify :: "bool \<Rightarrow> string \<Rightarrow> string option \<Rightarrow> client \<Rightarrow> admitted" where
  "notify cancelled meth params c =
    (let size = nat (lm_frame_bytes (cl_limits c)) in
     if cancelled then reject RpcCancelled c
     else case outbound_valid meth params size of
       Some e \<Rightarrow> reject e c
     | None \<Rightarrow> (case notify_frame meth params size of
         Inl e \<Rightarrow> reject e c
       | Inr body \<Rightarrow> admit_send cancelled body None c))"

text \<open>\<open>Respond\<close>; a request of another client is one this client never handed out.\<close>

definition respond_request :: "bool \<Rightarrow> nat \<Rightarrow> string + remote_error \<Rightarrow> client \<Rightarrow> admitted" where
  "respond_request cancelled r reply c =
    (let size = nat (lm_frame_bytes (cl_limits c)) in
     if cancelled then reject RpcCancelled c
     else if r \<ge> length (cl_requests c) then reject RpcAuthority c
     else case reply_valid reply size of
       Some e \<Rightarrow> reject e c
     | None \<Rightarrow> (case reply_frame (rr_id (cl_requests c ! r)) reply size of
         Inl e \<Rightarrow> reject e c
       | Inr body \<Rightarrow> admit_send cancelled body (Some r) c))"

section \<open>The writer\<close>

text \<open>\<open>writePump\<close> takes the next job; \<open>Some j\<close> is then written to the stream. Taking the job of a reply
  consumes its request before the first byte is written.\<close>

definition begin_write :: "nat \<Rightarrow> write_job \<Rightarrow> client \<Rightarrow> client" where
  "begin_write j w c =
    (let c1 = (case wj_request w of
         None \<Rightarrow> c
       | Some r \<Rightarrow> (let i = rr_id (cl_requests c ! r) in
           (drop_remote i c)\<lparr>cl_consumed := List.insert i (cl_consumed c), cl_responders := cl_responders c - 1\<rparr>))
     in set_client_job j (w\<lparr>wj_stage := Writing\<rparr>) (c1\<lparr>cl_wire := cl_wire c1 @ [j]\<rparr>))"

definition take_job :: "bool \<Rightarrow> client \<Rightarrow> nat option \<times> client" where
  "take_job cancelled c =
    (case cl_out c of
       [] \<Rightarrow> (None, c)
     | j # rest \<Rightarrow>
       (let c1 = c\<lparr>cl_out := rest\<rparr>; w = job_at c j in
        if cl_err c \<noteq> None then (None, c1)
        else if wj_stage w = Dropped then (None, c1)
        else if cancelled then (None, finish_job j (Failed_with RpcCancelled) Dropped c1)
        else (Some j, begin_write j w c1)))"

text \<open>The section after a complete write.\<close>

definition wrote_job :: "bool \<Rightarrow> nat \<Rightarrow> client \<Rightarrow> client" where
  "wrote_job cancelled j c =
    (let w = job_at c j in
     if over (wj_stage w) then c
     else case wj_call w of
       None \<Rightarrow> finish_job j Sent Finished (set_client_job j (w\<lparr>wj_frame := []\<rparr>) c)
     | Some _ \<Rightarrow>
       if cancelled then fail_client RpcCancelled (set_client_job j (w\<lparr>wj_frame := []\<rparr>) c)
       else (let w1 = w\<lparr>wj_frame := [], wj_stage := Written\<rparr>; c1 = set_client_job j w1 c in
         case wj_response w of None \<Rightarrow> c1 | Some out \<Rightarrow> finish_job j out Finished c1))"

section \<open>The reader\<close>

definition accept_reply :: "bool \<Rightarrow> rpc_id_value \<Rightarrow> rpc_outcome \<Rightarrow> client \<Rightarrow> rpc_error option \<times> client" where
  "accept_reply cancelled i out c =
    (case i of
       IdInt _ \<Rightarrow> (Some RpcProtocol, c)
     | IdString t \<Rightarrow>
       (case map_of (cl_pending c) t of
          None \<Rightarrow> (Some RpcProtocol, c)
        | Some j \<Rightarrow>
          (let w = job_at c j in
           if wj_response w \<noteq> None \<or> (wj_stage w \<noteq> Writing \<and> wj_stage w \<noteq> Written) then (Some RpcProtocol, c)
           else if cancelled then (Some RpcCancelled, c)
           else (let c1 = set_client_job j (w\<lparr>wj_response := Some out\<rparr>) c in
             (None, if wj_stage w = Written then finish_job j out Finished c1 else c1)))))"

definition push_event :: "client_event \<Rightarrow> client \<Rightarrow> rpc_error option \<times> client" where
  "push_event e c =
    (if int (length (cl_events c)) < lm_events (cl_limits c) then (None, c\<lparr>cl_events := cl_events c @ [e]\<rparr>)
     else (Some RpcEventLimit, c))"

definition accept_request :: "rpc_id_value \<Rightarrow> string \<Rightarrow> string option \<Rightarrow> client \<Rightarrow> rpc_error option \<times> client" where
  "accept_request i meth params c =
    (if i \<in> set (cl_consumed c) then (Some RpcProtocol, c)
     else if map_of (cl_remote c) i \<noteq> None then (Some RpcProtocol, c)
     else if int (length (cl_consumed c)) \<ge> lm_consumed_requests (cl_limits c) then (Some RpcConsumedLimit, c)
     else if int (length (cl_remote c)) \<ge> lm_remote_requests (cl_limits c) then (Some RpcRemoteLimit, c)
     else (let r = length (cl_requests c);
               q = \<lparr>rr_id = i, rr_method = meth, rr_params = params, rr_responding = False\<rparr>
           in push_event (EventRequest r) (c\<lparr>cl_requests := cl_requests c @ [q], cl_remote := cl_remote c @ [(i, r)]\<rparr>)))"

definition accept_frame :: "bool \<Rightarrow> frame \<Rightarrow> client \<Rightarrow> rpc_error option \<times> client" where
  "accept_frame cancelled f c =
    (case cl_err c of
       Some e \<Rightarrow> (Some e, c)
     | None \<Rightarrow>
       (case f of
          ResultFrame i r \<Rightarrow> accept_reply cancelled i (Result r) c
        | ErrorFrame i e \<Rightarrow> accept_reply cancelled i (Remote e) c
        | RequestFrame i meth params \<Rightarrow> accept_request i meth params c
        | NotificationFrame meth params \<Rightarrow> push_event (EventNotification meth params) c))"

text \<open>\<open>readPump\<close> on one delivery of \<open>ReadSlice\<close>: what is kept of the line, the verdict that ends the reader and
  the frame to accept. \<open>part\<close> ends with a newline unless the read failed.\<close>

datatype read_status = LineEnd | BufferFull | ReadEOF | ReadError

definition read_part :: "nat \<Rightarrow> string \<Rightarrow> string \<Rightarrow> read_status \<Rightarrow> (rpc_error option \<times> frame option) \<times> string" where
  "read_part limit body part st =
    (if length body + length part > limit + 1 then ((Some RpcFrameLimit, None), body)
     else (let line = body @ part in
       case st of
         BufferFull \<Rightarrow> ((None, None), line)
       | LineEnd \<Rightarrow>
           (if length (butlast line) > limit then ((Some RpcFrameLimit, None), [])
            else case decode_frame (butlast line) of
              Inl e \<Rightarrow> ((Some e, None), [])
            | Inr f \<Rightarrow> ((None, Some f), []))
       | ReadEOF \<Rightarrow> ((Some (if length line > limit then RpcFrameLimit else if line \<noteq> [] then RpcIncompleteFrame
            else RpcEOF), None), line)
       | ReadError \<Rightarrow> ((Some (if length line > limit then RpcFrameLimit else if line \<noteq> [] then RpcIncompleteFrame
            else RpcIO), None), line)))"

section \<open>Closing the write side\<close>

text \<open>\<open>CloseWrite\<close> is two sections around the close of the stream: it waits for another caller, answers at
  once, or goes on to close the stream. The second section waits for the reader to publish its
  error when the stream failed to close after the end of file was read.\<close>

datatype close_answer = CloseWait | CloseNow "rpc_error option" | CloseStream

definition close_begin :: "client \<Rightarrow> close_answer \<times> client" where
  "close_begin c =
    (if cl_closing c then (CloseWait, c)
     else if cl_write_closed c then (CloseNow (cl_close_err c), c)
     else case cl_err c of
       Some e \<Rightarrow> if cl_read_eof c \<and> e = RpcEOF then (CloseNow None, c\<lparr>cl_write_closed := True\<rparr>) else (CloseNow (Some e), c)
     | None \<Rightarrow>
       if cl_live c \<noteq> [] \<or> cl_pending c \<noteq> [] then (CloseNow (Some RpcPending), c)
       else (CloseStream, c\<lparr>cl_write_closed := True, cl_closing := True\<rparr>))"

definition close_waits :: "rpc_error option \<Rightarrow> client \<Rightarrow> bool" where
  "close_waits closed c \<longleftrightarrow> closed \<noteq> None \<and> cl_read_eof c \<and> cl_err c = None"

definition close_end :: "rpc_error option \<Rightarrow> client \<Rightarrow> rpc_error option \<times> client" where
  "close_end closed c =
    (let e = (if closed \<noteq> None \<and> cl_read_eof c \<and> cl_err c = Some RpcEOF then None else closed);
         c1 = (case e of None \<Rightarrow> c | Some x \<Rightarrow> fail_client x c)
     in (e, c1\<lparr>cl_close_err := e, cl_closing := False\<rparr>))"

section \<open>Steps\<close>

text \<open>Every critical section the client can run, with what its environment decides.\<close>

datatype client_op =
  OpCall bool string "string option"
| OpNotify bool string "string option"
| OpRespond bool nat "string + remote_error"
| OpTake bool
| OpWrote bool nat
| OpAccept bool frame
| OpCancel nat
| OpFail rpc_error
| OpReceive
| OpReadEOF
| OpCloseBegin
| OpCloseEnd "rpc_error option"

text \<open>The error an operation fails the client with is a later \<open>OpFail\<close>: other sections may run between.\<close>

fun client_step :: "client_op \<Rightarrow> client \<Rightarrow> client" where
  "client_step (OpCall x meth params) c = snd (admit_call x meth params c)"
| "client_step (OpNotify x meth params) c = snd (notify x meth params c)"
| "client_step (OpRespond x r reply) c = snd (respond_request x r reply c)"
| "client_step (OpTake x) c = snd (take_job x c)"
| "client_step (OpWrote x j) c = (if j < length (cl_jobs c) \<and> wj_stage (job_at c j) = Writing then wrote_job x j c else c)"
| "client_step (OpAccept x f) c = snd (accept_frame x f c)"
| "client_step (OpCancel j) c = (if j < length (cl_jobs c) then cancel_job j c else c)"
| "client_step (OpFail e) c = fail_client e c"
| "client_step OpReceive c = c\<lparr>cl_events := tl (cl_events c)\<rparr>"
| "client_step OpReadEOF c = c\<lparr>cl_read_eof := True\<rparr>"
| "client_step OpCloseBegin c = snd (close_begin c)"
| "client_step (OpCloseEnd e) c = (if cl_closing c \<and> \<not> close_waits e c then snd (close_end e c) else c)"

definition client_run :: "client_op list \<Rightarrow> client \<Rightarrow> client" where
  "client_run ops c = foldl (\<lambda>c op. client_step op c) c ops"

end
