(* ===== verification/Rpc_Invariants.thy ===== *)
theory Rpc_Invariants
  imports Rpc_Client
begin

text \<open>
  The invariant of the client and that every critical section keeps it. It has four parts: the jobs
  and their reply channels, the pending calls, the requests of the agent process and their
  answers, and the bounds.
\<close>

abbreviation stage_of :: "client \<Rightarrow> nat \<Rightarrow> job_stage" where
  "stage_of c j \<equiv> wj_stage (cl_jobs c ! j)"

section \<open>Parts\<close>

definition jobs_inv :: "client \<Rightarrow> bool" where
  "jobs_inv c \<longleftrightarrow> distinct (cl_live c) \<and> (\<forall>j. j \<in> set (cl_live c) \<longleftrightarrow> j < length (cl_jobs c) \<and> \<not> over (stage_of c j))
     \<and> (\<forall>j < length (cl_jobs c). length (wj_reply (cl_jobs c ! j)) = (if over (stage_of c j) then 1 else 0))"

definition wire_inv :: "client \<Rightarrow> bool" where
  "wire_inv c \<longleftrightarrow> distinct (cl_out c) \<and> distinct (cl_wire c)
     \<and> (\<forall>j \<in> set (cl_out c). j < length (cl_jobs c) \<and> (stage_of c j = Queued \<or> stage_of c j = Dropped))
     \<and> (\<forall>j \<in> set (cl_wire c). j < length (cl_jobs c) \<and> stage_of c j \<noteq> Queued)
     \<and> (\<forall>j < length (cl_jobs c). stage_of c j = Writing \<or> stage_of c j = Written \<longrightarrow> j \<in> set (cl_wire c))
     \<and> (\<forall>j < length (cl_jobs c). list_all (\<lambda>x. (\<exists>e. x = Failed_with e) \<or> stage_of c j = Finished \<and> j \<in> set (cl_wire c))
          (wj_reply (cl_jobs c ! j)))"

definition calls_inv :: "nat \<Rightarrow> client \<Rightarrow> bool" where
  "calls_inv k c \<longleftrightarrow> unat (cl_next c) \<le> k \<and> distinct (map fst (cl_pending c))
     \<and> (\<forall>i j. (i, j) \<in> set (cl_pending c) \<longleftrightarrow> j \<in> set (cl_live c) \<and> wj_call (cl_jobs c ! j) = Some i)
     \<and> (\<forall>j < length (cl_jobs c). \<forall>i. wj_call (cl_jobs c ! j) = Some i \<longrightarrow> (\<exists>m. m \<le> unat (cl_next c) \<and> i = ''local-'' @ dec_nat m))"

definition queued_replies :: "client \<Rightarrow> nat list" where
  "queued_replies c = filter (\<lambda>j. stage_of c j = Queued \<and> wj_request (cl_jobs c ! j) \<noteq> None) (cl_live c)"

definition wire_ids :: "client \<Rightarrow> rpc_id_value list" where
  "wire_ids c = map (\<lambda>j. rr_id (cl_requests c ! the (wj_request (cl_jobs c ! j))))
     (filter (\<lambda>j. wj_request (cl_jobs c ! j) \<noteq> None) (cl_wire c))"

definition requests_inv :: "client \<Rightarrow> bool" where
  "requests_inv c \<longleftrightarrow> distinct (map fst (cl_remote c)) \<and> distinct (cl_consumed c)
     \<and> set (map fst (cl_remote c)) \<inter> set (cl_consumed c) = {}
     \<and> (\<forall>(i, r) \<in> set (cl_remote c). r < length (cl_requests c) \<and> rr_id (cl_requests c ! r) = i)
     \<and> cl_responders c = int (length (queued_replies c))
     \<and> inj_on (\<lambda>j. wj_request (cl_jobs c ! j)) (set (queued_replies c))
     \<and> (\<forall>j \<in> set (queued_replies c). \<forall>r. wj_request (cl_jobs c ! j) = Some r \<longrightarrow>
          rr_responding (cl_requests c ! r) \<and> (rr_id (cl_requests c ! r), r) \<in> set (cl_remote c))
     \<and> (\<forall>j < length (cl_jobs c). \<forall>r. wj_request (cl_jobs c ! j) = Some r \<longrightarrow> r < length (cl_requests c))
     \<and> distinct (wire_ids c) \<and> set (wire_ids c) = set (cl_consumed c)"

definition bounds_inv :: "client \<Rightarrow> bool" where
  "bounds_inv c \<longleftrightarrow> int (length (cl_consumed c)) + cl_responders c \<le> lm_consumed_requests (cl_limits c)
     \<and> int (length (cl_remote c)) \<le> lm_remote_requests (cl_limits c)
     \<and> int (length (cl_pending c)) \<le> lm_local_calls (cl_limits c)
     \<and> int (length (cl_events c)) \<le> lm_events (cl_limits c)
     \<and> length (cl_out c) \<le> writer_queue_size"

definition base_inv :: "nat \<Rightarrow> client \<Rightarrow> bool" where
  "base_inv k c \<longleftrightarrow> jobs_inv c \<and> wire_inv c \<and> calls_inv k c \<and> requests_inv c \<and> bounds_inv c"

definition client_inv :: "nat \<Rightarrow> client \<Rightarrow> bool" where
  "client_inv k c \<longleftrightarrow> base_inv k c \<and> (cl_err c \<noteq> None \<longrightarrow> cl_live c = [])"

section \<open>What ending a job changes\<close>

lemma finish_over: "over (stage_of c j) \<Longrightarrow> finish_job j out st c = c"
  by (simp add: finish_job_def job_at_def)

lemma finish_fields [simp]:
  "cl_limits (finish_job j out st c) = cl_limits c" "cl_err (finish_job j out st c) = cl_err c"
  "cl_next (finish_job j out st c) = cl_next c" "cl_out (finish_job j out st c) = cl_out c"
  "cl_remote (finish_job j out st c) = cl_remote c" "cl_consumed (finish_job j out st c) = cl_consumed c"
  "cl_events (finish_job j out st c) = cl_events c" "cl_wire (finish_job j out st c) = cl_wire c"
  "cl_read_eof (finish_job j out st c) = cl_read_eof c" "cl_write_closed (finish_job j out st c) = cl_write_closed c"
  "length (cl_jobs (finish_job j out st c)) = length (cl_jobs c)"
  "length (cl_requests (finish_job j out st c)) = length (cl_requests c)"
  by (simp_all add: finish_job_def forget_call_def release_responder_def set_client_job_def Let_def split: option.split)

lemma finish_live: "\<not> over (stage_of c j) \<Longrightarrow> cl_live (finish_job j out st c) = filter (\<lambda>k. k \<noteq> j) (cl_live c)"
  by (simp add: finish_job_def forget_call_def release_responder_def set_client_job_def job_at_def Let_def split: option.split)

lemma finish_jobs:
  "\<not> over (stage_of c j) \<Longrightarrow> cl_jobs (finish_job j out st c) = (cl_jobs c)[j := (cl_jobs c ! j)\<lparr>wj_stage := st, wj_frame := [],
     wj_response := None, wj_reply := wj_reply (cl_jobs c ! j) @ [out]\<rparr>]"
  by (simp add: finish_job_def forget_call_def release_responder_def set_client_job_def job_at_def Let_def split: option.split)

lemma finish_pending:
  "\<not> over (stage_of c j) \<Longrightarrow> cl_pending (finish_job j out st c) =
     (case wj_call (cl_jobs c ! j) of None \<Rightarrow> cl_pending c | Some i \<Rightarrow> filter (\<lambda>(k, _). k \<noteq> i) (cl_pending c))"
  by (simp add: finish_job_def forget_call_def release_responder_def set_client_job_def job_at_def Let_def split: option.split)

lemma finish_responders:
  "\<not> over (stage_of c j) \<Longrightarrow> cl_responders (finish_job j out st c) =
     cl_responders c - (if stage_of c j = Queued \<and> wj_request (cl_jobs c ! j) \<noteq> None then 1 else 0)"
  by (simp add: finish_job_def forget_call_def release_responder_def set_client_job_def job_at_def Let_def split: option.split)

lemma finish_requests:
  "\<not> over (stage_of c j) \<Longrightarrow> cl_requests (finish_job j out st c) =
     (case wj_request (cl_jobs c ! j) of None \<Rightarrow> cl_requests c
      | Some r \<Rightarrow> if stage_of c j = Queued then (cl_requests c)[r := (cl_requests c ! r)\<lparr>rr_responding := False\<rparr>] else cl_requests c)"
  by (simp add: finish_job_def forget_call_def release_responder_def set_client_job_def job_at_def Let_def split: option.split)

lemmas finish_eqs = finish_live finish_jobs finish_pending finish_responders finish_requests

lemma request_ids [simp]: "rr_id ((cl_requests c)[r := (cl_requests c ! r)\<lparr>rr_responding := b\<rparr>] ! q) = rr_id (cl_requests c ! q)"
  by (cases "q = r"; cases "r < length (cl_requests c)") (simp_all add: not_less list_update_beyond)

section \<open>Ending a job keeps the invariant\<close>

lemma finish_jobs_inv:
  assumes "jobs_inv c" and "over st" and "j < length (cl_jobs c)"
  shows "jobs_inv (finish_job j out st c)"
proof (cases "over (stage_of c j)")
  case True
  then show ?thesis using assms by (simp add: finish_over)
next
  case False
  then show ?thesis using assms by (auto simp: jobs_inv_def finish_eqs nth_list_update)
qed

definition sent_ok :: "client \<Rightarrow> nat \<Rightarrow> rpc_outcome \<Rightarrow> job_stage \<Rightarrow> bool" where
  "sent_ok c j out st \<longleftrightarrow> (\<exists>e. out = Failed_with e) \<and> st = Dropped \<or> st = Finished \<and> stage_of c j \<in> {Writing, Written}"

lemma finish_stage:
  "\<not> over (stage_of c j) \<Longrightarrow> j < length (cl_jobs c) \<Longrightarrow> stage_of (finish_job j out st c) x = (if x = j then st else stage_of c x)"
  by (simp add: finish_jobs nth_list_update)

lemma finish_reply:
  "\<not> over (stage_of c j) \<Longrightarrow> j < length (cl_jobs c) \<Longrightarrow> wj_reply (cl_jobs (finish_job j out st c) ! x) =
    (if x = j then wj_reply (cl_jobs c ! j) @ [out] else wj_reply (cl_jobs c ! x))"
  by (simp add: finish_jobs nth_list_update)

lemma finish_same:
  "\<not> over (stage_of c j) \<Longrightarrow> j < length (cl_jobs c) \<Longrightarrow> wj_call (cl_jobs (finish_job j out st c) ! x) = wj_call (cl_jobs c ! x)"
  "\<not> over (stage_of c j) \<Longrightarrow> j < length (cl_jobs c) \<Longrightarrow> wj_request (cl_jobs (finish_job j out st c) ! x) = wj_request (cl_jobs c ! x)"
  by (simp_all add: finish_jobs nth_list_update)

lemma finish_wire_inv:
  assumes wire: "wire_inv c" and jobs: "jobs_inv c" and sent: "sent_ok c j out st" and j: "j < length (cl_jobs c)"
  shows "wire_inv (finish_job j out st c)"
proof (cases "over (stage_of c j)")
  case True
  then show ?thesis using assms by (simp add: finish_over)
next
  case False
  note eqs = finish_stage [OF False j, of out st] finish_reply [OF False j, of out st]
  have empty: "wj_reply (cl_jobs c ! j) = []" using jobs False j by (auto simp: jobs_inv_def)
  have st: "st \<noteq> Queued" "st \<noteq> Writing" "st \<noteq> Written" using sent by (auto simp: sent_ok_def)
  have on_wire: "j \<in> set (cl_wire c)" if "st = Finished"
  proof -
    have "stage_of c j = Writing \<or> stage_of c j = Written" using sent that by (auto simp: sent_ok_def)
    then show ?thesis using wire j unfolding wire_inv_def by blast
  qed
  have out: "stage_of c x = Queued \<or> stage_of c x = Dropped" "x < length (cl_jobs c)" if "x \<in> set (cl_out c)" for x
    using wire that unfolding wire_inv_def by blast+
  have dropped: "st = Dropped" if "j \<in> set (cl_out c)"
    using out(1) [OF that] sent False by (auto simp: sent_ok_def over_def)
  have w: "stage_of c x \<noteq> Queued" "x < length (cl_jobs c)" if "x \<in> set (cl_wire c)" for x
    using wire that unfolding wire_inv_def by blast+
  have onw: "x \<in> set (cl_wire c)" if "stage_of c x = Writing \<or> stage_of c x = Written" "x < length (cl_jobs c)" for x
    using wire that unfolding wire_inv_def by blast+
  have replies: "list_all (\<lambda>y. (\<exists>e. y = Failed_with e) \<or> stage_of c x = Finished \<and> x \<in> set (cl_wire c)) (wj_reply (cl_jobs c ! x))"
    if "x < length (cl_jobs c)" for x
    using wire that unfolding wire_inv_def by blast
  have mine: "(\<exists>e. out = Failed_with e) \<or> st = Finished \<and> j \<in> set (cl_wire c)"
    using sent on_wire by (auto simp: sent_ok_def)
  have dist: "distinct (cl_out c)" "distinct (cl_wire c)" using wire by (simp_all add: wire_inv_def)
  have out': "x < length (cl_jobs c) \<and> ((if x = j then st else stage_of c x) = Queued \<or> (if x = j then st else stage_of c x) = Dropped)"
    if "x \<in> set (cl_out c)" for x
    using out [OF that] dropped that by auto
  have w': "x < length (cl_jobs c) \<and> (if x = j then st else stage_of c x) \<noteq> Queued" if "x \<in> set (cl_wire c)" for x
    using w [OF that] st(1) by auto
  have onw': "x \<in> set (cl_wire c)"
    if "x < length (cl_jobs c)" "(if x = j then st else stage_of c x) = Writing \<or> (if x = j then st else stage_of c x) = Written" for x
    using onw [of x] that st by (auto split: if_splits)
  have replies': "list_all (\<lambda>y. (\<exists>e. y = Failed_with e) \<or> (if x = j then st else stage_of c x) = Finished \<and> x \<in> set (cl_wire c))
      (if x = j then wj_reply (cl_jobs c ! j) @ [out] else wj_reply (cl_jobs c ! x))" if "x < length (cl_jobs c)" for x
    using replies [OF that] mine empty by (cases "x = j") simp_all
  show ?thesis
    unfolding wire_inv_def finish_fields eqs
    by (intro conjI ballI allI impI dist) (use out' w' onw' replies' in \<open>blast+\<close>)
qed

lemma finish_calls_inv:
  assumes calls: "calls_inv k c" and jobs: "jobs_inv c" and j: "j < length (cl_jobs c)"
  shows "calls_inv k (finish_job j out st c)"
proof (cases "over (stage_of c j)")
  case True
  then show ?thesis using assms by (simp add: finish_over)
next
  case False
  have same: "wj_call (cl_jobs (finish_job j out st c) ! x) = wj_call (cl_jobs c ! x)" for x
    using False j by (simp add: finish_jobs nth_list_update)
  have sub: "set (cl_pending (finish_job j out st c)) = {(i, x). (i, x) \<in> set (cl_pending c) \<and> x \<noteq> j}"
  proof (cases "wj_call (cl_jobs c ! j)")
    case None
    then show ?thesis using calls False by (auto simp: finish_pending calls_inv_def)
  next
    case (Some i)
    have inj: "x = j" if "(i, x) \<in> set (cl_pending c)" for x
    proof -
      have "(i, j) \<in> set (cl_pending c)" using calls jobs False j Some by (auto simp: calls_inv_def jobs_inv_def)
      then show ?thesis using that calls by (auto simp: calls_inv_def dest: eq_key_imp_eq_value)
    qed
    then show ?thesis using calls False Some by (auto simp: finish_pending calls_inv_def)
  qed
  have "distinct (map fst (cl_pending (finish_job j out st c)))"
    using calls False by (auto simp: finish_pending calls_inv_def distinct_map_filter split: option.split)
  then show ?thesis
    using calls sub False by (auto simp: calls_inv_def same finish_live)
qed

lemma finish_queued:
  assumes "\<not> over (stage_of c j)" and "j < length (cl_jobs c)" and "over st"
  shows "queued_replies (finish_job j out st c) = filter (\<lambda>k. k \<noteq> j) (queued_replies c)"
proof -
  have "st \<noteq> Queued" using assms(3) by (auto simp: over_def)
  then show ?thesis
    by (auto simp: queued_replies_def finish_live [OF assms(1)] finish_stage [OF assms(1,2)] finish_same [OF assms(1,2)]
        intro: filter_cong)
qed

lemma finish_wire_ids:
  assumes "\<not> over (stage_of c j)" and "j < length (cl_jobs c)"
  shows "wire_ids (finish_job j out st c) = wire_ids c"
proof -
  have "rr_id (cl_requests (finish_job j out st c) ! r) = rr_id (cl_requests c ! r)" for r
    by (simp add: finish_requests [OF assms(1)] split: option.split)
  then show ?thesis by (simp add: wire_ids_def finish_same [OF assms])
qed

lemma length_filter_out: "distinct xs \<Longrightarrow> length (filter (\<lambda>k. k \<noteq> j) xs) = length xs - (if j \<in> set xs then 1 else 0)"
proof -
  assume "distinct xs"
  then have "filter (\<lambda>k. k \<noteq> j) xs = remove1 j xs"
    by (simp add: distinct_remove1_removeAll removeAll_filter_not_eq eq_commute)
  then show ?thesis by (simp add: length_remove1)
qed

lemma queued_distinct: "jobs_inv c \<Longrightarrow> distinct (queued_replies c)"
  by (simp add: queued_replies_def jobs_inv_def)

lemma queued_mem: "j \<in> set (queued_replies c) \<longleftrightarrow> j \<in> set (cl_live c) \<and> stage_of c j = Queued \<and> wj_request (cl_jobs c ! j) \<noteq> None"
  by (auto simp: queued_replies_def)

lemma finish_requests_inv:
  assumes req: "requests_inv c" and jobs: "jobs_inv c" and st: "over st" and j: "j < length (cl_jobs c)"
  shows "requests_inv (finish_job j out st c)"
proof (cases "over (stage_of c j)")
  case True
  then show ?thesis using req by (simp add: finish_over)
next
  case False
  note eqs = finish_queued [OF False j st, of out] finish_wire_ids [OF False j, of out st] finish_same [OF False j, of out st]
  have live: "j \<in> set (cl_live c)" using jobs False j by (simp add: jobs_inv_def)
  have ids: "rr_id (cl_requests (finish_job j out st c) ! r) = rr_id (cl_requests c ! r)" for r
    by (simp add: finish_requests [OF False] split: option.split)
  have inj: "inj_on (\<lambda>j. wj_request (cl_jobs c ! j)) (set (queued_replies c))" using req by (simp add: requests_inv_def)
  have kept: "rr_responding (cl_requests (finish_job j out st c) ! r) \<and> (rr_id (cl_requests c ! r), r) \<in> set (cl_remote c)"
    if k: "k \<in> set (queued_replies c)" "k \<noteq> j" and r: "wj_request (cl_jobs c ! k) = Some r" for k r
  proof -
    have old: "rr_responding (cl_requests c ! r) \<and> (rr_id (cl_requests c ! r), r) \<in> set (cl_remote c)"
      using req k(1) r unfolding requests_inv_def by blast
    have "x \<noteq> r" if "wj_request (cl_jobs c ! j) = Some x" "stage_of c j = Queued" for x
      using inj_onD [OF inj _ _ k(1), of j] k(2) r live that by (auto simp: queued_mem)
    then show ?thesis
      using old by (auto simp: finish_requests [OF False] split: option.split)
  qed
  have count: "cl_responders (finish_job j out st c) = int (length (filter (\<lambda>k. k \<noteq> j) (queued_replies c)))"
  proof -
    have "j \<in> set (queued_replies c) \<longleftrightarrow> stage_of c j = Queued \<and> wj_request (cl_jobs c ! j) \<noteq> None"
      by (simp add: queued_mem live)
    moreover have "j \<in> set (queued_replies c) \<Longrightarrow> 0 < length (queued_replies c)" by (cases "queued_replies c") auto
    moreover have "cl_responders c = int (length (queued_replies c))" using req by (simp add: requests_inv_def)
    ultimately show ?thesis
      unfolding finish_responders [OF False] length_filter_out [OF queued_distinct [OF jobs]]
      by (auto simp: of_nat_diff Suc_le_eq)
  qed
  have inj': "inj_on (\<lambda>j. wj_request (cl_jobs c ! j)) (set (filter (\<lambda>k. k \<noteq> j) (queued_replies c)))"
    by (rule inj_on_subset [OF inj]) auto
  have range: "\<forall>k < length (cl_jobs c). \<forall>r. wj_request (cl_jobs c ! k) = Some r \<longrightarrow> r < length (cl_requests c)"
    and rest: "distinct (map fst (cl_remote c))" "distinct (cl_consumed c)" "set (map fst (cl_remote c)) \<inter> set (cl_consumed c) = {}"
      "\<forall>(i, r) \<in> set (cl_remote c). r < length (cl_requests c) \<and> rr_id (cl_requests c ! r) = i"
      "distinct (wire_ids c)" "set (wire_ids c) = set (cl_consumed c)"
    using req unfolding requests_inv_def by blast+
  show ?thesis
    unfolding requests_inv_def eqs finish_fields ids
    using rest count inj' range kept by (intro conjI) auto
qed

lemma finish_bounds_inv:
  assumes bounds: "bounds_inv c"
  shows "bounds_inv (finish_job j out st c)"
proof (cases "over (stage_of c j)")
  case True
  then show ?thesis using bounds by (simp add: finish_over)
next
  case False
  have "length (cl_pending (finish_job j out st c)) \<le> length (cl_pending c)"
    by (simp add: finish_pending [OF False] split: option.split)
  then show ?thesis
    using bounds by (auto simp: bounds_inv_def finish_responders [OF False])
qed

lemma finish_base:
  assumes "base_inv k c" and "sent_ok c j out st" and "j < length (cl_jobs c)"
  shows "base_inv k (finish_job j out st c)"
  using assms finish_jobs_inv finish_wire_inv finish_calls_inv finish_requests_inv finish_bounds_inv
  unfolding base_inv_def by (auto simp: sent_ok_def over_def)

lemma finish_inv:
  assumes "client_inv k c" and "sent_ok c j out st" and "j < length (cl_jobs c)"
  shows "client_inv k (finish_job j out st c)"
proof -
  have "cl_live (finish_job j out st c) = filter (\<lambda>k. k \<noteq> j) (cl_live c) \<or> finish_job j out st c = c"
    using finish_over [of c j out st] finish_live [of c j out st] by blast
  then show ?thesis using assms finish_base by (auto simp: client_inv_def)
qed

section \<open>The end of the client\<close>

lemma finish_all:
  assumes "base_inv k c" and "\<forall>j \<in> set js. j < length (cl_jobs c)"
  shows "base_inv k (foldl (\<lambda>c j. finish_job j (Failed_with e) Dropped c) c js)
    \<and> set (cl_live (foldl (\<lambda>c j. finish_job j (Failed_with e) Dropped c) c js)) = set (cl_live c) - set js
    \<and> cl_err (foldl (\<lambda>c j. finish_job j (Failed_with e) Dropped c) c js) = cl_err c
    \<and> cl_wire (foldl (\<lambda>c j. finish_job j (Failed_with e) Dropped c) c js) = cl_wire c
    \<and> length (cl_jobs (foldl (\<lambda>c j. finish_job j (Failed_with e) Dropped c) c js)) = length (cl_jobs c)"
  using assms
proof (induction js arbitrary: c)
  case (Cons j js)
  let ?c = "finish_job j (Failed_with e) Dropped c"
  have inv: "base_inv k ?c"
    by (rule finish_base [OF Cons.prems(1)]) (use Cons.prems(2) in \<open>simp_all add: sent_ok_def\<close>)
  have live: "set (cl_live ?c) = set (cl_live c) - {j}"
  proof (cases "over (stage_of c j)")
    case True
    then have "j \<notin> set (cl_live c)" using Cons.prems(1) by (simp add: base_inv_def jobs_inv_def)
    then show ?thesis using True by (simp add: finish_over)
  qed (auto simp: finish_live)
  show ?case
    using Cons.IH [OF inv] Cons.prems(2) live by auto
qed simp

lemma base_err: "base_inv k (c\<lparr>cl_err := x\<rparr>) = base_inv k c"
  by (simp add: base_inv_def jobs_inv_def wire_inv_def calls_inv_def requests_inv_def bounds_inv_def queued_replies_def wire_ids_def)

lemma live_jobs: "base_inv k c \<Longrightarrow> j \<in> set (cl_live c) \<Longrightarrow> j < length (cl_jobs c) \<and> \<not> over (stage_of c j)"
  by (simp add: base_inv_def jobs_inv_def)

lemma fail_inv: "client_inv k c \<Longrightarrow> client_inv k (fail_client e c)"
proof (cases "cl_err c")
  case None
  assume inv: "client_inv k c"
  let ?c = "c\<lparr>cl_err := Some e\<rparr>"
  have base: "base_inv k ?c" using inv by (simp add: client_inv_def base_err)
  have range: "\<forall>j \<in> set (cl_live c). j < length (cl_jobs ?c)" using live_jobs [OF base] by simp
  show ?thesis
    using finish_all [OF base range, of e] None by (simp add: fail_client_def client_inv_def)
qed (simp add: fail_client_def)

lemma fail_err: "cl_err (fail_client e c) = (case cl_err c of None \<Rightarrow> Some e | Some x \<Rightarrow> Some x)"
proof -
  have "cl_err (foldl (\<lambda>c j. finish_job j (Failed_with e) Dropped c) d js) = cl_err d" for js d
    by (induction js arbitrary: d) simp_all
  then show ?thesis by (simp add: fail_client_def split: option.split)
qed

lemma cancel_inv: "client_inv k c \<Longrightarrow> j < length (cl_jobs c) \<Longrightarrow> client_inv k (cancel_job j c)"
  by (auto simp: cancel_job_def Let_def sent_ok_def intro!: finish_inv fail_inv)

section \<open>Touching a job\<close>

definition same_job :: "write_job \<Rightarrow> write_job \<Rightarrow> bool" where
  "same_job w v \<longleftrightarrow> wj_call v = wj_call w \<and> wj_request v = wj_request w \<and> wj_reply v = wj_reply w
     \<and> (wj_stage v = wj_stage w \<or> wj_stage w = Writing \<and> wj_stage v = Written)"

lemma touch_simps [simp]:
  "cl_jobs (set_client_job j w c) = (cl_jobs c)[j := w]" "cl_live (set_client_job j w c) = cl_live c"
  "cl_out (set_client_job j w c) = cl_out c" "cl_wire (set_client_job j w c) = cl_wire c"
  "cl_pending (set_client_job j w c) = cl_pending c" "cl_next (set_client_job j w c) = cl_next c"
  "cl_requests (set_client_job j w c) = cl_requests c" "cl_remote (set_client_job j w c) = cl_remote c"
  "cl_consumed (set_client_job j w c) = cl_consumed c" "cl_responders (set_client_job j w c) = cl_responders c"
  "cl_limits (set_client_job j w c) = cl_limits c" "cl_events (set_client_job j w c) = cl_events c"
  "cl_err (set_client_job j w c) = cl_err c"
  by (simp_all add: set_client_job_def)

lemma touch_base:
  assumes inv: "base_inv k c" and j: "j < length (cl_jobs c)" and w: "same_job (cl_jobs c ! j) w"
  shows "base_inv k (set_client_job j w c)"
proof -
  let ?c = "set_client_job j w c"
  have call: "wj_call (cl_jobs ?c ! x) = wj_call (cl_jobs c ! x)" and req: "wj_request (cl_jobs ?c ! x) = wj_request (cl_jobs c ! x)"
    and reply: "wj_reply (cl_jobs ?c ! x) = wj_reply (cl_jobs c ! x)" for x
    using w j by (simp_all add: same_job_def nth_list_update)
  have over: "over (stage_of ?c x) = over (stage_of c x)" for x
    using w j by (auto simp: same_job_def nth_list_update over_def)
  have queued: "(stage_of ?c x = Queued) = (stage_of c x = Queued)" and dropped: "(stage_of ?c x = Dropped) = (stage_of c x = Dropped)"
    and finished: "(stage_of ?c x = Finished) = (stage_of c x = Finished)"
    and flight: "(stage_of ?c x = Writing \<or> stage_of ?c x = Written) = (stage_of c x = Writing \<or> stage_of c x = Written)" for x
    using w j by (auto simp: same_job_def nth_list_update)
  have len: "length (cl_jobs ?c) = length (cl_jobs c)" by simp
  have "queued_replies ?c = queued_replies c" "wire_ids ?c = wire_ids c"
    by (simp_all only: queued_replies_def wire_ids_def req queued touch_simps(2,4,7))
  note lists = this
  note same = call req reply over queued dropped finished flight len touch_simps(2-13) lists
  have "jobs_inv ?c = jobs_inv c" unfolding jobs_inv_def same ..
  moreover have "wire_inv ?c = wire_inv c" unfolding wire_inv_def same ..
  moreover have "calls_inv k ?c = calls_inv k c" unfolding calls_inv_def same ..
  moreover have "requests_inv ?c = requests_inv c" unfolding requests_inv_def same ..
  moreover have "bounds_inv ?c = bounds_inv c" unfolding bounds_inv_def same ..
  ultimately show ?thesis using inv by (simp only: base_inv_def)
qed

section \<open>A new job\<close>

definition add_job :: "write_job \<Rightarrow> client \<Rightarrow> client" where
  "add_job w c = c\<lparr>cl_jobs := cl_jobs c @ [w], cl_live := cl_live c @ [length (cl_jobs c)]\<rparr>"

lemma enqueue_add:
  "enqueue w c = (let d = add_job w c in
     if length (cl_out c) < writer_queue_size then ((None, None), d\<lparr>cl_out := cl_out c @ [length (cl_jobs c)]\<rparr>)
     else ((Some RpcWriterLimit, Some RpcWriterLimit), finish_job (length (cl_jobs c)) (Failed_with RpcWriterLimit) Dropped d))"
  by (simp add: enqueue_def add_job_def Let_def)

definition fresh_job :: "write_job \<Rightarrow> bool" where
  "fresh_job w \<longleftrightarrow> wj_stage w = Queued \<and> wj_reply w = []"

lemma add_jobs_inv: "jobs_inv c \<Longrightarrow> fresh_job w \<Longrightarrow> jobs_inv (add_job w c)"
  by (auto simp: jobs_inv_def add_job_def fresh_job_def nth_append over_def less_Suc_eq)

lemma wire_invI:
  assumes "distinct (cl_out c)" "distinct (cl_wire c)"
    and "\<And>j. j \<in> set (cl_out c) \<Longrightarrow> j < length (cl_jobs c) \<and> (stage_of c j = Queued \<or> stage_of c j = Dropped)"
    and "\<And>j. j \<in> set (cl_wire c) \<Longrightarrow> j < length (cl_jobs c) \<and> stage_of c j \<noteq> Queued"
    and "\<And>j. j < length (cl_jobs c) \<Longrightarrow> stage_of c j = Writing \<or> stage_of c j = Written \<Longrightarrow> j \<in> set (cl_wire c)"
    and "\<And>j. j < length (cl_jobs c) \<Longrightarrow>
      list_all (\<lambda>x. (\<exists>e. x = Failed_with e) \<or> stage_of c j = Finished \<and> j \<in> set (cl_wire c)) (wj_reply (cl_jobs c ! j))"
  shows "wire_inv c"
  using assms unfolding wire_inv_def by blast

lemma wire_invD:
  assumes "wire_inv c"
  shows "distinct (cl_out c)" "distinct (cl_wire c)"
    and "\<And>j. j \<in> set (cl_out c) \<Longrightarrow> j < length (cl_jobs c) \<and> (stage_of c j = Queued \<or> stage_of c j = Dropped)"
    and "\<And>j. j \<in> set (cl_wire c) \<Longrightarrow> j < length (cl_jobs c) \<and> stage_of c j \<noteq> Queued"
    and "\<And>j. j < length (cl_jobs c) \<Longrightarrow> stage_of c j = Writing \<or> stage_of c j = Written \<Longrightarrow> j \<in> set (cl_wire c)"
    and "\<And>j. j < length (cl_jobs c) \<Longrightarrow>
      list_all (\<lambda>x. (\<exists>e. x = Failed_with e) \<or> stage_of c j = Finished \<and> j \<in> set (cl_wire c)) (wj_reply (cl_jobs c ! j))"
  using assms unfolding wire_inv_def by blast+

lemma add_fields [simp]:
  "cl_out (add_job w c) = cl_out c" "cl_wire (add_job w c) = cl_wire c" "length (cl_jobs (add_job w c)) = Suc (length (cl_jobs c))"
  "cl_live (add_job w c) = cl_live c @ [length (cl_jobs c)]" "cl_remote (add_job w c) = cl_remote c"
  "cl_consumed (add_job w c) = cl_consumed c" "cl_requests (add_job w c) = cl_requests c"
  "cl_responders (add_job w c) = cl_responders c" "cl_pending (add_job w c) = cl_pending c" "cl_next (add_job w c) = cl_next c"
  "cl_limits (add_job w c) = cl_limits c" "cl_events (add_job w c) = cl_events c" "cl_err (add_job w c) = cl_err c"
  by (simp_all add: add_job_def)

lemma add_nth: "cl_jobs (add_job w c) ! j = (if j < length (cl_jobs c) then cl_jobs c ! j else if j = length (cl_jobs c) then w else cl_jobs (add_job w c) ! j)"
  by (simp add: add_job_def nth_append)

lemma add_old: "j < length (cl_jobs c) \<Longrightarrow> cl_jobs (add_job w c) ! j = cl_jobs c ! j"
  and add_new: "cl_jobs (add_job w c) ! length (cl_jobs c) = w"
  by (simp_all add: add_job_def nth_append)

lemma add_wire_inv:
  assumes wire: "wire_inv c" and w: "fresh_job w"
  shows "wire_inv (add_job w c)"
proof (rule wire_invI)
  fix j assume j: "j < length (cl_jobs (add_job w c))"
  then consider "j < length (cl_jobs c)" | "j = length (cl_jobs c)" by fastforce
  note cases = this
  show "list_all (\<lambda>x. (\<exists>e. x = Failed_with e) \<or> stage_of (add_job w c) j = Finished \<and> j \<in> set (cl_wire (add_job w c)))
      (wj_reply (cl_jobs (add_job w c) ! j))"
    using cases wire_invD(6) [OF wire, of j] w by cases (simp_all add: add_old add_new fresh_job_def)
  show "j \<in> set (cl_wire (add_job w c))" if "stage_of (add_job w c) j = Writing \<or> stage_of (add_job w c) j = Written"
    using cases that wire_invD(5) [OF wire, of j] w by cases (simp_all add: add_old add_new fresh_job_def)
next
  fix j
  show "j < length (cl_jobs (add_job w c)) \<and> (stage_of (add_job w c) j = Queued \<or> stage_of (add_job w c) j = Dropped)"
    if "j \<in> set (cl_out (add_job w c))"
    using wire_invD(3) [OF wire, of j] that by (simp add: add_old)
  show "j < length (cl_jobs (add_job w c)) \<and> stage_of (add_job w c) j \<noteq> Queued" if "j \<in> set (cl_wire (add_job w c))"
    using wire_invD(4) [OF wire, of j] that by (simp add: add_old)
qed (use wire_invD(1,2) [OF wire] in simp_all)

lemma push_wire_inv:
  assumes wire: "wire_inv c" and "j < length (cl_jobs c)" and "stage_of c j = Queued" and "j \<notin> set (cl_out c)"
  shows "wire_inv (c\<lparr>cl_out := cl_out c @ [j]\<rparr>)"
  by (rule wire_invI) (use assms wire_invD [OF wire] in auto)

lemma requests_invI:
  assumes "distinct (map fst (cl_remote c))" "distinct (cl_consumed c)" "set (map fst (cl_remote c)) \<inter> set (cl_consumed c) = {}"
    and "\<And>i r. (i, r) \<in> set (cl_remote c) \<Longrightarrow> r < length (cl_requests c) \<and> rr_id (cl_requests c ! r) = i"
    and "cl_responders c = int (length (queued_replies c))"
    and "\<And>j x. j \<in> set (queued_replies c) \<Longrightarrow> x \<in> set (queued_replies c) \<Longrightarrow>
      wj_request (cl_jobs c ! j) = wj_request (cl_jobs c ! x) \<Longrightarrow> j = x"
    and "\<And>j r. j \<in> set (queued_replies c) \<Longrightarrow> wj_request (cl_jobs c ! j) = Some r \<Longrightarrow>
          rr_responding (cl_requests c ! r) \<and> (rr_id (cl_requests c ! r), r) \<in> set (cl_remote c)"
    and "\<And>j r. j < length (cl_jobs c) \<Longrightarrow> wj_request (cl_jobs c ! j) = Some r \<Longrightarrow> r < length (cl_requests c)"
    and "distinct (wire_ids c)" "set (wire_ids c) = set (cl_consumed c)"
  shows "requests_inv c"
  using assms unfolding requests_inv_def inj_on_def by blast

lemma requests_invD:
  assumes "requests_inv c"
  shows "distinct (map fst (cl_remote c))" "distinct (cl_consumed c)" "set (map fst (cl_remote c)) \<inter> set (cl_consumed c) = {}"
    and "\<And>i r. (i, r) \<in> set (cl_remote c) \<Longrightarrow> r < length (cl_requests c) \<and> rr_id (cl_requests c ! r) = i"
    and "cl_responders c = int (length (queued_replies c))"
    and "\<And>j x. j \<in> set (queued_replies c) \<Longrightarrow> x \<in> set (queued_replies c) \<Longrightarrow>
      wj_request (cl_jobs c ! j) = wj_request (cl_jobs c ! x) \<Longrightarrow> j = x"
    and "\<And>j r. j \<in> set (queued_replies c) \<Longrightarrow> wj_request (cl_jobs c ! j) = Some r \<Longrightarrow>
          rr_responding (cl_requests c ! r) \<and> (rr_id (cl_requests c ! r), r) \<in> set (cl_remote c)"
    and "\<And>j r. j < length (cl_jobs c) \<Longrightarrow> wj_request (cl_jobs c ! j) = Some r \<Longrightarrow> r < length (cl_requests c)"
    and "distinct (wire_ids c)" "set (wire_ids c) = set (cl_consumed c)"
  using assms unfolding requests_inv_def inj_on_def by blast+

lemma add_queued:
  assumes jobs: "jobs_inv c" and w: "fresh_job w"
  shows "queued_replies (add_job w c) = queued_replies c @ (if wj_request w = None then [] else [length (cl_jobs c)])"
proof -
  have "j < length (cl_jobs c)" if "j \<in> set (cl_live c)" for j using jobs that by (simp add: jobs_inv_def)
  then show ?thesis using w by (auto simp: queued_replies_def add_old add_new fresh_job_def intro!: filter_cong)
qed

lemma add_wire_ids:
  assumes wire: "wire_inv c"
  shows "wire_ids (add_job w c) = wire_ids c"
proof -
  have "j < length (cl_jobs c)" if "j \<in> set (cl_wire c)" for j using wire_invD(4) [OF wire that] by simp
  then show ?thesis by (auto simp: wire_ids_def add_old cong: filter_cong)
qed

lemma queued_sel [simp]:
  "wj_call (queued_call i b) = Some i" "wj_request (queued_call i b) = None" "wj_stage (queued_call i b) = Queued"
  "wj_reply (queued_call i b) = []" "wj_response (queued_call i b) = None"
  "wj_call (queued_send r b) = None" "wj_request (queued_send r b) = r" "wj_stage (queued_send r b) = Queued"
  "wj_reply (queued_send r b) = []" "wj_response (queued_send r b) = None"
  by (simp_all add: queued_call_def queued_send_def)

lemma add_calls:
  assumes calls: "calls_inv k c" and jobs: "jobs_inv c" and none: "wj_call w = None"
  shows "calls_inv k (add_job w c)"
proof -
  have mem: "j < length (cl_jobs c)" if "j \<in> set (cl_live c)" for j using jobs that by (simp add: jobs_inv_def)
  have pend: "j \<in> set (cl_live c)" if "(i, j) \<in> set (cl_pending c)" for i j using calls that by (simp add: calls_inv_def)
  show ?thesis
    using calls mem none unfolding calls_inv_def by (auto simp: add_old add_new less_Suc_eq)
qed

lemma add_requests:
  assumes req: "requests_inv c" and jobs: "jobs_inv c" and wire: "wire_inv c" and w: "fresh_job w" and none: "wj_request w = None"
  shows "requests_inv (add_job w c)"
proof -
  have mem: "j < length (cl_jobs c)" if "j \<in> set (cl_live c)" for j using jobs that by (simp add: jobs_inv_def)
  show ?thesis
  proof (rule requests_invI)
    fix j r assume "j < length (cl_jobs (add_job w c))" "wj_request (cl_jobs (add_job w c) ! j) = Some r"
    then show "r < length (cl_requests (add_job w c))"
      using requests_invD(8) [OF req, of j r] none by (auto simp: add_old add_new less_Suc_eq)
  next
    fix j r assume "j \<in> set (queued_replies (add_job w c))" "wj_request (cl_jobs (add_job w c) ! j) = Some r"
    then show "rr_responding (cl_requests (add_job w c) ! r) \<and> (rr_id (cl_requests (add_job w c) ! r), r) \<in> set (cl_remote (add_job w c))"
      using requests_invD(7) [OF req, of j r] mem [of j] by (simp add: add_queued [OF jobs w] none add_old queued_mem)
  next
    fix j x assume "j \<in> set (queued_replies (add_job w c))" "x \<in> set (queued_replies (add_job w c))"
      "wj_request (cl_jobs (add_job w c) ! j) = wj_request (cl_jobs (add_job w c) ! x)"
    then show "j = x"
      using requests_invD(6) [OF req, of j x] mem [of j] mem [of x] by (simp add: add_queued [OF jobs w] none add_old queued_mem)
  qed (use requests_invD [OF req] in \<open>simp_all add: add_queued [OF jobs w] add_wire_ids [OF wire] none\<close>)
qed

lemma add_plain:
  assumes "base_inv k c" and "fresh_job w" and "wj_request w = None" "wj_call w = None"
  shows "base_inv k (add_job w c)"
  using assms add_calls add_requests add_jobs_inv add_wire_inv by (simp add: base_inv_def bounds_inv_def)

lemma frames:
  "jobs_inv (c\<lparr>cl_next := n, cl_pending := p\<rparr>) = jobs_inv c"
  "wire_inv (c\<lparr>cl_next := n, cl_pending := p\<rparr>) = wire_inv c"
  "requests_inv (c\<lparr>cl_next := n, cl_pending := p\<rparr>) = requests_inv c"
  "jobs_inv (c\<lparr>cl_requests := q, cl_responders := m\<rparr>) = jobs_inv c"
  "wire_inv (c\<lparr>cl_requests := q, cl_responders := m\<rparr>) = wire_inv c"
  "calls_inv k (c\<lparr>cl_requests := q, cl_responders := m\<rparr>) = calls_inv k c"
  by (simp_all add: jobs_inv_def wire_inv_def requests_inv_def calls_inv_def queued_replies_def wire_ids_def)

lemma add_call:
  assumes inv: "base_inv k c" and n: "cl_next c + 1 \<noteq> 0" and room: "int (length (cl_pending c)) < lm_local_calls (cl_limits c)"
  defines "i \<equiv> call_id (cl_next c + 1)"
  shows "base_inv (Suc k) (add_job (queued_call i body)
    (c\<lparr>cl_next := cl_next c + 1, cl_pending := cl_pending c @ [(i, length (cl_jobs c))]\<rparr>))" (is "base_inv _ ?d")
proof -
  let ?w = "queued_call i body"
  have parts: "jobs_inv c" "wire_inv c" "calls_inv k c" "requests_inv c" "bounds_inv c" using inv by (simp_all add: base_inv_def)
  have w: "fresh_job ?w" by (simp add: fresh_job_def queued_sel)
  have suc: "unat (cl_next c + 1) = Suc (unat (cl_next c))"
    using n by (metis unatSuc add.commute)
  have new: "wj_call (cl_jobs c ! j) \<noteq> Some i" if j: "j < length (cl_jobs c)" for j
  proof
    assume "wj_call (cl_jobs c ! j) = Some i"
    then obtain m where "m \<le> unat (cl_next c)" "i = ''local-'' @ dec_nat m"
      using parts(3) j unfolding calls_inv_def by blast
    then have "Suc (unat (cl_next c)) = m" by (intro dec_nat_inject) (simp add: i_def call_id_def suc)
    then show False using \<open>m \<le> unat (cl_next c)\<close> by simp
  qed
  have mem: "j < length (cl_jobs c)" if "j \<in> set (cl_live c)" for j using parts(1) that by (simp add: jobs_inv_def)
  have pend: "j \<in> set (cl_live c) \<and> wj_call (cl_jobs c ! j) = Some t \<longleftrightarrow> (t, j) \<in> set (cl_pending c)" for t j
    using parts(3) unfolding calls_inv_def by blast
  have old: "\<exists>m. m \<le> Suc (unat (cl_next c)) \<and> t = ''local-'' @ dec_nat m" if "j < length (cl_jobs c)" "wj_call (cl_jobs c ! j) = Some t" for j t
    using parts(3) that unfolding calls_inv_def by (meson le_SucI)
  have key: "i \<notin> fst ` set (cl_pending c)" using pend new mem by force
  have jobs: "cl_jobs ?d = cl_jobs c @ [?w]" by (simp add: add_job_def)
  have "calls_inv (Suc k) ?d"
    unfolding calls_inv_def
  proof (intro conjI allI impI)
    show "unat (cl_next ?d) \<le> Suc k" using parts(3) by (simp add: suc calls_inv_def)
    show "distinct (map fst (cl_pending ?d))" using parts(3) key by (simp add: calls_inv_def)
  next
    fix t j
    show "(t, j) \<in> set (cl_pending ?d) \<longleftrightarrow> j \<in> set (cl_live ?d) \<and> wj_call (cl_jobs ?d ! j) = Some t"
      using pend [of j t] mem [of j] by (auto simp: jobs nth_append queued_sel)
  next
    fix j t assume j: "j < length (cl_jobs ?d)" and t: "wj_call (cl_jobs ?d ! j) = Some t"
    have "cl_next ?d = cl_next c + 1" by simp
    then have top: "unat (cl_next ?d) = Suc (unat (cl_next c))" by (simp only: suc)
    show "\<exists>m. m \<le> unat (cl_next ?d) \<and> t = ''local-'' @ dec_nat m"
    proof (cases "j < length (cl_jobs c)")
      case True
      then show ?thesis unfolding top using t by (intro old) (simp_all only: jobs nth_append if_True)
    next
      case False
      then have "j = length (cl_jobs c)" using j by simp
      then have "t = i" using t by (simp add: jobs)
      moreover have "i = ''local-'' @ dec_nat (Suc (unat (cl_next c)))" by (simp only: i_def call_id_def suc)
      ultimately show ?thesis unfolding top by (intro exI [of _ "Suc (unat (cl_next c))"] conjI) (rule order_refl, simp only:)
    qed
  qed
  moreover have "jobs_inv ?d" by (rule add_jobs_inv [OF _ w]) (simp only: frames parts(1))
  moreover have "wire_inv ?d" by (rule add_wire_inv [OF _ w]) (simp only: frames parts(2))
  moreover have "requests_inv ?d"
    by (rule add_requests [OF _ _ _ w]) (simp_all only: frames parts queued_sel)
  ultimately show ?thesis
    using parts(5) room by (simp add: base_inv_def bounds_inv_def)
qed

lemma add_reply:
  assumes inv: "base_inv k c" and r: "(rr_id (cl_requests c ! r), r) \<in> set (cl_remote c)"
    and idle: "\<not> rr_responding (cl_requests c ! r)"
    and room: "int (length (cl_consumed c)) + cl_responders c < lm_consumed_requests (cl_limits c)"
  shows "base_inv k (add_job (queued_send (Some r) body)
    (c\<lparr>cl_requests := (cl_requests c)[r := (cl_requests c ! r)\<lparr>rr_responding := True\<rparr>], cl_responders := cl_responders c + 1\<rparr>))"
    (is "base_inv _ ?d")
proof -
  let ?w = "queued_send (Some r) body"
  have parts: "jobs_inv c" "wire_inv c" "calls_inv k c" "requests_inv c" "bounds_inv c" using inv by (simp_all add: base_inv_def)
  have w: "fresh_job ?w" by (simp add: fresh_job_def queued_sel)
  have len: "r < length (cl_requests c)" using requests_invD(4) [OF parts(4) r] by simp
  have jobs: "cl_jobs ?d = cl_jobs c @ [?w]" by (simp add: add_job_def)
  have mem: "j < length (cl_jobs c)" if "j \<in> set (cl_live c)" for j using parts(1) that by (simp add: jobs_inv_def)
  have free: "wj_request (cl_jobs c ! j) \<noteq> Some r" if j: "j \<in> set (queued_replies c)" for j
    using requests_invD(7) [OF parts(4) j] idle by blast
  have q: "queued_replies ?d = queued_replies c @ [length (cl_jobs c)]"
  proof -
    have "filter (\<lambda>j. stage_of ?d j = Queued \<and> wj_request (cl_jobs ?d ! j) \<noteq> None) (cl_live c) = queued_replies c"
      unfolding queued_replies_def by (rule filter_cong) (auto simp: jobs nth_append dest: mem)
    then show ?thesis by (simp add: queued_replies_def jobs nth_append queued_sel)
  qed
  have i: "wire_ids ?d = wire_ids c"
  proof -
    have "filter (\<lambda>j. wj_request (cl_jobs ?d ! j) \<noteq> None) (cl_wire c) = filter (\<lambda>j. wj_request (cl_jobs c ! j) \<noteq> None) (cl_wire c)"
      by (rule filter_cong) (auto simp: jobs nth_append dest: wire_invD(4) [OF parts(2)])
    then show ?thesis by (auto simp: wire_ids_def jobs nth_append dest: wire_invD(4) [OF parts(2)])
  qed
  have small: "j < length (cl_jobs c)" if "j \<in> set (queued_replies c)" for j using mem that by (simp add: queued_mem)
  have "requests_inv ?d"
  proof (rule requests_invI)
    fix j x assume "j < length (cl_jobs ?d)" "wj_request (cl_jobs ?d ! j) = Some x"
    then show "x < length (cl_requests ?d)"
      using requests_invD(8) [OF parts(4), of j x] len by (auto simp: jobs nth_append queued_sel split: if_splits)
  next
    fix j x assume "j \<in> set (queued_replies ?d)" and x: "wj_request (cl_jobs ?d ! j) = Some x"
    then consider "j \<in> set (queued_replies c)" | "j = length (cl_jobs c)" by (auto simp: q)
    then show "rr_responding (cl_requests ?d ! x) \<and> (rr_id (cl_requests ?d ! x), x) \<in> set (cl_remote ?d)"
    proof cases
      case 1
      have old: "wj_request (cl_jobs c ! j) = Some x" using x small [OF 1] by (simp add: jobs nth_append)
      have "x \<noteq> r" using free [OF 1] old by auto
      then show ?thesis using requests_invD(7) [OF parts(4) 1 old] by simp
    next
      case 2
      then have "x = r" using x by (simp add: jobs queued_sel)
      then show ?thesis using r len by simp
    qed
  next
    fix j x assume jx: "j \<in> set (queued_replies ?d)" "x \<in> set (queued_replies ?d)"
      "wj_request (cl_jobs ?d ! j) = wj_request (cl_jobs ?d ! x)"
    show "j = x"
    proof (cases "j = length (cl_jobs c) \<or> x = length (cl_jobs c)")
      case True
      then show ?thesis
        using jx free small by (auto simp: q jobs nth_append queued_sel) metis+
    next
      case False
      then show ?thesis
        using jx requests_invD(6) [OF parts(4), of j x] small by (auto simp: q jobs nth_append)
    qed
  qed (insert requests_invD [OF parts(4)], unfold q i, simp_all)
  moreover have "jobs_inv ?d" by (rule add_jobs_inv [OF _ w]) (simp only: frames parts(1))
  moreover have "wire_inv ?d" by (rule add_wire_inv [OF _ w]) (simp only: frames parts(2))
  moreover have "calls_inv k ?d" by (rule add_calls) (simp_all only: frames parts queued_sel)
  ultimately show ?thesis
    using parts(5) room by (simp add: base_inv_def bounds_inv_def)
qed

section \<open>Admission\<close>

lemma enqueue_base:
  assumes inv: "base_inv k (add_job w c)" and w: "fresh_job w" and out: "\<forall>j \<in> set (cl_out c). j < length (cl_jobs c)"
  shows "base_inv k (snd (enqueue w c))" and "cl_err (snd (enqueue w c)) = cl_err c"
proof -
  let ?d = "add_job w c" and ?j = "length (cl_jobs c)"
  have st: "stage_of ?d ?j = Queued" using w by (simp add: add_new fresh_job_def)
  have "base_inv k (?d\<lparr>cl_out := cl_out c @ [?j]\<rparr>)" if "length (cl_out c) < writer_queue_size"
  proof -
    have "wire_inv ?d" using inv by (simp add: base_inv_def)
    moreover have "?j \<notin> set (cl_out ?d)" using out by auto
    ultimately have "wire_inv (?d\<lparr>cl_out := cl_out ?d @ [?j]\<rparr>)"
      by (intro push_wire_inv) (simp_all add: st)
    then show ?thesis
      using inv that unfolding base_inv_def
      by (simp add: jobs_inv_def calls_inv_def requests_inv_def bounds_inv_def queued_replies_def wire_ids_def)
  qed
  moreover have "base_inv k (finish_job ?j (Failed_with RpcWriterLimit) Dropped ?d)"
    by (rule finish_base [OF inv]) (simp_all add: sent_ok_def)
  ultimately show "base_inv k (snd (enqueue w c))" by (simp add: enqueue_add Let_def)
  show "cl_err (snd (enqueue w c)) = cl_err c" by (simp add: enqueue_add Let_def)
qed

lemma client_mono: "client_inv k c \<Longrightarrow> k \<le> k' \<Longrightarrow> client_inv k' c"
  by (auto simp: client_inv_def base_inv_def calls_inv_def)

lemma out_range: "base_inv k c \<Longrightarrow> \<forall>j \<in> set (cl_out c). j < length (cl_jobs c)"
  using wire_invD(3) by (auto simp: base_inv_def)

lemma frame_next:
  "jobs_inv (c\<lparr>cl_next := n\<rparr>) = jobs_inv c" "wire_inv (c\<lparr>cl_next := n\<rparr>) = wire_inv c"
  "requests_inv (c\<lparr>cl_next := n\<rparr>) = requests_inv c"
  by (simp_all add: jobs_inv_def wire_inv_def requests_inv_def queued_replies_def wire_ids_def)

lemma call_inv:
  assumes inv: "client_inv k c" and k: "Suc k < 2 ^ 64"
  shows "client_inv (Suc k) (snd (admit_call x meth params c))"
proof -
  have keep: "client_inv (Suc k) c" by (rule client_mono [OF inv]) simp
  have small: "unat (cl_next c) \<le> k" using inv by (simp add: client_inv_def base_inv_def calls_inv_def)
  have n: "cl_next c + 1 \<noteq> 0"
  proof
    assume "cl_next c + 1 = 0"
    then have "cl_next c = - 1" by (simp add: eq_neg_iff_add_eq_0)
    then have "unat (cl_next c) = 2 ^ 64 - 1" by (simp add: unsigned_minus_1_eq_mask mask_eq_exp_minus_1)
    then show False using small k by simp
  qed
  have next_only: "client_inv (Suc k) (c\<lparr>cl_next := cl_next c + 1\<rparr>)"
  proof -
    have suc: "unat (cl_next c + 1) = Suc (unat (cl_next c))" using n by (metis unatSuc add.commute)
    have "calls_inv k c" using inv by (simp add: client_inv_def base_inv_def)
    then have "calls_inv (Suc k) (c\<lparr>cl_next := cl_next c + 1\<rparr>)"
      unfolding calls_inv_def by (auto simp: suc) (meson le_SucI)+
    then show ?thesis
      using inv by (simp add: client_inv_def base_inv_def frame_next bounds_inv_def)
  qed
  have new: "client_inv (Suc k) (snd (enqueue (queued_call (call_id (cl_next c + 1)) body)
      (c\<lparr>cl_next := cl_next c + 1, cl_pending := cl_pending c @ [(call_id (cl_next c + 1), length (cl_jobs c))]\<rparr>)))"
    if room: "int (length (cl_pending c)) < lm_local_calls (cl_limits c)" and err: "cl_err c = None" for body
  proof -
    have base: "base_inv k c" using inv by (simp add: client_inv_def)
    show ?thesis
      using enqueue_base [OF add_call [OF base n room, of body]] out_range [OF base] err
      by (simp add: client_inv_def fresh_job_def)
  qed
  show ?thesis
    using keep next_only new n
    by (auto simp: admit_call_def reject_def Let_def split: option.split sum.split)
qed

lemma send_inv:
  assumes inv: "client_inv k c" and r: "\<And>r. request = Some r \<Longrightarrow> r < length (cl_requests c)"
  shows "client_inv k (snd (admit_send x body request c))"
proof -
  have base: "base_inv k c" using inv by (simp add: client_inv_def)
  have plain: "client_inv k (snd (enqueue (queued_send None body) c))" if "cl_err c = None"
    using enqueue_base [OF add_plain [OF base, of "queued_send None body"]] out_range [OF base] that
    by (simp add: client_inv_def fresh_job_def)
  have reply: "client_inv k (snd (admit_reply q body c))" if err: "cl_err c = None" for q
  proof -
    have "client_inv k (snd (enqueue (queued_send (Some q) body)
       (c\<lparr>cl_requests := (cl_requests c)[q := (cl_requests c ! q)\<lparr>rr_responding := True\<rparr>], cl_responders := cl_responders c + 1\<rparr>)))"
      if held: "map_of (cl_remote c) (rr_id (cl_requests c ! q)) = Some q" and idle: "\<not> rr_responding (cl_requests c ! q)"
        and room: "\<not> int (length (cl_consumed c)) + cl_responders c \<ge> lm_consumed_requests (cl_limits c)"
    proof -
      have q: "(rr_id (cl_requests c ! q), q) \<in> set (cl_remote c)" using held by (rule map_of_SomeD)
      show ?thesis
        using enqueue_base [OF add_reply [OF base q idle, of body]] out_range [OF base] err room
        by (simp add: client_inv_def fresh_job_def)
    qed
    then show ?thesis using inv by (simp add: admit_reply_def reject_def Let_def)
  qed
  show ?thesis
    using inv plain reply by (auto simp: admit_send_def reject_def split: option.split)
qed

lemma notify_inv: "client_inv k c \<Longrightarrow> client_inv k (snd (notify x meth params c))"
  by (auto simp: notify_def reject_def Let_def intro: send_inv split: option.split sum.split)

lemma respond_inv: "client_inv k c \<Longrightarrow> client_inv k (snd (respond_request x r reply c))"
  by (auto simp: respond_request_def reject_def Let_def intro: send_inv split: option.split sum.split)

section \<open>The writer\<close>

lemma drop_out:
  assumes inv: "base_inv k c" and out: "cl_out c = j # rest"
  shows "base_inv k (c\<lparr>cl_out := rest\<rparr>)"
proof -
  have wire: "wire_inv c" using inv by (simp add: base_inv_def)
  have "wire_inv (c\<lparr>cl_out := rest\<rparr>)"
    by (rule wire_invI) (use wire_invD [OF wire] out in \<open>simp_all\<close>)
  moreover have "jobs_inv (c\<lparr>cl_out := rest\<rparr>) = jobs_inv c" "calls_inv k (c\<lparr>cl_out := rest\<rparr>) = calls_inv k c"
    "requests_inv (c\<lparr>cl_out := rest\<rparr>) = requests_inv c"
    by (simp_all add: jobs_inv_def calls_inv_def requests_inv_def queued_replies_def wire_ids_def)
  moreover have "bounds_inv (c\<lparr>cl_out := rest\<rparr>)"
    using inv out by (simp add: base_inv_def bounds_inv_def)
  ultimately show ?thesis using inv by (simp add: base_inv_def)
qed

definition consume_reply :: "nat \<Rightarrow> client \<Rightarrow> client" where
  "consume_reply r c = (drop_remote (rr_id (cl_requests c ! r)) c)
    \<lparr>cl_consumed := List.insert (rr_id (cl_requests c ! r)) (cl_consumed c), cl_responders := cl_responders c - 1\<rparr>"

lemma begin_write_eq:
  "begin_write j w c = (let d = (case wj_request w of None \<Rightarrow> c | Some r \<Rightarrow> consume_reply r c)
    in set_client_job j (w\<lparr>wj_stage := Writing\<rparr>) (d\<lparr>cl_wire := cl_wire d @ [j]\<rparr>))"
  by (simp add: begin_write_def consume_reply_def Let_def split: option.split)

lemma consume_fields [simp]:
  "cl_jobs (consume_reply r c) = cl_jobs c" "cl_live (consume_reply r c) = cl_live c" "cl_out (consume_reply r c) = cl_out c"
  "cl_wire (consume_reply r c) = cl_wire c" "cl_pending (consume_reply r c) = cl_pending c" "cl_next (consume_reply r c) = cl_next c"
  "cl_requests (consume_reply r c) = cl_requests c" "cl_limits (consume_reply r c) = cl_limits c"
  "cl_events (consume_reply r c) = cl_events c" "cl_err (consume_reply r c) = cl_err c"
  "cl_remote (consume_reply r c) = filter (\<lambda>(k, _). k \<noteq> rr_id (cl_requests c ! r)) (cl_remote c)"
  "cl_consumed (consume_reply r c) = List.insert (rr_id (cl_requests c ! r)) (cl_consumed c)"
  "cl_responders (consume_reply r c) = cl_responders c - 1"
  by (simp_all add: consume_reply_def drop_remote_def)

lemma begin_fields:
  fixes j :: nat and c :: client
  defines "d \<equiv> begin_write j (cl_jobs c ! j) c"
  shows "cl_jobs d = (cl_jobs c)[j := (cl_jobs c ! j)\<lparr>wj_stage := Writing\<rparr>]" "cl_live d = cl_live c" "cl_out d = cl_out c"
    "cl_wire d = cl_wire c @ [j]" "cl_pending d = cl_pending c" "cl_next d = cl_next c" "cl_requests d = cl_requests c"
    "cl_limits d = cl_limits c" "cl_events d = cl_events c" "cl_err d = cl_err c"
  by (simp_all add: d_def begin_write_eq Let_def split: option.split)

lemma begin_base:
  assumes inv: "base_inv k c" and j: "j < length (cl_jobs c)" and q: "stage_of c j = Queued" and out: "j \<notin> set (cl_out c)"
  shows "base_inv k (begin_write j (cl_jobs c ! j) c)"
proof -
  let ?d = "begin_write j (cl_jobs c ! j) c"
  have parts: "jobs_inv c" "wire_inv c" "calls_inv k c" "requests_inv c" "bounds_inv c" using inv by (simp_all add: base_inv_def)
  note fields = begin_fields [of j c]
  have stage: "stage_of ?d x = (if x = j then Writing else stage_of c x)" for x using j by (simp add: fields nth_list_update)
  have same: "wj_call (cl_jobs ?d ! x) = wj_call (cl_jobs c ! x)" "wj_request (cl_jobs ?d ! x) = wj_request (cl_jobs c ! x)"
    "wj_reply (cl_jobs ?d ! x) = wj_reply (cl_jobs c ! x)" for x
    using j by (simp_all add: fields nth_list_update)
  have over: "over (stage_of ?d x) = over (stage_of c x)" for x using q by (simp add: stage over_def)
  have len: "length (cl_jobs ?d) = length (cl_jobs c)" by (simp add: fields)
  have live: "j \<in> set (cl_live c)" using parts(1) j q by (simp add: jobs_inv_def over_def)
  have "jobs_inv ?d = jobs_inv c" unfolding jobs_inv_def over same len fields(2) ..
  moreover have "calls_inv k ?d = calls_inv k c" unfolding calls_inv_def same len fields(2,5,6) ..
  moreover have "wire_inv ?d"
  proof (rule wire_invI)
    have "j \<notin> set (cl_wire c)" using wire_invD(4) [OF parts(2)] q by blast
    then show "distinct (cl_wire ?d)" using wire_invD(2) [OF parts(2)] by (simp add: fields)
    show "distinct (cl_out ?d)" using wire_invD(1) [OF parts(2)] by (simp add: fields)
  next
    fix x assume "x \<in> set (cl_out ?d)"
    then show "x < length (cl_jobs ?d) \<and> (stage_of ?d x = Queued \<or> stage_of ?d x = Dropped)"
      using wire_invD(3) [OF parts(2), of x] out unfolding stage len fields(3) by auto
  next
    fix x assume "x \<in> set (cl_wire ?d)"
    then show "x < length (cl_jobs ?d) \<and> stage_of ?d x \<noteq> Queued"
      using wire_invD(4) [OF parts(2), of x] j unfolding stage len fields(4) by auto
  next
    fix x assume "x < length (cl_jobs ?d)" "stage_of ?d x = Writing \<or> stage_of ?d x = Written"
    then show "x \<in> set (cl_wire ?d)"
      using wire_invD(5) [OF parts(2), of x] unfolding stage len fields(4) by (auto split: if_splits)
  next
    fix x assume x: "x < length (cl_jobs ?d)"
    have "wj_reply (cl_jobs c ! j) = []" using parts(1) j q by (auto simp: jobs_inv_def over_def)
    then show "list_all (\<lambda>y. (\<exists>e. y = Failed_with e) \<or> stage_of ?d x = Finished \<and> x \<in> set (cl_wire ?d)) (wj_reply (cl_jobs ?d ! x))"
      using wire_invD(6) [OF parts(2), of x] x unfolding stage len fields(4) same(3)
      by (cases "x = j") (auto simp: list_all_iff)
  qed
  moreover have "requests_inv ?d \<and> bounds_inv ?d"
  proof (cases "wj_request (cl_jobs c ! j)")
    case None
    have eq: "cl_remote ?d = cl_remote c" "cl_consumed ?d = cl_consumed c" "cl_responders ?d = cl_responders c"
      using None by (simp_all add: begin_write_eq Let_def)
    have lists: "queued_replies ?d = queued_replies c" "wire_ids ?d = wire_ids c"
      unfolding queued_replies_def wire_ids_def same fields(2,4,7) stage using None by (auto intro!: filter_cong)
    have "requests_inv ?d = requests_inv c" unfolding requests_inv_def same len fields(7) eq lists ..
    moreover have "bounds_inv ?d = bounds_inv c" unfolding bounds_inv_def fields(3,5,8,9) eq ..
    ultimately show ?thesis using parts(4,5) by simp
  next
    case (Some r)
    let ?i = "rr_id (cl_requests c ! r)"
    have eq: "cl_remote ?d = filter (\<lambda>(k, _). k \<noteq> ?i) (cl_remote c)" "cl_consumed ?d = List.insert ?i (cl_consumed c)"
      "cl_responders ?d = cl_responders c - 1"
      using Some by (simp_all add: begin_write_eq Let_def)
    have mine: "j \<in> set (queued_replies c)" using live q Some by (simp add: queued_mem)
    have remote: "(?i, r) \<in> set (cl_remote c)" using requests_invD(7) [OF parts(4) mine Some] by simp
    have fresh: "?i \<notin> set (cl_consumed c)"
      using requests_invD(3) [OF parts(4)] remote by force
    have cons: "cl_consumed ?d = ?i # cl_consumed c" using fresh by (simp add: eq List.insert_def)
    have qs: "queued_replies ?d = filter (\<lambda>k. k \<noteq> j) (queued_replies c)"
      unfolding queued_replies_def same fields(2) stage by (auto intro!: filter_cong)
    have ids: "wire_ids ?d = wire_ids c @ [?i]"
      unfolding wire_ids_def same fields(4,7) using Some by simp
    have count: "cl_responders ?d = int (length (filter (\<lambda>k. k \<noteq> j) (queued_replies c)))"
    proof -
      have "0 < length (queued_replies c)" using mine by (cases "queued_replies c") auto
      then show ?thesis
        using requests_invD(5) [OF parts(4)] mine
        by (simp add: eq length_filter_out [OF queued_distinct [OF parts(1)]] of_nat_diff Suc_le_eq)
    qed
    have "requests_inv ?d"
    proof (rule requests_invI)
      show "distinct (map fst (cl_remote ?d))" using requests_invD(1) [OF parts(4)] by (simp add: eq distinct_map_filter)
      show "distinct (cl_consumed ?d)" using requests_invD(2) [OF parts(4)] fresh by (simp add: cons)
      show "set (map fst (cl_remote ?d)) \<inter> set (cl_consumed ?d) = {}"
        using requests_invD(3) [OF parts(4)] unfolding cons eq(1) by auto
      show "distinct (wire_ids ?d)" "set (wire_ids ?d) = set (cl_consumed ?d)"
        using requests_invD(9,10) [OF parts(4)] fresh by (auto simp: ids cons)
      show "cl_responders ?d = int (length (queued_replies ?d))" by (simp only: count qs)
    next
      fix i x assume "(i, x) \<in> set (cl_remote ?d)"
      then show "x < length (cl_requests ?d) \<and> rr_id (cl_requests ?d ! x) = i"
        using requests_invD(4) [OF parts(4), of i x] by (simp add: eq fields)
    next
      fix x y assume "x \<in> set (queued_replies ?d)" "y \<in> set (queued_replies ?d)"
        "wj_request (cl_jobs ?d ! x) = wj_request (cl_jobs ?d ! y)"
      then show "x = y" using requests_invD(6) [OF parts(4), of x y] by (simp add: qs same)
    next
      fix x y assume x: "x \<in> set (queued_replies ?d)" and y: "wj_request (cl_jobs ?d ! x) = Some y"
      have x': "x \<in> set (queued_replies c)" "x \<noteq> j" using x by (auto simp: qs)
      have y': "wj_request (cl_jobs c ! x) = Some y" using y by (simp add: same)
      note old = requests_invD(7) [OF parts(4) x'(1) y']
      have "y \<noteq> r" using requests_invD(6) [OF parts(4) x'(1) mine] y' Some x'(2) by auto
      moreover have "y = r" if "rr_id (cl_requests c ! y) = ?i"
        using old remote that requests_invD(1) [OF parts(4)] by (metis eq_key_imp_eq_value)
      ultimately show "rr_responding (cl_requests ?d ! y) \<and> (rr_id (cl_requests ?d ! y), y) \<in> set (cl_remote ?d)"
        using old by (auto simp: eq fields)
    next
      fix x y assume "x < length (cl_jobs ?d)" "wj_request (cl_jobs ?d ! x) = Some y"
      then show "y < length (cl_requests ?d)"
        using requests_invD(8) [OF parts(4), of x y] unfolding same len fields(7) by blast
    qed
    moreover have "bounds_inv ?d"
    proof -
      have "length (cl_remote ?d) \<le> length (cl_remote c)" by (simp add: eq)
      then show ?thesis using parts(5) by (auto simp: bounds_inv_def fields cons eq(3))
    qed
    ultimately show ?thesis ..
  qed
  ultimately show ?thesis using parts(1,3) by (simp add: base_inv_def)
qed

end
