(* ===== verification/Rpc_Steps.thy ===== *)
theory Rpc_Steps
  imports Rpc_Invariants
begin

text \<open>
  Every critical section of the client keeps its invariant, so it holds after any sequence of them
  from a new client; and what follows from it: one outcome a job, one answer a request, bounded
  queues, a sticky error that releases everyone who waits.
\<close>

section \<open>The sections\<close>

lemma client_base: "client_inv k c \<Longrightarrow> base_inv k c"
  by (simp add: client_inv_def)

lemma touch_inv:
  "client_inv k c \<Longrightarrow> j < length (cl_jobs c) \<Longrightarrow> same_job (cl_jobs c ! j) w \<Longrightarrow> client_inv k (set_client_job j w c)"
  by (simp add: client_inv_def touch_base)

lemma take_inv:
  assumes inv: "client_inv k c"
  shows "client_inv k (snd (take_job x c))"
proof (cases "cl_out c")
  case Nil
  then show ?thesis using inv by (simp add: take_job_def)
next
  case (Cons j rest)
  let ?c = "c\<lparr>cl_out := rest\<rparr>"
  have wire: "wire_inv c" using inv by (simp add: client_inv_def base_inv_def)
  have j: "j < length (cl_jobs ?c)" "stage_of ?c j = Queued \<or> stage_of ?c j = Dropped" "j \<notin> set (cl_out ?c)"
    using wire_invD(1,3) [OF wire] Cons by auto
  have dropped: "client_inv k ?c"
    using inv drop_out [OF client_base [OF inv] Cons] by (simp add: client_inv_def)
  have "client_inv k (begin_write j (job_at ?c j) ?c)" if "cl_err c = None" "stage_of ?c j \<noteq> Dropped"
  proof -
    have "base_inv k (begin_write j (cl_jobs ?c ! j) ?c)"
      using j that by (intro begin_base [OF client_base [OF dropped]]) auto
    then show ?thesis using that begin_fields(10) [of j ?c] by (simp add: client_inv_def job_at_def)
  qed
  moreover have "client_inv k (finish_job j (Failed_with RpcCancelled) Dropped ?c)"
    by (rule finish_inv [OF dropped]) (use j in \<open>simp_all add: sent_ok_def\<close>)
  ultimately show ?thesis
    using dropped Cons by (auto simp: take_job_def Let_def job_at_def)
qed

lemma wrote_inv:
  assumes inv: "client_inv k c" and j: "j < length (cl_jobs c)" and w: "stage_of c j = Writing"
  shows "client_inv k (wrote_job x j c)"
proof -
  let ?w = "cl_jobs c ! j"
  have clear: "client_inv k (set_client_job j (?w\<lparr>wj_frame := []\<rparr>) c)"
    by (rule touch_inv [OF inv j]) (simp add: same_job_def)
  have written: "client_inv k (set_client_job j (?w\<lparr>wj_frame := [], wj_stage := Written\<rparr>) c)"
    by (rule touch_inv [OF inv j]) (simp add: same_job_def w)
  have sent: "client_inv k (finish_job j out Finished (set_client_job j (?w\<lparr>wj_frame := []\<rparr>) c))" for out
    by (rule finish_inv [OF clear]) (use j w in \<open>simp_all add: sent_ok_def\<close>)
  have answered: "client_inv k (finish_job j out Finished (set_client_job j (?w\<lparr>wj_frame := [], wj_stage := Written\<rparr>) c))" for out
    by (rule finish_inv [OF written]) (use j in \<open>simp_all add: sent_ok_def\<close>)
  show ?thesis
    using inv clear written sent answered fail_inv [OF clear]
    by (auto simp: wrote_job_def Let_def job_at_def split: option.split)
qed

lemma reply_inv:
  assumes inv: "client_inv k c"
  shows "client_inv k (snd (accept_reply x i out c))"
proof -
  have "client_inv k (if stage_of c j = Written then finish_job j out Finished (set_client_job j ((cl_jobs c ! j)\<lparr>wj_response := Some out\<rparr>) c)
      else set_client_job j ((cl_jobs c ! j)\<lparr>wj_response := Some out\<rparr>) c)"
    if p: "map_of (cl_pending c) t = Some j" for t j
  proof -
    have "(t, j) \<in> set (cl_pending c)" using p by (rule map_of_SomeD)
    then have j: "j < length (cl_jobs c)"
      using inv by (auto simp: client_inv_def base_inv_def calls_inv_def jobs_inv_def)
    have touched: "client_inv k (set_client_job j ((cl_jobs c ! j)\<lparr>wj_response := Some out\<rparr>) c)"
      by (rule touch_inv [OF inv j]) (simp add: same_job_def)
    have "client_inv k (finish_job j out Finished (set_client_job j ((cl_jobs c ! j)\<lparr>wj_response := Some out\<rparr>) c))"
      if "stage_of c j = Written"
      by (rule finish_inv [OF touched]) (use j that in \<open>simp_all add: sent_ok_def\<close>)
    then show ?thesis using touched by simp
  qed
  then show ?thesis
    using inv by (auto simp: accept_reply_def Let_def job_at_def split: rpc_id_value.split option.split)
qed

lemma frame_events:
  "jobs_inv (c\<lparr>cl_events := e\<rparr>) = jobs_inv c" "wire_inv (c\<lparr>cl_events := e\<rparr>) = wire_inv c"
  "calls_inv k (c\<lparr>cl_events := e\<rparr>) = calls_inv k c" "requests_inv (c\<lparr>cl_events := e\<rparr>) = requests_inv c"
  by (simp_all add: jobs_inv_def wire_inv_def calls_inv_def requests_inv_def queued_replies_def wire_ids_def)

lemma push_inv: "client_inv k c \<Longrightarrow> client_inv k (snd (push_event e c))"
  by (simp add: push_event_def client_inv_def base_inv_def frame_events bounds_inv_def)

lemma receive_inv: "client_inv k c \<Longrightarrow> client_inv k (c\<lparr>cl_events := tl (cl_events c)\<rparr>)"
proof -
  assume inv: "client_inv k c"
  have "int (length (tl (cl_events c))) \<le> int (length (cl_events c))" by simp
  then have "bounds_inv (c\<lparr>cl_events := tl (cl_events c)\<rparr>)"
    using inv unfolding client_inv_def base_inv_def bounds_inv_def by (simp del: length_tl)
  then show ?thesis using inv by (simp add: client_inv_def base_inv_def frame_events)
qed

lemma frame_remote:
  "jobs_inv (c\<lparr>cl_requests := q, cl_remote := r\<rparr>) = jobs_inv c" "wire_inv (c\<lparr>cl_requests := q, cl_remote := r\<rparr>) = wire_inv c"
  "calls_inv k (c\<lparr>cl_requests := q, cl_remote := r\<rparr>) = calls_inv k c"
  by (simp_all add: jobs_inv_def wire_inv_def calls_inv_def)

lemma new_request_base:
  assumes inv: "base_inv k c" and free: "map_of (cl_remote c) (rr_id q) = None" "rr_id q \<notin> set (cl_consumed c)"
    and room: "int (length (cl_remote c)) < lm_remote_requests (cl_limits c)"
  shows "base_inv k (c\<lparr>cl_requests := cl_requests c @ [q], cl_remote := cl_remote c @ [(rr_id q, length (cl_requests c))]\<rparr>)"
    (is "base_inv k ?d")
proof -
  have parts: "jobs_inv c" "wire_inv c" "calls_inv k c" "requests_inv c" "bounds_inv c" using inv by (simp_all add: base_inv_def)
  have queue: "queued_replies ?d = queued_replies c" by (simp add: queued_replies_def)
  have live: "j < length (cl_jobs c)" if "j \<in> set (queued_replies c)" for j
    using parts(1) that by (simp add: queued_mem jobs_inv_def)
  have old: "cl_requests ?d ! r = cl_requests c ! r" if "r < length (cl_requests c)" for r using that by (simp add: nth_append)
  have range: "r < length (cl_requests c)" if "j < length (cl_jobs c)" "wj_request (cl_jobs c ! j) = Some r" for j r
    by (rule requests_invD(8) [OF parts(4) that])
  have ids: "wire_ids ?d = wire_ids c"
    unfolding wire_ids_def
  proof (rule map_cong)
    fix j assume "j \<in> set (filter (\<lambda>j. wj_request (cl_jobs c ! j) \<noteq> None) (cl_wire c))"
    then obtain y where "wj_request (cl_jobs c ! j) = Some y" "j < length (cl_jobs c)"
      using wire_invD(4) [OF parts(2)] by auto
    then show "rr_id (cl_requests ?d ! the (wj_request (cl_jobs ?d ! j))) = rr_id (cl_requests c ! the (wj_request (cl_jobs c ! j)))"
      using range by (simp add: nth_append)
  qed simp
  have "requests_inv ?d"
  proof (rule requests_invI)
    show "distinct (map fst (cl_remote ?d))" using requests_invD(1) [OF parts(4)] free(1) by (simp add: map_of_eq_None_iff)
    show "set (map fst (cl_remote ?d)) \<inter> set (cl_consumed ?d) = {}" using requests_invD(3) [OF parts(4)] free(2) by auto
    show "distinct (cl_consumed ?d)" using requests_invD(2) [OF parts(4)] by simp
    show "cl_responders ?d = int (length (queued_replies ?d))" using requests_invD(5) [OF parts(4)] by (simp add: queue)
    show "distinct (wire_ids ?d)" "set (wire_ids ?d) = set (cl_consumed ?d)" using requests_invD(9,10) [OF parts(4)] by (simp_all add: ids)
  next
    fix i r assume "(i, r) \<in> set (cl_remote ?d)"
    then show "r < length (cl_requests ?d) \<and> rr_id (cl_requests ?d ! r) = i"
      using requests_invD(4) [OF parts(4), of i r] by (auto simp: nth_append)
  next
    fix j x assume "j \<in> set (queued_replies ?d)" "x \<in> set (queued_replies ?d)" "wj_request (cl_jobs ?d ! j) = wj_request (cl_jobs ?d ! x)"
    then show "j = x" using requests_invD(6) [OF parts(4), of j x] by (simp add: queue)
  next
    fix j r assume "j \<in> set (queued_replies ?d)" "wj_request (cl_jobs ?d ! j) = Some r"
    then show "rr_responding (cl_requests ?d ! r) \<and> (rr_id (cl_requests ?d ! r), r) \<in> set (cl_remote ?d)"
      using requests_invD(7) [OF parts(4), of j r] range [of j r] live [of j] by (simp add: queue nth_append)
  next
    fix j r assume "j < length (cl_jobs ?d)" "wj_request (cl_jobs ?d ! j) = Some r"
    then show "r < length (cl_requests ?d)" using range [of j r] by simp
  qed
  then show ?thesis
    using parts(1-3,5) room by (simp add: base_inv_def frame_remote bounds_inv_def)
qed

lemma request_inv: "client_inv k c \<Longrightarrow> client_inv k (snd (accept_request i meth params c))"
proof -
  assume inv: "client_inv k c"
  let ?q = "\<lparr>rr_id = i, rr_method = meth, rr_params = params, rr_responding = False\<rparr>"
  have "client_inv k (c\<lparr>cl_requests := cl_requests c @ [?q], cl_remote := cl_remote c @ [(i, length (cl_requests c))]\<rparr>)"
    if "map_of (cl_remote c) i = None" "i \<notin> set (cl_consumed c)" "int (length (cl_remote c)) < lm_remote_requests (cl_limits c)"
    using new_request_base [OF client_base [OF inv], of ?q] that inv by (simp add: client_inv_def)
  then show ?thesis using inv push_inv by (auto simp: accept_request_def Let_def)
qed

lemma accept_inv: "client_inv k c \<Longrightarrow> client_inv k (snd (accept_frame x f c))"
  by (auto simp: accept_frame_def intro: reply_inv request_inv push_inv split: option.split frame.split)

lemma frame_flags:
  "client_inv k (c\<lparr>cl_read_eof := b\<rparr>) = client_inv k c" "client_inv k (c\<lparr>cl_write_closed := b\<rparr>) = client_inv k c"
  "client_inv k (c\<lparr>cl_write_closed := b, cl_closing := b'\<rparr>) = client_inv k c"
  "client_inv k (c\<lparr>cl_close_err := x, cl_closing := b\<rparr>) = client_inv k c"
  by (simp_all add: client_inv_def base_inv_def jobs_inv_def wire_inv_def calls_inv_def requests_inv_def bounds_inv_def
      queued_replies_def wire_ids_def)

lemma close_inv: "client_inv k c \<Longrightarrow> client_inv k (snd (close_begin c))" "client_inv k c \<Longrightarrow> client_inv k (snd (close_end x c))"
  by (auto simp: close_begin_def close_end_def frame_flags Let_def intro: fail_inv split: option.split)

lemma step_inv:
  assumes inv: "client_inv k c" and k: "Suc k < 2 ^ 64"
  shows "client_inv (Suc k) (client_step op c)"
proof (cases op)
  case (OpCall x meth params)
  then show ?thesis using call_inv [OF assms] by simp
next
  case (OpCancel j)
  then show ?thesis using client_mono [OF inv] client_mono [OF cancel_inv [OF inv]] by simp
next
  case (OpWrote x j)
  then show ?thesis using client_mono [OF inv] client_mono [OF wrote_inv [OF inv]] by (simp add: job_at_def)
qed (use client_mono [OF notify_inv [OF inv]] client_mono [OF respond_inv [OF inv]] client_mono [OF take_inv [OF inv]]
      client_mono [OF accept_inv [OF inv]] client_mono [OF fail_inv [OF inv]] client_mono [OF receive_inv [OF inv]]
      client_mono [OF close_inv(1) [OF inv]] client_mono [OF close_inv(2) [OF inv]] client_mono [OF inv]
    in \<open>simp_all add: frame_flags\<close>)

section \<open>Runs\<close>

lemma normal_limit_range: "normal_limit v m = Some w \<Longrightarrow> 1 \<le> w \<and> w \<le> m"
  by (auto simp: normal_limit_def Let_def split: if_splits)

lemma normalized_range:
  assumes "normalized ls = Inr l"
  shows "1 \<le> lm_frame_bytes l \<and> lm_frame_bytes l \<le> rpc_max_frame_bytes \<and> 1 \<le> lm_local_calls l \<and> lm_local_calls l \<le> rpc_max_local_calls
    \<and> 1 \<le> lm_remote_requests l \<and> lm_remote_requests l \<le> rpc_max_remote_requests \<and> 1 \<le> lm_events l \<and> lm_events l \<le> rpc_max_events
    \<and> 1 \<le> lm_consumed_requests l \<and> lm_consumed_requests l \<le> rpc_max_consumed"
proof -
  obtain a b c d e where
    "normal_limit (lm_frame_bytes ls) rpc_max_frame_bytes = Some a" "normal_limit (lm_local_calls ls) rpc_max_local_calls = Some b"
    "normal_limit (lm_remote_requests ls) rpc_max_remote_requests = Some c" "normal_limit (lm_events ls) rpc_max_events = Some d"
    "normal_limit (lm_consumed_requests ls) rpc_max_consumed = Some e"
    "l = \<lparr>lm_frame_bytes = a, lm_local_calls = b, lm_remote_requests = c, lm_events = d, lm_consumed_requests = e\<rparr>"
    using assms unfolding normalized_def by (auto split: option.splits)
  then show ?thesis using normal_limit_range by force
qed

lemma empty_inv:
  assumes "cl_jobs c = []" "cl_pending c = []" "cl_live c = []" "cl_out c = []" "cl_wire c = []" "cl_remote c = []"
    "cl_consumed c = []" "cl_responders c = 0" "cl_events c = []" "cl_next c = 0"
    "0 \<le> lm_consumed_requests (cl_limits c)" "0 \<le> lm_remote_requests (cl_limits c)" "0 \<le> lm_local_calls (cl_limits c)" "0 \<le> lm_events (cl_limits c)"
  shows "client_inv 0 c"
  using assms by (simp add: client_inv_def base_inv_def jobs_inv_def wire_inv_def calls_inv_def requests_inv_def
      bounds_inv_def queued_replies_def wire_ids_def)

lemma new_inv: "new_client ls x = Inr c \<Longrightarrow> client_inv 0 c"
  by (rule empty_inv) (auto simp: new_client_def dest: normalized_range split: sum.splits if_splits)

lemma run_inv: "client_inv k c \<Longrightarrow> k + length ops < 2 ^ 64 \<Longrightarrow> client_inv (k + length ops) (client_run ops c)"
proof (induction ops arbitrary: k c)
  case (Cons op ops)
  have "client_inv (Suc k) (client_step op c)" by (rule step_inv) (use Cons.prems in auto)
  from Cons.IH [OF this] Cons.prems(2) show ?case by (simp add: client_run_def)
qed (simp add: client_run_def)

lemma client_run_inv:
  assumes "new_client ls x = Inr c" and "length ops < 2 ^ 64"
  shows "client_inv (length ops) (client_run ops c)"
  using run_inv [OF new_inv [OF assms(1)], of ops] assms(2) by simp

section \<open>What callers see\<close>

definition outcomes_once :: "client \<Rightarrow> bool" where
  "outcomes_once c \<longleftrightarrow> list_all (\<lambda>w. length (wj_reply w) = (if over (wj_stage w) then 1 else 0)) (cl_jobs c)
     \<and> (if cl_err c = None then True else list_all (\<lambda>w. over (wj_stage w)) (cl_jobs c))"

text \<open>C18. Every caller of \<open>Call\<close>, \<open>Notify\<close> and \<open>Respond\<close> is sent exactly one outcome, when its job ends, on any
  interleaving of callers, pumps and cancellations; and once the client has failed no job is left
  without one, so nobody waits forever.\<close>

theorem client_outcomes_once:
  assumes "new_client ls x = Inr c" and "length ops < 2 ^ 64"
  shows "outcomes_once (client_run ops c)"
proof -
  let ?c = "client_run ops c"
  have inv: "jobs_inv ?c" "cl_err ?c \<noteq> None \<longrightarrow> cl_live ?c = []"
    using client_run_inv [OF assms] by (simp_all add: client_inv_def base_inv_def)
  have "\<forall>j < length (cl_jobs ?c). over (stage_of ?c j)" if "cl_err ?c \<noteq> None"
    using inv that by (simp add: jobs_inv_def)
  then show ?thesis
    using inv(1) by (auto simp: outcomes_once_def jobs_inv_def list_all_length)
qed

text \<open>C19. A request of the agent process is answered on the wire at most once: the ids of the answers taken by
  the writer are distinct and are exactly the consumed ids, which are distinct and never again
  pending, and no job is written twice.\<close>

theorem client_answers_once:
  assumes "new_client ls x = Inr c" and "length ops < 2 ^ 64"
  shows "distinct (cl_wire (client_run ops c)) \<and> distinct (wire_ids (client_run ops c))
    \<and> set (wire_ids (client_run ops c)) = set (cl_consumed (client_run ops c))
    \<and> set (map fst (cl_remote (client_run ops c))) \<inter> set (cl_consumed (client_run ops c)) = {}"
  using client_run_inv [OF assms] unfolding client_inv_def base_inv_def requests_inv_def wire_inv_def by blast

text \<open>The pending calls, the pending and consumed requests (with the answers on their way), the event queue
  and the writer queue never exceed the configured limits.\<close>

theorem client_bounded:
  assumes "new_client ls x = Inr c" and "length ops < 2 ^ 64"
  shows "bounds_inv (client_run ops c)"
  using client_run_inv [OF assms] by (simp add: client_inv_def base_inv_def)

definition outcome_earned :: "client \<Rightarrow> nat \<Rightarrow> bool" where
  "outcome_earned c j \<longleftrightarrow> list_all (\<lambda>out. (case out of Failed_with _ \<Rightarrow> True
     | _ \<Rightarrow> stage_of c j = Finished \<and> j \<in> set (cl_wire c))) (wj_reply (cl_jobs c ! j))"

text \<open>A caller is told that its frame was sent, or given a result, only after the writer took its frame and
  finished it; a reply that overtakes the write is held back.\<close>

theorem client_results_after_write:
  assumes "new_client ls x = Inr c" and "length ops < 2 ^ 64"
  shows "list_all (outcome_earned (client_run ops c)) [0..<length (cl_jobs (client_run ops c))]"
proof -
  have wire: "wire_inv (client_run ops c)"
    using client_run_inv [OF assms] by (simp add: client_inv_def base_inv_def)
  show ?thesis
    using wire_invD(6) [OF wire] by (fastforce simp: list_all_iff outcome_earned_def split: rpc_outcome.split)
qed

section \<open>The first error\<close>

lemma failed_step:
  assumes err: "cl_err c = Some e"
  shows "cl_err (client_step op c) = Some e \<and> cl_wire (client_step op c) = cl_wire c"
proof (cases op)
  case (OpCall x meth params)
  then show ?thesis using err by (auto simp: admit_call_def reject_def Let_def split: option.split)
next
  case (OpNotify x meth params)
  then show ?thesis using err by (auto simp: notify_def admit_send_def reject_def Let_def split: option.split sum.split)
next
  case (OpRespond x r reply)
  then show ?thesis using err by (auto simp: respond_request_def admit_send_def reject_def Let_def split: option.split sum.split)
next
  case (OpTake x)
  then show ?thesis using err by (auto simp: take_job_def Let_def split: list.split)
next
  case (OpWrote x j)
  then show ?thesis using err by (auto simp: wrote_job_def fail_client_def Let_def split: option.split)
next
  case (OpAccept x f)
  then show ?thesis using err by (simp add: accept_frame_def)
next
  case (OpCancel j)
  then show ?thesis using err by (simp add: cancel_job_def fail_client_def Let_def)
next
  case OpCloseBegin
  then show ?thesis using err by (simp add: close_begin_def)
next
  case (OpCloseEnd x)
  then show ?thesis using err by (auto simp: close_end_def fail_client_def Let_def split: option.split)
qed (use err in \<open>simp_all add: fail_client_def\<close>)

text \<open>C20. The first error of the client stays its error, and from then on no frame is taken for writing,
  whatever is called, received or cancelled.\<close>

theorem client_error_sticky:
  assumes "cl_err c = Some e"
  shows "cl_err (client_run ops c) = Some e \<and> cl_wire (client_run ops c) = cl_wire c"
  using assms
proof (induction ops arbitrary: c)
  case (Cons op ops)
  then show ?case using failed_step [OF Cons.prems, of op] by (simp add: client_run_def)
qed (simp add: client_run_def)

section \<open>Replies of the agent process\<close>

definition reply_expected :: "client \<Rightarrow> rpc_id_value \<Rightarrow> bool" where
  "reply_expected c i \<longleftrightarrow> (case i of
     IdInt _ \<Rightarrow> False
   | IdString t \<Rightarrow> (case map_of (cl_pending c) t of
       None \<Rightarrow> False
     | Some j \<Rightarrow> wj_response (cl_jobs c ! j) = None \<and> stage_of c j \<in> {Writing, Written}))"


section \<open>A small client\<close>

definition sample_client :: client where
  "sample_client = \<lparr>cl_limits = \<lparr>lm_frame_bytes = 1048576, lm_local_calls = 16, lm_remote_requests = 16, lm_events = 128,
       lm_consumed_requests = 1024\<rparr>,
     cl_err = None, cl_write_closed = False, cl_read_eof = False, cl_closing = False, cl_close_err = None, cl_next = 0, cl_jobs = [],
     cl_pending = [], cl_live = [], cl_out = [], cl_requests = [], cl_remote = [], cl_consumed = [], cl_responders = 0,
     cl_events = [], cl_wire = []\<rparr>"

definition default_limits :: limits where
  "default_limits = \<lparr>lm_frame_bytes = 0, lm_local_calls = 0, lm_remote_requests = 0, lm_events = 0, lm_consumed_requests = 0\<rparr>"

lemma sample_new: "new_client default_limits False = Inr sample_client"
  by (simp add: new_client_def default_limits_def normalized_def normal_limit_def sample_client_def rpc_max_frame_bytes_def
      rpc_max_local_calls_def rpc_max_remote_requests_def rpc_max_events_def rpc_max_consumed_def)

text \<open>A request comes in, is answered, and the answer is written.\<close>

definition sample_ops :: "client_op list" where
  "sample_ops = [OpAccept False (RequestFrame (IdInt 7) ''m'' None), OpRespond False 0 (Inl ''1''), OpTake False, OpWrote False 0]"

lemma sample_short: "length sample_ops < 2 ^ 64" by (simp add: sample_ops_def)

theorem client_outcomes_once_witness: "outcomes_once (client_run sample_ops sample_client)"
  by (rule client_outcomes_once [OF sample_new sample_short])

theorem client_answers_once_witness:
  "distinct (cl_wire (client_run sample_ops sample_client)) \<and> distinct (wire_ids (client_run sample_ops sample_client))
    \<and> set (wire_ids (client_run sample_ops sample_client)) = set (cl_consumed (client_run sample_ops sample_client))
    \<and> set (map fst (cl_remote (client_run sample_ops sample_client))) \<inter> set (cl_consumed (client_run sample_ops sample_client)) = {}"
  by (rule client_answers_once [OF sample_new sample_short])

theorem client_bounded_witness: "bounds_inv (client_run sample_ops sample_client)"
  by (rule client_bounded [OF sample_new sample_short])

theorem client_results_after_write_witness:
  "list_all (outcome_earned (client_run sample_ops sample_client)) [0..<length (cl_jobs (client_run sample_ops sample_client))]"
  by (rule client_results_after_write [OF sample_new sample_short])

theorem client_error_sticky_witness:
  "cl_err (client_run sample_ops (sample_client\<lparr>cl_err := Some RpcEOF\<rparr>)) = Some RpcEOF
   \<and> cl_wire (client_run sample_ops (sample_client\<lparr>cl_err := Some RpcEOF\<rparr>)) = []"
  using client_error_sticky [of "sample_client\<lparr>cl_err := Some RpcEOF\<rparr>" RpcEOF sample_ops] by (simp add: sample_client_def)

end
