(* ===== verification/Acp_Client.thy ===== *)
theory Acp_Client
  imports Rpc_Envelope "HOL-Library.Word"
begin

text \<open>
  The client of an ACP agent process (\<open>internal/grokacp/client.go\<close>). The state is what the mutex
  guards, and each definition below is one critical section or the code between two of them that
  touches no shared state; any interleaving of callers, the reader and context callbacks is then a
  sequence of \<open>acp_op\<close>s. A call in flight and a request on the wire are handles; the reply channel of a
  request is the list of replies sent on it, so that a second send would be visible. What the stream
  and a context do comes in as arguments, and SHA-256 is the parameter \<open>sha\<close>.
\<close>

section \<open>Errors and limits\<close>

datatype acp_error =
  AcpConstructor | AcpLimits | AcpProtocol | AcpFrameLimit | AcpUpdateLimit | AcpClosed | AcpUncertain | AcpTurnActive
| AcpState | AcpPayload | AcpPermissionDenied | AcpEOF | AcpCancelled

record acp_limits =
  al_frame_bytes :: int
  al_updates :: int

definition acp_max_frame_bytes :: int where "acp_max_frame_bytes = 65536"
definition acp_max_updates :: int where "acp_max_updates = 64"

definition acp_normalized :: "acp_limits \<Rightarrow> acp_error + acp_limits" where
  "acp_normalized l =
    (let f = (if al_frame_bytes l = 0 then acp_max_frame_bytes else al_frame_bytes l);
         u = (if al_updates l = 0 then acp_max_updates else al_updates l)
     in if f < 1 \<or> f > acp_max_frame_bytes \<or> u < 1 \<or> u > acp_max_updates then Inl AcpLimits
        else Inr \<lparr>al_frame_bytes = f, al_updates = u\<rparr>)"

section \<open>Strict JSON objects\<close>

text \<open>
  \<open>validJSON\<close> walks the decoder's tokens: every number must fit a \<open>float64\<close>, no object may repeat a
  key, and nesting is not limited. \<open>strconv.ParseFloat\<close> stops reading exponent digits at 10000 and
  reports a range error from the value that rounds beyond the largest \<open>float64\<close>.
\<close>

definition go_exponent :: "string \<Rightarrow> int" where
  "go_exponent s =
    (let neg = starts (CHR ''-'') s; ds = (if neg \<or> starts (CHR ''+'') s then tl s else s);
         e = foldl (\<lambda>e d. if e < 10000 then 10 * e + (int (byte d) - 48) else e) 0 ds
     in if neg then - e else e)"

definition float_limit :: int where
  "float_limit = 2 ^ 1024 - 2 ^ 970"

definition float_ok :: "string \<Rightarrow> bool" where
  "float_ok t =
    (let s = (if starts (CHR ''-'') t then tl t else t);
         mark = (\<lambda>c. c \<noteq> CHR ''e'' \<and> c \<noteq> CHR ''E'');
         head = takeWhile mark s; tail = dropWhile mark s;
         whole = takeWhile is_digit head; frac = tl (dropWhile is_digit head);
         x = (if tail = [] then 0 else go_exponent (tl tail)) - int (length frac);
         m = int (digits_val (whole @ frac))
     in if x \<ge> 0 then m * 10 ^ nat x < float_limit else m < float_limit * 10 ^ nat (- x))"

fun tokens_ok :: "json \<Rightarrow> bool" where
  "tokens_ok (JNum t) = float_ok t"
| "tokens_ok (JArr xs) = list_all tokens_ok xs"
| "tokens_ok (JObj m) = (distinct (map fst m) \<and> list_all (\<lambda>(_, v). tokens_ok v) m)"
| "tokens_ok v = True"

definition acp_valid_json :: "string \<Rightarrow> bool" where
  "acp_valid_json raw = (case json_text (Suc (length raw)) raw of
     None \<Rightarrow> False
   | Some (v, r) \<Rightarrow> skip_ws r = [] \<and> tokens_ok v)"

definition acp_object :: "string \<Rightarrow> (string \<times> string) list option" where
  "acp_object raw =
    (if \<not> valid_utf8 raw \<or> \<not> unicode_ok raw \<or> \<not> acp_valid_json raw then None
     else case raw_object raw of
       None \<Rightarrow> None
     | Some m \<Rightarrow> if distinct (map fst m) then Some m else None)"

definition string_value :: "string option \<Rightarrow> string option" where
  "string_value raw = (case Option.bind raw unmarshal_string of
     None \<Rightarrow> None
   | Some t \<Rightarrow> if valid_utf8 t then Some t else None)"

definition is_integer :: "string option \<Rightarrow> int \<Rightarrow> bool" where
  "is_integer raw want \<longleftrightarrow> Option.bind raw (parse_int 64) = Some want"

definition uint_id :: "string \<Rightarrow> nat option" where
  "uint_id raw = (case parse_uint 64 raw of Some n \<Rightarrow> if n = 0 then None else Some n | None \<Rightarrow> None)"

definition valid_rpc_id :: "string \<Rightarrow> bool" where
  "valid_rpc_id raw0 =
    (let raw = trim raw0 in
     if raw = [] \<or> raw = ''null'' then False
     else if hd raw = dquote then string_value (Some raw) \<noteq> None
     else parse_int 64 raw \<noteq> None)"

definition session_id_from_result :: "(string \<times> string) list \<Rightarrow> string option" where
  "session_id_from_result m = (case Option.bind (raw_field m ''sessionId'') unmarshal_string of
     None \<Rightarrow> None
   | Some t \<Rightarrow> if t = [] \<or> \<not> valid_utf8 t then None else Some t)"

section \<open>Frames\<close>

definition acp_frame :: "string list \<Rightarrow> nat \<Rightarrow> acp_error + string" where
  "acp_frame ms limit =
    (let body = ''{'' @ commas (member ''jsonrpc'' (enc_string ''2.0'') # ms) @ ''}''
     in if length body + 1 > limit \<or> \<not> valid_utf8 body then Inl AcpPayload else Inr (body @ [char_of (10::nat)]))"

definition acp_call_frame :: "nat \<Rightarrow> string \<Rightarrow> string \<Rightarrow> nat \<Rightarrow> acp_error + string" where
  "acp_call_frame i meth params limit =
    acp_frame [member ''id'' (dec_nat i), member ''method'' (enc_string meth), member ''params'' (compact False False params)] limit"

text \<open>What a request of the agent gets: a permission is cancelled, any other method is unknown.\<close>

definition cancelled_frame :: "string \<Rightarrow> nat \<Rightarrow> acp_error + string" where
  "cancelled_frame i limit =
    acp_frame [member ''id'' (compact False False i),
      member ''result'' (enc_json (JObj [(''outcome'', JObj [(''outcome'', JStr ''cancelled'')])]))] limit"

definition unknown_frame :: "string \<Rightarrow> nat \<Rightarrow> acp_error + string" where
  "unknown_frame i limit =
    acp_frame [member ''id'' (compact False False i),
      member ''error'' (enc_json (JObj [(''code'', JNum ''-32601''), (''message'', JStr ''method not found'')]))] limit"

definition initialize_call :: string where
  "initialize_call = enc_json (JObj [(''protocolVersion'', JNum ''1''), (''clientCapabilities'', JObj [])])"

definition session_params :: "string \<Rightarrow> string" where
  "session_params cwd = enc_json (JObj [(''cwd'', JStr cwd), (''mcpServers'', JArr [])])"

definition prompt_params :: "string \<Rightarrow> string \<Rightarrow> string" where
  "prompt_params sid text = enc_json (JObj [(''sessionId'', JStr sid),
     (''prompt'', JArr [JObj [(''type'', JStr ''text''), (''text'', JStr text)]])])"

section \<open>State\<close>

record acp_turn =
  at_session :: string
  at_request :: nat
  at_prompt_sha :: string
  at_response_sha :: string
  at_stop :: string

record acp_update =
  au_session :: string
  au_kind :: string
  au_text :: string
  au_raw :: string

datatype acp_reply = Answer string string nat bool | Failed_call acp_error

text \<open>\<open>pending\<close>: the channel is \<open>aq_replies\<close>.\<close>

record acp_request =
  aq_id :: nat
  aq_method :: string
  aq_denied :: bool
  aq_replies :: "acp_reply list"

datatype acp_kind = Initialize | New_session string | Prompt string string

datatype acp_result = Initialized | Session_made string | Turn_made acp_turn

text \<open>One call of an exported method: the request it made, the reply it took, what it returned.\<close>

record acp_call =
  ao_kind :: acp_kind
  ao_request :: "nat option"
  ao_reply :: "acp_reply option"
  ao_done :: "(acp_error + acp_result) option"

text \<open>\<open>ac_lock\<close> is the call that holds \<open>opMu\<close>; \<open>ac_sent\<close> records the frames the reader wrote.\<close>

record acp_client =
  ac_limits :: acp_limits
  ac_err :: "acp_error option"
  ac_initialized :: bool
  ac_initializing :: bool
  ac_session :: string
  ac_creating :: bool
  ac_turn :: bool
  ac_next :: "64 word"
  ac_pending :: "nat option"
  ac_requests :: "acp_request list"
  ac_updates :: "acp_update list"
  ac_lock :: "nat option"
  ac_calls :: "acp_call list"
  ac_sent :: "string list"

definition new_acp_client :: "acp_limits \<Rightarrow> bool \<Rightarrow> acp_error + acp_client" where
  "new_acp_client limits cancelled =
    (if cancelled then Inl AcpCancelled
     else case acp_normalized limits of
       Inl e \<Rightarrow> Inl e
     | Inr l \<Rightarrow> Inr \<lparr>ac_limits = l, ac_err = None, ac_initialized = False, ac_initializing = False, ac_session = [],
         ac_creating = False, ac_turn = False, ac_next = 0, ac_pending = None, ac_requests = [], ac_updates = [],
         ac_lock = None, ac_calls = [], ac_sent = []\<rparr>)"

definition put_request :: "nat \<Rightarrow> acp_request \<Rightarrow> acp_client \<Rightarrow> acp_client" where
  "put_request h q c = c\<lparr>ac_requests := (ac_requests c)[h := q]\<rparr>"

definition put_call_state :: "nat \<Rightarrow> acp_call \<Rightarrow> acp_client \<Rightarrow> acp_client" where
  "put_call_state i x c = c\<lparr>ac_calls := (ac_calls c)[i := x]\<rparr>"

definition send_reply :: "nat \<Rightarrow> acp_reply \<Rightarrow> acp_client \<Rightarrow> acp_client" where
  "send_reply h r c = (let q = ac_requests c ! h in put_request h (q\<lparr>aq_replies := aq_replies q @ [r]\<rparr>) c)"

text \<open>\<open>failLocked\<close>: the first error stays, and the pending request gets it.\<close>

definition fail_acp :: "acp_error \<Rightarrow> acp_client \<Rightarrow> acp_client" where
  "fail_acp e c =
    (if ac_err c \<noteq> None then c
     else (case ac_pending c of
        None \<Rightarrow> c\<lparr>ac_err := Some e\<rparr>
      | Some h \<Rightarrow> (send_reply h (Failed_call e) (c\<lparr>ac_err := Some e\<rparr>))\<lparr>ac_pending := None\<rparr>))"

definition cancel_pending :: "nat \<Rightarrow> acp_client \<Rightarrow> acp_client" where
  "cancel_pending h c = (if ac_pending c = Some h then fail_acp AcpUncertain c else c)"

section \<open>Calls\<close>

text \<open>The first section of \<open>Initialize\<close>, \<open>NewSession\<close> and \<open>Prompt\<close>: the call is admitted or ends at once.\<close>

definition admit_kind :: "acp_kind \<Rightarrow> acp_client \<Rightarrow> acp_error option \<times> acp_client" where
  "admit_kind k c =
    (case k of
       Initialize \<Rightarrow>
         if ac_initialized c \<or> ac_initializing c then (Some AcpState, c) else (None, c\<lparr>ac_initializing := True\<rparr>)
     | New_session cwd \<Rightarrow>
         if cwd = [] \<or> \<not> clean_absolute cwd \<or> \<not> valid_utf8 cwd then (Some AcpPayload, c)
         else if \<not> ac_initialized c \<or> ac_session c \<noteq> [] \<or> ac_creating c then (Some AcpState, c)
         else (None, c\<lparr>ac_creating := True\<rparr>)
     | Prompt sid text \<Rightarrow>
         if sid = [] \<or> text = [] \<or> \<not> valid_utf8 sid \<or> \<not> valid_utf8 text then (Some AcpPayload, c)
         else if \<not> ac_initialized c \<or> ac_session c \<noteq> sid then (Some AcpState, c)
         else if ac_turn c then (Some AcpTurnActive, c)
         else (None, c\<lparr>ac_turn := True\<rparr>))"

definition begin_call :: "acp_kind \<Rightarrow> acp_client \<Rightarrow> acp_client" where
  "begin_call k c = (case admit_kind k c of (e, c1) \<Rightarrow>
     c1\<lparr>ac_calls := ac_calls c1 @ [\<lparr>ao_kind = k, ao_request = None, ao_reply = None, ao_done = map_option Inl e\<rparr>]\<rparr>)"

text \<open>The deferred resets when an admitted call returns.\<close>

definition leave_kind :: "acp_kind \<Rightarrow> acp_client \<Rightarrow> acp_client" where
  "leave_kind k c = (case k of
     Initialize \<Rightarrow> c\<lparr>ac_initializing := False\<rparr>
   | New_session _ \<Rightarrow> c\<lparr>ac_creating := False\<rparr>
   | Prompt _ _ \<Rightarrow> c\<lparr>ac_turn := False\<rparr>)"

definition end_call :: "nat \<Rightarrow> acp_error + acp_result \<Rightarrow> acp_client \<Rightarrow> acp_client" where
  "end_call i out c = (let x = ac_calls c ! i in
     leave_kind (ao_kind x) (put_call_state i (x\<lparr>ao_done := Some out\<rparr>) c))"

definition kind_request :: "acp_kind \<Rightarrow> string \<times> string" where
  "kind_request k = (case k of
     Initialize \<Rightarrow> (''initialize'', initialize_call)
   | New_session cwd \<Rightarrow> (''session/new'', session_params cwd)
   | Prompt sid text \<Rightarrow> (''session/prompt'', prompt_params sid text))"

text \<open>\<open>call\<close> up to the write of its frame, with the two checks of its context; the caller holds \<open>opMu\<close> from here until it took its reply.\<close>

definition start_call :: "bool \<Rightarrow> bool \<Rightarrow> nat \<Rightarrow> acp_client \<Rightarrow> acp_client" where
  "start_call early late i c =
    (let x = ac_calls c ! i; (meth, params) = kind_request (ao_kind x) in
     if early then end_call i (Inl AcpCancelled) c
     else case ac_err c of
       Some e \<Rightarrow> end_call i (Inl e) c
     | None \<Rightarrow>
       (let n = ac_next c + 1; c1 = c\<lparr>ac_next := n\<rparr> in
        if late then end_call i (Inl AcpCancelled) c
        else if n = 0 then end_call i (Inl AcpProtocol) (fail_acp AcpProtocol c1)
        else case acp_call_frame (unat n) meth params (nat (al_frame_bytes (ac_limits c))) of
          Inl e \<Rightarrow> end_call i (Inl e) c1
        | Inr _ \<Rightarrow>
          (let h = length (ac_requests c)
           in put_call_state i (x\<lparr>ao_request := Some h\<rparr>)
             (c1\<lparr>ac_requests := ac_requests c @ [\<lparr>aq_id = unat n, aq_method = meth, aq_denied = False, aq_replies = []\<rparr>],
                 ac_pending := Some h, ac_lock := Some i\<rparr>))))"

text \<open>\<open>waitPending\<close> returns: the reply is taken and \<open>opMu\<close> released.\<close>

definition take_reply :: "nat \<Rightarrow> acp_client \<Rightarrow> acp_client" where
  "take_reply i c =
    (let x = ac_calls c ! i in
     case ao_request x of
       None \<Rightarrow> c
     | Some h \<Rightarrow> (case aq_replies (ac_requests c ! h) of
         [] \<Rightarrow> c
       | r # _ \<Rightarrow> (put_call_state i (x\<lparr>ao_reply := Some r\<rparr>) c)\<lparr>ac_lock := None\<rparr>))"

text \<open>What each method makes of its reply.\<close>

definition finish_initialize :: "nat \<Rightarrow> string \<Rightarrow> acp_client \<Rightarrow> acp_client" where
  "finish_initialize i result c =
    (let ok = (case acp_object result of
        None \<Rightarrow> False
      | Some m \<Rightarrow> allowed m [''protocolVersion'', ''agentCapabilities'', ''agentInfo'', ''authMethods'', ''_meta'']
          \<and> is_integer (raw_field m ''protocolVersion'') 1)
     in if ok then end_call i (Inr Initialized) (c\<lparr>ac_initialized := True\<rparr>)
        else end_call i (Inl AcpProtocol) (fail_acp AcpProtocol c))"

definition finish_session :: "nat \<Rightarrow> string \<Rightarrow> acp_client \<Rightarrow> acp_client" where
  "finish_session i result c =
    (case Option.bind (acp_object result) session_id_from_result of
       None \<Rightarrow> end_call i (Inl AcpProtocol) (fail_acp AcpProtocol c)
     | Some sid \<Rightarrow>
         if ac_session c \<noteq> sid then end_call i (Inl AcpProtocol) (fail_acp AcpProtocol c)
         else end_call i (Inr (Session_made sid)) c)"

definition stop_reason :: "string \<Rightarrow> string option" where
  "stop_reason result = (case acp_object result of
     None \<Rightarrow> None
   | Some m \<Rightarrow>
     if \<not> allowed m [''stopReason'', ''_meta''] then None
     else (case Option.bind (raw_field m ''stopReason'') unmarshal_string of
        None \<Rightarrow> None
      | Some t \<Rightarrow> if t = [] \<or> \<not> valid_utf8 t then None else Some t))"

definition finish_prompt ::
  "(string \<Rightarrow> string) \<Rightarrow> nat \<Rightarrow> string \<Rightarrow> string \<Rightarrow> string \<Rightarrow> string \<Rightarrow> nat \<Rightarrow> bool \<Rightarrow> acp_client \<Rightarrow> acp_client" where
  "finish_prompt sha i sid text result raw n denied c =
    (if denied then end_call i (Inl AcpPermissionDenied) c
     else case stop_reason result of
       None \<Rightarrow> end_call i (Inl AcpProtocol) (fail_acp AcpProtocol c)
     | Some stop \<Rightarrow> end_call i (Inr (Turn_made \<lparr>at_session = sid, at_request = n, at_prompt_sha = sha text,
         at_response_sha = sha raw, at_stop = stop\<rparr>)) c)"

definition complete_call :: "(string \<Rightarrow> string) \<Rightarrow> nat \<Rightarrow> acp_client \<Rightarrow> acp_client" where
  "complete_call sha i c =
    (case ao_reply (ac_calls c ! i) of
       None \<Rightarrow> c
     | Some (Failed_call e) \<Rightarrow> end_call i (Inl e) c
     | Some (Answer result raw n denied) \<Rightarrow>
         (case ao_kind (ac_calls c ! i) of
            Initialize \<Rightarrow> finish_initialize i result c
          | New_session _ \<Rightarrow> finish_session i result c
          | Prompt sid text \<Rightarrow> finish_prompt sha i sid text result raw n denied c))"

section \<open>The reader\<close>

text \<open>\<open>update\<close>\<close>

definition update_text :: "(string \<times> string) list \<Rightarrow> string option" where
  "update_text m = (case raw_field m ''content'' of
     None \<Rightarrow> Some []
   | Some content \<Rightarrow> (case acp_object content of
       None \<Rightarrow> None
     | Some cm \<Rightarrow> if \<not> allowed cm [''type'', ''text''] \<or> string_value (raw_field cm ''type'') \<noteq> Some ''text'' then None
         else string_value (raw_field cm ''text'')))"

definition read_update :: "string \<Rightarrow> string \<Rightarrow> acp_update option" where
  "read_update bound raw =
    (case acp_object raw of
       None \<Rightarrow> None
     | Some m \<Rightarrow>
       if \<not> allowed m [''sessionId'', ''update''] then None
       else (case (string_value (raw_field m ''sessionId''), Option.bind (raw_field m ''update'') acp_object) of
          (Some sid, Some um) \<Rightarrow>
            if sid = [] \<or> bound = [] \<or> sid \<noteq> bound then None
            else (case (string_value (raw_field um ''sessionUpdate''), update_text um) of
               (Some kind, Some text) \<Rightarrow>
                 if kind = [] then None else Some \<lparr>au_session = sid, au_kind = kind, au_text = text, au_raw = raw\<rparr>
             | _ \<Rightarrow> None)
        | _ \<Rightarrow> None))"

definition accept_update :: "string option \<Rightarrow> acp_client \<Rightarrow> acp_error option \<times> acp_client" where
  "accept_update params c =
    (case Option.bind params (read_update (ac_session c)) of
       None \<Rightarrow> (Some AcpProtocol, c)
     | Some u \<Rightarrow> if int (length (ac_updates c)) < al_updates (ac_limits c)
         then (None, c\<lparr>ac_updates := ac_updates c @ [u]\<rparr>) else (Some AcpUpdateLimit, c))"

text \<open>\<open>reverseRequest\<close>: a permission request marks the prompt that is pending in the bound session; it is a
  protocol error at any other time.\<close>

definition permission_target :: "string option \<Rightarrow> acp_client \<Rightarrow> nat option" where
  "permission_target params c =
    (case Option.bind params acp_object of
       None \<Rightarrow> None
     | Some m \<Rightarrow> (case (string_value (raw_field m ''sessionId''), ac_pending c) of
         (Some sid, Some h) \<Rightarrow>
           if sid = ac_session c \<and> ac_turn c \<and> aq_method (ac_requests c ! h) = ''session/prompt'' then Some h else None
       | _ \<Rightarrow> None))"

definition write_reverse :: "bool \<Rightarrow> acp_error + string \<Rightarrow> acp_client \<Rightarrow> acp_error option \<times> acp_client" where
  "write_reverse written fr c =
    (case fr of
       Inl e \<Rightarrow> (Some e, c)
     | Inr body \<Rightarrow> if written then (None, c\<lparr>ac_sent := ac_sent c @ [body]\<rparr>) else (Some AcpUncertain, c))"

definition deny_permission :: "nat \<Rightarrow> acp_client \<Rightarrow> acp_client" where
  "deny_permission h c = put_request h ((ac_requests c ! h)\<lparr>aq_denied := True\<rparr>) c"

definition reverse_request :: "bool \<Rightarrow> string \<Rightarrow> string \<Rightarrow> string option \<Rightarrow> acp_client \<Rightarrow> acp_error option \<times> acp_client" where
  "reverse_request written i meth params c =
    (let limit = nat (al_frame_bytes (ac_limits c)) in
     if \<not> valid_rpc_id i then (Some AcpProtocol, c)
     else if meth = ''session/request_permission''
     then (case permission_target params c of
        None \<Rightarrow> (Some AcpProtocol, c)
      | Some h \<Rightarrow> write_reverse written (cancelled_frame i limit) (deny_permission h c))
     else write_reverse written (unknown_frame i limit) c)"

text \<open>The reply to the pending request; \<open>session/new\<close> binds the session before the reply is handed out.\<close>

definition bind_session_result :: "string \<Rightarrow> acp_client \<Rightarrow> acp_client option" where
  "bind_session_result result c =
    (case Option.bind (acp_object result) session_id_from_result of
       None \<Rightarrow> None
     | Some sid \<Rightarrow> if ac_session c \<noteq> [] \<or> \<not> ac_creating c then None else Some (c\<lparr>ac_session := sid\<rparr>))"

definition answer_pending :: "nat \<Rightarrow> string \<Rightarrow> string \<Rightarrow> acp_client \<Rightarrow> acp_client" where
  "answer_pending h result raw c =
    (let q = ac_requests c ! h in
     (send_reply h (Answer result raw (aq_id q) (aq_denied q)) c)\<lparr>ac_pending := None\<rparr>)"

definition accept_response :: "nat \<Rightarrow> string \<Rightarrow> string option \<Rightarrow> acp_client \<Rightarrow> acp_error option \<times> acp_client" where
  "accept_response n raw result c =
    (case ac_pending c of
       None \<Rightarrow> (Some AcpProtocol, c)
     | Some h \<Rightarrow>
       if aq_id (ac_requests c ! h) \<noteq> n then (Some AcpProtocol, c)
       else (case result of
          None \<Rightarrow> (Some AcpUncertain, c)
        | Some r \<Rightarrow>
          if aq_method (ac_requests c ! h) = ''session/new''
          then (case bind_session_result r c of
             None \<Rightarrow> (Some AcpProtocol, c)
           | Some c1 \<Rightarrow> (None, answer_pending h r raw c1))
          else (None, answer_pending h r raw c)))"

definition accept_line :: "bool \<Rightarrow> string \<Rightarrow> acp_client \<Rightarrow> acp_error option \<times> acp_client" where
  "accept_line written raw c =
    (case acp_object raw of
       None \<Rightarrow> (Some AcpProtocol, c)
     | Some m \<Rightarrow>
       (let f = raw_field m in
        if \<not> allowed m [''jsonrpc'', ''id'', ''method'', ''params'', ''result'', ''error''] \<or> string_value (f ''jsonrpc'') \<noteq> Some ''2.0''
        then (Some AcpProtocol, c)
        else if f ''method'' \<noteq> None
        then (case string_value (f ''method'') of
           None \<Rightarrow> (Some AcpProtocol, c)
         | Some meth \<Rightarrow>
           if f ''result'' \<noteq> None \<or> f ''error'' \<noteq> None then (Some AcpProtocol, c)
           else (case f ''id'' of
              Some i \<Rightarrow> reverse_request written i meth (f ''params'') c
            | None \<Rightarrow> if meth \<noteq> ''session/update'' then (Some AcpProtocol, c) else accept_update (f ''params'') c))
        else (case f ''id'' of
           None \<Rightarrow> (Some AcpProtocol, c)
         | Some i \<Rightarrow>
           if (f ''result'' \<noteq> None) = (f ''error'' \<noteq> None) \<or> f ''params'' \<noteq> None then (Some AcpProtocol, c)
           else (case uint_id i of
              None \<Rightarrow> (Some AcpProtocol, c)
            | Some n \<Rightarrow> accept_response n raw (f ''result'') c))))"

text \<open>\<open>readPump\<close> on one delivery of \<open>ReadSlice\<close>; the end of the stream is uncertain while a turn is active.\<close>

datatype acp_read = Line_end | Buffer_full | Read_eof | Read_error

definition acp_read_part ::
  "nat \<Rightarrow> bool \<Rightarrow> string \<Rightarrow> string \<Rightarrow> acp_read \<Rightarrow> (acp_error option \<times> string option) \<times> string" where
  "acp_read_part limit active body part st =
    (if length body + length part > limit + 1 then ((Some AcpFrameLimit, None), body)
     else (let line = body @ part in
       case st of
         Buffer_full \<Rightarrow> ((None, None), line)
       | Line_end \<Rightarrow> ((None, Some (butlast line)), [])
       | _ \<Rightarrow> ((Some (if line \<noteq> [] then AcpUncertain else if active then AcpUncertain else AcpEOF), None), line)))"

section \<open>Steps\<close>

datatype acp_op =
  AcpBegin acp_kind
| AcpStart bool bool nat
| AcpTake nat
| AcpComplete nat
| AcpCancel nat
| AcpFail acp_error
| AcpLine bool string
| AcpReceive

text \<open>A call starts when it was admitted and nobody holds \<open>opMu\<close>; the error of a line ends the reader, which
  then fails the client in a step of its own.\<close>

definition startable :: "nat \<Rightarrow> acp_client \<Rightarrow> bool" where
  "startable i c \<longleftrightarrow> i < length (ac_calls c) \<and> ac_lock c = None \<and> ao_request (ac_calls c ! i) = None
     \<and> ao_done (ac_calls c ! i) = None"

definition takeable :: "nat \<Rightarrow> acp_client \<Rightarrow> bool" where
  "takeable i c \<longleftrightarrow> i < length (ac_calls c) \<and> ac_lock c = Some i"

definition completable :: "nat \<Rightarrow> acp_client \<Rightarrow> bool" where
  "completable i c \<longleftrightarrow> i < length (ac_calls c) \<and> ao_reply (ac_calls c ! i) \<noteq> None \<and> ao_done (ac_calls c ! i) = None"

fun acp_step :: "(string \<Rightarrow> string) \<Rightarrow> acp_op \<Rightarrow> acp_client \<Rightarrow> acp_client" where
  "acp_step sha (AcpBegin k) c = begin_call k c"
| "acp_step sha (AcpStart x y i) c = (if startable i c then start_call x y i c else c)"
| "acp_step sha (AcpTake i) c = (if takeable i c then take_reply i c else c)"
| "acp_step sha (AcpComplete i) c = (if completable i c then complete_call sha i c else c)"
| "acp_step sha (AcpCancel h) c = cancel_pending h c"
| "acp_step sha (AcpFail e) c = fail_acp e c"
| "acp_step sha (AcpLine w raw) c = snd (accept_line w raw c)"
| "acp_step sha AcpReceive c = c\<lparr>ac_updates := tl (ac_updates c)\<rparr>"

definition acp_run :: "(string \<Rightarrow> string) \<Rightarrow> acp_op list \<Rightarrow> acp_client \<Rightarrow> acp_client" where
  "acp_run sha ops c = foldl (\<lambda>c op. acp_step sha op c) c ops"

end
