(* ===== verification/Json_Ascii.thy ===== *)
theory Json_Ascii
  imports Rpc_Envelope
begin

text \<open>
  JSON written from ASCII text is ASCII text of bounded length; a frame built from such parts is
  evaluated without decoding it byte by byte.
\<close>

section \<open>Strings and raw values\<close>

lemma ascii_append [simp]: "ascii (s @ t) \<longleftrightarrow> ascii s \<and> ascii t"
  by (simp add: ascii_def)

lemma ascii_esc_rune: "r < 128 \<Longrightarrow> ascii (esc_rune (r, [r], True)) \<and> length (esc_rune (r, [r], True)) \<le> 6"
  by (auto simp: esc_rune_def esc_u_def hex_digit_def byte_def backslash_def dquote_def)

lemma enc_string_ascii: "ascii s \<Longrightarrow> ascii (enc_string s) \<and> length (enc_string s) \<le> 6 * length s + 2"
proof (induction s)
  case (Cons c s)
  then show ?case using ascii_esc_rune [of "byte c"] by (simp add: enc_string_def)
qed (simp add: enc_string_def dquote_def byte_def)

lemma ascii_dec_nat: "ascii (dec_nat n)"
  using dec_nat_digits [of n] by (auto simp: ascii_def is_digit_def list_all_iff)

lemma byte_less: "byte c < 256" by (simp add: byte_def)

lemma compact_cons_ascii:
  "byte c < 128 \<Longrightarrow> compact qd es (c # s) =
    (if \<not> qd then (if ws c then compact False False s else c # compact (c = dquote) False s)
     else (if c = CHR ''<'' \<or> c = CHR ''>'' \<or> c = CHR ''&'' then esc_u (byte c) else [c])
       @ compact (c \<noteq> dquote \<or> es) (c = backslash \<and> \<not> es) s)"
proof -
  assume "byte c < 128"
  then have n: "byte c \<noteq> 226" by simp
  show ?thesis by (simp only: compact.simps(2) n simp_thms if_False)
qed

lemma byte_hex_digit: "d < 16 \<Longrightarrow> byte (hex_digit d) < 128"
  by (simp add: hex_digit_def byte_def)

lemma ascii_esc_u: "ascii (esc_u n)" "length (esc_u n) = 6"
  by (simp_all add: esc_u_def byte_hex_digit) (simp add: backslash_def byte_def)

lemma compact_ascii: "ascii s \<Longrightarrow> ascii (compact qd es s) \<and> length (compact qd es s) \<le> 6 * length s"
proof (induction s arbitrary: qd es)
  case (Cons c s)
  then have ih: "ascii (compact q e s)" "length (compact q e s) \<le> 6 * length s" for q e by simp_all
  have le: "Suc (length (compact q e s)) \<le> 6 + 6 * length s" "length (compact q e s) \<le> 6 + 6 * length s" for q e
    using ih(2) [of q e] by simp_all
  have c: "byte c < 128" using Cons.prems by simp
  show ?case
    unfolding compact_cons_ascii [OF c] using c ih le by (simp add: ascii_esc_u byte_def del: compact.simps)
qed simp

definition quoted :: "string \<Rightarrow> string" where
  "quoted s = map (\<lambda>c. if c = CHR ''@'' then dquote else c) s"

text \<open>\<open>quoted\<close> writes a double quote for each at-sign, for the sample lines of the witnesses.\<close>

lemma ascii_quoted: "ascii s \<Longrightarrow> ascii (quoted s)"
  by (induction s) (auto simp: quoted_def byte_def dquote_def)

text \<open>Text without escapes is only put between quotes.\<close>

definition plain_char :: "char \<Rightarrow> bool" where
  "plain_char c \<longleftrightarrow> 32 \<le> byte c \<and> byte c < 127 \<and> byte c \<notin> {34, 38, 60, 62, 92}"

lemma plain_esc: "plain_char c \<Longrightarrow> esc_rune (byte c, [byte c], True) = [c]"
  by (auto simp: plain_char_def esc_rune_def byte_def)

lemma enc_string_plain: "list_all plain_char s \<Longrightarrow> enc_string s = dquote # s @ [dquote]"
proof -
  have "list_all plain_char s \<Longrightarrow> concat (map esc_rune (runes s)) = s"
  proof (induction s)
    case (Cons c s)
    then have "byte c < 128" by (simp add: plain_char_def)
    then show ?case using Cons plain_esc [of c] by simp
  qed simp
  then show "list_all plain_char s \<Longrightarrow> enc_string s = dquote # s @ [dquote]" by (simp add: enc_string_def)
qed

end
