(* ===== verification/Acp_Invariants.thy ===== *)
theory Acp_Invariants
  imports Acp_Client Json_Ascii
begin

text \<open>
  What every interleaving of the ACP client keeps: each request gets one reply, a call returns what the
  reply to its own request says, a prompt that saw a permission request does not succeed, and the
  reader grants nothing.
\<close>

section \<open>The invariant\<close>

text \<open>The line \<open>raw\<close> is a response with id \<open>n\<close> and the result \<open>res\<close>.\<close>

definition response_line :: "string \<Rightarrow> nat \<Rightarrow> string \<Rightarrow> bool" where
  "response_line raw n res \<longleftrightarrow> (case acp_object raw of
     None \<Rightarrow> False
   | Some m \<Rightarrow> Option.bind (raw_field m ''id'') uint_id = Some n \<and> raw_field m ''result'' = Some res)"

definition request_ok :: "acp_request \<Rightarrow> bool" where
  "request_ok q \<longleftrightarrow> (case aq_replies q of
     [Answer res raw n d] \<Rightarrow> n = aq_id q \<and> d = aq_denied q \<and> response_line raw n res
   | [Failed_call _] \<Rightarrow> True
   | _ \<Rightarrow> False)"

definition requests_ok :: "acp_client \<Rightarrow> bool" where
  "requests_ok c \<longleftrightarrow>
     (\<forall>h < length (ac_requests c). if ac_pending c = Some h then aq_replies (ac_requests c ! h) = [] else request_ok (ac_requests c ! h))
   \<and> (\<forall>h. ac_pending c = Some h \<longrightarrow> h < length (ac_requests c) \<and> ac_err c = None)"

definition turn_earned :: "(string \<Rightarrow> string) \<Rightarrow> acp_client \<Rightarrow> acp_call \<Rightarrow> acp_turn \<Rightarrow> bool" where
  "turn_earned sha c x t \<longleftrightarrow> (\<exists>sid text h res raw.
     ao_kind x = Prompt sid text \<and> ao_request x = Some h \<and> sid = ac_session c
     \<and> aq_replies (ac_requests c ! h) = [Answer res raw (aq_id (ac_requests c ! h)) False]
     \<and> \<not> aq_denied (ac_requests c ! h) \<and> response_line raw (aq_id (ac_requests c ! h)) res
     \<and> stop_reason res = Some (at_stop t)
     \<and> t = \<lparr>at_session = sid, at_request = aq_id (ac_requests c ! h), at_prompt_sha = sha text,
            at_response_sha = sha raw, at_stop = at_stop t\<rparr>)"

definition returned_ok :: "(string \<Rightarrow> string) \<Rightarrow> acp_client \<Rightarrow> acp_call \<Rightarrow> bool" where
  "returned_ok sha c x \<longleftrightarrow> (case ao_done x of
     Some (Inr (Turn_made t)) \<Rightarrow> turn_earned sha c x t
   | Some (Inr (Session_made sid)) \<Rightarrow> sid = ac_session c \<and> sid \<noteq> []
   | _ \<Rightarrow> True)"

definition asked_ok :: "acp_client \<Rightarrow> acp_call \<Rightarrow> bool" where
  "asked_ok c x \<longleftrightarrow> (case ao_request x of
     None \<Rightarrow> ao_reply x = None
   | Some h \<Rightarrow> h < length (ac_requests c) \<and> aq_method (ac_requests c ! h) = fst (kind_request (ao_kind x))
       \<and> (case ao_reply x of None \<Rightarrow> True | Some r \<Rightarrow> aq_replies (ac_requests c ! h) = [r]))"

definition bound_ok :: "acp_client \<Rightarrow> acp_call \<Rightarrow> bool" where
  "bound_ok c x \<longleftrightarrow> (case ao_kind x of
     Prompt sid text \<Rightarrow> (case ao_done x of Some (Inl _) \<Rightarrow> True | _ \<Rightarrow> sid = ac_session c \<and> sid \<noteq> [])
   | _ \<Rightarrow> True)"

definition call_ok :: "(string \<Rightarrow> string) \<Rightarrow> acp_client \<Rightarrow> acp_call \<Rightarrow> bool" where
  "call_ok sha c x \<longleftrightarrow> asked_ok c x \<and> returned_ok sha c x \<and> bound_ok c x"

definition lock_ok :: "acp_client \<Rightarrow> bool" where
  "lock_ok c \<longleftrightarrow>
     (\<forall>i. ac_lock c = Some i \<longrightarrow> i < length (ac_calls c) \<and> ao_request (ac_calls c ! i) \<noteq> None \<and> ao_reply (ac_calls c ! i) = None
        \<and> ao_done (ac_calls c ! i) = None)
   \<and> (\<forall>h. ac_pending c = Some h \<longrightarrow> (\<exists>i. ac_lock c = Some i \<and> ao_request (ac_calls c ! i) = Some h))"

text \<open>The text of an answer that grants nothing, whatever id it answers.\<close>

definition refusal :: "string \<Rightarrow> bool" where
  "refusal f \<longleftrightarrow> (\<exists>i. f = quoted ''{@jsonrpc@:@2.0@,@id@:'' @ i @ quoted '',@result@:{@outcome@:{@outcome@:@cancelled@}}}'' @ [char_of (10::nat)]
     \<or> f = quoted ''{@jsonrpc@:@2.0@,@id@:'' @ i @ quoted '',@error@:{@code@:-32601,@message@:@method not found@}}'' @ [char_of (10::nat)])"

definition acp_inv :: "(string \<Rightarrow> string) \<Rightarrow> acp_client \<Rightarrow> bool" where
  "acp_inv sha c \<longleftrightarrow> requests_ok c \<and> (\<forall>x \<in> set (ac_calls c). call_ok sha c x) \<and> lock_ok c
     \<and> list_all refusal (ac_sent c) \<and> int (length (ac_updates c)) \<le> al_updates (ac_limits c)"

section \<open>Growth\<close>

text \<open>Requests are only added, an answered one never changes, and a bound session stays.\<close>

definition acp_grow :: "acp_client \<Rightarrow> acp_client \<Rightarrow> bool" where
  "acp_grow c c' \<longleftrightarrow> length (ac_requests c) \<le> length (ac_requests c')
     \<and> (\<forall>h < length (ac_requests c). aq_method (ac_requests c' ! h) = aq_method (ac_requests c ! h)
          \<and> (aq_replies (ac_requests c ! h) \<noteq> [] \<longrightarrow> ac_requests c' ! h = ac_requests c ! h))
     \<and> (ac_session c \<noteq> [] \<longrightarrow> ac_session c' = ac_session c)"

lemma acp_grow_refl [simp]: "acp_grow c c"
  by (simp add: acp_grow_def)

lemma acp_grow_trans: "acp_grow a b \<Longrightarrow> acp_grow b c \<Longrightarrow> acp_grow a c"
  by (auto simp: acp_grow_def)

lemma acp_grow_same:
  "ac_requests c' = ac_requests c \<Longrightarrow> ac_session c' = ac_session c \<Longrightarrow> acp_grow c c'"
  by (simp add: acp_grow_def)

lemma asked_ok_grow: "acp_grow c c' \<Longrightarrow> asked_ok c x \<Longrightarrow> asked_ok c' x"
  by (fastforce simp: asked_ok_def acp_grow_def split: option.splits)

lemma turn_earned_grow: 
  assumes g: "acp_grow c c'" and a: "asked_ok c x" and b: "bound_ok c x" and d: "ao_done x = Some (Inr (Turn_made t))"
    and e: "turn_earned sha c x t"
  shows "turn_earned sha c' x t"
proof -
  from e obtain sid body h res raw where k: "ao_kind x = Prompt sid body" "ao_request x = Some h" "sid = ac_session c"
     "aq_replies (ac_requests c ! h) = [Answer res raw (aq_id (ac_requests c ! h)) False]"
     "\<not> aq_denied (ac_requests c ! h)" "response_line raw (aq_id (ac_requests c ! h)) res"
     "stop_reason res = Some (at_stop t)"
     "t = \<lparr>at_session = sid, at_request = aq_id (ac_requests c ! h), at_prompt_sha = sha body,
            at_response_sha = sha raw, at_stop = at_stop t\<rparr>"
    unfolding turn_earned_def by blast
  have h: "h < length (ac_requests c)" using a k(2) by (simp add: asked_ok_def)
  then have q: "ac_requests c' ! h = ac_requests c ! h" using g k(4) by (simp add: acp_grow_def)
  have "ac_session c' = ac_session c" using b k(1,3) d g by (simp add: bound_ok_def acp_grow_def)
  then show ?thesis unfolding turn_earned_def using k q by metis
qed

lemma call_ok_grow: "acp_grow c c' \<Longrightarrow> call_ok sha c x \<Longrightarrow> call_ok sha c' x"
proof -
  assume g: "acp_grow c c'" and c: "call_ok sha c x"
  then have a: "asked_ok c x" and r: "returned_ok sha c x" and b: "bound_ok c x" by (simp_all add: call_ok_def)
  have s: "ac_session c' = ac_session c" if "ac_session c \<noteq> []" using g that by (simp add: acp_grow_def)
  have "bound_ok c' x" using b s by (auto simp: bound_ok_def split: acp_kind.splits option.splits sum.splits)
  moreover have "returned_ok sha c' x"
    using r s turn_earned_grow [OF g a b]
    by (auto simp: returned_ok_def split: option.splits sum.splits acp_result.splits)
  ultimately show ?thesis using asked_ok_grow [OF g a] by (simp add: call_ok_def)
qed

lemma calls_ok_grow: "acp_grow c c' \<Longrightarrow> \<forall>x \<in> set xs. call_ok sha c x \<Longrightarrow> \<forall>x \<in> set xs. call_ok sha c' x"
  using call_ok_grow by blast

section \<open>Frames of the state\<close>

lemma requests_ok_cong:
  "ac_requests c' = ac_requests c \<Longrightarrow> ac_pending c' = ac_pending c \<Longrightarrow> ac_err c' = ac_err c \<Longrightarrow> requests_ok c' = requests_ok c"
  by (simp add: requests_ok_def)

lemma call_ok_cong: "ac_requests c' = ac_requests c \<Longrightarrow> ac_session c' = ac_session c \<Longrightarrow> call_ok sha c' x = call_ok sha c x"
  using call_ok_grow [of c c'] call_ok_grow [of c' c] acp_grow_same [of c c'] acp_grow_same [of c' c] by metis

lemma lock_ok_cong:
  "ac_lock c' = ac_lock c \<Longrightarrow> ac_calls c' = ac_calls c \<Longrightarrow> ac_pending c' = ac_pending c \<Longrightarrow> lock_ok c' = lock_ok c"
  by (simp add: lock_ok_def)

lemma acp_inv_cong:
  assumes "ac_requests c' = ac_requests c" "ac_pending c' = ac_pending c" "ac_err c' = ac_err c" "ac_session c' = ac_session c"
    "ac_lock c' = ac_lock c" "ac_calls c' = ac_calls c" "ac_sent c' = ac_sent c" "ac_updates c' = ac_updates c" "ac_limits c' = ac_limits c"
  shows "acp_inv sha c' = acp_inv sha c"
  using assms requests_ok_cong [of c' c] call_ok_cong [of c' c sha] lock_ok_cong [of c' c] by (simp add: acp_inv_def)

lemma acp_inv_flags [simp]:
  "acp_inv sha (c\<lparr>ac_initialized := b\<rparr>) = acp_inv sha c"
  "acp_inv sha (c\<lparr>ac_initializing := b\<rparr>) = acp_inv sha c"
  "acp_inv sha (c\<lparr>ac_creating := b\<rparr>) = acp_inv sha c"
  "acp_inv sha (c\<lparr>ac_turn := b\<rparr>) = acp_inv sha c"
  "acp_inv sha (c\<lparr>ac_next := n\<rparr>) = acp_inv sha c"
  by (rule acp_inv_cong; simp)+

lemma acp_inv_leave [simp]: "acp_inv sha (leave_kind k c) = acp_inv sha c"
  by (simp add: leave_kind_def split: acp_kind.split)

lemma acp_invD:
  assumes "acp_inv sha c"
  shows "requests_ok c" "\<And>x. x \<in> set (ac_calls c) \<Longrightarrow> call_ok sha c x" "lock_ok c"
    "list_all refusal (ac_sent c)" "int (length (ac_updates c)) \<le> al_updates (ac_limits c)"
  using assms by (simp_all add: acp_inv_def)

lemma acp_inv_grow:
  assumes "acp_inv sha c" "acp_grow c c'" "requests_ok c'" "lock_ok c'" "ac_calls c' = ac_calls c"
    "list_all refusal (ac_sent c')" "int (length (ac_updates c')) \<le> al_updates (ac_limits c')"
  shows "acp_inv sha c'"
  using assms call_ok_grow [of c c' sha] by (simp add: acp_inv_def)

lemma pending_open:
  assumes "requests_ok c" "ac_pending c = Some h"
  shows "h < length (ac_requests c)" "aq_replies (ac_requests c ! h) = []" "ac_err c = None"
  using assms by (simp_all add: requests_ok_def)

section \<open>Requests\<close>

lemma send_reply_sel [simp]:
  "ac_pending (send_reply h r c) = ac_pending c" "ac_err (send_reply h r c) = ac_err c" "ac_session (send_reply h r c) = ac_session c"
  "ac_lock (send_reply h r c) = ac_lock c" "ac_calls (send_reply h r c) = ac_calls c" "ac_sent (send_reply h r c) = ac_sent c"
  "ac_updates (send_reply h r c) = ac_updates c" "ac_limits (send_reply h r c) = ac_limits c"
  "ac_requests (send_reply h r c) = (ac_requests c)[h := (ac_requests c ! h)\<lparr>aq_replies := aq_replies (ac_requests c ! h) @ [r]\<rparr>]"
  by (simp_all add: send_reply_def put_request_def Let_def)

text \<open>The pending request gets its one reply.\<close>

lemma settle_pending:
  assumes inv: "acp_inv sha c" and p: "ac_pending c = Some h"
    and ok: "request_ok ((ac_requests c ! h)\<lparr>aq_replies := [r]\<rparr>)"
    and c': "ac_requests c' = (ac_requests c)[h := (ac_requests c ! h)\<lparr>aq_replies := [r]\<rparr>]" "ac_pending c' = None"
      "ac_lock c' = ac_lock c" "ac_calls c' = ac_calls c" "ac_sent c' = ac_sent c" "ac_updates c' = ac_updates c"
      "ac_limits c' = ac_limits c"
    and s: "ac_session c \<noteq> [] \<longrightarrow> ac_session c' = ac_session c"
  shows "acp_inv sha c'"
proof (rule acp_inv_grow [OF inv])
  note ro = acp_invD(1) [OF inv] and lo = acp_invD(3) [OF inv]
  note fresh = pending_open [OF ro p]
  show "acp_grow c c'" using fresh s by (auto simp: acp_grow_def c' nth_list_update)
  show "requests_ok c'" using ro fresh ok p by (auto simp: requests_ok_def c' nth_list_update)
  show "lock_ok c'" using lo by (simp add: lock_ok_def c')
qed (use acp_invD(4,5) [OF inv] c' in simp_all)

lemma fail_acp_inv [intro]: "acp_inv sha c \<Longrightarrow> acp_inv sha (fail_acp e c)"
proof -
  assume inv: "acp_inv sha c"
  show ?thesis
  proof (cases "ac_err c = None")
    case True
    show ?thesis
    proof (cases "ac_pending c")
      case None
      have "acp_inv sha (c\<lparr>ac_err := Some e\<rparr>)"
        by (rule acp_inv_grow [OF inv])
          (use acp_invD [OF inv] None in \<open>simp_all add: acp_grow_def requests_ok_def lock_ok_def\<close>)
      then show ?thesis using True None by (simp add: fail_acp_def)
    next
      case (Some h)
      note fresh = pending_open [OF acp_invD(1) [OF inv] Some]
      show ?thesis
        using True Some fresh
        by (intro settle_pending [OF inv Some, of "Failed_call e"]) (simp_all add: fail_acp_def request_ok_def)
    qed
  qed (use inv in \<open>simp add: fail_acp_def\<close>)
qed

lemma cancel_pending_inv [intro]: "acp_inv sha c \<Longrightarrow> acp_inv sha (cancel_pending h c)"
  by (auto simp: cancel_pending_def)

lemma fail_acp_calls [simp]: "ac_calls (fail_acp e c) = ac_calls c" "ac_lock (fail_acp e c) = ac_lock c"
  by (simp_all add: fail_acp_def split: option.split)

section \<open>Calls\<close>

lemma put_call_inv:
  assumes inv: "acp_inv sha c" and i: "i < length (ac_calls c)" and l: "ac_lock c \<noteq> Some i" and x: "call_ok sha c x"
  shows "acp_inv sha (put_call_state i x c)"
proof -
  have "lock_ok (put_call_state i x c)"
    using acp_invD(3) [OF inv] i l by (fastforce simp: lock_ok_def put_call_state_def nth_list_update)
  moreover have "call_ok sha (put_call_state i x c) y" if "y \<in> set (ac_calls (put_call_state i x c))" for y
  proof -
    have "y = x \<or> y \<in> set (ac_calls c)" using that set_update_subset_insert by (fastforce simp: put_call_state_def)
    then have "call_ok sha c y" using x acp_invD(2) [OF inv] by blast
    then show ?thesis using call_ok_cong [of "put_call_state i x c" c] by (simp add: put_call_state_def)
  qed
  moreover have "requests_ok (put_call_state i x c)"
    using acp_invD(1) [OF inv] requests_ok_cong [of "put_call_state i x c" c] by (simp add: put_call_state_def)
  ultimately show ?thesis using acp_invD(4,5) [OF inv] by (simp add: acp_inv_def put_call_state_def)
qed

lemma end_call_inv:
  "acp_inv sha c \<Longrightarrow> i < length (ac_calls c) \<Longrightarrow> ac_lock c \<noteq> Some i \<Longrightarrow> call_ok sha c ((ac_calls c ! i)\<lparr>ao_done := Some out\<rparr>) \<Longrightarrow>
    acp_inv sha (end_call i out c)"
  using put_call_inv by (simp add: end_call_def Let_def)

lemma asked_ok_done [simp]: "asked_ok c (x\<lparr>ao_done := d\<rparr>) = asked_ok c x"
  by (simp add: asked_ok_def split: option.split)

lemma call_ok_error: "call_ok sha c x \<Longrightarrow> call_ok sha c (x\<lparr>ao_done := Some (Inl e)\<rparr>)"
  by (simp add: call_ok_def returned_ok_def bound_ok_def split: acp_kind.split)

lemma end_error_inv:
  "acp_inv sha c \<Longrightarrow> i < length (ac_calls c) \<Longrightarrow> ac_lock c \<noteq> Some i \<Longrightarrow> acp_inv sha (end_call i (Inl e) c)"
  by (intro end_call_inv) (simp_all add: call_ok_error acp_invD(2))

lemma begin_call_inv [intro]: "acp_inv sha c \<Longrightarrow> acp_inv sha (begin_call k c)"
proof -
  assume inv: "acp_inv sha c"
  obtain e c1 where a: "admit_kind k c = (e, c1)" by (cases "admit_kind k c")
  let ?x = "\<lparr>ao_kind = k, ao_request = None, ao_reply = None, ao_done = map_option Inl e\<rparr>"
  have inv1: "acp_inv sha c1"
    using a inv by (auto simp: admit_kind_def split: acp_kind.splits if_splits)
  have x: "call_ok sha c1 ?x"
    using a by (cases e) (auto simp: call_ok_def asked_ok_def returned_ok_def bound_ok_def admit_kind_def split: acp_kind.splits if_splits)
  let ?c = "c1\<lparr>ac_calls := ac_calls c1 @ [?x]\<rparr>"
  have "requests_ok ?c" using acp_invD(1) [OF inv1] by (simp add: requests_ok_def)
  moreover have "lock_ok ?c" using acp_invD(3) [OF inv1] by (fastforce simp: lock_ok_def nth_append)
  moreover have "call_ok sha ?c y" if "y \<in> set (ac_calls c1 @ [?x])" for y
    using that x acp_invD(2) [OF inv1] call_ok_cong [of ?c c1] by auto
  ultimately have "acp_inv sha ?c" using acp_invD(4,5) [OF inv1] by (simp add: acp_inv_def)
  then show ?thesis by (simp add: begin_call_def a)
qed

lemma startable_open:
  assumes "acp_inv sha c" "startable i c"
  shows "i < length (ac_calls c)" "ac_lock c = None" "ac_pending c = None" "ao_request (ac_calls c ! i) = None"
    "ao_done (ac_calls c ! i) = None" "ao_reply (ac_calls c ! i) = None"
proof -
  show 1: "i < length (ac_calls c)" "ac_lock c = None" "ao_request (ac_calls c ! i) = None" "ao_done (ac_calls c ! i) = None"
    using assms(2) by (simp_all add: startable_def)
  show "ac_pending c = None" using acp_invD(3) [OF assms(1)] 1(2) by (cases "ac_pending c") (simp_all add: lock_ok_def)
  have "call_ok sha c (ac_calls c ! i)" using acp_invD(2) [OF assms(1)] 1(1) by simp
  then show "ao_reply (ac_calls c ! i) = None" using 1(3) by (simp add: call_ok_def asked_ok_def)
qed

text \<open>A call that gets through takes the lock and puts its request in the pending slot.\<close>

lemma launch_inv:
  assumes inv: "acp_inv sha c" and st: "startable i c" and err: "ac_err c = None"
    and q: "q = \<lparr>aq_id = n, aq_method = fst (kind_request (ao_kind (ac_calls c ! i))), aq_denied = False, aq_replies = []\<rparr>"
  shows "acp_inv sha (put_call_state i ((ac_calls c ! i)\<lparr>ao_request := Some (length (ac_requests c))\<rparr>)
    (c\<lparr>ac_requests := ac_requests c @ [q], ac_pending := Some (length (ac_requests c)), ac_lock := Some i\<rparr>))"
    (is "acp_inv sha (put_call_state i ?x ?c)")
proof -
  note s = startable_open [OF inv st]
  have g: "acp_grow c ?c" by (simp add: acp_grow_def nth_append)
  have ok: "call_ok sha ?c y" if "y \<in> set (ac_calls c)" for y
    using call_ok_grow [OF g] acp_invD(2) [OF inv that] by blast
  have "call_ok sha ?c (ac_calls c ! i)" using ok s(1) by simp
  then have x: "call_ok sha ?c ?x"
    using s(4,5,6) by (simp add: call_ok_def asked_ok_def bound_ok_def returned_ok_def q split: acp_kind.splits)
  have "requests_ok (put_call_state i ?x ?c)"
    using acp_invD(1) [OF inv] s(3) err by (auto simp: requests_ok_def put_call_state_def nth_append q less_Suc_eq)
  moreover have "lock_ok (put_call_state i ?x ?c)" using s by (simp add: lock_ok_def put_call_state_def)
  moreover have "call_ok sha (put_call_state i ?x ?c) y" if "y \<in> set ((ac_calls c)[i := ?x])" for y
  proof -
    have "y = ?x \<or> y \<in> set (ac_calls c)" using that set_update_subset_insert by fastforce
    then have "call_ok sha ?c y" using x ok by blast
    then show ?thesis using call_ok_cong [of "put_call_state i ?x ?c" ?c] by (simp add: put_call_state_def)
  qed
  ultimately show ?thesis using acp_invD(4,5) [OF inv] by (simp add: acp_inv_def put_call_state_def)
qed

lemma start_call_inv: "acp_inv sha c \<Longrightarrow> startable i c \<Longrightarrow> acp_inv sha (start_call x y i c)"
proof -
  assume inv: "acp_inv sha c" and st: "startable i c"
  note s = startable_open [OF inv st]
  have fin: "acp_inv sha (end_call i (Inl e) d)" if "acp_inv sha d" "ac_calls d = ac_calls c" "ac_lock d = ac_lock c" for e d
    using end_error_inv [OF that(1)] that(2,3) s(1,2) by simp
  obtain meth params where k: "kind_request (ao_kind (ac_calls c ! i)) = (meth, params)" by (cases "kind_request (ao_kind (ac_calls c ! i))")
  let ?c1 = "c\<lparr>ac_next := ac_next c + 1\<rparr>"
  show ?thesis
  proof (cases "x \<or> ac_err c \<noteq> None \<or> y \<or> ac_next c + 1 = 0")
    case True
    have "acp_inv sha (fail_acp e (c\<lparr>ac_next := n\<rparr>))" for e n by (rule fail_acp_inv) (simp add: inv)
    then show ?thesis using True inv fin by (auto simp: start_call_def k Let_def split: option.split)
  next
    case False
    then have e: "ac_err c = None" by simp
    show ?thesis
    proof (cases "acp_call_frame (unat (ac_next c + 1)) meth params (nat (al_frame_bytes (ac_limits c)))")
      case (Inl e')
      then show ?thesis using False inv fin by (simp add: start_call_def k Let_def)
    next
      case (Inr body)
      have st1: "startable i ?c1" using st by (simp add: startable_def)
      have "acp_inv sha ?c1" using inv by simp
      from launch_inv [OF this st1, of "\<lparr>aq_id = unat (ac_next c + 1), aq_method = meth, aq_denied = False, aq_replies = []\<rparr>"] e k
      show ?thesis using False Inr by (simp add: start_call_def k Let_def)
    qed
  qed
qed

lemma request_single: "request_ok q \<Longrightarrow> aq_replies q = r # rs \<Longrightarrow> rs = []"
  by (auto simp: request_ok_def split: list.splits acp_reply.splits)

lemma put_call_lock: "(put_call_state i x c)\<lparr>ac_lock := l\<rparr> = put_call_state i x (c\<lparr>ac_lock := l\<rparr>)"
  by (cases c) (simp add: put_call_state_def)

lemma take_reply_inv: "acp_inv sha c \<Longrightarrow> takeable i c \<Longrightarrow> acp_inv sha (take_reply i c)"
proof -
  assume inv: "acp_inv sha c" and tk: "takeable i c"
  then have i: "i < length (ac_calls c)" "ac_lock c = Some i" by (simp_all add: takeable_def)
  then obtain h where h: "ao_request (ac_calls c ! i) = Some h" "ao_reply (ac_calls c ! i) = None" "ao_done (ac_calls c ! i) = None"
    using acp_invD(3) [OF inv] by (auto simp: lock_ok_def)
  have cok: "call_ok sha c (ac_calls c ! i)" using acp_invD(2) [OF inv] i(1) by simp
  show ?thesis
  proof (cases "aq_replies (ac_requests c ! h)")
    case (Cons r rs)
    have np: "ac_pending c \<noteq> Some h" using pending_open [OF acp_invD(1) [OF inv], of h] Cons by auto
    have hl: "h < length (ac_requests c)" using cok h(1) by (simp add: call_ok_def asked_ok_def)
    then have one: "aq_replies (ac_requests c ! h) = [r]"
      using acp_invD(1) [OF inv] np Cons request_single [of "ac_requests c ! h"] by (simp add: requests_ok_def)
    have none: "ac_pending c = None"
      using acp_invD(3) [OF inv] i(2) h(1) np by (cases "ac_pending c") (auto simp: lock_ok_def)
    let ?x = "(ac_calls c ! i)\<lparr>ao_reply := Some r\<rparr>"
    let ?c = "c\<lparr>ac_lock := None\<rparr>"
    have "requests_ok ?c" "lock_ok ?c" using acp_invD(1) [OF inv] none by (simp_all add: requests_ok_def lock_ok_def)
    moreover have "acp_grow c ?c" by (rule acp_grow_same) simp_all
    ultimately have inv': "acp_inv sha ?c" by (intro acp_inv_grow [OF inv]) (use acp_invD(4,5) [OF inv] in simp_all)
    have "call_ok sha c ?x" using cok h one by (simp add: call_ok_def asked_ok_def returned_ok_def bound_ok_def split: acp_kind.splits)
    then have "call_ok sha ?c ?x" using call_ok_cong [of ?c c] by simp
    then have "acp_inv sha (put_call_state i ?x ?c)" by (intro put_call_inv [OF inv']) (use i(1) in simp_all)
    then show ?thesis using h Cons by (simp add: take_reply_def Let_def put_call_lock)
  qed (use inv h in \<open>simp add: take_reply_def Let_def\<close>)
qed

lemma answered_request:
  assumes inv: "acp_inv sha c" and h: "h < length (ac_requests c)" and r: "aq_replies (ac_requests c ! h) = [Answer res raw n d]"
  shows "n = aq_id (ac_requests c ! h)" "d = aq_denied (ac_requests c ! h)" "response_line raw n res"
proof -
  have "ac_pending c \<noteq> Some h" using pending_open [OF acp_invD(1) [OF inv], of h] r by auto
  then have "request_ok (ac_requests c ! h)" using acp_invD(1) [OF inv] h by (simp add: requests_ok_def)
  then show "n = aq_id (ac_requests c ! h)" "d = aq_denied (ac_requests c ! h)" "response_line raw n res"
    using r by (auto simp: request_ok_def)
qed

lemma session_id_nonempty: "session_id_from_result m = Some sid \<Longrightarrow> sid \<noteq> []"
  by (auto simp: session_id_from_result_def split: option.splits if_splits)

lemma complete_call_inv: "acp_inv sha c \<Longrightarrow> completable i c \<Longrightarrow> acp_inv sha (complete_call sha i c)"
proof -
  assume inv: "acp_inv sha c" and cm: "completable i c"
  let ?x = "ac_calls c ! i"
  have i: "i < length (ac_calls c)" and d: "ao_done ?x = None" using cm by (simp_all add: completable_def)
  have l: "ac_lock c \<noteq> Some i" using acp_invD(3) [OF inv] cm by (auto simp: lock_ok_def completable_def)
  have cok: "call_ok sha c ?x" using acp_invD(2) [OF inv] i by simp
  have err: "acp_inv sha (end_call i (Inl e) c)" "acp_inv sha (end_call i (Inl e) (fail_acp e c))" for e
    using end_error_inv [OF inv i l] end_error_inv [OF fail_acp_inv [OF inv], of i] i l by simp_all
  have fin: "acp_inv sha (end_call i out c)" if "returned_ok sha c (?x\<lparr>ao_done := Some out\<rparr>)" "bound_ok c (?x\<lparr>ao_done := Some out\<rparr>)" for out
    by (rule end_call_inv [OF inv i l]) (use cok that in \<open>simp add: call_ok_def\<close>)
  show ?thesis
  proof (cases "ao_reply ?x")
    case (Some r)
    then obtain h where h: "ao_request ?x = Some h" "h < length (ac_requests c)" "aq_replies (ac_requests c ! h) = [r]"
      using cok by (auto simp: call_ok_def asked_ok_def split: option.splits)
    show ?thesis
    proof (cases r)
      case (Answer res raw n denied)
      note a = answered_request [OF inv h(2) h(3) [unfolded Answer]]
      show ?thesis
      proof (cases "ao_kind ?x")
        case Initialize
        have "acp_inv sha (end_call i (Inr Initialized) (c\<lparr>ac_initialized := True\<rparr>))"
          by (rule end_call_inv) (use inv i l cok Initialize asked_ok_grow [OF acp_grow_same, of "c\<lparr>ac_initialized := True\<rparr>" c] in
            \<open>simp_all add: call_ok_def returned_ok_def bound_ok_def\<close>)
        then show ?thesis using err Some Answer Initialize by (simp add: complete_call_def finish_initialize_def Let_def)
      next
        case (New_session cwd)
        have "acp_inv sha (end_call i (Inr (Session_made sid)) c)" if "ac_session c = sid" "sid \<noteq> []" for sid
          using that New_session by (intro fin) (simp_all add: returned_ok_def bound_ok_def)
        then show ?thesis
          using err Some Answer New_session session_id_nonempty
          by (auto simp: complete_call_def finish_session_def bind_eq_Some_conv split: option.split)
      next
        case (Prompt sid body)
        have b: "sid = ac_session c" "sid \<noteq> []" using cok Prompt d by (auto simp: call_ok_def bound_ok_def)
        have "acp_inv sha (end_call i (Inr (Turn_made \<lparr>at_session = sid, at_request = n, at_prompt_sha = sha body,
            at_response_sha = sha raw, at_stop = stop\<rparr>)) c)" if "\<not> denied" "stop_reason res = Some stop" for stop
          using that Prompt b h a Answer
          by (intro fin) (simp_all add: returned_ok_def turn_earned_def bound_ok_def)
        then show ?thesis using err Some Answer Prompt by (simp add: complete_call_def finish_prompt_def split: option.split)
      qed
    qed (use err Some in \<open>simp add: complete_call_def\<close>)
  qed (use cm in \<open>simp add: completable_def\<close>)
qed

section \<open>Lines\<close>

lemma accept_update_inv: "acp_inv sha c \<Longrightarrow> acp_inv sha (snd (accept_update params c))"
proof -
  assume inv: "acp_inv sha c"
  have "acp_inv sha (c\<lparr>ac_updates := ac_updates c @ [u]\<rparr>)" if "int (length (ac_updates c)) < al_updates (ac_limits c)" for u
    by (rule acp_inv_grow [OF inv]) (use acp_invD [OF inv] that in \<open>simp_all add: acp_grow_def requests_ok_def lock_ok_def\<close>)
  then show ?thesis using inv by (simp add: accept_update_def split: option.split)
qed

lemma write_reverse_inv:
  assumes inv: "acp_inv sha c" and r: "\<And>f. fr = Inr f \<Longrightarrow> refusal f"
  shows "acp_inv sha (snd (write_reverse w fr c))"
proof -
  have "acp_inv sha (c\<lparr>ac_sent := ac_sent c @ [f]\<rparr>)" if "fr = Inr f" for f
    by (rule acp_inv_grow [OF inv]) (use acp_invD [OF inv] r [OF that] in \<open>simp_all add: acp_grow_def requests_ok_def lock_ok_def\<close>)
  then show ?thesis using inv by (simp add: write_reverse_def split: sum.split)
qed

lemma deny_permission_inv: "acp_inv sha c \<Longrightarrow> ac_pending c = Some h \<Longrightarrow> acp_inv sha (deny_permission h c)"
proof -
  assume inv: "acp_inv sha c" and p: "ac_pending c = Some h"
  note fresh = pending_open [OF acp_invD(1) [OF inv] p]
  show ?thesis
    by (rule acp_inv_grow [OF inv])
      (use acp_invD [OF inv] fresh p in \<open>auto simp: acp_grow_def requests_ok_def lock_ok_def deny_permission_def put_request_def nth_list_update\<close>)
qed

lemma permission_target_pending: "permission_target params c = Some h \<Longrightarrow> ac_pending c = Some h"
  by (auto simp: permission_target_def split: option.splits if_splits)

lemma refusal_texts:
  "member ''jsonrpc'' (enc_string ''2.0'') = quoted ''@jsonrpc@:@2.0@''" "enc_string ''id'' = quoted ''@id@''"
  "member ''result'' (enc_json (JObj [(''outcome'', JObj [(''outcome'', JStr ''cancelled'')])])) =
    quoted ''@result@:{@outcome@:{@outcome@:@cancelled@}}''"
  "member ''error'' (enc_json (JObj [(''code'', JNum ''-32601''), (''message'', JStr ''method not found'')])) =
    quoted ''@error@:{@code@:-32601,@message@:@method not found@}''"
proof -
  have q: "enc_string ''jsonrpc'' = dquote # ''jsonrpc'' @ [dquote]" "enc_string ''2.0'' = dquote # ''2.0'' @ [dquote]"
    "enc_string ''id'' = dquote # ''id'' @ [dquote]" "enc_string ''result'' = dquote # ''result'' @ [dquote]"
    "enc_string ''outcome'' = dquote # ''outcome'' @ [dquote]" "enc_string ''cancelled'' = dquote # ''cancelled'' @ [dquote]"
    "enc_string ''error'' = dquote # ''error'' @ [dquote]" "enc_string ''code'' = dquote # ''code'' @ [dquote]"
    "enc_string ''message'' = dquote # ''message'' @ [dquote]" "enc_string ''method not found'' = dquote # ''method not found'' @ [dquote]"
    by (rule enc_string_plain; simp add: plain_char_def byte_def)+
  show "member ''jsonrpc'' (enc_string ''2.0'') = quoted ''@jsonrpc@:@2.0@''" "enc_string ''id'' = quoted ''@id@''"
    "member ''result'' (enc_json (JObj [(''outcome'', JObj [(''outcome'', JStr ''cancelled'')])])) =
      quoted ''@result@:{@outcome@:{@outcome@:@cancelled@}}''"
    "member ''error'' (enc_json (JObj [(''code'', JNum ''-32601''), (''message'', JStr ''method not found'')])) =
      quoted ''@error@:{@code@:-32601,@message@:@method not found@}''"
    by (simp_all add: member_def q quoted_def)
qed

lemma refusal_frames: "cancelled_frame i limit = Inr f \<Longrightarrow> refusal f" "unknown_frame i limit = Inr f \<Longrightarrow> refusal f"
proof -
  have head: "quoted ''{@jsonrpc@:@2.0@,@id@:'' @ t = ''{'' @ quoted ''@jsonrpc@:@2.0@'' @ '','' @ quoted ''@id@'' @ '':'' @ t" for t
    by (simp add: quoted_def)
  have tails: "quoted ''@result@:{@outcome@:{@outcome@:@cancelled@}}'' @ ''}'' = quoted ''@result@:{@outcome@:{@outcome@:@cancelled@}}}''"
    "quoted ''@error@:{@code@:-32601,@message@:@method not found@}'' @ ''}'' = quoted ''@error@:{@code@:-32601,@message@:@method not found@}}''"
    by (simp_all add: quoted_def)
  have commas: "quoted ('','' @ t) = '','' @ quoted t" for t by (simp add: quoted_def)
  have frame: "acp_frame ms limit = Inr f \<Longrightarrow> f = (''{'' @ commas (member ''jsonrpc'' (enc_string ''2.0'') # ms) @ ''}'') @ [char_of (10::nat)]" for ms
    by (simp add: acp_frame_def Let_def split: if_splits)
  have shape: "f = quoted ''{@jsonrpc@:@2.0@,@id@:'' @ compact False False i @ quoted ('','' @ t) @ [char_of (10::nat)]"
    if "acp_frame [member ''id'' (compact False False i), m] limit = Inr f" "m @ ''}'' = quoted t" for m t
  proof -
    have "f = ''{'' @ quoted ''@jsonrpc@:@2.0@'' @ '','' @ quoted ''@id@'' @ '':'' @ compact False False i @ '','' @ (m @ ''}'') @ [char_of (10::nat)]"
      using frame [OF that(1)] by (simp only: refusal_texts(1) member_def [of "''id''"] refusal_texts(2) commas.simps append_assoc)
    then show ?thesis unfolding head commas that(2) by simp
  qed
  show "cancelled_frame i limit = Inr f \<Longrightarrow> refusal f"
    unfolding cancelled_frame_def refusal_texts refusal_def using shape [OF _ tails(1)] by fastforce
  show "unknown_frame i limit = Inr f \<Longrightarrow> refusal f"
    unfolding unknown_frame_def refusal_texts refusal_def using shape [OF _ tails(2)] by fastforce
qed

lemma reverse_request_inv:
  assumes inv: "acp_inv sha c"
  shows "acp_inv sha (snd (reverse_request w i meth params c))"
proof -
  have "acp_inv sha (snd (write_reverse w (unknown_frame i limit) c))" for limit
    by (rule write_reverse_inv [OF inv refusal_frames(2)])
  moreover have "acp_inv sha (snd (write_reverse w (cancelled_frame i limit) (deny_permission h c)))"
    if "permission_target params c = Some h" for h limit
    by (rule write_reverse_inv [OF deny_permission_inv [OF inv permission_target_pending [OF that]] refusal_frames(1)])
  ultimately show ?thesis using inv by (simp add: reverse_request_def Let_def split: option.split)
qed

lemma accept_response_inv:
  assumes inv: "acp_inv sha c" and m: "acp_object raw = Some m" "Option.bind (raw_field m ''id'') uint_id = Some n"
  shows "acp_inv sha (snd (accept_response n raw (raw_field m ''result'') c))"
proof -
  have ans: "acp_inv sha (answer_pending h r raw d)"
    if h: "ac_pending c = Some h" "aq_id (ac_requests c ! h) = n" "raw_field m ''result'' = Some r"
      and d: "d = c \<or> (\<exists>sid. ac_session c = [] \<and> d = c\<lparr>ac_session := sid\<rparr>)" for h r d
  proof (rule settle_pending [OF inv h(1)])
    note fresh = pending_open [OF acp_invD(1) [OF inv] h(1)]
    let ?q = "ac_requests c ! h"
    show "request_ok (?q\<lparr>aq_replies := [Answer r raw (aq_id ?q) (aq_denied ?q)]\<rparr>)"
      using m h by (simp add: request_ok_def response_line_def)
    show "ac_requests (answer_pending h r raw d) = (ac_requests c)[h := ?q\<lparr>aq_replies := [Answer r raw (aq_id ?q) (aq_denied ?q)]\<rparr>]"
      using d fresh by (auto simp: answer_pending_def Let_def)
  qed (use d in \<open>auto simp: answer_pending_def Let_def\<close>)
  show ?thesis
    using inv ans by (auto simp: accept_response_def bind_session_result_def split: option.split)
qed

lemma accept_line_inv: "acp_inv sha c \<Longrightarrow> acp_inv sha (snd (accept_line w raw c))"
  by (auto simp: accept_line_def Let_def intro: reverse_request_inv accept_update_inv accept_response_inv split: option.split)

lemma acp_step_inv: "acp_inv sha c \<Longrightarrow> acp_inv sha (acp_step sha op c)"
proof (cases op)
  case AcpReceive
  assume inv: "acp_inv sha c"
  have "acp_inv sha (c\<lparr>ac_updates := tl (ac_updates c)\<rparr>)"
    by (rule acp_inv_grow [OF inv]) (use acp_invD [OF inv] in \<open>auto simp: acp_grow_def requests_ok_def lock_ok_def\<close>)
  then show ?thesis by (simp add: AcpReceive)
qed (auto intro: start_call_inv take_reply_inv complete_call_inv accept_line_inv)

lemma acp_run_inv: "acp_inv sha c \<Longrightarrow> acp_inv sha (acp_run sha ops c)"
  by (induction ops arbitrary: c) (simp_all add: acp_run_def acp_step_inv)

lemma new_acp_inv: "new_acp_client ls x = Inr c \<Longrightarrow> acp_inv sha c"
  by (auto simp: new_acp_client_def acp_normalized_def acp_inv_def requests_ok_def lock_ok_def Let_def split: sum.splits if_splits)

end
