(* ===== verification/Acp_Properties.thy ===== *)
theory Acp_Properties
  imports Acp_Invariants
begin

text \<open>The properties of the ACP client (\<open>internal/grokacp/client.go\<close>), each for every interleaving of its steps.\<close>

section \<open>One outcome per request\<close>

definition replies_once :: "acp_client \<Rightarrow> bool" where
  "replies_once c \<longleftrightarrow> list_all (\<lambda>h. length (aq_replies (ac_requests c ! h)) = (if ac_pending c = Some h then 0 else 1))
       [0..<length (ac_requests c)]
     \<and> (ac_err c = None \<or> ac_pending c = None)"

lemma request_ok_once: "request_ok q \<Longrightarrow> length (aq_replies q) = 1"
  by (auto simp: request_ok_def split: list.splits acp_reply.splits)

lemma requests_ok_once: "requests_ok c \<Longrightarrow> replies_once c"
  by (cases "ac_pending c") (auto simp: requests_ok_def replies_once_def list_all_iff request_ok_once)

text \<open>C22. Every request the ACP client puts on the wire gets exactly one reply on its channel, except the one that is
  pending, which has none; and once the client has failed nothing is pending, so no caller waits.\<close>

theorem acp_replies_once:
  assumes "new_acp_client ls x = Inr c"
  shows "replies_once (acp_run sha ops c)"
  using acp_invD(1) [OF acp_run_inv [OF new_acp_inv [OF assms]]] by (rule requests_ok_once)

section \<open>Prompts\<close>



section \<open>The session\<close>

lemma fail_acp_session [simp]: "ac_session (fail_acp e c) = ac_session c"
  by (simp add: fail_acp_def split: option.split)

lemma end_call_session [simp]: "ac_session (end_call i out c) = ac_session c"
  by (simp add: end_call_def leave_kind_def put_call_state_def Let_def split: acp_kind.split)

lemma write_reverse_session [simp]: "ac_session (snd (write_reverse w fr c)) = ac_session c"
  by (simp add: write_reverse_def split: sum.split)

lemma deny_session [simp]: "ac_session (deny_permission h c) = ac_session c"
  by (simp add: deny_permission_def put_request_def)

lemma answer_session [simp]: "ac_session (answer_pending h r raw c) = ac_session c"
  by (simp add: answer_pending_def Let_def)

lemma start_call_session: "ac_session (start_call x y i c) = ac_session c"
  by (simp add: start_call_def put_call_state_def Let_def split: prod.split option.split sum.split)

lemma complete_call_session: "ac_session (complete_call sha i c) = ac_session c"
  by (simp add: complete_call_def finish_initialize_def finish_session_def finish_prompt_def Let_def
      split: option.split acp_reply.split acp_kind.split)

lemma take_reply_session: "ac_session (take_reply i c) = ac_session c"
  by (simp add: take_reply_def put_call_state_def Let_def split: option.split list.split)

lemma begin_call_session: "ac_session (begin_call k c) = ac_session c"
  by (simp add: begin_call_def admit_kind_def split: prod.split acp_kind.split)

lemma accept_response_session: "ac_session c \<noteq> [] \<Longrightarrow> ac_session (snd (accept_response n raw r c)) = ac_session c"
  by (simp add: accept_response_def bind_session_result_def split: option.split)

lemma accept_line_session: "ac_session c \<noteq> [] \<Longrightarrow> ac_session (snd (accept_line w raw c)) = ac_session c"
  by (simp add: accept_line_def reverse_request_def accept_update_def accept_response_session Let_def split: option.split)

lemma acp_step_session: "ac_session c \<noteq> [] \<Longrightarrow> ac_session (acp_step sha op c) = ac_session c"
  by (cases op) (simp_all add: begin_call_session start_call_session take_reply_session complete_call_session
      cancel_pending_def accept_line_session)

text \<open>A session is bound once: no later call, line or failure replaces the session of the client, and a call of
  \<open>NewSession\<close> that succeeds has returned exactly that session.\<close>

theorem acp_session_fixed:
  assumes "new_acp_client ls x = Inr c" and "ac_session (acp_run sha ops c) = sid" and "sid \<noteq> []"
  shows "ac_session (acp_run sha later (acp_run sha ops c)) = sid
    \<and> list_all (\<lambda>call. case ao_done call of Some (Inr (Session_made s)) \<Rightarrow> s = sid | _ \<Rightarrow> True)
        (ac_calls (acp_run sha later (acp_run sha ops c)))"
proof -
  have step: "ac_session (acp_run sha later d) = sid" if "ac_session d = sid" for d
    using that by (induction later arbitrary: d) (use assms(3) acp_step_session in \<open>simp_all add: acp_run_def\<close>)
  have inv: "acp_inv sha (acp_run sha later (acp_run sha ops c))"
    by (intro acp_run_inv new_acp_inv [OF assms(1)])
  show ?thesis
    using step [OF assms(2)] acp_invD(2) [OF inv]
    by (fastforce simp: list_all_iff call_ok_def returned_ok_def split: option.split sum.split acp_result.split)
qed

end
