(* ===== verification/Acp_Sample.thy ===== *)
theory Acp_Sample
  imports Acp_Properties Json_Ascii
begin

text \<open>
  One run of the ACP client: initialize, a new session, a prompt that returns a turn; and the same prompt
  with a permission request while it is pending. The properties of the client are applied to it.
\<close>

section \<open>Frames and lines\<close>

lemma acp_call_frame_ok:
  assumes a: "ascii meth" "ascii params" and l: "6 * length meth + 6 * length params + 200 \<le> limit" and n: "length (dec_nat n) \<le> 20"
  shows "\<exists>b. acp_call_frame n meth params limit = Inr b"
proof -
  note m = enc_string_ascii [OF a(1)] and p = compact_ascii [OF a(2), of False False]
  have k: "ascii (enc_string s) \<and> length (enc_string s) \<le> 6 * length s + 2" if "s \<in> {''id'', ''method'', ''params'', ''jsonrpc'', ''2.0''}" for s
    using that by (intro enc_string_ascii) (auto simp: byte_def)
  show ?thesis
    using m p n l k [of "''id''"] k [of "''method''"] k [of "''params''"] k [of "''jsonrpc''"] k [of "''2.0''"] ascii_dec_nat [of n]
    by (simp add: acp_call_frame_def acp_frame_def member_def Let_def valid_utf8_ascii byte_def)
qed



lemma enc_string_small: "ascii s \<Longrightarrow> length s \<le> 30 \<Longrightarrow> length (enc_string s) \<le> 182 \<and> ascii (enc_string s)"
  using enc_string_ascii [of s] by simp

lemma sample_frames:
  "\<exists>b. acp_call_frame 1 ''initialize'' initialize_call 65536 = Inr b"
  "\<exists>b. acp_call_frame 2 ''session/new'' (session_params ''/w'') 65536 = Inr b"
  "\<exists>b. acp_call_frame 3 ''session/prompt'' (prompt_params ''s'' ''hi'') 65536 = Inr b"
proof -
  note e = enc_string_small [of "''protocolVersion''"] enc_string_small [of "''clientCapabilities''"] enc_string_small [of "''cwd''"]
    enc_string_small [of "''/w''"] enc_string_small [of "''mcpServers''"] enc_string_small [of "''sessionId''"]
    enc_string_small [of "''s''"] enc_string_small [of "''prompt''"] enc_string_small [of "''type''"]
    enc_string_small [of "''text''"] enc_string_small [of "''hi''"]
  show "\<exists>b. acp_call_frame 1 ''initialize'' initialize_call 65536 = Inr b"
    by (rule acp_call_frame_ok) (use e(1,2) in \<open>simp_all add: initialize_call_def byte_def dec_nat.simps\<close>)
  show "\<exists>b. acp_call_frame 2 ''session/new'' (session_params ''/w'') 65536 = Inr b"
    by (rule acp_call_frame_ok) (use e(3,4,5) in \<open>simp_all add: session_params_def byte_def dec_nat.simps\<close>)
  show "\<exists>b. acp_call_frame 3 ''session/prompt'' (prompt_params ''s'' ''hi'') 65536 = Inr b"
    by (rule acp_call_frame_ok) (use e(6,7,8,9,10,11) in \<open>simp_all add: prompt_params_def byte_def dec_nat.simps\<close>)
qed

definition init_line :: string where
  "init_line = quoted ''{@jsonrpc@:@2.0@,@id@:1,@result@:{@protocolVersion@:1}}''"

definition session_line :: string where
  "session_line = quoted ''{@jsonrpc@:@2.0@,@id@:2,@result@:{@sessionId@:@s@}}''"

definition stop_line :: string where
  "stop_line = quoted ''{@jsonrpc@:@2.0@,@id@:3,@result@:{@stopReason@:@end@}}''"

lemma ascii_lines: "ascii init_line" "ascii session_line" "ascii stop_line"
  unfolding init_line_def session_line_def stop_line_def
  by (rule ascii_quoted; simp add: byte_def)+

lemma small_floats: "float_ok ''1''" "float_ok ''2''" "float_ok ''3''"
  by (simp_all add: float_ok_def starts_def is_digit_def byte_def digits_val_def float_limit_def Let_def)

lemma acp_object_eval:
  assumes "ascii raw" "unicode_ok raw" "json_text (Suc (length raw)) raw = Some (v, [])" "tokens_ok v" "raw_object raw = Some m"
    "distinct (map fst m)"
  shows "acp_object raw = Some m"
  using assms by (simp add: acp_object_def acp_valid_json_def valid_utf8_ascii skip_ws_def)

lemma init_object:
  "acp_object init_line = Some [(''jsonrpc'', quoted ''@2.0@''), (''id'', ''1''), (''result'', quoted ''{@protocolVersion@:1}'')]"
proof (rule acp_object_eval [OF ascii_lines(1)])
  show "unicode_ok init_line" by code_simp
  show "json_text (Suc (length init_line)) init_line =
    Some (JObj [(''jsonrpc'', JStr ''2.0''), (''id'', JNum ''1''), (''result'', JObj [(''protocolVersion'', JNum ''1'')])], [])" by code_simp
  show "raw_object init_line = Some [(''jsonrpc'', quoted ''@2.0@''), (''id'', ''1''), (''result'', quoted ''{@protocolVersion@:1}'')]" by code_simp
qed (simp_all add: small_floats)

lemma session_object:
  "acp_object session_line = Some [(''jsonrpc'', quoted ''@2.0@''), (''id'', ''2''), (''result'', quoted ''{@sessionId@:@s@}'')]"
proof (rule acp_object_eval [OF ascii_lines(2)])
  show "unicode_ok session_line" by code_simp
  show "json_text (Suc (length session_line)) session_line =
    Some (JObj [(''jsonrpc'', JStr ''2.0''), (''id'', JNum ''2''), (''result'', JObj [(''sessionId'', JStr ''s'')])], [])" by code_simp
  show "raw_object session_line = Some [(''jsonrpc'', quoted ''@2.0@''), (''id'', ''2''), (''result'', quoted ''{@sessionId@:@s@}'')]" by code_simp
qed (simp_all add: small_floats)

lemma stop_object:
  "acp_object stop_line = Some [(''jsonrpc'', quoted ''@2.0@''), (''id'', ''3''), (''result'', quoted ''{@stopReason@:@end@}'')]"
proof (rule acp_object_eval [OF ascii_lines(3)])
  show "unicode_ok stop_line" by code_simp
  show "json_text (Suc (length stop_line)) stop_line =
    Some (JObj [(''jsonrpc'', JStr ''2.0''), (''id'', JNum ''3''), (''result'', JObj [(''stopReason'', JStr ''end'')])], [])" by code_simp
  show "raw_object stop_line = Some [(''jsonrpc'', quoted ''@2.0@''), (''id'', ''3''), (''result'', quoted ''{@stopReason@:@end@}'')]" by code_simp
qed (simp_all add: small_floats)

lemma result_objects:
  "acp_object (quoted ''{@protocolVersion@:1}'') = Some [(''protocolVersion'', ''1'')]"
  "acp_object (quoted ''{@sessionId@:@s@}'') = Some [(''sessionId'', quoted ''@s@'')]"
  "acp_object (quoted ''{@stopReason@:@end@}'') = Some [(''stopReason'', quoted ''@end@'')]"
proof -
  show "acp_object (quoted ''{@protocolVersion@:1}'') = Some [(''protocolVersion'', ''1'')]"
    by (rule acp_object_eval [where v = "JObj [(''protocolVersion'', JNum ''1'')]"])
      ((rule ascii_quoted, simp add: byte_def), code_simp, code_simp, simp add: small_floats, code_simp, simp)
  show "acp_object (quoted ''{@sessionId@:@s@}'') = Some [(''sessionId'', quoted ''@s@'')]"
    by (rule acp_object_eval [where v = "JObj [(''sessionId'', JStr ''s'')]"])
      ((rule ascii_quoted, simp add: byte_def), code_simp, code_simp, simp, code_simp, simp)
  show "acp_object (quoted ''{@stopReason@:@end@}'') = Some [(''stopReason'', quoted ''@end@'')]"
    by (rule acp_object_eval [where v = "JObj [(''stopReason'', JStr ''end'')]"])
      ((rule ascii_quoted, simp add: byte_def), code_simp, code_simp, simp, code_simp, simp)
qed

section \<open>The run\<close>

definition default_acp_limits :: acp_limits where
  "default_acp_limits = \<lparr>al_frame_bytes = 0, al_updates = 0\<rparr>"

definition sample_acp :: acp_client where
  "sample_acp = \<lparr>ac_limits = \<lparr>al_frame_bytes = 65536, al_updates = 64\<rparr>, ac_err = None, ac_initialized = False,
     ac_initializing = False, ac_session = [], ac_creating = False, ac_turn = False, ac_next = 0, ac_pending = None,
     ac_requests = [], ac_updates = [], ac_lock = None, ac_calls = [], ac_sent = []\<rparr>"

lemma sample_new_acp: "new_acp_client default_acp_limits False = Inr sample_acp"
  by (simp add: new_acp_client_def acp_normalized_def default_acp_limits_def sample_acp_def acp_max_frame_bytes_def
      acp_max_updates_def Let_def)

definition call_steps :: "acp_kind \<Rightarrow> nat \<Rightarrow> string \<Rightarrow> acp_op list" where
  "call_steps k i line = [AcpBegin k, AcpStart False False i, AcpLine True line, AcpTake i, AcpComplete i]"

lemma sample_values:
  "string_value (Some (quoted ''@2.0@'')) = Some ''2.0''" "uint_id ''1'' = Some 1" "uint_id ''2'' = Some 2" "uint_id ''3'' = Some 3"
  "is_integer (Some ''1'') 1" "unmarshal_string (quoted ''@s@'') = Some ''s''" "unmarshal_string (quoted ''@end@'') = Some ''end''"
proof -
  have u: "unmarshal_string (quoted ''@2.0@'') = Some ''2.0''" by code_simp
  have a: "valid_utf8 ''2.0''" by (rule valid_utf8_ascii) (simp add: byte_def)
  show "string_value (Some (quoted ''@2.0@'')) = Some ''2.0''" by (simp add: string_value_def u a)
  show "unmarshal_string (quoted ''@s@'') = Some ''s''" "unmarshal_string (quoted ''@end@'') = Some ''end''" by code_simp+
qed (simp_all add: uint_id_def parse_uint_def is_integer_def parse_int_def in_int_range_def is_digit_def digits_val_def byte_def)

lemma sample_utf8: "valid_utf8 ''/w''" "valid_utf8 ''s''" "valid_utf8 ''hi''" "valid_utf8 ''end''"
  by (rule valid_utf8_ascii; simp add: byte_def)+

lemmas acp_eval = call_steps_def begin_call_def admit_kind_def startable_def start_call_def kind_request_def put_call_state_def
  accept_line_def accept_response_def bind_session_result_def answer_pending_def send_reply_def put_request_def takeable_def take_reply_def
  completable_def complete_call_def finish_initialize_def finish_session_def finish_prompt_def stop_reason_def end_call_def leave_kind_def
  session_id_from_result_def raw_field_def allowed_def sample_values sample_utf8 init_object session_object stop_object result_objects

definition ready_acp :: acp_client where
  "ready_acp = sample_acp\<lparr>ac_initialized := True, ac_next := 1,
     ac_requests := [\<lparr>aq_id = 1, aq_method = ''initialize'', aq_denied = False,
       aq_replies = [Answer (quoted ''{@protocolVersion@:1}'') init_line 1 False]\<rparr>],
     ac_calls := [\<lparr>ao_kind = Initialize, ao_request = Some 0,
       ao_reply = Some (Answer (quoted ''{@protocolVersion@:1}'') init_line 1 False), ao_done = Some (Inr Initialized)\<rparr>]\<rparr>"

lemma run_initialize: "acp_run sha (call_steps Initialize 0 init_line) sample_acp = ready_acp"
proof -
  obtain b where b: "acp_call_frame (Suc 0) ''initialize'' initialize_call 65536 = Inr b" using sample_frames(1) by auto
  show ?thesis by (simp add: acp_run_def acp_eval b sample_acp_def ready_acp_def Let_def)
qed

definition session_acp :: acp_client where
  "session_acp = ready_acp\<lparr>ac_session := ''s'', ac_next := 2,
     ac_requests := ac_requests ready_acp @ [\<lparr>aq_id = 2, aq_method = ''session/new'', aq_denied = False,
       aq_replies = [Answer (quoted ''{@sessionId@:@s@}'') session_line 2 False]\<rparr>],
     ac_calls := ac_calls ready_acp @ [\<lparr>ao_kind = New_session ''/w'', ao_request = Some 1,
       ao_reply = Some (Answer (quoted ''{@sessionId@:@s@}'') session_line 2 False), ao_done = Some (Inr (Session_made ''s''))\<rparr>]\<rparr>"

lemma run_session: "acp_run sha (call_steps (New_session ''/w'') 1 session_line) ready_acp = session_acp"
proof -
  obtain b where b: "acp_call_frame 2 ''session/new'' (session_params ''/w'') 65536 = Inr b" using sample_frames(2) by auto
  show ?thesis by (simp add: acp_run_def acp_eval b sample_acp_def ready_acp_def session_acp_def clean_absolute_def Let_def)
qed

definition sample_turn :: "(string \<Rightarrow> string) \<Rightarrow> acp_turn" where
  "sample_turn sha = \<lparr>at_session = ''s'', at_request = 3, at_prompt_sha = sha ''hi'', at_response_sha = sha stop_line, at_stop = ''end''\<rparr>"

definition prompted_acp :: "(string \<Rightarrow> string) \<Rightarrow> acp_client" where
  "prompted_acp sha = session_acp\<lparr>ac_next := 3,
     ac_requests := ac_requests session_acp @ [\<lparr>aq_id = 3, aq_method = ''session/prompt'', aq_denied = False,
       aq_replies = [Answer (quoted ''{@stopReason@:@end@}'') stop_line 3 False]\<rparr>],
     ac_calls := ac_calls session_acp @ [\<lparr>ao_kind = Prompt ''s'' ''hi'', ao_request = Some 2,
       ao_reply = Some (Answer (quoted ''{@stopReason@:@end@}'') stop_line 3 False), ao_done = Some (Inr (Turn_made (sample_turn sha)))\<rparr>]\<rparr>"

lemma run_prompt: "acp_run sha (call_steps (Prompt ''s'' ''hi'') 2 stop_line) session_acp = prompted_acp sha"
proof -
  obtain b where b: "acp_call_frame 3 ''session/prompt'' (prompt_params ''s'' ''hi'') 65536 = Inr b" using sample_frames(3) by auto
  show ?thesis
    by (simp add: acp_run_def acp_eval b sample_acp_def ready_acp_def session_acp_def prompted_acp_def sample_turn_def Let_def)
qed

section \<open>Witnesses\<close>

definition sample_acp_ops :: "acp_op list" where
  "sample_acp_ops = call_steps Initialize 0 init_line @ call_steps (New_session ''/w'') 1 session_line
     @ call_steps (Prompt ''s'' ''hi'') 2 stop_line"

lemma acp_run_append: "acp_run sha (xs @ ys) c = acp_run sha ys (acp_run sha xs c)"
  by (simp add: acp_run_def)

lemma run_sample: "acp_run sha sample_acp_ops sample_acp = prompted_acp sha"
  by (simp only: sample_acp_ops_def acp_run_append run_initialize run_session run_prompt)

theorem acp_replies_once_witness: "replies_once (acp_run (\<lambda>s. s) sample_acp_ops sample_acp)"
  by (rule acp_replies_once [OF sample_new_acp])



theorem acp_session_fixed_witness:
  "ac_session (acp_run (\<lambda>s. s) (call_steps (New_session ''/x'') 3 session_line @ [AcpFail AcpClosed]) (prompted_acp (\<lambda>s. s))) = ''s''"
proof -
  have "ac_session (acp_run (\<lambda>s. s) sample_acp_ops sample_acp) = ''s''"
    by (simp add: run_sample prompted_acp_def session_acp_def)
  from acp_session_fixed [OF sample_new_acp this] show ?thesis by (simp add: run_sample)
qed

end
