(* ===== verification/Json_Round.thy ===== *)
theory Json_Round
  imports Go_Json_Text
begin

text \<open>
  Reading back what the encoder writes: \<open>whole (enc_json v)\<close> is \<open>v\<close> for every value whose strings are valid
  UTF-8, whose numbers are JSON numbers and whose nesting is within the decoder's limit.
\<close>

section \<open>Bytes\<close>

lemma char_of_byte [simp]: "char_of (byte c) = c"
  by (simp add: byte_def)

lemma byte_inject: "byte c = byte d \<longleftrightarrow> c = d"
  by (metis char_of_byte)

lemma byte_char_of: "n < 256 \<Longrightarrow> byte (char_of n) = n"
  by (simp add: byte_def)

lemma byte_lt: "byte c < 256"
  by (simp add: byte_def)

lemma byte_marks: "byte dquote = 34" "byte backslash = 92"
  by (simp_all add: byte_def dquote_def backslash_def)

lemma map_char_of_byte [simp]: "map (char_of \<circ> byte) s = s"
  by (simp add: comp_def)

section \<open>Escapes\<close>

lemma hex_val_digit: "d < 16 \<Longrightarrow> hex_val (hex_digit d) = Some d"
  by (simp add: hex_val_def hex_digit_def byte_def Let_def)

lemma hex4_digits: "a < 16 \<Longrightarrow> b < 16 \<Longrightarrow> c < 16 \<Longrightarrow> d < 16 \<Longrightarrow>
  hex4 [hex_digit a, hex_digit b, hex_digit c, hex_digit d] = Some (((a * 16 + b) * 16 + c) * 16 + d)"
  by (simp add: hex4_def hex_val_digit)

lemma hex4_esc:
  assumes "u < 65536"
  shows "hex4 [hex_digit (u div 4096 mod 16), hex_digit (u div 256 mod 16), hex_digit (u div 16 mod 16), hex_digit (u mod 16)] = Some u"
proof -
  have d: "u div 256 = u div 16 div 16" "u div 4096 = u div 16 div 16 div 16" by (simp_all add: div_mult2_eq [symmetric])
  have "u div 4096 < 16" using assms by (simp add: less_mult_imp_div_less)
  then have e: "((u div 4096 mod 16 * 16 + u div 256 mod 16) * 16 + u div 16 mod 16) * 16 + u mod 16 = u"
    unfolding d by (simp only: mod_less div_mult_mod_eq)
  show ?thesis unfolding arg_cong [of _ _ Some, OF e, symmetric] by (rule hex4_digits) simp_all
qed

lemma not_simple_u: "simple_escape (CHR ''u'') = None"
proof -
  have "byte (CHR ''u'') = 117" by (simp add: byte_def)
  then have "CHR ''u'' \<noteq> dquote" "CHR ''u'' \<noteq> backslash" using byte_marks by auto
  then show ?thesis by (simp add: simple_escape_def)
qed

lemma unescape_u:
  assumes "u < 65536" "\<not> high_surrogate u"
  shows "unescape (tl (esc_u u) @ r) = Some (enc_rune u, r)"
  unfolding esc_u_def
  by (simp add: unescape_def not_simple_u hex4_esc [OF assms(1)] assms(2) Let_def del: mod_less split: option.split)

lemma scan_escaped: "unescape (w @ r) = Some (e, r) \<Longrightarrow>
  scan_string (Suc n) (backslash # w @ r) = map_option (\<lambda>(t, rest). (e @ t, rest)) (scan_string n r)"
  using byte_marks by (auto simp: byte_inject)

lemma scan_plain: "byte c \<ge> 32 \<Longrightarrow> byte c \<noteq> 34 \<Longrightarrow> byte c \<noteq> 92 \<Longrightarrow>
  scan_string (Suc n) (c # r) = map_option (\<lambda>(t, rest). (c # t, rest)) (scan_string n r)"
  using byte_marks by auto

lemma scan_high: "list_all (\<lambda>b. 128 \<le> b \<and> b < (256::nat)) bs \<Longrightarrow>
  scan_string (length bs + n) (map char_of bs @ r) = map_option (\<lambda>(t, rest). (map char_of bs @ t, rest)) (scan_string n r)"
proof (induction bs)
  case (Cons b bs)
  have "byte (char_of b) = b" using Cons.prems by (simp add: byte_char_of)
  then show ?case using Cons scan_plain [of "char_of b"]
    by (simp add: option.map_comp comp_def case_prod_unfold del: scan_string.simps)
qed (simp add: case_prod_unfold option.map_ident)

section \<open>Runes\<close>

text \<open>The encodings of more than one byte.\<close>

lemma utf8_wide:
  assumes "utf8_width bs \<ge> 2"
  obtains (two) a b r where "bs = a # b # r" "194 \<le> a" "a \<le> 223" "cont_byte b" "utf8_width bs = 2"
    | (three) a b c r where "bs = a # b # c # r" "224 \<le> a" "a \<le> 239" "cont_byte b" "cont_byte c" "a = 224 \<Longrightarrow> 160 \<le> b" "utf8_width bs = 3"
    | (four) a b c d r where "bs = a # b # c # d # r" "240 \<le> a" "a \<le> 244" "cont_byte b" "cont_byte c" "cont_byte d"
        "a = 240 \<Longrightarrow> 144 \<le> b" "utf8_width bs = 4"
proof -
  obtain a r where bs: "bs = a # r" using assms by (cases bs) simp_all
  consider "194 \<le> a \<and> a \<le> 223" | "224 \<le> a \<and> a \<le> 239" | "240 \<le> a \<and> a \<le> 244"
    using assms by (auto simp: bs split: if_splits)
  then show thesis
  proof cases
    case 1
    then show ?thesis using assms two by (auto simp: bs split: list.splits if_splits)
  next
    case 2
    then show ?thesis using assms three by (auto simp: bs split: list.splits if_splits)
  next
    case 3
    then show ?thesis using assms four by (auto simp: bs split: list.splits if_splits)
  qed
qed

lemma rune_of_wide:
  "rune_of [192 + x, 128 + y] = x * 64 + y" "rune_of [224 + x, 128 + y, 128 + z] = x * 4096 + y * 64 + z"
  "rune_of [240 + x, 128 + y, 128 + z, 128 + u] = x * 262144 + y * 4096 + z * 64 + u"
  by (simp_all add: rune_of_def)

lemma cont_byteE: assumes "cont_byte b" obtains y where "b = 128 + y" "y < 64"
proof -
  have "b = 128 + (b - 128)" "b - 128 < 64" using assms by (simp_all add: cont_byte_def less_diff_conv2)
  then show thesis by (rule that)
qed

lemma line_separator:
  assumes "x * 4096 + y * 64 + z = 8232 + k" "k < 2" "y < 64" "z < (64::nat)"
  shows "x = 2 \<and> y = 0 \<and> z = 40 + k"
proof -
  have x: "x = 2" using assms by linarith
  have y: "y = 0" using x assms by linarith
  show ?thesis using assms(1) x y by simp
qed

definition wide_ok :: "nat \<Rightarrow> nat list \<Rightarrow> bool" where
  "wide_ok k bs \<longleftrightarrow> list_all (\<lambda>b. 128 \<le> b \<and> b < 256) bs \<and> rune_of bs \<ge> 128
     \<and> (rune_of bs = 8232 + k \<longrightarrow> bs = [226, 128, 168 + k])"

text \<open>The bytes of a rune wider than one byte; only U+2028 and U+2029 are escaped.\<close>

lemma wide_rune:
  assumes "utf8_width bs \<ge> 2" "k < 2"
  shows "wide_ok k (take (utf8_width bs) bs)"
  using assms(1)
proof (cases rule: utf8_wide)
  case (two a b r)
  obtain y where y: "b = 128 + y" "y < 64" using two(4) by (rule cont_byteE)
  obtain x where x: "a = 192 + x" "2 \<le> x" "x < 32" using two(2,3) that [of "a - 192"] by simp
  then have "x * 64 + y < 8232" "128 \<le> x * 64 + y" using y by linarith+
  then have "wide_ok k [a, b]" using x y by (simp add: wide_ok_def rune_of_wide)
  then show ?thesis unfolding two(5) unfolding two(1) by simp
next
  case (three a b c r)
  obtain y where y: "b = 128 + y" "y < 64" using three(4) by (rule cont_byteE)
  obtain z where z: "c = 128 + z" "z < 64" using three(5) by (rule cont_byteE)
  obtain x where x: "a = 224 + x" "x < 16" using three(2,3) that [of "a - 224"] by simp
  have "x = 0 \<Longrightarrow> 32 \<le> y" using three(6) x y by simp
  then have big: "128 \<le> x * 4096 + y * 64 + z" by (cases "x = 0") simp_all
  have "wide_ok k [a, b, c]"
    using line_separator [of x y z k] x y z assms(2) big by (auto simp: wide_ok_def rune_of_wide)
  then show ?thesis unfolding three(7) unfolding three(1) by simp
next
  case (four a b c d r)
  obtain y where y: "b = 128 + y" "y < 64" using four(4) by (rule cont_byteE)
  obtain z where z: "c = 128 + z" "z < 64" using four(5) by (rule cont_byteE)
  obtain u where u: "d = 128 + u" "u < 64" using four(6) by (rule cont_byteE)
  obtain x where x: "a = 240 + x" "x < 16" using four(2,3) that [of "a - 240"] by simp
  have "x = 0 \<Longrightarrow> 16 \<le> y" using four(7) x y by simp
  then have big: "65536 \<le> x * 262144 + y * 4096 + z * 64 + u" by (cases "x = 0") simp_all
  then have "wide_ok k [a, b, c, d]" using x y z u assms(2) by (simp add: wide_ok_def rune_of_wide)
  then show ?thesis unfolding four(8) unfolding four(1) by simp
qed

lemma width_one: "utf8_width (a # r) = 1 \<Longrightarrow> a < 128"
  by (auto split: if_splits list.splits)

section \<open>Strings\<close>

lemma is_mark: "c = dquote \<longleftrightarrow> byte c = 34" "c = backslash \<longleftrightarrow> byte c = 92"
  using byte_marks byte_inject by metis+

lemma simple_escapes:
  "simple_escape dquote = Some dquote" "simple_escape backslash = Some backslash"
  by (simp_all add: simple_escape_def)

lemma letter_escapes:
  "simple_escape (CHR ''b'') = Some (char_of (8::nat))" "simple_escape (CHR ''t'') = Some (char_of (9::nat))"
  "simple_escape (CHR ''n'') = Some (char_of (10::nat))" "simple_escape (CHR ''f'') = Some (char_of (12::nat))"
  "simple_escape (CHR ''r'') = Some (char_of (13::nat))"
  by (simp_all only: simple_escape_def is_mark) (simp_all add: byte_def)

lemma unescape_simple: "simple_escape c = Some e \<Longrightarrow> unescape ([c] @ r) = Some ([e], r)"
  by (simp add: unescape_def)

lemma enc_rune_ascii: "a < 128 \<Longrightarrow> enc_rune a = [char_of a]"
  by (simp add: enc_rune_def)

lemma scan_ascii_rune:
  assumes "a < 128"
  shows "scan_string (Suc n) (esc_rune (a, [a], True) @ r) = map_option (\<lambda>(t, rest). (char_of a # t, rest)) (scan_string n r)"
proof -
  have simple: ?thesis if "simple_escape c = Some (char_of a)" "esc_rune (a, [a], True) = [backslash, c]" for c
    using scan_escaped [OF unescape_simple [OF that(1)]] that(2) by simp
  have "a = 34 \<or> a = 92 \<or> a = 8 \<or> a = 9 \<or> a = 10 \<or> a = 12 \<or> a = 13 \<or>
      esc_rune (a, [a], True) = esc_u a \<or> (esc_rune (a, [a], True) = [char_of a] \<and> a \<ge> 32 \<and> a \<noteq> 34 \<and> a \<noteq> 92)"
    by (auto simp: esc_rune_def)
  then show ?thesis
  proof (elim disjE)
    assume e: "esc_rune (a, [a], True) = esc_u a"
    have "\<not> high_surrogate a" "a < 65536" using assms by (simp_all add: high_surrogate_def)
    then have "unescape (tl (esc_u a) @ r) = Some ([char_of a], r)" using unescape_u assms by (simp add: enc_rune_ascii)
    then show ?thesis using scan_escaped [of "tl (esc_u a)" r "[char_of a]" n] by (simp add: e esc_u_def del: scan_string.simps)
  next
    assume e: "esc_rune (a, [a], True) = [char_of a] \<and> a \<ge> 32 \<and> a \<noteq> 34 \<and> a \<noteq> 92"
    then show ?thesis using scan_plain [of "char_of a"] assms by (simp add: byte_char_of del: scan_string.simps)
  qed (rule simple, (simp_all add: simple_escapes [unfolded dquote_def backslash_def] letter_escapes dquote_def backslash_def esc_rune_def)[2])+
qed

text \<open>One rune of valid text, whatever its width.\<close>

lemma scan_rune:
  assumes "utf8_width bs = w" "w \<noteq> 0" "list_all (\<lambda>b. b < 256) bs"
  shows "\<exists>k \<le> length (esc_rune (rune_of (take w bs), take w bs, True)). k > 0 \<and> (\<forall>n r.
    scan_string (k + n) (esc_rune (rune_of (take w bs), take w bs, True) @ r)
      = map_option (\<lambda>(t, rest). (map char_of (take w bs) @ t, rest)) (scan_string n r))"
proof (cases "w = 1")
  case True
  obtain a r where bs: "bs = a # r" using assms by (cases bs) simp_all
  have a: "a < 128" using width_one assms True bs by blast
  have "esc_rune (a, [a], True) \<noteq> []" by (simp add: esc_rune_def esc_u_def)
  then have "1 \<le> length (esc_rune (a, [a], True))" by (cases "esc_rune (a, [a], True)") simp_all
  then show ?thesis using scan_ascii_rune [OF a] True bs
    by (intro exI [of _ 1]) (simp add: rune_of_def del: scan_string.simps)
next
  case False
  then have w: "utf8_width bs \<ge> 2" using assms by simp
  let ?b = "take w bs" and ?e = "esc_rune (rune_of (take w bs), take w bs, True)"
  have ok: "wide_ok k ?b" if "k < 2" for k using wide_rune [OF w that] by (simp add: assms(1))
  have wide: "list_all (\<lambda>b. 128 \<le> b \<and> b < 256) ?b" "rune_of ?b \<ge> 128" using ok [of 0] by (simp_all add: wide_ok_def)
  show ?thesis
  proof (cases "rune_of ?b = 8232 \<or> rune_of ?b = 8233")
    case True
    then obtain k where k: "k < 2" "rune_of ?b = 8232 + k" by (auto intro: that [of 0] that [of 1])
    have e: "?e = esc_u (8232 + k)" using k by (auto simp: esc_rune_def)
    have "enc_rune (8232 + k) = map char_of ?b" using ok [OF k(1)] k by (auto simp: wide_ok_def enc_rune_def less_2_cases_iff)
    moreover have "\<not> high_surrogate (8232 + k)" "8232 + k < 65536" using k by (simp_all add: high_surrogate_def)
    ultimately have "scan_string (1 + n) (?e @ r) = map_option (\<lambda>(t, rest). (map char_of ?b @ t, rest)) (scan_string n r)" for n r
      using scan_escaped [OF unescape_u] by (simp add: e esc_u_def del: scan_string.simps)
    then show ?thesis by (intro exI [of _ 1]) (simp add: e esc_u_def del: scan_string.simps)
  next
    case no: False
    have e: "?e = map char_of ?b" using wide(2) no by (auto simp: esc_rune_def)
    have "length ?b > 0" using assms w by (cases bs) simp_all
    then show ?thesis using scan_high [OF wide(1)] unfolding e by (intro exI [of _ "length ?b"]) simp
  qed
qed

text \<open>An escape function whose output the scanner reads back, rune by rune.\<close>

definition reads_runes :: "(nat \<times> nat list \<times> bool \<Rightarrow> string) \<Rightarrow> bool" where
  "reads_runes esc \<longleftrightarrow> (\<forall>bs. utf8_width bs \<noteq> 0 \<longrightarrow> list_all (\<lambda>b. b < 256) bs \<longrightarrow>
     (let x = (rune_of (take (utf8_width bs) bs), take (utf8_width bs) bs, True)
      in \<exists>k \<le> length (esc x). \<forall>n r. scan_string (k + n) (esc x @ r) =
        map_option (\<lambda>(t, rest). (map char_of (take (utf8_width bs) bs) @ t, rest)) (scan_string n r)))"

lemma esc_rune_reads: "reads_runes esc_rune"
  using scan_rune [OF refl] unfolding reads_runes_def Let_def by blast

lemma scan_runes:
  assumes "reads_runes esc" "list_all (\<lambda>(_, _, ok). ok) (rune_list bs)" "list_all (\<lambda>b. b < 256) bs"
  shows "\<exists>k \<le> length (concat (map esc (rune_list bs))). \<forall>n r.
    scan_string (k + n) (concat (map esc (rune_list bs)) @ r) = map_option (\<lambda>(t, rest). (map char_of bs @ t, rest)) (scan_string n r)"
  using assms(2,3)
proof (induction bs rule: rune_list.induct)
  case 1
  show ?case by (intro exI [of _ 0]) (simp add: case_prod_unfold option.map_ident)
next
  case (2 a r)
  let ?bs = "a # r" and ?w = "utf8_width (a # r)"
  have w: "?w \<noteq> 0"
  proof
    assume "?w = 0"
    then show False using 2(3) by (simp del: utf8_width.simps)
  qed
  have split: "rune_list ?bs = (rune_of (take ?w ?bs), take ?w ?bs, True) # rune_list (drop ?w ?bs)"
    using w by (simp add: Let_def del: utf8_width.simps)
  have "list_all (\<lambda>b. b < 256) (drop ?w ?bs)" using 2(4) by (meson in_set_dropD list_all_iff)
  then obtain k where k: "k \<le> length (concat (map esc (rune_list (drop ?w ?bs))))" "\<And>n r'.
      scan_string (k + n) (concat (map esc (rune_list (drop ?w ?bs))) @ r') =
        map_option (\<lambda>(t, rest). (map char_of (drop ?w ?bs) @ t, rest)) (scan_string n r')"
    using 2(2) [OF refl w] 2(3) unfolding split by auto
  obtain j where j: "j \<le> length (esc (rune_of (take ?w ?bs), take ?w ?bs, True))" "\<And>n r'.
      scan_string (j + n) (esc (rune_of (take ?w ?bs), take ?w ?bs, True) @ r') =
        map_option (\<lambda>(t, rest). (map char_of (take ?w ?bs) @ t, rest)) (scan_string n r')"
    using assms(1) w 2(4) unfolding reads_runes_def Let_def by blast
  have app: "map char_of ?bs @ t = map char_of (take ?w ?bs) @ map char_of (drop ?w ?bs) @ t" for t
    by (metis append.assoc append_take_drop_id map_append)
  show ?case
    unfolding split app
    by (intro exI [of _ "j + k"])
      (use j k in \<open>simp add: add.assoc option.map_comp comp_def case_prod_unfold del: scan_string.simps utf8_width.simps\<close>)
qed

lemma scan_string_mono: "scan_string k s = Some x \<Longrightarrow> k \<le> n \<Longrightarrow> scan_string n s = Some x"
proof (induction k arbitrary: s x n)
  case (Suc k)
  then obtain m where n: "n = Suc m" "k \<le> m" by (cases n) auto
  show ?case using Suc.prems(1) Suc.IH [OF _ n(2)] by (auto simp: n(1) split: list.splits option.splits if_splits)
qed simp

lemma scan_written:
  assumes "reads_runes esc" "valid_utf8 s" "length (concat (map esc (runes s))) + Suc (length r) \<le> n"
  shows "scan_string n (concat (map esc (runes s)) @ dquote # r) = Some (s, r)"
proof -
  have "list_all (\<lambda>b. b < 256) (map byte s)" by (simp add: list_all_iff byte_lt)
  then obtain k where k: "k \<le> length (concat (map esc (runes s)))"
    "\<And>n r. scan_string (k + n) (concat (map esc (runes s)) @ r) = map_option (\<lambda>(t, rest). (s @ t, rest)) (scan_string n r)"
    using scan_runes [OF assms(1), of "map byte s"] assms(2) unfolding valid_utf8_def runes_def by auto
  have "scan_string (k + Suc (length r)) (concat (map esc (runes s)) @ dquote # r) = Some (s, r)" unfolding k by simp
  moreover have "k + Suc (length r) \<le> n" using k(1) assms(3) by simp
  ultimately show ?thesis by (rule scan_string_mono)
qed

lemma scan_enc_string:
  assumes "valid_utf8 s" "length (tl (enc_string s) @ r) \<le> n"
  shows "scan_string n (tl (enc_string s) @ r) = Some (s, r)"
  using scan_written [OF esc_rune_reads assms(1), of r n] assms(2) by (simp add: enc_string_def)

section \<open>Numbers\<close>

text \<open>What may follow a value inside a document.\<close>

definition stops :: "string \<Rightarrow> bool" where
  "stops r \<longleftrightarrow> r = [] \<or> hd r = CHR '','' \<or> hd r = CHR '']'' \<or> hd r = CHR ''}'' \<or> ws (hd r)"

lemma stops_digit: "stops (c # r) \<Longrightarrow> \<not> is_digit c \<and> c \<noteq> CHR ''.'' \<and> c \<noteq> CHR ''e'' \<and> c \<noteq> CHR ''E''"
  by (auto simp: stops_def is_digit_def ws_def byte_def)

lemma scan_digits_append: "stops r \<Longrightarrow> scan_digits s = (ds, q) \<Longrightarrow> scan_digits (s @ r) = (ds, q @ r)"
proof -
  assume r: "stops r" and s: "scan_digits s = (ds, q)"
  have "takeWhile is_digit r = []" "dropWhile is_digit r = r" using stops_digit r by (cases r; fastforce)+
  then show ?thesis
  proof (cases "\<forall>x\<in>set s. is_digit x")
    case True
    then have t: "takeWhile is_digit s = s" "dropWhile is_digit s = []" by simp_all
    have "ds = s" "q = []" using s unfolding scan_digits_def t by simp_all
    then show ?thesis using True \<open>takeWhile is_digit r = []\<close> \<open>dropWhile is_digit r = r\<close>
      by (simp add: scan_digits_def takeWhile_append dropWhile_append)
  next
    case False
    then show ?thesis using s by (auto simp: scan_digits_def takeWhile_append dropWhile_append)
  qed
qed

lemma scan_int_part_append: "stops r \<Longrightarrow> scan_int_part s = Some (i, q) \<Longrightarrow> scan_int_part (s @ r) = Some (i, q @ r)"
  by (cases "scan_digits s") (auto simp: scan_int_part_def scan_digits_append split: list.splits if_splits)

lemma scan_fraction_append: "stops r \<Longrightarrow> scan_fraction s = Some (f, q) \<Longrightarrow> scan_fraction (s @ r) = Some (f, q @ r)"
proof (cases s)
  case Nil
  assume "stops r" "scan_fraction s = Some (f, q)"
  then show ?thesis using stops_digit Nil by (cases r) (auto simp: scan_fraction_def)
next
  case (Cons c cs)
  assume "stops r" "scan_fraction s = Some (f, q)"
  then show ?thesis by (cases "scan_digits cs") (auto simp: scan_fraction_def Cons scan_digits_append split: list.splits if_splits)
qed

lemma scan_exponent_append: "stops r \<Longrightarrow> scan_exponent s = Some (e, q) \<Longrightarrow> scan_exponent (s @ r) = Some (e, q @ r)"
proof (cases s)
  case Nil
  assume "stops r" "scan_exponent s = Some (e, q)"
  then show ?thesis using stops_digit Nil by (cases r) (auto simp: scan_exponent_def)
next
  case (Cons c cs)
  assume a: "stops r" "scan_exponent s = Some (e, q)"
  show ?thesis
  proof (cases "c = CHR ''e'' \<or> c = CHR ''E''")
    case True
    then have "cs \<noteq> []" using a Cons by (auto simp: scan_exponent_def scan_digits_def)
    then obtain x xs where cs: "cs = x # xs" by (cases cs) auto
    show ?thesis using a True
      by (cases "scan_digits xs"; cases "scan_digits (x # xs)")
        (auto simp: scan_exponent_def Let_def Cons cs scan_digits_append [of r "x # xs", simplified] scan_digits_append split: list.splits if_splits)
  next
    case False
    then show ?thesis using a Cons by (auto simp: scan_exponent_def)
  qed
qed

lemma scan_number_append: "stops r \<Longrightarrow> scan_number s = Some (t, q) \<Longrightarrow> scan_number (s @ r) = Some (t, q @ r)"
proof (cases s)
  case Nil
  assume "stops r" "scan_number s = Some (t, q)"
  then show ?thesis by (simp add: Nil scan_number_def scan_int_part_def scan_digits_def)
next
  case (Cons c cs)
  assume a: "stops r" "scan_number s = Some (t, q)"
  let ?b = "if c = CHR ''-'' then cs else c # cs"
  obtain i r1 f r2 e where n: "scan_int_part ?b = Some (i, r1)" "scan_fraction r1 = Some (f, r2)" "scan_exponent r2 = Some (e, q)"
      "t = (if c = CHR ''-'' then ''-'' else []) @ i @ f @ e"
    using a(2) by (auto simp: Cons scan_number_def Let_def split: option.splits prod.splits if_splits)
  have "scan_int_part (if c = CHR ''-'' then cs @ r else c # cs @ r) = Some (i, r1 @ r)"
    using scan_int_part_append [OF a(1) n(1)] by (simp split: if_splits)
  then show ?thesis
    using scan_fraction_append [OF a(1) n(2)] scan_exponent_append [OF a(1) n(3)] n(4)
    by (cases "c = CHR ''-''") (simp_all add: Cons scan_number_def Let_def)
qed

lemma dec_nat_lead: "hd (dec_nat n) = CHR ''0'' \<Longrightarrow> n = 0"
proof (induction n rule: dec_nat.induct)
  case (1 n)
  show ?case
  proof (cases "n < 10")
    case True
    then have "byte (digit n) = 48" using 1(2) by (simp add: dec_nat.simps [of n] byte_def)
    then show ?thesis using True by (simp add: byte_digit)
  next
    case False
    then have "hd (dec_nat n) = hd (dec_nat (n div 10))" using dec_nat_digits [of "n div 10"] by (simp add: dec_nat.simps [of n])
    then show ?thesis using 1 False by simp
  qed
qed

lemma scan_int_dec: "scan_int_part (dec_nat n) = Some (dec_nat n, [])"
proof -
  have d: "\<forall>x\<in>set (dec_nat n). is_digit x" "dec_nat n \<noteq> []" using dec_nat_digits [of n] by (simp_all add: list_all_iff)
  then have s: "scan_digits (dec_nat n) = (dec_nat n, [])" by (simp add: scan_digits_def)
  have "tl (dec_nat n) = []" if "hd (dec_nat n) = CHR ''0''"
    using dec_nat_lead [OF that] by (simp add: dec_nat.simps [of 0])
  then show ?thesis using s d(2) by (cases "dec_nat n") (simp_all add: scan_int_part_def)
qed

definition json_number :: "string \<Rightarrow> bool" where
  "json_number s \<longleftrightarrow> scan_number s = Some (s, [])"

lemma json_number_nat: "json_number (dec_nat n)"
proof -
  obtain c cs where c: "dec_nat n = c # cs" "is_digit c" using dec_nat_digits [of n] by (cases "dec_nat n") auto
  then have "c \<noteq> CHR ''-''" by (auto simp: is_digit_def byte_def)
  then show ?thesis using scan_int_dec [of n] c(1)
    by (simp add: json_number_def scan_number_def scan_fraction_def scan_exponent_def)
qed

lemma json_number_int: "json_number (dec_int i)"
  using json_number_nat [of "nat i"] scan_int_dec [of "nat (- i)"]
  by (auto simp: dec_int_def json_number_def scan_number_def scan_fraction_def scan_exponent_def)

section \<open>Values\<close>

fun readable :: "nat \<Rightarrow> json \<Rightarrow> bool" where
  "readable d (JNum s) = json_number s"
| "readable d (JStr s) = valid_utf8 s"
| "readable d (JArr xs) = (d > 0 \<and> list_all (readable (d - 1)) xs)"
| "readable d (JObj m) = (d > 0 \<and> list_all (\<lambda>(k, v). valid_utf8 k \<and> readable (d - 1) v) m)"
| "readable d _ = True"

lemma not_ws: "c \<in> {CHR ''{'', CHR ''['', CHR '']'', CHR ''}'', CHR '','', CHR '':'', CHR ''-'', CHR ''t'', CHR ''f'', CHR ''n'', dquote} \<Longrightarrow> \<not> ws c"
  using byte_marks by (auto simp: ws_def) (simp_all add: byte_def)

lemma skip_ws_Cons: "\<not> ws c \<Longrightarrow> skip_ws (c # s) = c # s"
  by (simp add: skip_ws_def)

definition lead_char :: "char \<Rightarrow> bool" where
  "lead_char c \<longleftrightarrow> \<not> ws c \<and> c \<noteq> CHR '']'' \<and> c \<noteq> CHR ''}''"

lemma number_lead:
  assumes "json_number s"
  obtains c t where "s = c # t" "c = CHR ''-'' \<or> is_digit c"
proof (cases s)
  case Nil
  then show thesis using assms by (simp add: json_number_def scan_number_def scan_int_part_def scan_digits_def)
next
  case (Cons c t)
  have "c = CHR ''-'' \<or> is_digit c"
  proof (rule ccontr)
    assume "\<not> ?thesis"
    then show False using assms by (simp add: Cons json_number_def scan_number_def scan_int_part_def scan_digits_def)
  qed
  then show thesis using Cons that by blast
qed

lemma digit_leads: "c = CHR ''-'' \<or> is_digit c \<Longrightarrow>
   lead_char c \<and> c \<noteq> CHR ''{'' \<and> c \<noteq> CHR ''['' \<and> c \<noteq> dquote \<and> c \<noteq> CHR ''t'' \<and> c \<noteq> CHR ''f'' \<and> c \<noteq> CHR ''n''"
  by (auto simp: lead_char_def ws_def is_mark is_digit_def) (simp_all add: byte_def)

lemma dquote_other: "c \<in> {CHR ''{'', CHR ''['', CHR '']'', CHR ''}'', CHR '','', CHR '':''} \<Longrightarrow> dquote \<noteq> c"
proof
  assume c: "c \<in> {CHR ''{'', CHR ''['', CHR '']'', CHR ''}'', CHR '','', CHR '':''}" "dquote = c"
  have "byte c \<noteq> 34" using c(1) by (auto simp: byte_def)
  then show False using c(2) byte_marks by simp
qed

lemma lead_chars: "lead_char (CHR ''{'')" "lead_char (CHR ''['')" "lead_char (CHR ''t'')" "lead_char (CHR ''f'')" "lead_char (CHR ''n'')" "lead_char dquote"
  by (simp_all add: lead_char_def not_ws dquote_other)

lemma enc_leads:
  assumes "readable d v"
  shows "\<exists>c t. enc_json v = c # t \<and> lead_char c"
proof (cases v)
  case (JNum s)
  then have "json_number s" using assms by simp
  then obtain c t where "s = c # t" "c = CHR ''-'' \<or> is_digit c" by (rule number_lead)
  then show ?thesis using digit_leads JNum by simp
qed (use lead_chars in \<open>simp_all add: enc_string_def\<close>)

definition reads_back :: "nat \<Rightarrow> json \<Rightarrow> bool" where
  "reads_back d v \<longleftrightarrow> (\<forall>r. stops r \<longrightarrow> (\<exists>N. \<forall>n\<ge>N. text_value n d (enc_json v @ r) = Some (v, r)))"

lemma reads_backI: "(\<And>r n. stops r \<Longrightarrow> N r \<le> n \<Longrightarrow> text_value n d (enc_json v @ r) = Some (v, r)) \<Longrightarrow> reads_back d v"
  unfolding reads_back_def by blast

lemma reads_scalar:
  assumes "\<And>r. stops r \<Longrightarrow> scan_scalar (enc_json v @ r) = Some (v, r)" "enc_json v = c # t" "lead_char c" "c \<noteq> CHR ''{''" "c \<noteq> CHR ''[''"
  shows "reads_back d v"
proof (rule reads_backI [where N = "\<lambda>_. 1"])
  fix r and n :: nat
  assume r: "stops r" "1 \<le> n"
  then obtain m where "n = Suc m" by (cases n) auto
  moreover have "skip_ws (c # t @ r) = c # t @ r" using assms(3) by (simp add: lead_char_def skip_ws_Cons)
  ultimately show "text_value n d (enc_json v @ r) = Some (v, r)"
    using assms(1) [OF r(1)] assms(2,4,5) by (simp add: starts_def)
qed

lemma elements_read:
  assumes "xs \<noteq> []" "\<forall>v\<in>set xs. reads_back d v"
  shows "\<exists>N. \<forall>n\<ge>N. text_elements n d (commas (map enc_json xs) @ CHR '']'' # r) = Some (xs, r)"
  using assms
proof (induction xs)
  case (Cons v xs)
  show ?case
  proof (cases xs)
    case Nil
    have "stops (CHR '']'' # r)" by (simp add: stops_def)
    then obtain N where N: "\<And>n. n \<ge> N \<Longrightarrow> text_value n d (enc_json v @ CHR '']'' # r) = Some (v, CHR '']'' # r)"
      using Cons.prems unfolding reads_back_def by force
    have "text_elements n d (enc_json v @ CHR '']'' # r) = Some ([v], r)" if "n \<ge> Suc N" for n
      using that N by (cases n) (simp_all add: Let_def skip_ws_Cons not_ws starts_def)
    then show ?thesis using Nil by auto
  next
    case tl: (Cons y ys)
    let ?t = "commas (map enc_json xs) @ CHR '']'' # r"
    have "stops (CHR '','' # ?t)" by (simp add: stops_def)
    then obtain N where N: "\<And>n. n \<ge> N \<Longrightarrow> text_value n d (enc_json v @ CHR '','' # ?t) = Some (v, CHR '','' # ?t)"
      using Cons.prems unfolding reads_back_def by (meson list.set_intros(1))
    obtain M where M: "\<And>n. n \<ge> M \<Longrightarrow> text_elements n d ?t = Some (xs, r)" using Cons.IH Cons.prems tl by auto
    have "text_elements n d (enc_json v @ CHR '','' # ?t) = Some (v # xs, r)" if "n \<ge> Suc (max N M)" for n
      using that N M by (cases n) (simp_all add: Let_def skip_ws_Cons not_ws starts_def)
    moreover have "commas (map enc_json (v # xs)) @ CHR '']'' # r = enc_json v @ CHR '','' # ?t" by (simp add: tl)
    ultimately show ?thesis by auto
  qed
qed simp

lemma key_read:
  assumes "valid_utf8 k"
  shows "skip_ws (enc_string k @ r) = enc_string k @ r" "starts dquote (enc_string k @ r)"
    "scan_string (length (tl (enc_string k @ r))) (tl (enc_string k @ r)) = Some (k, r)"
proof -
  obtain t where t: "enc_string k = dquote # t" by (simp add: enc_string_def)
  show "skip_ws (enc_string k @ r) = enc_string k @ r" "starts dquote (enc_string k @ r)"
    by (simp_all add: t skip_ws_Cons not_ws starts_def)
  show "scan_string (length (tl (enc_string k @ r))) (tl (enc_string k @ r)) = Some (k, r)"
    using scan_enc_string [OF assms, of r] by (simp add: t)
qed

lemma text_member:
  assumes "valid_utf8 k" "text_value n d (b @ w) = Some (v, c # q)" "\<not> ws c"
  shows "text_members (Suc n) d (enc_string k @ CHR '':'' # b @ w) =
    (if c = CHR '','' then map_option (\<lambda>(m, r'). ((k, v) # m, r')) (text_members n d q)
     else if c = CHR ''}'' then Some ([(k, v)], q) else None)"
  using assms(2,3) key_read [OF assms(1), of "CHR '':'' # b @ w"]
  by (simp add: Let_def skip_ws_Cons not_ws starts_def)

lemma members_read:
  assumes "m \<noteq> []" "\<forall>(k, v)\<in>set m. valid_utf8 k \<and> reads_back d v"
  shows "\<exists>N. \<forall>n\<ge>N. text_members n d (commas (map (\<lambda>(k, v). enc_string k @ '':'' @ enc_json v) m) @ CHR ''}'' # r) = Some (m, r)"
  using assms
proof (induction m)
  case (Cons kv m)
  obtain k v where kv: "kv = (k, v)" by (cases kv)
  have ok: "valid_utf8 k" "reads_back d v" using Cons.prems kv by auto
  let ?e = "\<lambda>(k, v). enc_string k @ '':'' @ enc_json v"
  show ?case
  proof (cases m)
    case Nil
    have "stops (CHR ''}'' # r)" by (simp add: stops_def)
    then obtain N where N: "\<And>n. n \<ge> N \<Longrightarrow> text_value n d (enc_json v @ CHR ''}'' # r) = Some (v, CHR ''}'' # r)"
      using ok(2) unfolding reads_back_def by blast
    have "text_members n d (enc_string k @ CHR '':'' # enc_json v @ CHR ''}'' # r) = Some ([(k, v)], r)" if "n \<ge> Suc N" for n
      using that N text_member [OF ok(1), of "n - 1"] by (cases n) (simp_all add: not_ws)
    then show ?thesis by (auto simp: Nil kv)
  next
    case tl: (Cons y ys)
    let ?t = "commas (map ?e m) @ CHR ''}'' # r"
    have "stops (CHR '','' # ?t)" by (simp add: stops_def)
    then obtain N where N: "\<And>n. n \<ge> N \<Longrightarrow> text_value n d (enc_json v @ CHR '','' # ?t) = Some (v, CHR '','' # ?t)"
      using ok(2) unfolding reads_back_def by blast
    obtain M where M: "\<And>n. n \<ge> M \<Longrightarrow> text_members n d ?t = Some (m, r)" using Cons.IH Cons.prems tl by auto
    have "text_members n d (enc_string k @ CHR '':'' # enc_json v @ CHR '','' # ?t) = Some ((k, v) # m, r)" if "n \<ge> Suc (max N M)" for n
      using that N M text_member [OF ok(1), of "n - 1"] by (cases n) (simp_all add: not_ws)
    moreover have "commas (map ?e (kv # m)) @ CHR ''}'' # r = enc_string k @ CHR '':'' # enc_json v @ CHR '','' # ?t"
      by (simp add: tl kv)
    ultimately show ?thesis by (auto simp: kv)
  qed
qed simp

section \<open>Documents\<close>

lemma scalar_string: "valid_utf8 s \<Longrightarrow> scan_scalar (enc_string s @ r) = Some (JStr s, r)"
proof -
  assume s: "valid_utf8 s"
  obtain t where t: "enc_string s = dquote # t" by (simp add: enc_string_def)
  then show ?thesis using scan_enc_string [OF s, of r "length (t @ r)"] by (simp add: scan_scalar_def)
qed

lemma scalar_number: "json_number s \<Longrightarrow> stops r \<Longrightarrow> scan_scalar (s @ r) = Some (JNum s, r)"
proof -
  assume s: "json_number s" "stops r"
  obtain c t where c: "s = c # t" "c = CHR ''-'' \<or> is_digit c" using s(1) by (rule number_lead)
  have "scan_number (c # t @ r) = Some (s, r)" using scan_number_append [OF s(2), of s s "[]"] s(1) c(1) by (simp add: json_number_def)
  then show ?thesis using digit_leads [OF c(2)] c(1) by (simp add: scan_scalar_def)
qed

lemma scalar_words:
  "scan_scalar (''null'' @ r) = Some (JNull, r)" "scan_scalar (''true'' @ r) = Some (JBool True, r)"
  "scan_scalar (''false'' @ r) = Some (JBool False, r)"
proof -
  have "dquote \<noteq> CHR ''n''" "dquote \<noteq> CHR ''t''" "dquote \<noteq> CHR ''f''"
  proof -
    have "byte (CHR ''n'') = 110" "byte (CHR ''t'') = 116" "byte (CHR ''f'') = 102" by (simp_all add: byte_def)
    then show "dquote \<noteq> CHR ''n''" "dquote \<noteq> CHR ''t''" "dquote \<noteq> CHR ''f''" using byte_marks by auto
  qed
  note n = this this [symmetric]
  show "scan_scalar (''null'' @ r) = Some (JNull, r)" "scan_scalar (''true'' @ r) = Some (JBool True, r)"
    "scan_scalar (''false'' @ r) = Some (JBool False, r)"
    using n by (simp_all add: scan_scalar_def literal_def)
qed

lemma text_value_array:
  "xs \<noteq> [] \<Longrightarrow> enc_json (hd xs) = c # t \<Longrightarrow> lead_char c \<Longrightarrow> d > 0 \<Longrightarrow>
    text_value (Suc n) d (enc_json (JArr xs) @ r) =
      map_option (\<lambda>(xs, r). (JArr xs, r)) (text_elements n (d - 1) (commas (map enc_json xs) @ CHR '']'' # r))"
  by (cases xs; cases "tl xs") (simp_all add: lead_char_def skip_ws_Cons not_ws starts_def Let_def)

lemma text_value_object:
  "m \<noteq> [] \<Longrightarrow> d > 0 \<Longrightarrow> text_value (Suc n) d (enc_json (JObj m) @ r) =
    map_option (\<lambda>(m, r). (JObj m, r)) (text_members n (d - 1) (commas (map (\<lambda>(k, v). enc_string k @ '':'' @ enc_json v) m) @ CHR ''}'' # r))"
proof -
  assume m: "m \<noteq> []" "d > 0"
  obtain k v ms where kv: "m = (k, v) # ms" using m by (cases m) auto
  obtain t where "enc_string k = dquote # t" by (simp add: enc_string_def)
  then obtain u where u: "commas (map (\<lambda>(k, v). enc_string k @ '':'' @ enc_json v) m) = dquote # u"
    by (cases ms) (auto simp: kv)
  have s: "skip_ws ((dquote # u) @ CHR ''}'' # r) = (dquote # u) @ CHR ''}'' # r" by (simp add: skip_ws_Cons not_ws)
  have b: "skip_ws (enc_json (JObj m) @ r) = CHR ''{'' # (dquote # u) @ CHR ''}'' # r"
    unfolding enc_json.simps u by (simp add: skip_ws_Cons not_ws)
  show ?thesis unfolding u text_value.simps(2) b
    using m(2) s by (simp add: starts_def Let_def dquote_other)
qed

lemma empty_read: "d > 0 \<Longrightarrow> text_value (Suc n) d (enc_json (JArr []) @ r) = Some (JArr [], r)"
  "d > 0 \<Longrightarrow> text_value (Suc n) d (enc_json (JObj []) @ r) = Some (JObj [], r)"
  by (simp_all add: skip_ws_Cons not_ws starts_def Let_def)

lemma readable_reads: "readable d v \<Longrightarrow> reads_back d v"
proof (induction v arbitrary: d)
  case JNull
  show ?case by (rule reads_scalar [where c = "CHR ''n''" and t = "''ull''"]) (use scalar_words(1) lead_chars in simp_all)
next
  case (JBool b)
  show ?case
  proof (cases b)
    case True
    then show ?thesis
      by (intro reads_scalar [where c = "CHR ''t''" and t = "''rue''"]) (use scalar_words(2) lead_chars in simp_all)
  next
    case False
    then show ?thesis
      by (intro reads_scalar [where c = "CHR ''f''" and t = "''alse''"]) (use scalar_words(3) lead_chars in simp_all)
  qed
next
  case (JNum s)
  then have s: "json_number s" by simp
  obtain c t where c: "s = c # t" "c = CHR ''-'' \<or> is_digit c" using s by (rule number_lead)
  show ?case by (rule reads_scalar [where c = c and t = t]) (use scalar_number [OF s] c digit_leads [OF c(2)] in auto)
next
  case (JStr s)
  then have s: "valid_utf8 s" by simp
  obtain t where t: "enc_string s = dquote # t" by (simp add: enc_string_def)
  show ?case by (rule reads_scalar [where c = dquote and t = t])
    (use scalar_string [OF s] t lead_chars dquote_other in auto)
next
  case (JArr xs)
  show ?case
  proof (cases "xs = []")
    case True
    then show ?thesis using JArr.prems empty_read(1)
      by (intro reads_backI [where N = "\<lambda>_. 1"]) (metis One_nat_def Suc_le_D readable.simps(3))
  next
    case False
    have d: "d > 0" "\<forall>v\<in>set xs. readable (d - 1) v" using JArr.prems by (simp_all add: list_all_iff)
    then have "\<forall>v\<in>set xs. reads_back (d - 1) v" using JArr.IH by blast
    then have el: "\<exists>N. \<forall>n\<ge>N. text_elements n (d - 1) (commas (map enc_json xs) @ CHR '']'' # r) = Some (xs, r)" for r
      using elements_read [OF False] by blast
    obtain c t where c: "enc_json (hd xs) = c # t" "lead_char c" using enc_leads d(2) False hd_in_set by blast
    have "\<exists>N. \<forall>n\<ge>N. text_value n d (enc_json (JArr xs) @ r) = Some (JArr xs, r)" for r
    proof -
      obtain N where N: "\<And>n. n \<ge> N \<Longrightarrow> text_elements n (d - 1) (commas (map enc_json xs) @ CHR '']'' # r) = Some (xs, r)"
        using el by blast
      have "text_value n d (enc_json (JArr xs) @ r) = Some (JArr xs, r)" if "n \<ge> Suc N" for n
        using that N text_value_array [OF False c d(1), of "n - 1" r] by (cases n) simp_all
      then show ?thesis by blast
    qed
    then show ?thesis by (simp add: reads_back_def)
  qed
next
  case (JObj m)
  show ?case
  proof (cases "m = []")
    case True
    then show ?thesis using JObj.prems empty_read(2)
      by (intro reads_backI [where N = "\<lambda>_. 1"]) (metis One_nat_def Suc_le_D readable.simps(4))
  next
    case False
    let ?e = "\<lambda>(k, v). enc_string k @ '':'' @ enc_json v"
    have d: "d > 0" "\<forall>(k, v)\<in>set m. valid_utf8 k \<and> readable (d - 1) v" using JObj.prems by (simp_all add: list_all_iff)
    then have "\<forall>(k, v)\<in>set m. valid_utf8 k \<and> reads_back (d - 1) v" using JObj.IH by fastforce
    then have el: "\<exists>N. \<forall>n\<ge>N. text_members n (d - 1) (commas (map ?e m) @ CHR ''}'' # r) = Some (m, r)" for r
      using members_read [OF False] by blast
    have "\<exists>N. \<forall>n\<ge>N. text_value n d (enc_json (JObj m) @ r) = Some (JObj m, r)" for r
    proof -
      obtain N where N: "\<And>n. n \<ge> N \<Longrightarrow> text_members n (d - 1) (commas (map ?e m) @ CHR ''}'' # r) = Some (m, r)"
        using el by blast
      have "text_value n d (enc_json (JObj m) @ r) = Some (JObj m, r)" if "n \<ge> Suc N" for n
        using that N text_value_object [OF False d(1), of "n - 1" r] by (cases n) simp_all
      then show ?thesis by blast
    qed
    then show ?thesis by (simp add: reads_back_def)
  qed
qed

lemma json_text_reads:
  assumes "readable d v" "stops r"
  shows "json_text d (enc_json v @ r) = Some (v, r)"
proof -
  obtain N where N: "\<And>n. n \<ge> N \<Longrightarrow> text_value n d (enc_json v @ r) = Some (v, r)"
    using readable_reads [OF assms(1)] assms(2) unfolding reads_back_def by blast
  let ?n = "max N (Suc (2 * length (enc_json v @ r)))"
  have "json_text d (enc_json v @ r) = text_value ?n d (enc_json v @ r)"
    unfolding json_text_def by (rule text_fuel) auto
  then show ?thesis using N [of ?n] by simp
qed

lemma whole_enc: "readable max_nesting v \<Longrightarrow> whole (enc_json v) = Some v"
  using json_text_reads [of max_nesting v "[]"] by (simp add: whole_def stops_def skip_ws_def)

lemma enc_json_inject: "readable max_nesting v \<Longrightarrow> readable max_nesting w \<Longrightarrow> enc_json v = enc_json w \<Longrightarrow> v = w"
  by (metis option.inject whole_enc)

section \<open>The encoder writes valid UTF-8\<close>

abbreviation all_valid :: "nat list \<Rightarrow> bool" where
  "all_valid bs \<equiv> list_all (\<lambda>(_, _, ok). ok) (rune_list bs)"

lemma width_append: "utf8_width bs = w \<Longrightarrow> w \<noteq> 0 \<Longrightarrow> utf8_width (bs @ cs) = w \<and> utf8_width (take w bs) = w \<and> w \<le> length bs"
  by (cases bs) (auto split: list.splits if_splits)

lemma rune_list_width: "utf8_width bs = w \<Longrightarrow> w \<noteq> 0 \<Longrightarrow>
  rune_list bs = (rune_of (take w bs), take w bs, True) # rune_list (drop w bs)"
  by (cases bs) (simp_all add: Let_def del: utf8_width.simps(2))

lemma rune_list_bad: "bs \<noteq> [] \<Longrightarrow> utf8_width bs = 0 \<Longrightarrow> \<not> all_valid bs"
  by (cases bs) (simp_all add: Let_def del: utf8_width.simps)

lemma all_valid_append: "all_valid bs \<Longrightarrow> rune_list (bs @ cs) = rune_list bs @ rune_list cs"
proof (induction bs rule: length_induct)
  case (1 bs)
  show ?case
  proof (cases "bs = []")
    case False
    then have w: "utf8_width bs \<noteq> 0" using 1(2) rune_list_bad by blast
    let ?w = "utf8_width bs"
    note a = width_append [OF refl w, of cs]
    have "rune_list (drop ?w bs @ cs) = rune_list (drop ?w bs) @ rune_list cs"
      using 1 rune_list_width [OF refl w] w False by auto
    then show ?thesis using rune_list_width [OF refl w] rune_list_width [of "bs @ cs" ?w] a w by simp
  qed simp
qed

lemma valid_utf8_append: "valid_utf8 s \<Longrightarrow> valid_utf8 t \<Longrightarrow> valid_utf8 (s @ t)"
  using all_valid_append by (simp add: valid_utf8_def runes_def)

lemma all_valid_pieces: "all_valid bs \<Longrightarrow> x \<in> set (rune_list bs) \<Longrightarrow> (case x of (r, c, ok) \<Rightarrow> all_valid c \<and> list_all (\<lambda>b. b \<in> set bs) c \<and> ok)"
proof (induction bs rule: length_induct)
  case (1 bs)
  show ?case
  proof (cases "bs = []")
    case False
    then have w: "utf8_width bs \<noteq> 0" using 1(2) rune_list_bad by blast
    let ?w = "utf8_width bs"
    note l = rune_list_width [OF refl w]
    have piece: "rune_list (take ?w bs) = [(rune_of (take ?w bs), take ?w bs, True)]"
      using rune_list_width [of "take ?w bs" ?w] width_append [OF refl w] w by simp
    consider "x = (rune_of (take ?w bs), take ?w bs, True)" | "x \<in> set (rune_list (drop ?w bs))" using 1(3) l by auto
    then show ?thesis
    proof cases
      case 1
      then show ?thesis using piece in_set_takeD by (fastforce simp: list_all_iff)
    next
      case 2
      moreover have "length (drop ?w bs) < length bs" "all_valid (drop ?w bs)" using 1(2) l w False by auto
      ultimately have "case x of (r, c, ok) \<Rightarrow> all_valid c \<and> list_all (\<lambda>b. b \<in> set (drop ?w bs)) c \<and> ok" using 1(1) by blast
      then show ?thesis using in_set_dropD by (fastforce simp: list_all_iff)
    qed
  qed (use 1 in simp)
qed

lemma esc_u_ascii: "ascii (esc_u n)"
proof -
  have "byte (hex_digit d) < 128" if "d < 16" for d using that by (simp add: hex_digit_def byte_def)
  then show ?thesis by (simp add: esc_u_def backslash_def) (simp add: byte_def)
qed

lemma esc_rune_valid:
  assumes "all_valid bs" "list_all (\<lambda>b. b < 256) bs"
  shows "valid_utf8 (esc_rune (r, bs, True))"
proof -
  have "map byte (map char_of bs) = bs" using assms(2) by (simp add: list_all_iff map_idI byte_char_of)
  then have v: "valid_utf8 (map char_of bs)" using assms(1) by (simp add: valid_utf8_def runes_def)
  have "esc_rune (r, bs, True) = map char_of bs \<or> ascii (esc_rune (r, bs, True))"
    by (simp add: esc_rune_def esc_u_ascii dquote_def backslash_def) (simp add: byte_def)
  then show ?thesis using v valid_utf8_ascii by auto
qed

lemma valid_utf8_concat: "\<forall>x\<in>set xs. valid_utf8 x \<Longrightarrow> valid_utf8 (concat xs)"
  by (induction xs) (simp_all add: valid_utf8_append valid_utf8_ascii)

lemma valid_mark: "valid_utf8 [c] \<longleftrightarrow> byte c < 128"
  by (simp add: valid_utf8_def runes_def)

lemma enc_string_valid:
  assumes "valid_utf8 s"
  shows "valid_utf8 (enc_string s)"
proof -
  have "valid_utf8 (esc_rune x)" if "x \<in> set (runes s)" for x
  proof -
    obtain r bs ok where x: "x = (r, bs, ok)" by (cases x)
    have "all_valid bs \<and> list_all (\<lambda>b. b \<in> set (map byte s)) bs \<and> ok"
      using all_valid_pieces [of "map byte s" x] assms that x by (simp add: valid_utf8_def runes_def)
    moreover have "list_all (\<lambda>b. b < 256) bs" using calculation byte_lt by (fastforce simp: list_all_iff)
    ultimately show ?thesis using esc_rune_valid [of bs r] x by simp
  qed
  then have "valid_utf8 (concat (map esc_rune (runes s)))" by (intro valid_utf8_concat) auto
  moreover have "valid_utf8 [dquote]" by (simp add: valid_mark byte_marks)
  ultimately show ?thesis unfolding enc_string_def by (intro valid_utf8_append)
qed

lemma commas_valid: "\<forall>x\<in>set xs. valid_utf8 x \<Longrightarrow> valid_utf8 (commas xs)"
proof (induction xs rule: commas.induct)
  case (3 x y xs)
  have "valid_utf8 '',''" by (simp add: valid_mark byte_def)
  then show ?case using 3 by (simp only: commas.simps) (intro valid_utf8_append; simp)
qed (simp_all add: valid_utf8_ascii)

lemma scan_digits_ascii: "scan_digits s = (ds, r) \<Longrightarrow> ascii ds"
  by (auto simp: scan_digits_def ascii_def list_all_iff is_digit_def dest!: set_takeWhileD)

lemma number_ascii: "scan_number s = Some (t, r) \<Longrightarrow> ascii t"
proof -
  assume "scan_number s = Some (t, r)"
  then obtain i r1 f r2 e n where n: "scan_int_part (if n then tl s else s) = Some (i, r1)" "scan_fraction r1 = Some (f, r2)"
      "scan_exponent r2 = Some (e, r)" "t = (if n then ''-'' else []) @ i @ f @ e"
    unfolding scan_number_def Let_def by (auto split: option.splits prod.splits)
  have m: "ascii ''-''" "ascii ''.''" "ascii ''e''" "ascii ''E''" "ascii ''+''" "ascii ''0''" by (simp_all add: byte_def)
  have "ascii i" using n(1) scan_digits_ascii m by (fastforce simp: scan_int_part_def split: prod.splits list.splits if_splits)
  moreover have "ascii f" using n(2) scan_digits_ascii m by (fastforce simp: scan_fraction_def split: prod.splits list.splits if_splits)
  moreover have "ascii e" using n(3) scan_digits_ascii m
    by (fastforce simp: scan_exponent_def Let_def split: prod.splits list.splits if_splits)
  ultimately show ?thesis using n(4) m by (simp add: ascii_def)
qed

lemma enc_json_valid: "readable d v \<Longrightarrow> valid_utf8 (enc_json v)"
proof (induction v arbitrary: d)
  case (JNum s)
  then show ?case using number_ascii [of s s "[]"] by (simp add: valid_utf8_ascii json_number_def byte_def)
next
  case (JArr xs)
  then have "valid_utf8 (commas (map enc_json xs))" by (intro commas_valid) (auto simp: list_all_iff)
  moreover have "valid_utf8 ''[''" "valid_utf8 '']''" by (simp_all add: valid_mark byte_def)
  ultimately show ?case by (simp only: enc_json.simps) (intro valid_utf8_append)
next
  case (JObj m)
  have p: "valid_utf8 ''{''" "valid_utf8 ''}''" "valid_utf8 '':''" by (simp_all add: valid_mark byte_def)
  have "valid_utf8 (enc_string k @ '':'' @ enc_json v)" if "(k, v) \<in> set m" for k v
  proof -
    have "valid_utf8 k" "readable (d - 1) v" using JObj.prems that by (auto simp: list_all_iff)
    then show ?thesis using JObj.IH [OF that, of v "d - 1"] p enc_string_valid by (intro valid_utf8_append) auto
  qed
  then have "valid_utf8 (commas (map (\<lambda>(k, v). enc_string k @ '':'' @ enc_json v) m))" by (intro commas_valid) auto
  then show ?case using p by (simp only: enc_json.simps) (intro valid_utf8_append)
qed (simp_all add: enc_string_valid valid_utf8_ascii byte_def)

end
