(* ===== verification/Go_Struct.thy ===== *)
theory Go_Struct
  imports Json_Round
begin

text \<open>
  Decoding JSON into Go structs, as \<open>encoding/json\<close> documents it. A struct type is the list of its fields, each a
  name and what storing a value in it does to the record; an embedded struct contributes its fields. A key finds its
  field by its exact name or else ignoring case; \<open>null\<close> leaves a field that is no pointer as it is.
\<close>

section \<open>Fields\<close>

type_synonym 'r field = "string \<times> (json \<Rightarrow> 'r \<Rightarrow> 'r option)"

text \<open>Names are compared by the smallest rune of the case orbit; only two runes beyond ASCII fold to ASCII letters.\<close>

definition fold_rune :: "nat \<Rightarrow> nat" where
  "fold_rune r = (if r = 8490 then 75 else if r = 383 then 83 else if 97 \<le> r \<and> r \<le> 122 then r - 32 else r)"

definition fold_name :: "string \<Rightarrow> nat list" where
  "fold_name s = map (\<lambda>(r, _, _). fold_rune r) (runes s)"

definition find_setter :: "'r field list \<Rightarrow> string \<Rightarrow> (json \<Rightarrow> 'r \<Rightarrow> 'r option) option" where
  "find_setter fs k = (case map_of fs k of
     Some f \<Rightarrow> Some f
   | None \<Rightarrow> map_option snd (find_row (\<lambda>(n, _). fold_name n = fold_name k) fs))"

fun set_members :: "bool \<Rightarrow> 'r field list \<Rightarrow> (string \<times> json) list \<Rightarrow> 'r \<Rightarrow> 'r option" where
  "set_members strict fs [] r = Some r"
| "set_members strict fs ((k, v) # m) r = (case find_setter fs k of
     None \<Rightarrow> if strict then None else set_members strict fs m r
   | Some f \<Rightarrow> (case f v r of None \<Rightarrow> None | Some r' \<Rightarrow> set_members strict fs m r'))"

definition decode_struct :: "bool \<Rightarrow> 'r field list \<Rightarrow> json \<Rightarrow> 'r \<Rightarrow> 'r option" where
  "decode_struct strict fs v r = (case v of JNull \<Rightarrow> Some r | JObj m \<Rightarrow> set_members strict fs m r | _ \<Rightarrow> None)"

text \<open>The setters of the field types in use.\<close>

definition set_int :: "nat \<Rightarrow> (int \<Rightarrow> 'r \<Rightarrow> 'r) \<Rightarrow> json \<Rightarrow> 'r \<Rightarrow> 'r option" where
  "set_int bits upd v r = (case v of JNull \<Rightarrow> Some r | JNum s \<Rightarrow> map_option (\<lambda>i. upd i r) (parse_int bits s) | _ \<Rightarrow> None)"

definition set_uint :: "nat \<Rightarrow> (nat \<Rightarrow> 'r \<Rightarrow> 'r) \<Rightarrow> json \<Rightarrow> 'r \<Rightarrow> 'r option" where
  "set_uint bits upd v r = (case v of JNull \<Rightarrow> Some r | JNum s \<Rightarrow> map_option (\<lambda>i. upd i r) (parse_uint bits s) | _ \<Rightarrow> None)"

definition set_text :: "(string \<Rightarrow> 'r \<Rightarrow> 'r) \<Rightarrow> json \<Rightarrow> 'r \<Rightarrow> 'r option" where
  "set_text upd v r = (case v of JNull \<Rightarrow> Some r | JStr s \<Rightarrow> Some (upd s r) | _ \<Rightarrow> None)"

definition set_text_pointer :: "(string option \<Rightarrow> 'r \<Rightarrow> 'r) \<Rightarrow> json \<Rightarrow> 'r \<Rightarrow> 'r option" where
  "set_text_pointer upd v r = (case v of JNull \<Rightarrow> Some (upd None r) | JStr s \<Rightarrow> Some (upd (Some s) r) | _ \<Rightarrow> None)"

definition set_struct :: "bool \<Rightarrow> 's field list \<Rightarrow> ('r \<Rightarrow> 's) \<Rightarrow> ('s \<Rightarrow> 'r \<Rightarrow> 'r) \<Rightarrow> json \<Rightarrow> 'r \<Rightarrow> 'r option" where
  "set_struct strict fs get upd v r = map_option (\<lambda>s. upd s r) (decode_struct strict fs v (get r))"

section \<open>The shape of a strict document\<close>

text \<open>What the strict decoders walk before they decode: declared names only, none twice, at every depth.\<close>

datatype shape = Scalar | Slice shape | Struct "(string \<times> shape) list"

fun scan_shape :: "shape \<Rightarrow> json \<Rightarrow> bool" where
  "scan_shape (Struct fs) (JObj m) =
    (distinct (map fst m) \<and> list_all (\<lambda>(k, v). case map_of fs k of None \<Rightarrow> False | Some sh \<Rightarrow> scan_shape sh v) m)"
| "scan_shape sh (JObj m) = False"
| "scan_shape (Slice sh) (JArr vs) = list_all (scan_shape sh) vs"
| "scan_shape sh (JArr vs) = False"
| "scan_shape sh v = True"

definition decode_strict :: "shape \<Rightarrow> 'r field list \<Rightarrow> 'r \<Rightarrow> string \<Rightarrow> 'r option" where
  "decode_strict sh fs zero raw =
    (if \<not> valid_utf8 raw then None
     else (case whole raw of
        None \<Rightarrow> None
      | Some v \<Rightarrow> if scan_shape sh v then decode_struct True fs v zero else None))"

text \<open>\<open>json.Unmarshal\<close> into \<open>map[string]json.RawMessage\<close>.\<close>

definition raw_fields :: "string \<Rightarrow> (string \<times> string) list option" where
  "raw_fields raw = (case whole raw of Some JNull \<Rightarrow> Some [] | Some (JObj _) \<Rightarrow> raw_object raw | _ \<Rightarrow> None)"

section \<open>Reading numbers back\<close>

lemma parse_int_dec:
  assumes "- (2 ^ (bits - 1)) \<le> i" "i < 2 ^ (bits - 1)"
  shows "parse_int bits (dec_int i) = Some i"
proof -
  have d: "list_all is_digit (dec_nat n)" "dec_nat n \<noteq> []" "digits_val (dec_nat n) = n" for n
    using dec_nat_digits [of n] by auto
  have lead: "\<exists>c r. dec_nat n = c # r \<and> c \<noteq> CHR ''-'' \<and> c \<noteq> CHR ''+''" for n
    using d [of n] by (cases "dec_nat n") (auto simp: is_digit_def byte_def)
  show ?thesis
  proof (cases "i < 0")
    case True
    then show ?thesis using assms d [of "nat (- i)"] by (simp add: parse_int_def dec_int_def in_int_range_def Let_def)
  next
    case False
    obtain c r where c: "dec_nat (nat i) = c # r" "c \<noteq> CHR ''-''" "c \<noteq> CHR ''+''" using lead by blast
    then show ?thesis using False assms d [of "nat i"] by (simp add: parse_int_def dec_int_def in_int_range_def Let_def)
  qed
qed

lemma set_int_dec: "- (2 ^ (bits - 1)) \<le> i \<Longrightarrow> i < 2 ^ (bits - 1) \<Longrightarrow> set_int bits upd (JNum (dec_int i)) r = Some (upd i r)"
  by (simp add: set_int_def parse_int_dec)

lemma set_uint_dec: "n < 2 ^ bits \<Longrightarrow> set_uint bits upd (JNum (dec_nat n)) r = Some (upd n r)"
  by (simp add: set_uint_def parse_uint_dec_nat)

lemma set_text_str [simp]: "set_text upd (JStr s) r = Some (upd s r)"
  by (simp add: set_text_def)

lemma find_setter_exact: "map_of fs k = Some f \<Longrightarrow> find_setter fs k = Some f"
  by (simp add: find_setter_def)

section \<open>Raw members\<close>

lemma raw_member:
  assumes "valid_utf8 k" "readable max_nesting v" "stops (c # q)" "c = CHR '','' \<or> c = CHR ''}''"
  shows "raw_members (Suc n) (enc_string k @ CHR '':'' # enc_json v @ c # q) =
    (if c = CHR '','' then map_option (\<lambda>(m, r'). ((k, enc_json v) # m, r')) (raw_members n q) else Some ([(k, enc_json v)], q))"
proof -
  obtain a t where a: "enc_json v = a # t" "lead_char a" using enc_leads [OF assms(2)] by blast
  have ws: "skip_ws (enc_json v @ c # q) = enc_json v @ c # q" using a by (simp add: lead_char_def skip_ws_Cons)
  have c: "\<not> ws c" using assms(4) not_ws by auto
  show ?thesis
    using key_read [OF assms(1), of "CHR '':'' # enc_json v @ c # q"] json_text_reads [OF assms(2,3)] ws c assms(4)
    by (auto simp: Let_def skip_ws_Cons not_ws starts_def)
qed

lemma raw_members_read:
  assumes "m \<noteq> []" "\<forall>(k, v)\<in>set m. valid_utf8 k \<and> readable max_nesting v" "length m \<le> n"
  shows "raw_members n (commas (map (\<lambda>(k, v). enc_string k @ '':'' @ enc_json v) m) @ CHR ''}'' # r) =
    Some (map (\<lambda>(k, v). (k, enc_json v)) m, r)"
  using assms
proof (induction m arbitrary: n)
  case (Cons kv m)
  obtain k v where kv: "kv = (k, v)" by (cases kv)
  obtain n' where n: "n = Suc n'" using Cons.prems(3) by (cases n) auto
  have ok: "valid_utf8 k" "readable max_nesting v" using Cons.prems kv by auto
  show ?case
  proof (cases m)
    case Nil
    then show ?thesis using raw_member [OF ok, of "CHR ''}''" r n'] by (simp add: kv n stops_def del: raw_members.simps)
  next
    case tl: (Cons y ys)
    let ?e = "\<lambda>(k, v). enc_string k @ '':'' @ enc_json v"
    let ?t = "commas (map ?e m) @ CHR ''}'' # r"
    have "raw_members n' ?t = Some (map (\<lambda>(k, v). (k, enc_json v)) m, r)" using Cons.IH [of n'] Cons.prems tl n by auto
    moreover have "commas (map ?e (kv # m)) @ CHR ''}'' # r = enc_string k @ CHR '':'' # enc_json v @ CHR '','' # ?t"
      by (simp add: tl kv)
    ultimately show ?thesis using raw_member [OF ok, of "CHR '',''" ?t n'] by (simp add: kv n stops_def del: raw_members.simps)
  qed
qed simp

lemma commas_length: "\<forall>x\<in>set xs. x \<noteq> [] \<Longrightarrow> length xs \<le> length (commas xs)"
  by (induction xs rule: commas.induct) (auto simp: Suc_le_eq)

lemma raw_object_enc:
  assumes "\<forall>(k, v)\<in>set m. valid_utf8 k \<and> readable max_nesting v"
  shows "raw_object (enc_json (JObj m)) = Some (map (\<lambda>(k, v). (k, enc_json v)) m)"
proof (cases "m = []")
  case True
  then show ?thesis by (simp add: raw_object_def skip_ws_Cons not_ws starts_def Let_def) (simp add: skip_ws_def)
next
  case False
  let ?e = "\<lambda>(k, v). enc_string k @ '':'' @ enc_json v"
  let ?c = "commas (map ?e m)"
  obtain k v ms where kv: "m = (k, v) # ms" using False by (cases m) auto
  obtain t where "enc_string k = dquote # t" by (simp add: enc_string_def)
  then obtain u where u: "?c = dquote # u" by (cases ms) (auto simp: kv)
  have "\<forall>x\<in>set (map ?e m). x \<noteq> []" by (auto simp: enc_string_def)
  from commas_length [OF this] have len: "length m \<le> length (enc_json (JObj m))" by simp
  have b: "enc_json (JObj m) = CHR ''{'' # ?c @ CHR ''}'' # []" by simp
  have s: "skip_ws (enc_json (JObj m)) = CHR ''{'' # ?c @ CHR ''}'' # []" unfolding b by (simp add: skip_ws_Cons not_ws)
  have w: "skip_ws (?c @ CHR ''}'' # []) = ?c @ CHR ''}'' # []" unfolding u by (simp add: skip_ws_Cons not_ws)
  have m: "raw_members (length (CHR ''{'' # ?c @ CHR ''}'' # [])) (?c @ CHR ''}'' # []) = Some (map (\<lambda>(k, v). (k, enc_json v)) m, [])"
    by (rule raw_members_read [OF False assms]) (use len b in simp)
  show ?thesis
    unfolding raw_object_def s Let_def using m w u
    by (simp add: starts_def dquote_other del: raw_members.simps) (simp add: skip_ws_def)
qed

lemma readable_mono: "readable d v \<Longrightarrow> d \<le> e \<Longrightarrow> readable e v"
proof (induction v arbitrary: d e)
  case (JArr xs)
  then have "d - 1 \<le> e - 1" by simp
  then show ?case using JArr by (auto simp: list_all_iff)
next
  case (JObj m)
  have "d - 1 \<le> e - 1" using JObj.prems by simp
  then show ?case using JObj by (fastforce simp: list_all_iff)
qed simp_all

lemma raw_fields_enc: "readable max_nesting (JObj m) \<Longrightarrow> raw_fields (enc_json (JObj m)) = Some (map (\<lambda>(k, v). (k, enc_json v)) m)"
proof -
  assume r: "readable max_nesting (JObj m)"
  then have "\<forall>(k, v)\<in>set m. valid_utf8 k \<and> readable max_nesting v"
    using readable_mono [of "max_nesting - 1" _ max_nesting] by (fastforce simp: list_all_iff)
  then show ?thesis using raw_object_enc whole_enc [OF r] by (simp add: raw_fields_def del: enc_json.simps)
qed

lemma decode_strict_enc:
  "readable max_nesting v \<Longrightarrow> scan_shape sh v \<Longrightarrow> decode_strict sh fs zero (enc_json v) = decode_struct True fs v zero"
  using whole_enc [of v] enc_json_valid [of max_nesting v] by (simp add: decode_strict_def)

text \<open>What a strict document is known to be.\<close>

lemma decode_strict_sound:
  assumes "decode_strict sh fs zero raw = Some r"
  shows "valid_utf8 raw \<and> (\<exists>v. whole raw = Some v \<and> scan_shape sh v \<and> decode_struct True fs v zero = Some r)"
  using assms by (auto simp: decode_strict_def split: if_splits option.splits)

section \<open>Raw members and values\<close>

text \<open>More fuel and more allowed nesting never change an answer.\<close>

lemma text_mono:
  "text_value n d s = Some x \<Longrightarrow> n \<le> m \<Longrightarrow> d \<le> e \<Longrightarrow> text_value m e s = Some x"
  "text_elements n d s = Some y \<Longrightarrow> n \<le> m \<Longrightarrow> d \<le> e \<Longrightarrow> text_elements m e s = Some y"
  "text_members n d s = Some z \<Longrightarrow> n \<le> m \<Longrightarrow> d \<le> e \<Longrightarrow> text_members m e s = Some z"
proof (induction n arbitrary: d e s m x y z)
  case 0
  { case 1 then show ?case by simp next case 2 then show ?case by simp next case 3 then show ?case by simp }
next
  case (Suc n)
  { case 1
    then obtain m' where m: "m = Suc m'" "n \<le> m'" by (cases m) auto
    have de: "d - 1 \<le> e - 1" "d \<noteq> 0 \<Longrightarrow> e \<noteq> 0" using 1 by auto
    show ?case
      using 1(1) Suc.IH(2) [OF _ m(2) de(1)] Suc.IH(3) [OF _ m(2) de(1)] de(2)
      by (auto simp: m(1) Let_def split: if_splits)
  next
    case 2
    then obtain m' where m: "m = Suc m'" "n \<le> m'" by (cases m) auto
    show ?case
      using 2(1) Suc.IH(1) [OF _ m(2) 2(3)] Suc.IH(2) [OF _ m(2) 2(3)]
      by (fastforce simp: m(1) Let_def split: option.splits if_splits)
  next
    case 3
    then obtain m' where m: "m = Suc m'" "n \<le> m'" by (cases m) auto
    show ?case
      using 3(1) Suc.IH(1) [OF _ m(2) 3(3)] Suc.IH(3) [OF _ m(2) 3(3)]
      by (fastforce simp: m(1) Let_def split: option.splits if_splits)
  }
qed

lemma skip_ws_twice [simp]: "skip_ws (skip_ws s) = skip_ws s"
  by (simp add: skip_ws_def)

lemma text_value_skip: "text_value n d (skip_ws s) = text_value n d s"
  by (cases n) simp_all

lemma json_text_of_value:
  assumes "text_value n d s = Some (v, r)" "d \<le> e"
  shows "json_text e (skip_ws s) = Some (v, r)"
proof -
  let ?m = "max n (Suc (2 * length s))"
  have "text_value ?m e (skip_ws s) = Some (v, r)" using text_mono(1) [OF assms(1) _ assms(2), of ?m] by (simp add: text_value_skip)
  moreover have "text_value (Suc (2 * length (skip_ws s))) e (skip_ws s) = text_value ?m e (skip_ws s)"
    by (rule text_fuel(1)) (use skip_ws_le [of s] in linarith)+
  ultimately show ?thesis by (simp add: json_text_def)
qed

lemma null_text:
  assumes "json_text e b = Some (v, r)" "skip_ws b = b"
  shows "take (length b - length r) b = ''null'' \<longleftrightarrow> v = JNull"
proof
  assume "v = JNull"
  then have "scan_scalar b = Some (JNull, r)"
    using assms by (auto simp: json_text_def Let_def split: if_splits)
  then have "literal ''null'' JNull b = Some (JNull, r)"
    by (auto simp: scan_scalar_def literal_def split: list.splits if_splits)
  then have "take 4 b = ''null'' \<and> r = drop 4 b" by (auto simp: literal_def numeral_eq_Suc split: if_splits)
  moreover from this have "b = ''null'' @ r" by (metis append_take_drop_id)
  ultimately show "take (length b - length r) b = ''null''" by simp
next
  assume t: "take (length b - length r) b = ''null''"
  then obtain q where b: "b = ''null'' @ q" by (metis append_take_drop_id)
  have "scan_scalar b = Some (JNull, q)" unfolding b by (rule scalar_words)
  moreover have "json_text e b = scan_scalar b"
    using assms(2) unfolding json_text_def by (simp add: b starts_def)
  ultimately show "v = JNull" using assms(1) by simp
qed

lemma raw_members_values:
  assumes "raw_members n s = Some (m, r)" "text_members n' d s = Some (kvs, r')" "d \<le> max_nesting"
  shows "r = r' \<and> list_all2 (\<lambda>(k, t) (k', v). k = k' \<and> (t = ''null'' \<longleftrightarrow> v = JNull)) m kvs"
  using assms
proof (induction n arbitrary: s m n' kvs)
  case (Suc n)
  obtain n'' where n': "n' = Suc n''" using Suc.prems(2) by (cases n') auto
  let ?s = "skip_ws s"
  obtain k r0 where k: "starts dquote ?s" "scan_string (length (tl ?s)) (tl ?s) = Some (k, r0)" "starts (CHR '':'') (skip_ws r0)"
    using Suc.prems(1) by (auto simp: Let_def split: if_splits option.splits)
  let ?b = "skip_ws (tl (skip_ws r0))"
  obtain v r2 where v: "text_value n'' d (tl (skip_ws r0)) = Some (v, r2)"
    using Suc.prems(2) k by (auto simp: n' Let_def split: option.splits)
  have j: "json_text max_nesting ?b = Some (v, r2)" by (rule json_text_of_value [OF v Suc.prems(3)])
  have null: "take (length ?b - length r2) ?b = ''null'' \<longleftrightarrow> v = JNull" by (rule null_text [OF j]) simp
  show ?case
  proof (cases "starts (CHR '','') (skip_ws r2)")
    case True
    obtain m' kvs' where m: "raw_members n (tl (skip_ws r2)) = Some (m', r)" "m = (k, take (length ?b - length r2) ?b) # m'"
        "text_members n'' d (tl (skip_ws r2)) = Some (kvs', r')" "kvs = (k, v) # kvs'"
      using Suc.prems(1,2) k v j True by (auto simp: n' Let_def split: if_splits)
    show ?thesis using Suc.IH [OF m(1,3) Suc.prems(3)] null by (simp add: m)
  next
    case False
    then show ?thesis using Suc.prems(1,2) k v j null by (auto simp: n' Let_def split: if_splits)
  qed
qed simp

lemma raw_object_values:
  assumes "raw_object s = Some m" "whole s = Some (JObj kvs)"
  shows "list_all2 (\<lambda>(k, t) (k', v). k = k' \<and> (t = ''null'' \<longleftrightarrow> v = JNull)) m kvs"
proof -
  let ?s = "skip_ws s"
  have b: "starts (CHR ''{'') ?s" using assms(1) by (auto simp: raw_object_def Let_def split: if_splits)
  obtain r where t: "text_value (Suc (2 * length s)) max_nesting s = Some (JObj kvs, r)"
    using assms(2) by (auto simp: whole_def json_text_def split: option.splits if_splits simp del: text_value.simps)
  show ?thesis
  proof (cases "starts (CHR ''}'') (skip_ws (tl ?s))")
    case True
    then show ?thesis using assms(1) b t by (auto simp: raw_object_def Let_def split: if_splits)
  next
    case False
    obtain r1 where r1: "raw_members (length ?s) (tl ?s) = Some (m, r1)"
      using assms(1) b False by (auto simp: raw_object_def Let_def split: if_splits option.splits)
    have "text_members (2 * length s) (max_nesting - 1) (tl ?s) = Some (kvs, r)"
      using t b False by (auto simp: Let_def split: if_splits)
    then show ?thesis using raw_members_values [OF r1] by simp
  qed
qed

lemma raw_fields_keys:
  assumes "raw_fields s = Some m" "whole s = Some (JObj kvs)"
  shows "map fst m = map fst kvs" and "(k, ''null'') \<in> set m \<longleftrightarrow> (k, JNull) \<in> set kvs"
proof -
  have l: "list_all2 (\<lambda>(k, t) (k', v). k = k' \<and> (t = ''null'' \<longleftrightarrow> v = JNull)) m kvs"
    using raw_object_values [OF _ assms(2)] assms by (simp add: raw_fields_def)
  then show "map fst m = map fst kvs" by (induction rule: list_all2_induct) auto
  show "(k, ''null'') \<in> set m \<longleftrightarrow> (k, JNull) \<in> set kvs" using l by (induction rule: list_all2_induct) auto
qed

end
