(* ===== verification/Bridge_Codec.thy ===== *)
theory Bridge_Codec
  imports Json_Round "HOL-Library.Multiset"
begin

text \<open>
  The delivery batches an owner agent is shown (\<open>internal/bridgecodec\<close>, the batch types and hook table of
  \<open>internal/contract/bridge.go\<close>): what makes a batch well formed, its canonical bytes, its render hash and
  the hook and prompt texts built from it. SHA-256 in hexadecimal is the parameter \<open>sha\<close>.
\<close>

section \<open>Data\<close>

record artifact_link =
  br_id :: string
  br_sha :: string

record batch_event =
  be_id :: string
  be_revision :: int
  be_hash :: string
  be_slot :: string
  be_task :: string
  be_work :: int
  be_kind :: string
  be_summary :: string
  be_artifact :: "artifact_link option"

record batch_receipt =
  rc_task :: string
  rc_delivery :: string
  rc_mode :: string
  rc_sha :: string
  rc_events :: "string list"

record batch =
  ba_version :: int
  ba_id :: string
  ba_attempt :: string
  ba_binding :: string
  ba_epoch :: nat
  ba_mode :: string
  ba_render :: string
  ba_events :: "batch_event list"
  ba_receipts :: "batch_receipt list"

datatype bridge_error = BridgeInvalid | BridgeMode | BridgeEmpty | BridgeQuota | BridgeSummary | BridgeHash | BridgeTooLarge
  | BridgeReceipt string

definition hook_pull :: string where "hook_pull = ''hook_pull''"
definition grok_acp :: string where "grok_acp = ''grok_acp_push_v1''"

definition emit_hooks :: "string \<Rightarrow> string list" where
  "emit_hooks provider = (if provider = ''claude'' then [''SessionStart'', ''UserPromptSubmit'']
     else if provider = ''agy'' then [''PreInvocation''] else [])"

definition emit_supported :: "string \<Rightarrow> string \<Rightarrow> bool" where
  "emit_supported provider hook = list_ex (\<lambda>h. hook = h) (emit_hooks provider)"

definition lower_sha256 :: "string \<Rightarrow> bool" where
  "lower_sha256 s \<longleftrightarrow> length s = 64 \<and> list_all (\<lambda>(r, _). \<not> (r < 48 \<or> r > 57 \<and> r < 97 \<or> r > 102)) (runes s)"

section \<open>Validation\<close>

text \<open>The two maps of \<open>validateBatch\<close>: the events by id, and per task the ids that still need a receipt.\<close>

type_synonym needed = "(string \<times> string list) list"

definition ids_of :: "string \<Rightarrow> needed \<Rightarrow> string list" where
  "ids_of t n = (case map_of n t of None \<Rightarrow> [] | Some is \<Rightarrow> is)"

definition add_needed :: "string \<Rightarrow> string \<Rightarrow> needed \<Rightarrow> needed" where
  "add_needed t i n = AList.update t (ids_of t n @ [i]) n"

definition is_needed :: "string \<Rightarrow> string \<Rightarrow> needed \<Rightarrow> bool" where
  "is_needed t i n \<longleftrightarrow> i \<in> set (ids_of t n)"

definition drop_needed :: "string \<Rightarrow> string \<Rightarrow> needed \<Rightarrow> needed" where
  "drop_needed t i n = (case map_of n t of None \<Rightarrow> n | Some is \<Rightarrow> AList.update t (removeAll i is) n)"

definition event_error :: "batch_event \<Rightarrow> batch_event list \<Rightarrow> bridge_error option" where
  "event_error e before =
    (if be_id e = [] \<or> be_revision e \<le> 0 \<or> \<not> lower_sha256 (be_hash e) \<or> be_task e = [] \<or> be_work e \<le> 0 \<or> be_kind e = []
     then Some BridgeInvalid
     else if \<not> valid_utf8 (be_summary e) then Some BridgeInvalid
     else if length (be_summary e) > 512 then Some BridgeSummary
     else if be_id e \<in> set (map be_id before) then Some BridgeInvalid
     else (case be_artifact e of
        None \<Rightarrow> None
      | Some a \<Rightarrow> if br_id a = [] \<or> \<not> lower_sha256 (br_sha a) then Some BridgeInvalid else None))"

fun read_events :: "batch_event list \<Rightarrow> batch_event list \<Rightarrow> needed \<Rightarrow> bridge_error + needed" where
  "read_events [] before n = Inr n"
| "read_events (e # es) before n =
    (case event_error e before of
       Some x \<Rightarrow> Inl x
     | None \<Rightarrow> read_events es (before @ [e]) (if be_slot e \<noteq> [] then add_needed (be_task e) (be_id e) n else n))"

fun use_receipt_ids :: "batch_event list \<Rightarrow> string \<Rightarrow> string list \<Rightarrow> needed \<Rightarrow> bridge_error + needed" where
  "use_receipt_ids es t [] n = Inr n"
| "use_receipt_ids es t (i # is) n =
    (case find_row (\<lambda>e. be_id e = i) es of
       None \<Rightarrow> Inl (BridgeReceipt i)
     | Some e \<Rightarrow> if be_task e \<noteq> t \<or> be_slot e = [] \<or> \<not> is_needed t i n then Inl (BridgeReceipt i)
         else use_receipt_ids es t is (drop_needed t i n))"

definition receipt_shape :: "batch_receipt \<Rightarrow> bool" where
  "receipt_shape r \<longleftrightarrow> rc_task r \<noteq> [] \<and> rc_delivery r \<noteq> [] \<and> rc_mode r = ''collect'' \<and> lower_sha256 (rc_sha r) \<and> rc_events r \<noteq> []"

fun use_receipts :: "batch_event list \<Rightarrow> batch_receipt list \<Rightarrow> string list \<Rightarrow> needed \<Rightarrow> bridge_error + (string list \<times> needed)" where
  "use_receipts es [] ts n = Inr (ts, n)"
| "use_receipts es (r # rs) ts n =
    (if \<not> receipt_shape r \<or> rc_task r \<in> set ts then Inl BridgeInvalid
     else (case use_receipt_ids es (rc_task r) (rc_events r) n of
        Inl x \<Rightarrow> Inl x
      | Inr n' \<Rightarrow> use_receipts es rs (ts @ [rc_task r]) n'))"

definition validate_batch :: "batch \<Rightarrow> bridge_error option" where
  "validate_batch b =
    (if ba_version b \<noteq> 1 \<or> ba_id b = [] \<or> ba_binding b = [] \<or> ba_epoch b = 0 then Some BridgeInvalid
     else if ba_mode b \<noteq> hook_pull \<and> ba_mode b \<noteq> grok_acp then Some BridgeMode
     else if ba_events b = [] then Some BridgeEmpty
     else if length (ba_events b) > 8 then Some BridgeQuota
     else (case read_events (ba_events b) [] [] of
        Inl x \<Rightarrow> Some x
      | Inr n \<Rightarrow> (case use_receipts (ba_events b) (ba_receipts b) [] n of
          Inl x \<Rightarrow> Some x
        | Inr (ts, n') \<Rightarrow> if list_ex (\<lambda>(t, is). is \<noteq> [] \<or> t \<notin> set ts) n' then Some BridgeInvalid else None)))"

section \<open>Canonical bytes\<close>

definition event_json :: "batch_event \<Rightarrow> json" where
  "event_json e = JObj [(''event_id'', JStr (be_id e)), (''event_revision'', JNum (dec_int (be_revision e))),
     (''event_hash'', JStr (be_hash e)), (''action_slot'', JStr (be_slot e)), (''task_id'', JStr (be_task e)),
     (''work_revision'', JNum (dec_int (be_work e))), (''kind'', JStr (be_kind e)), (''summary'', JStr (be_summary e)),
     (''artifact_ref'', case be_artifact e of None \<Rightarrow> JNull
        | Some a \<Rightarrow> JObj [(''id'', JStr (br_id a)), (''sha256'', JStr (br_sha a))])]"

definition receipt_json :: "batch_receipt \<Rightarrow> json" where
  "receipt_json r = JObj [(''task_id'', JStr (rc_task r)), (''delivery_id'', JStr (rc_delivery r)),
     (''proof_mode'', JStr (rc_mode r)), (''proof_sha256'', JStr (rc_sha r)), (''event_ids'', JArr (map JStr (rc_events r)))]"

definition content_json :: "batch \<Rightarrow> json" where
  "content_json b = JObj [(''schema_version'', JNum (dec_int (ba_version b))), (''batch_id'', JStr (ba_id b)),
     (''binding_id'', JStr (ba_binding b)), (''owner_epoch'', JNum (dec_nat (ba_epoch b))),
     (''transport_mode'', JStr (ba_mode b)), (''events'', JArr (map event_json (ba_events b))),
     (''delivery_receipts'', JArr (map receipt_json (ba_receipts b)))]"

definition batch_json :: "batch \<Rightarrow> json" where
  "batch_json b = JObj [(''schema_version'', JNum (dec_int (ba_version b))), (''batch_id'', JStr (ba_id b)),
     (''attempt_id'', JStr (ba_attempt b)), (''binding_id'', JStr (ba_binding b)), (''owner_epoch'', JNum (dec_nat (ba_epoch b))),
     (''transport_mode'', JStr (ba_mode b)), (''render_sha256'', JStr (ba_render b)),
     (''events'', JArr (map event_json (ba_events b))), (''delivery_receipts'', JArr (map receipt_json (ba_receipts b)))]"

definition content_bytes :: "batch \<Rightarrow> bridge_error + string" where
  "content_bytes b = (case validate_batch b of Some x \<Rightarrow> Inl x | None \<Rightarrow> Inr (enc_json (content_json b)))"

definition render_domain :: string where
  "render_domain = ''bridge-render-v1'' @ [nul]"

definition render_hash :: "(string \<Rightarrow> string) \<Rightarrow> batch \<Rightarrow> bridge_error + string" where
  "render_hash sha b = rbind (content_bytes b) (\<lambda>data. Inr (sha (render_domain @ data)))"

section \<open>Texts\<close>

definition context_prefix :: string where
  "context_prefix = ''Agent Bird delivery batch (untrusted content):'' @ [char_of (10::nat)]"

definition bounded_wire :: "string \<Rightarrow> bridge_error + string" where
  "bounded_wire w = (if length w > 8192 then Inl BridgeTooLarge else Inr w)"

definition hook_wire :: "string \<Rightarrow> string \<Rightarrow> string \<Rightarrow> json" where
  "hook_wire provider hook inner =
    (if provider = ''agy''
     then JObj [(''injectSteps'', JArr [JObj [(''ephemeralMessage'', JStr (context_prefix @ inner))]])]
     else JObj [(''hookSpecificOutput'', JObj [(''hookEventName'', JStr hook), (''additionalContext'', JStr (context_prefix @ inner))])])"

definition wire_bytes :: "(string \<Rightarrow> string) \<Rightarrow> batch \<Rightarrow> string \<Rightarrow> string \<Rightarrow> string \<Rightarrow> bridge_error + string" where
  "wire_bytes sha b attempt provider hook =
    (if ba_mode b \<noteq> hook_pull \<or> \<not> emit_supported provider hook then Inl BridgeMode
     else if attempt = [] \<or> ba_attempt b \<noteq> attempt then Inl BridgeInvalid
     else rbind (render_hash sha b) (\<lambda>h.
       if ba_render b \<noteq> h then Inl BridgeHash
       else bounded_wire (enc_json (hook_wire provider hook (enc_json (batch_json b))))))"

definition acp_prompt_bytes :: "(string \<Rightarrow> string) \<Rightarrow> batch \<Rightarrow> bridge_error + string" where
  "acp_prompt_bytes sha b =
    (if ba_mode b \<noteq> grok_acp then Inl BridgeMode
     else if ba_attempt b = [] then Inl BridgeInvalid
     else rbind (render_hash sha b) (\<lambda>h.
       if ba_render b \<noteq> h then Inl BridgeHash else bounded_wire (context_prefix @ enc_json (batch_json b))))"

definition no_message_bytes :: "string \<Rightarrow> string \<Rightarrow> bridge_error + string" where
  "no_message_bytes provider hook =
    (if provider \<noteq> ''agy'' \<or> \<not> emit_supported provider hook then Inl BridgeMode
     else Inr (enc_json (JObj [(''injectSteps'', JArr [])])))"

section \<open>What a valid batch is\<close>

text \<open>The specification: the receipts name, once each and under their own task, exactly the events that
  carry an action slot.\<close>

definition event_fine :: "batch_event \<Rightarrow> bool" where
  "event_fine e \<longleftrightarrow> be_id e \<noteq> [] \<and> be_revision e > 0 \<and> lower_sha256 (be_hash e) \<and> be_task e \<noteq> [] \<and> be_work e > 0 \<and> be_kind e \<noteq> []
     \<and> valid_utf8 (be_summary e) \<and> length (be_summary e) \<le> 512
     \<and> (case be_artifact e of None \<Rightarrow> True | Some a \<Rightarrow> br_id a \<noteq> [] \<and> lower_sha256 (br_sha a))"

definition slot_pairs :: "batch_event list \<Rightarrow> (string \<times> string) list" where
  "slot_pairs es = map (\<lambda>e. (be_task e, be_id e)) (filter (\<lambda>e. be_slot e \<noteq> []) es)"

definition receipt_pairs :: "batch_receipt list \<Rightarrow> (string \<times> string) list" where
  "receipt_pairs rs = concat (map (\<lambda>r. map (Pair (rc_task r)) (rc_events r)) rs)"

definition batch_fine :: "batch \<Rightarrow> bool" where
  "batch_fine b \<longleftrightarrow> ba_version b = 1 \<and> ba_id b \<noteq> [] \<and> ba_binding b \<noteq> [] \<and> ba_epoch b > 0
     \<and> (ba_mode b = hook_pull \<or> ba_mode b = grok_acp)
     \<and> ba_events b \<noteq> [] \<and> length (ba_events b) \<le> 8 \<and> list_all event_fine (ba_events b) \<and> distinct (map be_id (ba_events b))
     \<and> list_all receipt_shape (ba_receipts b) \<and> distinct (map rc_task (ba_receipts b))
     \<and> mset (receipt_pairs (ba_receipts b)) = mset (slot_pairs (ba_events b))"

lemma event_error_None: "event_error e before = None \<longleftrightarrow> event_fine e \<and> be_id e \<notin> set (map be_id before)"
  by (auto simp: event_error_def event_fine_def split: option.splits if_splits)

definition need_rel :: "needed \<Rightarrow> (string \<times> string) set" where
  "need_rel n = {(t, i). is_needed t i n}"

definition need_ok :: "needed \<Rightarrow> bool" where
  "need_ok n \<longleftrightarrow> distinct (map fst n)"

abbreviation need_keys :: "needed \<Rightarrow> string set" where "need_keys n \<equiv> fst ` set n"

lemma need_keys_dom: "need_keys n = dom (map_of n)"
  by (simp add: dom_map_of_conv_image_fst)

lemma ids_of_update [simp]: "ids_of s (AList.update t x n) = (if s = t then x else ids_of s n)"
  by (simp add: ids_of_def update_conv')

lemma need_add:
  assumes "need_ok n"
  shows "need_ok (add_needed t i n)" "need_rel (add_needed t i n) = insert (t, i) (need_rel n)"
    "need_keys (add_needed t i n) = insert t (need_keys n)"
proof -
  show "need_ok (add_needed t i n)" using assms by (simp add: need_ok_def add_needed_def distinct_update)
  show "need_rel (add_needed t i n) = insert (t, i) (need_rel n)"
    by (auto simp: need_rel_def is_needed_def add_needed_def split: if_splits)
  show "need_keys (add_needed t i n) = insert t (need_keys n)"
    by (simp add: need_keys_dom add_needed_def update_conv')
qed

lemma need_drop:
  assumes "need_ok n" "is_needed t i n"
  shows "need_ok (drop_needed t i n)" "need_rel (drop_needed t i n) = need_rel n - {(t, i)}"
    "need_keys (drop_needed t i n) = need_keys n"
proof -
  obtain xs where xs: "map_of n t = Some xs" "ids_of t n = xs"
    using assms(2) by (cases "map_of n t") (simp_all add: is_needed_def ids_of_def)
  show "need_ok (drop_needed t i n)" using assms xs by (simp add: need_ok_def drop_needed_def distinct_update)
  show "need_rel (drop_needed t i n) = need_rel n - {(t, i)}"
    using xs by (auto simp: need_rel_def is_needed_def drop_needed_def split: if_splits)
  show "need_keys (drop_needed t i n) = need_keys n"
    using xs by (auto simp: need_keys_dom drop_needed_def update_conv')
qed

lemma need_left: "need_ok n \<Longrightarrow> list_ex (\<lambda>(t, is). is \<noteq> [] \<or> t \<notin> T) n \<longleftrightarrow> need_rel n \<noteq> {} \<or> \<not> need_keys n \<subseteq> T"
proof -
  assume ok: "need_ok n"
  have "(\<exists>(t, is)\<in>set n. is \<noteq> []) \<longleftrightarrow> need_rel n \<noteq> {}"
  proof
    assume "\<exists>(t, is)\<in>set n. is \<noteq> []"
    then obtain t "is" where m: "(t, is) \<in> set n" "is \<noteq> []" by auto
    then have "ids_of t n = is" using ok by (simp add: ids_of_def need_ok_def)
    then have "(t, hd is) \<in> need_rel n" using m by (simp add: need_rel_def is_needed_def)
    then show "need_rel n \<noteq> {}" by auto
  next
    assume "need_rel n \<noteq> {}"
    then obtain t i where i: "i \<in> set (ids_of t n)" by (fastforce simp: need_rel_def is_needed_def)
    then obtain "is" where "map_of n t = Some is" "i \<in> set is" by (cases "map_of n t") (simp_all add: ids_of_def)
    then show "\<exists>(t, is)\<in>set n. is \<noteq> []"
      by (intro bexI[of _ "(t, is)"]) (auto dest: map_of_SomeD)
  qed
  moreover have "(\<exists>(t, is)\<in>set n. t \<notin> T) \<longleftrightarrow> \<not> need_keys n \<subseteq> T" by fastforce
  ultimately show ?thesis by (auto simp: list_ex_iff)
qed

fun needs :: "batch_event list \<Rightarrow> needed \<Rightarrow> needed" where
  "needs [] n = n"
| "needs (e # es) n = needs es (if be_slot e \<noteq> [] then add_needed (be_task e) (be_id e) n else n)"

lemma read_events_exact:
  "read_events es before n = Inr m \<longleftrightarrow>
     list_all event_fine es \<and> distinct (map be_id es) \<and> set (map be_id es) \<inter> set (map be_id before) = {} \<and> m = needs es n"
proof (induction es arbitrary: before n)
  case (Cons e es)
  show ?case
  proof (cases "event_error e before")
    case None
    then have fine: "event_fine e" "be_id e \<notin> set (map be_id before)" by (simp_all add: event_error_None)
    show ?thesis using None fine by (simp add: Cons) blast
  next
    case (Some x)
    then have "\<not> (event_fine e \<and> be_id e \<notin> set (map be_id before))" by (metis event_error_None option.distinct(1))
    then show ?thesis using Some by auto
  qed
qed auto

lemma needs_ok:
  assumes "need_ok n"
  shows "need_ok (needs es n)" "need_rel (needs es n) = set (slot_pairs es) \<union> need_rel n"
    "need_keys (needs es n) = fst ` set (slot_pairs es) \<union> need_keys n"
  using assms by (induction es arbitrary: n) (simp_all add: need_add slot_pairs_def)

lemma slot_found:
  assumes "distinct (map be_id es)" "(t, i) \<in> set (slot_pairs es)"
  obtains e where "find_row (\<lambda>e. be_id e = i) es = Some e" "be_task e = t" "be_slot e \<noteq> []"
proof -
  obtain e where e: "e \<in> set es" "be_task e = t" "be_id e = i" "be_slot e \<noteq> []"
    using assms(2) by (auto simp: slot_pairs_def)
  obtain e' where e': "find_row (\<lambda>e. be_id e = i) es = Some e'"
    using e by (metis (mono_tags, lifting) find_row_None not_None_eq)
  then have "e' \<in> set es" "be_id e' = i" by (auto dest: find_row_Some)
  then have "e' = e" using e assms(1) by (auto simp: distinct_map inj_on_def)
  then show thesis using that e e' by simp
qed

lemma use_ids_exact:
  assumes "distinct (map be_id es)" "need_ok n" "need_rel n \<subseteq> set (slot_pairs es)"
  shows "(\<exists>n'. use_receipt_ids es t is n = Inr n') \<longleftrightarrow> distinct is \<and> Pair t ` set is \<subseteq> need_rel n"
    and "use_receipt_ids es t is n = Inr n' \<Longrightarrow>
      need_ok n' \<and> need_rel n' = need_rel n - Pair t ` set is \<and> need_keys n' = need_keys n"
  using assms(2,3)
proof (induction "is" arbitrary: n)
  case (Cons i "is")
  {
    case 1
    show ?case
    proof (cases "is_needed t i n")
      case True
      then have "(t, i) \<in> need_rel n" by (simp add: need_rel_def)
      then obtain e where e: "find_row (\<lambda>e. be_id e = i) es = Some e" "be_task e = t" "be_slot e \<noteq> []"
        using 1 slot_found[OF assms(1)] by (metis subsetD)
      have "need_rel (drop_needed t i n) \<subseteq> set (slot_pairs es)" using 1 True by (auto simp: need_drop)
      from Cons.IH(1)[OF need_drop(1)[OF 1(1) True] this] show ?thesis
        using e True 1 \<open>(t, i) \<in> need_rel n\<close> by (auto simp: need_drop)
    next
      case False
      then show ?thesis by (auto simp: need_rel_def split: option.splits)
    qed
  next
    case 2
    from 2 have t: "is_needed t i n" "use_receipt_ids es t is (drop_needed t i n) = Inr n'"
      by (auto split: option.splits if_splits)
    have "need_rel (drop_needed t i n) \<subseteq> set (slot_pairs es)" using 2 t by (auto simp: need_drop)
    from Cons.IH(2)[OF t(2) need_drop(1)[OF 2(2) t(1)] this] show ?case using t 2 by (auto simp: need_drop)
  }
qed auto

lemma receipt_pairs_Cons:
  "set (receipt_pairs (r # rs)) = Pair (rc_task r) ` set (rc_events r) \<union> set (receipt_pairs rs)"
  "distinct (receipt_pairs (r # rs)) \<longleftrightarrow>
     distinct (rc_events r) \<and> distinct (receipt_pairs rs) \<and> Pair (rc_task r) ` set (rc_events r) \<inter> set (receipt_pairs rs) = {}"
  by (auto simp: receipt_pairs_def distinct_map inj_on_def)

lemma use_receipts_exact:
  assumes "distinct (map be_id es)" "need_ok n" "need_rel n \<subseteq> set (slot_pairs es)"
  shows "(\<exists>r. use_receipts es rs ts n = Inr r) \<longleftrightarrow>
      list_all receipt_shape rs \<and> distinct (map rc_task rs) \<and> set (map rc_task rs) \<inter> set ts = {}
      \<and> distinct (receipt_pairs rs) \<and> set (receipt_pairs rs) \<subseteq> need_rel n"
    and "use_receipts es rs ts n = Inr (ts', n') \<Longrightarrow>
      need_ok n' \<and> need_rel n' = need_rel n - set (receipt_pairs rs) \<and> need_keys n' = need_keys n \<and> ts' = ts @ map rc_task rs"
  using assms(2,3)
proof (induction rs arbitrary: ts n)
  case (Cons r rs)
  {
    case 1
    let ?u = "use_receipt_ids es (rc_task r) (rc_events r) n"
    show ?case
    proof (cases "receipt_shape r \<and> rc_task r \<notin> set ts \<and> (\<exists>n1. ?u = Inr n1)")
      case True
      then obtain n1 where u: "?u = Inr n1" by auto
      have n1: "need_ok n1" "need_rel n1 = need_rel n - Pair (rc_task r) ` set (rc_events r)"
        using use_ids_exact(2)[OF assms(1) 1] u by auto
      have i: "distinct (rc_events r)" "Pair (rc_task r) ` set (rc_events r) \<subseteq> need_rel n"
        using use_ids_exact(1)[OF assms(1) 1] u by auto
      have "need_rel n1 \<subseteq> set (slot_pairs es)" using 1 n1 by auto
      note ih = Cons.IH(1)[OF n1(1) this, of "ts @ [rc_task r]"]
      have "(\<exists>r'. use_receipts es (r # rs) ts n = Inr r') \<longleftrightarrow> (\<exists>r'. use_receipts es rs (ts @ [rc_task r]) n1 = Inr r')"
        using True u by simp
      also note ih
      finally have e: "(\<exists>r'. use_receipts es (r # rs) ts n = Inr r') \<longleftrightarrow>
          list_all receipt_shape rs \<and> distinct (map rc_task rs) \<and> set (map rc_task rs) \<inter> set (ts @ [rc_task r]) = {}
          \<and> distinct (receipt_pairs rs) \<and> set (receipt_pairs rs) \<subseteq> need_rel n1" .
      have "set (receipt_pairs rs) \<subseteq> need_rel n1 \<longleftrightarrow> set (receipt_pairs rs) \<subseteq> need_rel n
          \<and> Pair (rc_task r) ` set (rc_events r) \<inter> set (receipt_pairs rs) = {}"
        unfolding n1(2) by blast
      then show ?thesis using True i(1) unfolding e receipt_pairs_Cons Un_subset_iff
        by (simp only: list.pred_inject list.map list.set distinct.simps set_append i(2)) auto
    next
      case False
      then show ?thesis using use_ids_exact(1)[OF assms(1) 1, of "rc_task r" "rc_events r"]
        unfolding receipt_pairs_Cons Un_subset_iff by (cases ?u) auto
    qed
  next
    case 2
    let ?u = "use_receipt_ids es (rc_task r) (rc_events r) n"
    from 2 obtain n1 where u: "?u = Inr n1" "use_receipts es rs (ts @ [rc_task r]) n1 = Inr (ts', n')"
      by (auto split: sum.splits if_splits)
    have n1: "need_ok n1" "need_rel n1 = need_rel n - Pair (rc_task r) ` set (rc_events r)" "need_keys n1 = need_keys n"
      using use_ids_exact(2)[OF assms(1) 2(2,3)] u(1) by auto
    have "need_rel n1 \<subseteq> set (slot_pairs es)" using 2 n1 by auto
    from Cons.IH(2)[OF u(2) n1(1) this] show ?case using n1 by (auto simp: receipt_pairs_def)
  }
qed (auto simp: receipt_pairs_def)

lemma slot_pairs_distinct: "distinct (map be_id es) \<Longrightarrow> distinct (slot_pairs es)"
  unfolding slot_pairs_def
  by (induction es) (auto simp: distinct_map)

lemma receipts_left:
  assumes "distinct (map be_id es)" "list_all receipt_shape rs"
  shows "(\<exists>ts n. use_receipts es rs [] (needs es []) = Inr (ts, n) \<and> \<not> list_ex (\<lambda>(t, is). is \<noteq> [] \<or> t \<notin> set ts) n) \<longleftrightarrow>
    distinct (map rc_task rs) \<and> mset (receipt_pairs rs) = mset (slot_pairs es)"
proof -
  have "need_ok []" by (simp add: need_ok_def)
  note ok = needs_ok [OF this, of es]
  have rel: "need_rel (needs es []) = set (slot_pairs es)" using ok(2) by (simp add: need_rel_def is_needed_def ids_of_def)
  have keys: "need_keys (needs es []) = fst ` set (slot_pairs es)" using ok(3) by simp
  note use = use_receipts_exact [OF assms(1) ok(1) eq_refl [OF rel], of rs "[]"]
  have d: "distinct (slot_pairs es)" by (rule slot_pairs_distinct [OF assms(1)])
  have left: "\<not> list_ex (\<lambda>(t, is). is \<noteq> [] \<or> t \<notin> set ts) n \<longleftrightarrow>
      set (slot_pairs es) \<subseteq> set (receipt_pairs rs) \<and> fst ` set (slot_pairs es) \<subseteq> set (map rc_task rs)"
    if "use_receipts es rs [] (needs es []) = Inr (ts, n)" for ts n
  proof -
    note u = use(2) [OF that]
    show ?thesis using need_left [of n "set ts"] u rel keys by auto
  qed
  have tasks: "fst ` set (receipt_pairs rs) \<subseteq> set (map rc_task rs)" by (auto simp: receipt_pairs_def)
  have "(\<exists>ts n. use_receipts es rs [] (needs es []) = Inr (ts, n) \<and> \<not> list_ex (\<lambda>(t, is). is \<noteq> [] \<or> t \<notin> set ts) n) \<longleftrightarrow>
      (\<exists>r. use_receipts es rs [] (needs es []) = Inr r) \<and> set (slot_pairs es) \<subseteq> set (receipt_pairs rs)
        \<and> fst ` set (slot_pairs es) \<subseteq> set (map rc_task rs)"
    unfolding split_paired_Ex using left by blast
  also have "\<dots> \<longleftrightarrow> distinct (map rc_task rs) \<and> distinct (receipt_pairs rs) \<and> set (receipt_pairs rs) = set (slot_pairs es)"
  proof -
    have "(\<exists>r. use_receipts es rs [] (needs es []) = Inr r) \<longleftrightarrow>
        distinct (map rc_task rs) \<and> distinct (receipt_pairs rs) \<and> set (receipt_pairs rs) \<subseteq> set (slot_pairs es)"
      using use(1) assms(2) rel by simp
    then show ?thesis using tasks by (metis subset_antisym order_refl)
  qed
  also have "\<dots> \<longleftrightarrow> distinct (map rc_task rs) \<and> mset (receipt_pairs rs) = mset (slot_pairs es)"
    using d by (metis mset_eq_imp_distinct_iff set_eq_iff_mset_eq_distinct set_mset_mset)
  finally show ?thesis .
qed

lemma use_receipts_shape: "use_receipts es rs ts n = Inr r \<Longrightarrow> list_all receipt_shape rs"
  by (induction rs arbitrary: ts n) (auto split: if_splits sum.splits)

text \<open>C25. A delivery batch passes validation exactly when it is version 1 with an identity, a binding, an
  epoch and a known transport, carries one to eight well-formed events with distinct ids, and its receipts,
  one per task and each well formed, name exactly the events that carry an action slot, each once and under
  its own task.\<close>

theorem validate_batch_exact: "validate_batch b = None \<longleftrightarrow> batch_fine b"
proof -
  let ?es = "ba_events b" and ?rs = "ba_receipts b"
  show ?thesis
  proof (cases "list_all event_fine ?es \<and> distinct (map be_id ?es) \<and> list_all receipt_shape ?rs")
    case True
    then have "read_events ?es [] [] = Inr (needs ?es [])" using read_events_exact [of ?es "[]" "[]"] by simp
    moreover have "(case use_receipts ?es ?rs [] (needs ?es []) of Inl x \<Rightarrow> Some x
          | Inr (ts, n') \<Rightarrow> if list_ex (\<lambda>(t, is). is \<noteq> [] \<or> t \<notin> set ts) n' then Some BridgeInvalid else None) = None \<longleftrightarrow>
        distinct (map rc_task ?rs) \<and> mset (receipt_pairs ?rs) = mset (slot_pairs ?es)"
      using receipts_left [of ?es ?rs] True by (auto split: sum.splits if_splits)
    ultimately show ?thesis using True by (auto simp: validate_batch_def batch_fine_def)
  next
    case False
    have "validate_batch b \<noteq> None"
    proof
      assume v: "validate_batch b = None"
      then obtain n where n: "read_events ?es [] [] = Inr n" "\<exists>r. use_receipts ?es ?rs [] n = Inr r"
        by (auto simp: validate_batch_def split: if_splits sum.splits)
      then show False using False read_events_exact [of ?es "[]" "[]" n] use_receipts_shape by blast
    qed
    then show ?thesis using False by (auto simp: batch_fine_def)
  qed
qed

section \<open>Reading the bytes back\<close>

definition event_texts :: "batch_event \<Rightarrow> string list" where
  "event_texts e = [be_id e, be_hash e, be_slot e, be_task e, be_kind e, be_summary e]
     @ (case be_artifact e of None \<Rightarrow> [] | Some a \<Rightarrow> [br_id a, br_sha a])"

definition batch_texts :: "batch \<Rightarrow> string list" where
  "batch_texts b = [ba_id b, ba_attempt b, ba_binding b, ba_mode b, ba_render b] @ concat (map event_texts (ba_events b))
     @ concat (map (\<lambda>r. [rc_task r, rc_delivery r, rc_mode r, rc_sha r] @ rc_events r) (ba_receipts b))"

definition texts_valid :: "batch \<Rightarrow> bool" where
  "texts_valid b = list_all valid_utf8 (batch_texts b)"

lemma names_ascii: "list_all (\<lambda>s. valid_utf8 s) [''event_id'', ''event_revision'', ''event_hash'', ''action_slot'', ''task_id'',
    ''work_revision'', ''kind'', ''summary'', ''artifact_ref'', ''id'', ''sha256'', ''delivery_id'', ''proof_mode'', ''proof_sha256'',
    ''event_ids'', ''schema_version'', ''batch_id'', ''attempt_id'', ''binding_id'', ''owner_epoch'', ''transport_mode'', ''render_sha256'',
    ''events'', ''delivery_receipts'', ''injectSteps'', ''ephemeralMessage'', ''hookSpecificOutput'', ''hookEventName'', ''additionalContext'']"
  by (simp add: valid_utf8_ascii byte_def)

lemma event_readable: "list_all valid_utf8 (event_texts e) \<Longrightarrow> readable (Suc (Suc d)) (event_json e)"
  using names_ascii by (simp add: event_json_def event_texts_def json_number_int split: option.splits)

lemma receipt_readable: "list_all valid_utf8 ([rc_task r, rc_delivery r, rc_mode r, rc_sha r] @ rc_events r) \<Longrightarrow>
    readable (Suc (Suc d)) (receipt_json r)"
  using names_ascii by (simp add: receipt_json_def list_all_iff)

lemma texts_parts:
  assumes "texts_valid b"
  shows "e \<in> set (ba_events b) \<Longrightarrow> list_all valid_utf8 (event_texts e)"
    and "r \<in> set (ba_receipts b) \<Longrightarrow> list_all valid_utf8 ([rc_task r, rc_delivery r, rc_mode r, rc_sha r] @ rc_events r)"
  using assms by (simp_all add: texts_valid_def batch_texts_def list_all_iff ball_Un)

lemma json_readable:
  assumes "texts_valid b"
  shows "readable (Suc (Suc (Suc (Suc d)))) (content_json b)" "readable (Suc (Suc (Suc (Suc d)))) (batch_json b)"
proof -
  have "\<forall>e\<in>set (ba_events b). readable (Suc (Suc d)) (event_json e)"
    using texts_parts(1) [OF assms] event_readable by blast
  moreover have "\<forall>r\<in>set (ba_receipts b). readable (Suc (Suc d)) (receipt_json r)"
    using texts_parts(2) [OF assms] receipt_readable by blast
  ultimately show "readable (Suc (Suc (Suc (Suc d)))) (content_json b)" "readable (Suc (Suc (Suc (Suc d)))) (batch_json b)"
    using assms names_ascii
    by (simp_all add: content_json_def batch_json_def json_number_int json_number_nat texts_valid_def batch_texts_def list_all_iff)
qed

lemma dec_int_inject: "dec_int i = dec_int j \<Longrightarrow> i = j"
proof -
  assume e: "dec_int i = dec_int j"
  have m: "dec_nat n \<noteq> CHR ''-'' # s" for n s
    using dec_nat_digits [of n] by (auto simp: is_digit_def byte_def)
  have n: "dec_nat (nat i) = dec_nat (nat j) \<Longrightarrow> i \<ge> 0 \<Longrightarrow> j \<ge> 0 \<Longrightarrow> i = j" for i j using dec_nat_inject by fastforce
  show "i = j"
  proof (cases "i < 0 \<longleftrightarrow> j < 0")
    case True
    then show ?thesis using e n [of i j] n [of "- i" "- j"] by (cases "i < 0") (simp_all add: dec_int_def)
  next
    case False
    then show ?thesis using e m m [symmetric] by (auto simp: dec_int_def split: if_splits)
  qed
qed

lemma event_json_inject: "event_json e = event_json e' \<Longrightarrow> e = e'"
  by (cases e; cases e') (auto simp: event_json_def dest!: dec_int_inject split: option.splits)

lemma receipt_json_inject: "receipt_json r = receipt_json r' \<Longrightarrow> r = r'"
proof -
  have "inj JStr" by (simp add: inj_def)
  then show "receipt_json r = receipt_json r' \<Longrightarrow> r = r'"
    by (cases r; cases r') (auto simp: receipt_json_def dest: map_injective)
qed

lemma content_inject:
  assumes "content_json b = content_json b'"
  shows "b' = b\<lparr>ba_attempt := ba_attempt b', ba_render := ba_render b'\<rparr>"
proof -
  have "map event_json (ba_events b) = map event_json (ba_events b')" "map receipt_json (ba_receipts b) = map receipt_json (ba_receipts b')"
    "dec_int (ba_version b) = dec_int (ba_version b')" "dec_nat (ba_epoch b) = dec_nat (ba_epoch b')"
    "ba_id b = ba_id b'" "ba_binding b = ba_binding b'" "ba_mode b = ba_mode b'"
    using assms by (simp_all add: content_json_def)
  moreover have "inj event_json" "inj receipt_json" by (auto intro!: injI event_json_inject receipt_json_inject)
  ultimately have "ba_events b = ba_events b'" "ba_receipts b = ba_receipts b'" "ba_version b = ba_version b'" "ba_epoch b = ba_epoch b'"
    by (auto dest: map_injective dec_int_inject dec_nat_inject)
  then show ?thesis using \<open>ba_id b = ba_id b'\<close> \<open>ba_binding b = ba_binding b'\<close> \<open>ba_mode b = ba_mode b'\<close>
    by (cases b; cases b') simp
qed

lemma nesting: "max_nesting = Suc (Suc (Suc (Suc 9996)))"
  by (simp add: max_nesting_def)

text \<open>C26. The content bytes of a batch bind everything in it: two batches of valid UTF-8 texts with the same
  content bytes agree in every field but the attempt and the render hash, which the hashed content leaves out.\<close>

theorem content_binds:
  assumes "content_bytes b = Inr t" "content_bytes b' = Inr t" "texts_valid b" "texts_valid b'"
  shows "b' = b\<lparr>ba_attempt := ba_attempt b', ba_render := ba_render b'\<rparr>"
proof -
  have "enc_json (content_json b) = enc_json (content_json b')"
    using assms(1,2) by (auto simp: content_bytes_def split: option.splits)
  then have "content_json b = content_json b'"
    using enc_json_inject json_readable(1) [OF assms(3)] json_readable(1) [OF assms(4)] nesting by metis
  then show ?thesis by (rule content_inject)
qed

lemma context_valid: "valid_utf8 context_prefix"
  by (simp add: context_prefix_def valid_utf8_ascii byte_def)

lemma wire_value:
  assumes "texts_valid b" "valid_utf8 hook"
  shows "whole (enc_json (hook_wire provider hook (enc_json (batch_json b)))) = Some (hook_wire provider hook (enc_json (batch_json b)))"
proof -
  have "valid_utf8 (context_prefix @ enc_json (batch_json b))"
    using context_valid enc_json_valid [OF json_readable(2) [OF assms(1)]] by (rule valid_utf8_append)
  then have "readable max_nesting (hook_wire provider hook (enc_json (batch_json b)))"
    using assms(2) names_ascii unfolding nesting by (simp add: hook_wire_def)
  then show ?thesis by (rule whole_enc)
qed


text \<open>The prompt of an agent session is the fixed notice and the JSON of the batch, at most 8192 bytes,
  valid UTF-8, for a valid batch on that transport whose render hash is the hash of its content.\<close>

theorem prompt_shows_batch:
  assumes "acp_prompt_bytes sha b = Inr w" "texts_valid b"
  shows "length w \<le> 8192 \<and> batch_fine b \<and> ba_mode b = grok_acp \<and> ba_attempt b \<noteq> []
    \<and> ba_render b = sha (render_domain @ enc_json (content_json b)) \<and> valid_utf8 w
    \<and> (\<exists>t. w = context_prefix @ t \<and> whole t = Some (batch_json b))"
proof -
  have w: "ba_mode b = grok_acp" "ba_attempt b \<noteq> []" "validate_batch b = None"
    "ba_render b = sha (render_domain @ enc_json (content_json b))"
    "w = context_prefix @ enc_json (batch_json b)" "length w \<le> 8192"
    using assms(1) by (auto simp: acp_prompt_bytes_def render_hash_def content_bytes_def rbind_def bounded_wire_def split: if_splits sum.splits option.splits)
  have "whole (enc_json (batch_json b)) = Some (batch_json b)" using whole_enc json_readable(2) [OF assms(2)] nesting by metis
  moreover have "valid_utf8 w" unfolding w(5)
    using context_valid enc_json_valid [OF json_readable(2) [OF assms(2)]] by (rule valid_utf8_append)
  ultimately show ?thesis using w validate_batch_exact by blast
qed

end
