(* ===== verification/Bridge_Requests.thy ===== *)
theory Bridge_Requests
  imports Go_Struct Bridge_Codec Json_Ascii
begin

text \<open>
  The requests of the bridge as they arrive over local IPC (\<open>internal/contract/bridge.go\<close>): their types, the strict
  decoding of each and what is checked on it. The peer and the claim token, which are never decoded, are left out.
\<close>

section \<open>Data\<close>

datatype request_error = ReqInvalid | ReqVersion | ReqOwnerMode | ReqMode | ReqTooLarge

record hook_metadata =
  hm_hook :: string
  hm_tool :: string
  hm_status :: string

record hook_event =
  he_version :: int
  he_id :: string
  he_binding :: string
  he_epoch :: nat
  he_provider :: string
  he_session :: string
  he_native :: "string option"
  he_kind :: string
  he_observed :: string
  he_metadata :: hook_metadata

record bridge_base =
  bb_version :: int
  bb_binding :: string
  bb_epoch :: nat
  bb_request :: string

record owner_request = bridge_base +
  ow_mode :: string
  ow_capability :: string
  ow_control :: string

record hook_request = bridge_base +
  hk_capability :: string

record bind_request =
  bi_version :: int
  bi_request :: string
  bi_run :: string
  bi_provider :: string
  bi_pid :: int
  bi_birth :: string
  bi_executable :: string
  bi_mode :: string
  bi_owner :: string
  bi_capability :: string
  bi_control :: string
  bi_manifest :: string

record activate_request = owner_request +
  ar_session :: string
  ar_event :: string
  ar_hash :: string

record ingest_request = hook_request +
  ir_event :: hook_event

record claim_request = hook_request +
  cr_hook :: string

record emit_request = bridge_base +
  er_batch :: string
  er_attempt :: string
  er_token :: string
  er_render :: string
  er_wire :: string

record offered_request = bridge_base +
  of_batch :: string
  of_attempt :: string
  of_token :: string
  of_wire :: string

record receive_request = owner_request +
  rr_batch :: string
  rr_attempt :: string
  rr_render :: string

record redeliver_request = owner_request +
  rd_batch :: string
  rd_attempt :: string
  rd_reason :: string

record status_request = owner_request +
  sr_cursor :: string

section \<open>Fields\<close>

definition hook_metadata_fields :: "hook_metadata field list" where
  "hook_metadata_fields = [(''native_hook'', set_text (\<lambda>s. hm_hook_update (\<lambda>_. s))),
     (''tool_name'', set_text (\<lambda>s. hm_tool_update (\<lambda>_. s))), (''tool_status'', set_text (\<lambda>s. hm_status_update (\<lambda>_. s)))]"

definition hook_event_fields :: "hook_event field list" where
  "hook_event_fields = [(''schema_version'', set_int 64 (\<lambda>i. he_version_update (\<lambda>_. i))),
     (''event_id'', set_text (\<lambda>s. he_id_update (\<lambda>_. s))), (''binding_id'', set_text (\<lambda>s. he_binding_update (\<lambda>_. s))),
     (''owner_epoch'', set_uint 64 (\<lambda>n. he_epoch_update (\<lambda>_. n))), (''provider_id'', set_text (\<lambda>s. he_provider_update (\<lambda>_. s))),
     (''native_session_id'', set_text (\<lambda>s. he_session_update (\<lambda>_. s))),
     (''native_event_id'', set_text_pointer (\<lambda>p. he_native_update (\<lambda>_. p))), (''kind'', set_text (\<lambda>s. he_kind_update (\<lambda>_. s))),
     (''observed_at'', set_text (\<lambda>s. he_observed_update (\<lambda>_. s))),
     (''metadata'', set_struct True hook_metadata_fields he_metadata (\<lambda>d. he_metadata_update (\<lambda>_. d)))]"

definition base_fields :: "'a bridge_base_scheme field list" where
  "base_fields = [(''schema_version'', set_int 64 (\<lambda>i. bb_version_update (\<lambda>_. i))), (''binding_id'', set_text (\<lambda>s. bb_binding_update (\<lambda>_. s))),
     (''owner_epoch'', set_uint 64 (\<lambda>n. bb_epoch_update (\<lambda>_. n))), (''request_id'', set_text (\<lambda>s. bb_request_update (\<lambda>_. s)))]"

definition owner_fields :: "'a owner_request_scheme field list" where
  "owner_fields = base_fields @ [(''owner_mode'', set_text (\<lambda>s. ow_mode_update (\<lambda>_. s))),
     (''owner_capability_file'', set_text (\<lambda>s. ow_capability_update (\<lambda>_. s))), (''control_file'', set_text (\<lambda>s. ow_control_update (\<lambda>_. s)))]"

definition hook_fields :: "'a hook_request_scheme field list" where
  "hook_fields = base_fields @ [(''hook_capability'', set_text (\<lambda>s. hk_capability_update (\<lambda>_. s)))]"

definition bind_fields :: "bind_request field list" where
  "bind_fields = [(''schema_version'', set_int 64 (\<lambda>i. bi_version_update (\<lambda>_. i))), (''request_id'', set_text (\<lambda>s. bi_request_update (\<lambda>_. s))),
     (''run_id'', set_text (\<lambda>s. bi_run_update (\<lambda>_. s))), (''provider_id'', set_text (\<lambda>s. bi_provider_update (\<lambda>_. s))),
     (''native_pid'', set_int 64 (\<lambda>i. bi_pid_update (\<lambda>_. i))), (''native_birth'', set_text (\<lambda>s. bi_birth_update (\<lambda>_. s))),
     (''native_executable_sha256'', set_text (\<lambda>s. bi_executable_update (\<lambda>_. s))), (''transport_mode'', set_text (\<lambda>s. bi_mode_update (\<lambda>_. s))),
     (''owner_mode'', set_text (\<lambda>s. bi_owner_update (\<lambda>_. s))), (''owner_capability_file'', set_text (\<lambda>s. bi_capability_update (\<lambda>_. s))),
     (''control_file'', set_text (\<lambda>s. bi_control_update (\<lambda>_. s))), (''manifest_sha256'', set_text (\<lambda>s. bi_manifest_update (\<lambda>_. s)))]"

definition activate_fields :: "activate_request field list" where
  "activate_fields = owner_fields @ [(''native_session_id'', set_text (\<lambda>s. ar_session_update (\<lambda>_. s))),
     (''observation_event_id'', set_text (\<lambda>s. ar_event_update (\<lambda>_. s))), (''observation_hash'', set_text (\<lambda>s. ar_hash_update (\<lambda>_. s)))]"

definition ingest_fields :: "ingest_request field list" where
  "ingest_fields = hook_fields @ [(''event'', set_struct True hook_event_fields ir_event (\<lambda>e. ir_event_update (\<lambda>_. e)))]"

definition claim_fields :: "claim_request field list" where
  "claim_fields = hook_fields @ [(''native_hook'', set_text (\<lambda>s. cr_hook_update (\<lambda>_. s)))]"

definition emit_fields :: "emit_request field list" where
  "emit_fields = base_fields @ [(''batch_id'', set_text (\<lambda>s. er_batch_update (\<lambda>_. s))), (''attempt_id'', set_text (\<lambda>s. er_attempt_update (\<lambda>_. s))),
     (''claim_token'', set_text (\<lambda>s. er_token_update (\<lambda>_. s))), (''render_sha256'', set_text (\<lambda>s. er_render_update (\<lambda>_. s))),
     (''wire_sha256'', set_text (\<lambda>s. er_wire_update (\<lambda>_. s)))]"

definition offered_fields :: "offered_request field list" where
  "offered_fields = base_fields @ [(''batch_id'', set_text (\<lambda>s. of_batch_update (\<lambda>_. s))), (''attempt_id'', set_text (\<lambda>s. of_attempt_update (\<lambda>_. s))),
     (''claim_token'', set_text (\<lambda>s. of_token_update (\<lambda>_. s))), (''wire_sha256'', set_text (\<lambda>s. of_wire_update (\<lambda>_. s)))]"

definition receive_fields :: "receive_request field list" where
  "receive_fields = owner_fields @ [(''batch_id'', set_text (\<lambda>s. rr_batch_update (\<lambda>_. s))), (''attempt_id'', set_text (\<lambda>s. rr_attempt_update (\<lambda>_. s))),
     (''render_sha256'', set_text (\<lambda>s. rr_render_update (\<lambda>_. s)))]"

definition redeliver_fields :: "redeliver_request field list" where
  "redeliver_fields = owner_fields @ [(''batch_id'', set_text (\<lambda>s. rd_batch_update (\<lambda>_. s))), (''attempt_id'', set_text (\<lambda>s. rd_attempt_update (\<lambda>_. s))),
     (''reason'', set_text (\<lambda>s. rd_reason_update (\<lambda>_. s)))]"

definition status_fields :: "status_request field list" where
  "status_fields = owner_fields @ [(''cursor'', set_text (\<lambda>s. sr_cursor_update (\<lambda>_. s)))]"

definition flat_shape :: "'r field list \<Rightarrow> shape" where
  "flat_shape fs = Struct (map (\<lambda>(n, _). (n, Scalar)) fs)"

definition hook_event_shape :: shape where
  "hook_event_shape = Struct (map (\<lambda>(n, _). (n, if n = ''metadata'' then flat_shape hook_metadata_fields else Scalar)) hook_event_fields)"

definition ingest_shape :: shape where
  "ingest_shape = Struct (map (\<lambda>(n, _). (n, if n = ''event'' then hook_event_shape else Scalar)) ingest_fields)"

section \<open>Zero values\<close>

definition zero_metadata :: hook_metadata where "zero_metadata = \<lparr>hm_hook = [], hm_tool = [], hm_status = []\<rparr>"
definition zero_event :: hook_event where
  "zero_event = \<lparr>he_version = 0, he_id = [], he_binding = [], he_epoch = 0, he_provider = [], he_session = [], he_native = None, he_kind = [],
     he_observed = [], he_metadata = zero_metadata\<rparr>"
definition zero_base :: bridge_base where "zero_base = \<lparr>bb_version = 0, bb_binding = [], bb_epoch = 0, bb_request = []\<rparr>"
definition zero_owner :: owner_request where
  "zero_owner = bridge_base.extend zero_base (owner_request.fields [] [] [])"
definition zero_hook :: hook_request where "zero_hook = bridge_base.extend zero_base (hook_request.fields [])"
definition zero_bind :: bind_request where
  "zero_bind = \<lparr>bi_version = 0, bi_request = [], bi_run = [], bi_provider = [], bi_pid = 0, bi_birth = [], bi_executable = [], bi_mode = [],
     bi_owner = [], bi_capability = [], bi_control = [], bi_manifest = []\<rparr>"

section \<open>Checks\<close>

definition field_names :: "'r field list \<Rightarrow> string list" where
  "field_names fs = map fst fs"

definition has_null :: "(string \<times> string) list \<Rightarrow> bool" where
  "has_null m = list_ex (\<lambda>(n, t). n \<noteq> ''event'' \<and> t = ''null'') m"

definition lacks :: "(string \<times> string) list \<Rightarrow> string \<Rightarrow> bool" where
  "lacks m n \<longleftrightarrow> (case map_of m n of None \<Rightarrow> True | Some t \<Rightarrow> t = ''null'')"

text \<open>\<open>json.Unmarshal\<close> of one integer.\<close>

definition unmarshal_int :: "string option \<Rightarrow> int option" where
  "unmarshal_int t = (case t of None \<Rightarrow> None | Some raw \<Rightarrow> (case whole raw of None \<Rightarrow> None | Some v \<Rightarrow> set_int 64 (\<lambda>i _. i) v 0))"

definition decode_bridge_rpc ::
  "shape \<Rightarrow> 'r field list \<Rightarrow> 'r \<Rightarrow> string list \<Rightarrow> string \<Rightarrow> request_error + ((string \<times> string) list \<times> 'r)" where
  "decode_bridge_rpc sh fs zero required raw =
    (case decode_strict sh fs zero raw of
       None \<Rightarrow> Inl ReqInvalid
     | Some r \<Rightarrow> (case raw_fields raw of
         None \<Rightarrow> Inl ReqInvalid
       | Some m \<Rightarrow>
         if list_ex (lacks m) required then Inl ReqInvalid
         else (case unmarshal_int (map_of m ''schema_version'') of
             None \<Rightarrow> Inl ReqInvalid
           | Some v \<Rightarrow> if v \<noteq> 1 then Inl ReqVersion else if has_null m then Inl ReqInvalid else Inr (m, r))))"

definition valid_base :: "'a bridge_base_scheme \<Rightarrow> bool" where
  "valid_base r \<longleftrightarrow> bb_version r = 1 \<and> bb_binding r \<noteq> [] \<and> bb_epoch r > 0 \<and> bb_request r \<noteq> []"

definition valid_owner_mode :: "string \<Rightarrow> bool" where
  "valid_owner_mode m \<longleftrightarrow> m = ''managed'' \<or> m = ''local'' \<or> m = ''native''"

definition valid_owner :: "'a owner_request_scheme \<Rightarrow> bool" where
  "valid_owner r \<longleftrightarrow> valid_base r \<and> valid_owner_mode (ow_mode r) \<and> ow_capability r \<noteq> [] \<and> ow_control r \<noteq> []"

definition valid_hook :: "'a hook_request_scheme \<Rightarrow> bool" where
  "valid_hook r \<longleftrightarrow> valid_base r \<and> hk_capability r \<noteq> []"

section \<open>Time stamps\<close>

text \<open>\<open>time.Parse(time.RFC3339Nano, s)\<close> succeeds: the layout with an hour of one digit allowed, an optional
  fraction after a point or a comma, and a zone of \<open>Z\<close> or an offset.\<close>

definition two_digits :: "string \<Rightarrow> (nat \<times> string) option" where
  "two_digits s = (case s of a # b # r \<Rightarrow> if is_digit a \<and> is_digit b then Some (digits_val [a, b], r) else None | _ \<Rightarrow> None)"

definition hour_digits :: "string \<Rightarrow> (nat \<times> string) option" where
  "hour_digits s = (case s of
     a # r \<Rightarrow> if \<not> is_digit a then None
       else (case r of b # r' \<Rightarrow> if is_digit b then Some (digits_val [a, b], r') else Some (digits_val [a], r) | [] \<Rightarrow> Some (digits_val [a], r))
   | [] \<Rightarrow> None)"

definition literal_char :: "char \<Rightarrow> string \<Rightarrow> string option" where
  "literal_char c s = (case s of a # r \<Rightarrow> if a = c then Some r else None | [] \<Rightarrow> None)"

definition leap_year :: "nat \<Rightarrow> bool" where
  "leap_year y \<longleftrightarrow> y mod 4 = 0 \<and> (y mod 100 \<noteq> 0 \<or> y mod 400 = 0)"

definition days_in :: "nat \<Rightarrow> nat \<Rightarrow> nat" where
  "days_in y m = (if m = 2 then (if leap_year y then 29 else 28) else if m \<in> {4, 6, 9, 11} then 30 else 31)"

definition date_part :: "string \<Rightarrow> string option" where
  "date_part s =
    (if length s < 4 \<or> \<not> list_all is_digit (take 4 s) then None
     else (let y = digits_val (take 4 s) in
       Option.bind (literal_char (CHR ''-'') (drop 4 s)) (\<lambda>r1.
       Option.bind (two_digits r1) (\<lambda>(m, r2). if m < 1 \<or> m > 12 then None else
       Option.bind (literal_char (CHR ''-'') r2) (\<lambda>r3.
       Option.bind (two_digits r3) (\<lambda>(d, r4). if d < 1 \<or> d > days_in y m then None else Some r4))))))"

definition clock_part :: "string \<Rightarrow> string option" where
  "clock_part s =
    Option.bind (literal_char (CHR ''T'') s) (\<lambda>r0.
    Option.bind (hour_digits r0) (\<lambda>(h, r1). if h \<ge> 24 then None else
    Option.bind (literal_char (CHR '':'') r1) (\<lambda>r2.
    Option.bind (two_digits r2) (\<lambda>(m, r3). if m \<ge> 60 then None else
    Option.bind (literal_char (CHR '':'') r3) (\<lambda>r4.
    Option.bind (two_digits r4) (\<lambda>(sec, r5). if sec \<ge> 60 then None else Some r5))))))"

definition fraction_part :: "string \<Rightarrow> string" where
  "fraction_part s = (case s of
     c # d # r \<Rightarrow> if (c = CHR ''.'' \<or> c = CHR '','') \<and> is_digit d then dropWhile is_digit (d # r) else s
   | _ \<Rightarrow> s)"

definition zone_part :: "string \<Rightarrow> string option" where
  "zone_part s = (case s of
     [] \<Rightarrow> None
   | c # r \<Rightarrow>
     if c = CHR ''Z'' then Some r
     else if length s < 6 \<or> s ! 3 \<noteq> CHR '':'' then None
     else (case (two_digits (take 2 r), two_digits (take 2 (drop 4 s))) of
         (Some (h, _), Some (m, _)) \<Rightarrow> if h > 24 \<or> m > 60 \<or> (c \<noteq> CHR ''+'' \<and> c \<noteq> CHR ''-'') then None else Some (drop 6 s)
       | _ \<Rightarrow> None))"

definition time_ok :: "string \<Rightarrow> bool" where
  "time_ok s \<longleftrightarrow> Option.bind (Option.bind (date_part s) clock_part) (\<lambda>r. zone_part (fraction_part r)) = Some []"

section \<open>The decoders\<close>

definition decode_bind_request :: "string \<Rightarrow> request_error + bind_request" where
  "decode_bind_request raw =
    rbind (decode_bridge_rpc (flat_shape bind_fields) bind_fields zero_bind (field_names bind_fields) raw) (\<lambda>(_, r).
      if \<not> valid_owner_mode (bi_owner r) then Inl ReqOwnerMode
      else if bi_mode r \<noteq> hook_pull then Inl ReqMode
      else if bi_request r = [] \<or> bi_run r = [] \<or> bi_provider r = [] \<or> bi_pid r \<le> 0 \<or> bi_birth r = []
        \<or> \<not> lower_sha256 (bi_executable r) \<or> bi_capability r = [] \<or> bi_control r = [] \<or> \<not> lower_sha256 (bi_manifest r)
      then Inl ReqInvalid else Inr r)"

definition decode_activate_request :: "string \<Rightarrow> request_error + activate_request" where
  "decode_activate_request raw =
    rbind (decode_bridge_rpc (flat_shape activate_fields) activate_fields
        (owner_request.extend zero_owner (activate_request.fields [] [] [])) (field_names activate_fields) raw) (\<lambda>(_, r).
      if \<not> valid_owner_mode (ow_mode r) then Inl ReqOwnerMode
      else if \<not> valid_owner r \<or> ar_session r = [] \<or> ar_event r = [] \<or> \<not> lower_sha256 (ar_hash r) then Inl ReqInvalid else Inr r)"

definition decode_claim_request :: "string \<Rightarrow> request_error + claim_request" where
  "decode_claim_request raw =
    rbind (decode_bridge_rpc (flat_shape claim_fields) claim_fields (hook_request.extend zero_hook (claim_request.fields [])) (field_names claim_fields) raw)
      (\<lambda>(_, r). if \<not> valid_hook r \<or> (cr_hook r \<noteq> ''SessionStart'' \<and> cr_hook r \<noteq> ''UserPromptSubmit'' \<and> cr_hook r \<noteq> ''PreInvocation'')
        then Inl ReqInvalid else Inr r)"

definition decode_emit_request :: "string \<Rightarrow> request_error + emit_request" where
  "decode_emit_request raw =
    rbind (decode_bridge_rpc (flat_shape emit_fields) emit_fields (bridge_base.extend zero_base (emit_request.fields [] [] [] [] [])) (field_names emit_fields) raw)
      (\<lambda>(_, r). if \<not> valid_base r \<or> er_batch r = [] \<or> er_attempt r = [] \<or> er_token r = [] \<or> \<not> lower_sha256 (er_render r) \<or> \<not> lower_sha256 (er_wire r)
        then Inl ReqInvalid else Inr r)"

definition decode_offered_request :: "string \<Rightarrow> request_error + offered_request" where
  "decode_offered_request raw =
    rbind (decode_bridge_rpc (flat_shape offered_fields) offered_fields (bridge_base.extend zero_base (offered_request.fields [] [] [] [])) (field_names offered_fields) raw)
      (\<lambda>(_, r). if \<not> valid_base r \<or> of_batch r = [] \<or> of_attempt r = [] \<or> of_token r = [] \<or> \<not> lower_sha256 (of_wire r)
        then Inl ReqInvalid else Inr r)"

definition decode_receive_request :: "string \<Rightarrow> request_error + receive_request" where
  "decode_receive_request raw =
    rbind (decode_bridge_rpc (flat_shape receive_fields) receive_fields (owner_request.extend zero_owner (receive_request.fields [] [] [])) (field_names receive_fields) raw)
      (\<lambda>(_, r). if \<not> valid_owner_mode (ow_mode r) then Inl ReqOwnerMode
        else if \<not> valid_owner r \<or> rr_batch r = [] \<or> rr_attempt r = [] \<or> \<not> lower_sha256 (rr_render r) then Inl ReqInvalid else Inr r)"

definition decode_redeliver_request :: "string \<Rightarrow> request_error + redeliver_request" where
  "decode_redeliver_request raw =
    rbind (decode_bridge_rpc (flat_shape redeliver_fields) redeliver_fields (owner_request.extend zero_owner (redeliver_request.fields [] [] [])) (field_names redeliver_fields) raw)
      (\<lambda>(_, r). if \<not> valid_owner_mode (ow_mode r) then Inl ReqOwnerMode
        else if \<not> valid_owner r \<or> rd_batch r = [] \<or> rd_attempt r = [] \<or> rd_reason r = [] then Inl ReqInvalid else Inr r)"

definition owner_names :: "string list" where
  "owner_names = field_names (owner_fields :: owner_request field list)"

definition decode_status_request :: "string \<Rightarrow> request_error + status_request" where
  "decode_status_request raw =
    rbind (decode_bridge_rpc (flat_shape status_fields) status_fields (owner_request.extend zero_owner (status_request.fields [])) owner_names raw)
      (\<lambda>(m, r). if \<not> valid_owner_mode (ow_mode r) then Inl ReqOwnerMode
        else if \<not> valid_owner r then Inl ReqInvalid
        else if map_of m ''cursor'' \<noteq> None \<and> sr_cursor r = [] then Inl ReqInvalid else Inr r)"

definition decode_unbind_request :: "string \<Rightarrow> request_error + owner_request" where
  "decode_unbind_request raw =
    rbind (decode_bridge_rpc (flat_shape (owner_fields :: owner_request field list)) owner_fields zero_owner owner_names raw)
      (\<lambda>(_, r). if \<not> valid_owner_mode (ow_mode r) then Inl ReqOwnerMode
        else if \<not> valid_owner r then Inl ReqInvalid else Inr r)"

definition event_kinds :: "string list" where
  "event_kinds = [''session_started'', ''turn_boundary'', ''tool_observed'', ''session_ended'']"
definition event_hooks :: "string list" where
  "event_hooks = [''PreInvocation'', ''SessionStart'', ''UserPromptSubmit'', ''PostToolUse'', ''PostToolUseFailure'', ''Stop'', ''SessionEnd'']"
definition tool_statuses :: "string list" where "tool_statuses = [[], ''success'', ''failure'', ''unknown'']"
definition tool_names :: "string list" where
  "tool_names = [[], ''Bash'', ''Read'', ''Write'', ''Edit'', ''Grep'', ''Glob'', ''Task'', ''WebFetch'', ''WebSearch'', ''NotebookEdit'']"

definition blank_member :: "(string \<times> string) list \<Rightarrow> string \<Rightarrow> bool" where
  "blank_member m n \<longleftrightarrow> (case map_of m n of None \<Rightarrow> False | Some t \<Rightarrow> t = ''null'' \<or> t = [dquote, dquote])"

definition hook_event_ok :: "hook_event \<Rightarrow> bool" where
  "hook_event_ok e \<longleftrightarrow>
    \<not> (he_id e = [] \<or> he_binding e = [] \<or> he_epoch e = 0 \<or> he_provider e = [] \<or> he_session e = [])
    \<and> he_kind e \<in> set event_kinds \<and> time_ok (he_observed e)
    \<and> (if he_provider e = ''agy''
       then emit_supported (he_provider e) (hm_hook (he_metadata e)) \<and> he_kind e = ''turn_boundary''
         \<and> hm_tool (he_metadata e) = [] \<and> hm_status (he_metadata e) = []
       else hm_hook (he_metadata e) \<noteq> ''PreInvocation'')
    \<and> hm_hook (he_metadata e) \<in> set event_hooks \<and> hm_status (he_metadata e) \<in> set tool_statuses \<and> hm_tool (he_metadata e) \<in> set tool_names"

definition decode_hook_event :: "string \<Rightarrow> request_error + hook_event" where
  "decode_hook_event raw =
    (if length raw > 65536 then Inl ReqTooLarge
     else (case decode_strict hook_event_shape hook_event_fields zero_event raw of
        None \<Rightarrow> Inl ReqInvalid
      | Some e \<Rightarrow> (case raw_fields raw of
          None \<Rightarrow> Inl ReqInvalid
        | Some m \<Rightarrow>
          if list_ex (\<lambda>n. map_of m n = None) (field_names hook_event_fields) then Inl ReqInvalid
          else (let t = the (map_of m ''metadata'')
            in if t = ''null'' then Inl ReqInvalid
               else (case raw_fields t of
                  None \<Rightarrow> Inl ReqInvalid
                | Some d \<Rightarrow>
                  if list_ex (blank_member d) [''tool_name'', ''tool_status''] then Inl ReqInvalid
                  else if he_version e \<noteq> 1 then Inl ReqVersion
                  else if \<not> hook_event_ok e then Inl ReqInvalid else Inr e)))))"

definition decode_ingest_request :: "string \<Rightarrow> request_error + ingest_request" where
  "decode_ingest_request raw =
    rbind (decode_bridge_rpc ingest_shape ingest_fields (hook_request.extend zero_hook (ingest_request.fields zero_event)) (field_names ingest_fields) raw)
      (\<lambda>(m, r). if \<not> valid_hook r then Inl ReqInvalid
        else rbind (decode_hook_event (the (map_of m ''event''))) (\<lambda>e.
          if he_binding e \<noteq> bb_binding r \<or> he_epoch e \<noteq> bb_epoch r then Inl ReqInvalid else Inr (r\<lparr>ir_event := e\<rparr>)))"

section \<open>What is accepted\<close>

lemma scan_struct_names:
  assumes "scan_shape (Struct ss) (JObj m)"
  shows "distinct (map fst m) \<and> set (map fst m) \<subseteq> set (map fst ss)"
proof -
  have "\<forall>(k, v)\<in>set m. map_of ss k \<noteq> None" using assms by (auto simp: list_all_iff split: option.splits)
  then have "fst ` set m \<subseteq> fst ` set ss" by (fastforce simp: map_of_eq_None_iff)
  then show ?thesis using assms by simp
qed

lemma decode_bridge_rpc_sound:
  assumes "decode_bridge_rpc (Struct ss) fs zero required raw = Inr (m, r)" "required \<noteq> []"
  shows "\<exists>kvs. whole raw = Some (JObj kvs) \<and> distinct (map fst kvs) \<and> set (map fst kvs) \<subseteq> set (map fst ss)
    \<and> set_members True fs kvs zero = Some r \<and> raw_fields raw = Some m
    \<and> (\<forall>n\<in>set required. \<exists>t. map_of m n = Some t \<and> t \<noteq> ''null'') \<and> unmarshal_int (map_of m ''schema_version'') = Some 1 \<and> \<not> has_null m"
proof -
  have d: "decode_strict (Struct ss) fs zero raw = Some r" "raw_fields raw = Some m" "\<not> list_ex (lacks m) required"
    "unmarshal_int (map_of m ''schema_version'') = Some 1" "\<not> has_null m"
    using assms(1) by (auto simp: decode_bridge_rpc_def split: option.splits if_splits)
  obtain v where v: "whole raw = Some v" "scan_shape (Struct ss) v" "decode_struct True fs v zero = Some r"
    using decode_strict_sound [OF d(1)] by blast
  have req: "\<forall>n\<in>set required. \<exists>t. map_of m n = Some t \<and> t \<noteq> ''null''"
    using d(3) by (force simp: list_ex_iff lacks_def split: option.splits)
  have "m \<noteq> []" using req assms(2) by (cases required) auto
  then have "v \<noteq> JNull" using d(2) v(1) by (auto simp: raw_fields_def)
  then obtain kvs where "v = JObj kvs" using v(3) by (auto simp: decode_struct_def split: json.splits)
  then show ?thesis using v d req scan_struct_names by (auto simp: decode_struct_def)
qed

text \<open>A hook observation is accepted only as it is declared: a JSON object of at most 65536 bytes of UTF-8 with
  exactly the ten declared names, each once, of version 1, from an identified session and event, of a known kind,
  hook, tool and status, with a time stamp; and an observation of a push-only provider can only be a turn boundary on
  its own hook.\<close>

theorem hook_event_sound:
  assumes "decode_hook_event raw = Inr e"
  shows "length raw \<le> 65536 \<and> valid_utf8 raw \<and> he_version e = 1 \<and> hook_event_ok e
    \<and> (\<exists>m. whole raw = Some (JObj m) \<and> distinct (map fst m) \<and> set (map fst m) = set (field_names hook_event_fields))"
proof -
  obtain m d where a: "decode_strict hook_event_shape hook_event_fields zero_event raw = Some e" "raw_fields raw = Some m"
    "\<not> list_ex (\<lambda>n. map_of m n = None) (field_names hook_event_fields)" "length raw \<le> 65536" "he_version e = 1" "hook_event_ok e"
    using assms by (auto simp: decode_hook_event_def Let_def split: if_splits option.splits)
  obtain v where v: "whole raw = Some v" "scan_shape hook_event_shape v" "decode_struct True hook_event_fields v zero_event = Some e" "valid_utf8 raw"
    using decode_strict_sound [OF a(1)] by blast
  have "''schema_version'' \<in> set (field_names hook_event_fields)" by (simp add: field_names_def hook_event_fields_def)
  then have "map_of m ''schema_version'' \<noteq> None" using a(3) by (auto simp: list_ex_iff)
  then have "m \<noteq> []" by auto
  then have "v \<noteq> JNull" using a(2) v(1) by (auto simp: raw_fields_def)
  then obtain kvs where kvs: "v = JObj kvs" using v(3) by (auto simp: decode_struct_def split: json.splits)
  have n: "distinct (map fst kvs)" "set (map fst kvs) \<subseteq> set (field_names hook_event_fields)"
    using scan_struct_names v(2) unfolding kvs hook_event_shape_def by (force simp: field_names_def)+
  have "map fst m = map fst kvs" using raw_fields_keys(1) a(2) v(1) kvs by blast
  moreover have "set (field_names hook_event_fields) \<subseteq> set (map fst m)"
    using a(3) by (auto simp: list_ex_iff map_of_eq_None_iff)
  ultimately show ?thesis using a v kvs n by auto
qed

section \<open>Reading requests back\<close>

definition hook_event_json :: "hook_event \<Rightarrow> json" where
  "hook_event_json e = JObj [(''schema_version'', JNum (dec_int (he_version e))), (''event_id'', JStr (he_id e)), (''binding_id'', JStr (he_binding e)),
     (''owner_epoch'', JNum (dec_nat (he_epoch e))), (''provider_id'', JStr (he_provider e)), (''native_session_id'', JStr (he_session e)),
     (''native_event_id'', case he_native e of None \<Rightarrow> JNull | Some s \<Rightarrow> JStr s), (''kind'', JStr (he_kind e)), (''observed_at'', JStr (he_observed e)),
     (''metadata'', JObj ([(''native_hook'', JStr (hm_hook (he_metadata e)))]
        @ (if hm_tool (he_metadata e) = [] then [] else [(''tool_name'', JStr (hm_tool (he_metadata e)))])
        @ (if hm_status (he_metadata e) = [] then [] else [(''tool_status'', JStr (hm_status (he_metadata e)))])))]"

definition hook_event_texts :: "hook_event \<Rightarrow> string list" where
  "hook_event_texts e = [he_id e, he_binding e, he_provider e, he_session e, he_kind e, he_observed e, hm_hook (he_metadata e),
     hm_tool (he_metadata e), hm_status (he_metadata e)] @ (case he_native e of None \<Rightarrow> [] | Some s \<Rightarrow> [s])"

lemma request_names: "list_all (\<lambda>s. valid_utf8 s) [''schema_version'', ''event_id'', ''binding_id'', ''owner_epoch'', ''provider_id'', ''native_session_id'',
    ''native_event_id'', ''kind'', ''observed_at'', ''metadata'', ''native_hook'', ''tool_name'', ''tool_status'']"
  by (simp add: valid_utf8_ascii byte_def)

lemma hook_event_readable: "list_all valid_utf8 (hook_event_texts e) \<Longrightarrow> readable (Suc (Suc d)) (hook_event_json e)"
  using request_names by (simp add: hook_event_json_def hook_event_texts_def json_number_int json_number_nat split: option.splits)

lemma hook_event_scan: "scan_shape hook_event_shape (hook_event_json e)"
  by (simp add: hook_event_json_def hook_event_shape_def hook_event_fields_def hook_metadata_fields_def flat_shape_def split: option.split)

lemma metadata_set:
  "set_struct True hook_metadata_fields he_metadata (\<lambda>d. he_metadata_update (\<lambda>_. d))
     (JObj ([(''native_hook'', JStr h)] @ (if t = [] then [] else [(''tool_name'', JStr t)]) @ (if u = [] then [] else [(''tool_status'', JStr u)])))
     (r\<lparr>he_metadata := zero_metadata\<rparr>) = Some (r\<lparr>he_metadata := \<lparr>hm_hook = h, hm_tool = t, hm_status = u\<rparr>\<rparr>)"
  by (simp add: set_struct_def decode_struct_def find_setter_def hook_metadata_fields_def zero_metadata_def)

lemma hook_event_decoded:
  assumes "he_version e = 1" "he_epoch e < 2 ^ 64"
  shows "decode_struct True hook_event_fields (hook_event_json e) zero_event = Some e"
proof -
  have i: "set_int 64 (\<lambda>i. he_version_update (\<lambda>_. i)) (JNum (dec_int (he_version e))) r = Some (r\<lparr>he_version := he_version e\<rparr>)" for r
    using assms(1) by (simp add: set_int_dec)
  have n: "set_uint 64 (\<lambda>n. he_epoch_update (\<lambda>_. n)) (JNum (dec_nat (he_epoch e))) r = Some (r\<lparr>he_epoch := he_epoch e\<rparr>)" for r
    using assms(2) by (rule set_uint_dec)
  have p: "set_text_pointer (\<lambda>p. he_native_update (\<lambda>_. p)) (case he_native e of None \<Rightarrow> JNull | Some s \<Rightarrow> JStr s) r = Some (r\<lparr>he_native := he_native e\<rparr>)" for r
    by (simp add: set_text_pointer_def split: option.split)
  define mid where "mid = zero_event\<lparr>he_version := he_version e, he_id := he_id e, he_binding := he_binding e, he_epoch := he_epoch e,
    he_provider := he_provider e, he_session := he_session e, he_native := he_native e, he_kind := he_kind e, he_observed := he_observed e\<rparr>"
  have m: "mid = mid\<lparr>he_metadata := zero_metadata\<rparr>" by (simp add: mid_def zero_event_def)
  have "decode_struct True hook_event_fields (hook_event_json e) zero_event =
      set_members True hook_event_fields [(''metadata'', JObj ([(''native_hook'', JStr (hm_hook (he_metadata e)))]
        @ (if hm_tool (he_metadata e) = [] then [] else [(''tool_name'', JStr (hm_tool (he_metadata e)))])
        @ (if hm_status (he_metadata e) = [] then [] else [(''tool_status'', JStr (hm_status (he_metadata e)))])))] mid"
    by (simp add: decode_struct_def hook_event_json_def hook_event_fields_def find_setter_def i n p mid_def del: append.simps)
  also have "\<dots> = Some (mid\<lparr>he_metadata := he_metadata e\<rparr>)"
    using metadata_set [of "hm_hook (he_metadata e)" "hm_tool (he_metadata e)" "hm_status (he_metadata e)" mid] m
    by (simp add: hook_event_fields_def find_setter_def del: append.simps)
  also have "mid\<lparr>he_metadata := he_metadata e\<rparr> = e" by (simp add: mid_def zero_event_def)
  finally show ?thesis .
qed

lemma quoted_text: "valid_utf8 s \<Longrightarrow> s \<noteq> [] \<Longrightarrow> enc_string s \<noteq> ''null'' \<and> enc_string s \<noteq> [dquote, dquote]"
proof -
  assume s: "valid_utf8 s" "s \<noteq> []"
  have r: "readable max_nesting (JStr s)" "readable max_nesting JNull" "readable max_nesting (JStr [])" using s by (simp_all add: valid_utf8_ascii)
  have "enc_json (JStr s) \<noteq> enc_json JNull" using enc_json_inject [OF r(1,2)] by auto
  moreover have "enc_json (JStr s) \<noteq> enc_json (JStr [])" using enc_json_inject [OF r(1,3)] s(2) by auto
  ultimately show "enc_string s \<noteq> ''null'' \<and> enc_string s \<noteq> [dquote, dquote]" by (simp add: enc_string_def)
qed

lemma hook_event_written:
  assumes "hook_event_ok e" "he_version e = 1" "he_epoch e < 2 ^ 64" "list_all valid_utf8 (hook_event_texts e)"
    "length (enc_json (hook_event_json e)) \<le> 65536"
  shows "decode_hook_event (enc_json (hook_event_json e)) = Inr e"
proof -
  have r: "readable max_nesting (hook_event_json e)" using hook_event_readable [OF assms(4)] nesting by metis
  have d: "decode_strict hook_event_shape hook_event_fields zero_event (enc_json (hook_event_json e)) = Some e"
    by (rule trans [OF decode_strict_enc [OF r hook_event_scan] hook_event_decoded [OF assms(2,3)]])
  obtain ms where ms: "hook_event_json e = JObj ms" by (simp add: hook_event_json_def)
  have f: "raw_fields (enc_json (hook_event_json e)) = Some (map (\<lambda>(k, v). (k, enc_json v)) ms)"
    using raw_fields_enc r ms by simp
  let ?md = "[(''native_hook'', JStr (hm_hook (he_metadata e)))]
        @ (if hm_tool (he_metadata e) = [] then [] else [(''tool_name'', JStr (hm_tool (he_metadata e)))])
        @ (if hm_status (he_metadata e) = [] then [] else [(''tool_status'', JStr (hm_status (he_metadata e)))])"
  let ?m = "map (\<lambda>(k, v). (k, enc_json v)) ms" and ?d = "map (\<lambda>(k, v). (k, enc_json v)) ?md"
  have tx: "valid_utf8 (hm_hook (he_metadata e))" "valid_utf8 (hm_tool (he_metadata e))" "valid_utf8 (hm_status (he_metadata e))"
    using assms(4) by (simp_all add: hook_event_texts_def)
  have rd: "readable max_nesting (JObj ?md)" using tx request_names by (simp add: max_nesting_def)
  have names: "\<not> list_ex (\<lambda>n. map_of ?m n = None) (field_names hook_event_fields)"
    using ms by (auto simp: hook_event_json_def field_names_def hook_event_fields_def)
  have md: "map_of ?m ''metadata'' = Some (enc_json (JObj ?md))" using ms by (auto simp: hook_event_json_def simp del: enc_json.simps)
  have nn: "enc_json (JObj ?md) \<noteq> ''null''" by simp
  have bl: "\<not> list_ex (blank_member ?d) [''tool_name'', ''tool_status'']"
    using quoted_text tx by (auto simp: blank_member_def)
  show ?thesis
    using assms(1,2,5) d f names md nn bl raw_fields_enc [OF rd] by (simp add: decode_hook_event_def Let_def del: enc_json.simps)
qed


end
