(* ===== verification/Acp_Requests.thy ===== *)
theory Acp_Requests
  imports Bridge_Requests
begin

text \<open>
  The requests of the agent push transport (\<open>internal/contract/acp_bridge.go\<close>): their strict decoding, the texts and
  paths they may carry, and the request ids that bind a mutation to everything it names. SHA-256 in hexadecimal is the
  parameter \<open>sha\<close>.
\<close>

section \<open>Data\<close>

record acp_activate_request = owner_request +
  aa_session :: string

record acp_begin_request = owner_request +
  ab_session :: string
  ab_batch :: string
  ab_attempt :: string
  ab_token :: string
  ab_render :: string
  ab_prompt :: string
  ab_turn :: int

record acp_receive_request = acp_begin_request +
  av_rpc :: int
  av_response :: string
  av_stop :: string

definition acp_activate_fields :: "acp_activate_request field list" where
  "acp_activate_fields = owner_fields @ [(''native_session_id'', set_text (\<lambda>s. aa_session_update (\<lambda>_. s)))]"

definition acp_begin_fields :: "'a acp_begin_request_scheme field list" where
  "acp_begin_fields = owner_fields @ [(''native_session_id'', set_text (\<lambda>s. ab_session_update (\<lambda>_. s))), (''batch_id'', set_text (\<lambda>s. ab_batch_update (\<lambda>_. s))),
     (''attempt_id'', set_text (\<lambda>s. ab_attempt_update (\<lambda>_. s))), (''claim_token'', set_text (\<lambda>s. ab_token_update (\<lambda>_. s))),
     (''render_sha256'', set_text (\<lambda>s. ab_render_update (\<lambda>_. s))), (''prompt_sha256'', set_text (\<lambda>s. ab_prompt_update (\<lambda>_. s))),
     (''turn_ordinal'', set_int 64 (\<lambda>i. ab_turn_update (\<lambda>_. i)))]"

definition acp_receive_fields :: "acp_receive_request field list" where
  "acp_receive_fields = acp_begin_fields @ [(''rpc_request_id'', set_int 64 (\<lambda>i. av_rpc_update (\<lambda>_. i))),
     (''response_sha256'', set_text (\<lambda>s. av_response_update (\<lambda>_. s))), (''stop_reason'', set_text (\<lambda>s. av_stop_update (\<lambda>_. s)))]"

definition zero_acp_begin :: acp_begin_request where
  "zero_acp_begin = owner_request.extend zero_owner (acp_begin_request.fields [] [] [] [] [] [] 0)"

section \<open>Checks\<close>

definition acp_text :: "nat \<Rightarrow> string \<Rightarrow> bool" where
  "acp_text limit s \<longleftrightarrow> s \<noteq> [] \<and> length s \<le> limit \<and> valid_utf8 s
     \<and> list_all (\<lambda>(r, _, _). \<not> (r = 65533 \<or> r < 32 \<or> 127 \<le> r \<and> r < 160)) (runes s)"

definition acp_path :: "string \<Rightarrow> bool" where
  "acp_path s \<longleftrightarrow> acp_text 4096 s \<and> clean_absolute s"

definition acp_owner :: "'a owner_request_scheme \<Rightarrow> bool" where
  "acp_owner r \<longleftrightarrow> bb_version r = 1 \<and> acp_text 128 (bb_binding r) \<and> bb_epoch r > 0 \<and> bb_epoch r \<le> 9223372036854775807
     \<and> acp_text 128 (bb_request r) \<and> ow_mode r = ''local'' \<and> acp_path (ow_capability r) \<and> acp_path (ow_control r)"

definition acp_begin :: "'a acp_begin_request_scheme \<Rightarrow> bool" where
  "acp_begin r \<longleftrightarrow> acp_owner r \<and> acp_text 512 (ab_session r) \<and> acp_text 128 (ab_batch r) \<and> acp_text 128 (ab_attempt r) \<and> acp_text 256 (ab_token r)
     \<and> lower_sha256 (ab_render r) \<and> lower_sha256 (ab_prompt r) \<and> ab_turn r > 0"

section \<open>Request ids\<close>

text \<open>The encoder with \<open>SetEscapeHTML(false)\<close> on an array of texts and numbers.\<close>

datatype key_part = KText string | KNumber int

definition esc_rune_raw :: "nat \<times> nat list \<times> bool \<Rightarrow> string" where
  "esc_rune_raw x = (case x of (r, bs, ok) \<Rightarrow> if ok \<and> (r = 60 \<or> r = 62 \<or> r = 38) then map char_of bs else esc_rune x)"

definition key_part_text :: "key_part \<Rightarrow> string" where
  "key_part_text p = (case p of KText s \<Rightarrow> [dquote] @ concat (map esc_rune_raw (runes s)) @ [dquote] | KNumber i \<Rightarrow> dec_int i)"

definition acp_key_text :: "string \<Rightarrow> key_part list \<Rightarrow> string" where
  "acp_key_text domain parts = ''['' @ commas (map key_part_text (KText domain # parts)) @ '']''"

definition acp_request_key :: "(string \<Rightarrow> string) \<Rightarrow> string \<Rightarrow> key_part list \<Rightarrow> string" where
  "acp_request_key sha domain parts = sha (acp_key_text domain parts)"

definition acp_activate_tuple :: "acp_activate_request \<Rightarrow> key_part list" where
  "acp_activate_tuple r = [KText (bb_binding r), KNumber (int (bb_epoch r)), KText (aa_session r)]"

definition acp_begin_tuple :: "'a acp_begin_request_scheme \<Rightarrow> key_part list" where
  "acp_begin_tuple r = [KText (bb_binding r), KNumber (int (bb_epoch r)), KText (ab_session r), KText (ab_batch r), KText (ab_attempt r),
     KText (ab_render r), KText (ab_prompt r), KNumber (ab_turn r)]"

definition acp_receive_tuple :: "acp_receive_request \<Rightarrow> key_part list" where
  "acp_receive_tuple r = acp_begin_tuple r @ [KNumber (av_rpc r), KText (av_response r), KText (av_stop r)]"

definition acp_activate_id :: "(string \<Rightarrow> string) \<Rightarrow> acp_activate_request \<Rightarrow> string" where
  "acp_activate_id sha r = acp_request_key sha ''acp-activate-v1'' (acp_activate_tuple r)"

definition acp_begin_id :: "(string \<Rightarrow> string) \<Rightarrow> 'a acp_begin_request_scheme \<Rightarrow> string" where
  "acp_begin_id sha r = acp_request_key sha ''acp-begin-v1'' (acp_begin_tuple r)"

definition acp_receive_id :: "(string \<Rightarrow> string) \<Rightarrow> acp_receive_request \<Rightarrow> string" where
  "acp_receive_id sha r = acp_request_key sha ''acp-receive-v1'' (acp_receive_tuple r)"

definition acp_attempt_id :: "(string \<Rightarrow> string) \<Rightarrow> string \<Rightarrow> nat \<Rightarrow> string \<Rightarrow> string" where
  "acp_attempt_id sha binding epoch claim = ''acpattempt-'' @ acp_request_key sha ''acp-attempt-v1'' [KText binding, KNumber (int epoch), KText claim]"

section \<open>The decoders\<close>

text \<open>Every declared field is required.\<close>

definition decode_acp_request :: "'r field list \<Rightarrow> 'r \<Rightarrow> string \<Rightarrow> request_error + 'r" where
  "decode_acp_request fs zero raw =
    (if length raw > 65536 then Inl ReqInvalid
     else rbind (decode_bridge_rpc (flat_shape fs) fs zero (field_names fs) raw) (\<lambda>(_, r). Inr r))"

definition decode_acp_bind :: "string \<Rightarrow> request_error + bind_request" where
  "decode_acp_bind raw =
    rbind (decode_acp_request bind_fields zero_bind raw) (\<lambda>r.
      if bi_owner r \<noteq> ''local'' \<or> bi_provider r \<noteq> ''grok'' \<or> bi_mode r \<noteq> grok_acp \<or> \<not> acp_text 128 (bi_request r) \<or> \<not> acp_text 128 (bi_run r)
        \<or> bi_pid r \<le> 0 \<or> \<not> acp_text 512 (bi_birth r) \<or> \<not> lower_sha256 (bi_executable r) \<or> \<not> lower_sha256 (bi_manifest r)
        \<or> \<not> acp_path (bi_capability r) \<or> \<not> acp_path (bi_control r)
      then Inl ReqInvalid else Inr r)"

definition decode_acp_activate :: "(string \<Rightarrow> string) \<Rightarrow> string \<Rightarrow> request_error + acp_activate_request" where
  "decode_acp_activate sha raw =
    rbind (decode_acp_request acp_activate_fields (owner_request.extend zero_owner (acp_activate_request.fields [])) raw) (\<lambda>r.
      if \<not> acp_owner r \<or> \<not> acp_text 512 (aa_session r) \<or> bb_request r \<noteq> acp_activate_id sha r then Inl ReqInvalid else Inr r)"

definition decode_acp_claim :: "string \<Rightarrow> request_error + owner_request" where
  "decode_acp_claim raw = rbind (decode_acp_request owner_fields zero_owner raw) (\<lambda>r. if \<not> acp_owner r then Inl ReqInvalid else Inr r)"

definition decode_acp_begin :: "(string \<Rightarrow> string) \<Rightarrow> string \<Rightarrow> request_error + acp_begin_request" where
  "decode_acp_begin sha raw =
    rbind (decode_acp_request acp_begin_fields zero_acp_begin raw) (\<lambda>r.
      if \<not> acp_begin r \<or> bb_request r \<noteq> acp_begin_id sha r then Inl ReqInvalid else Inr r)"

definition decode_acp_receive :: "(string \<Rightarrow> string) \<Rightarrow> string \<Rightarrow> request_error + acp_receive_request" where
  "decode_acp_receive sha raw =
    rbind (decode_acp_request acp_receive_fields (acp_begin_request.extend zero_acp_begin (acp_receive_request.fields 0 [] [])) raw) (\<lambda>r.
      if \<not> acp_begin r \<or> av_rpc r \<le> 0 \<or> \<not> lower_sha256 (av_response r) \<or> \<not> acp_text 128 (av_stop r) \<or> bb_request r \<noteq> acp_receive_id sha r
      then Inl ReqInvalid else Inr r)"

section \<open>The key text determines its parts\<close>

lemma esc_raw_reads: "reads_runes esc_rune_raw"
  unfolding reads_runes_def Let_def
proof (intro allI impI)
  fix bs assume w: "utf8_width bs \<noteq> 0" and b: "list_all (\<lambda>b. b < 256) bs"
  let ?w = "utf8_width bs"
  let ?x = "(rune_of (take ?w bs), take ?w bs, True)"
  have old: "\<exists>k\<le>length (esc_rune ?x). \<forall>n r. scan_string (k + n) (esc_rune ?x @ r) =
      map_option (\<lambda>(t, rest). (map char_of (take ?w bs) @ t, rest)) (scan_string n r)"
    using scan_rune [OF refl w b] by blast
  show "\<exists>k\<le>length (esc_rune_raw ?x). \<forall>n r. scan_string (k + n) (esc_rune_raw ?x @ r) =
      map_option (\<lambda>(t, rest). (map char_of (take ?w bs) @ t, rest)) (scan_string n r)"
  proof (cases "rune_of (take ?w bs) = 60 \<or> rune_of (take ?w bs) = 62 \<or> rune_of (take ?w bs) = 38")
    case True
    have "?w < 2"
    proof (rule ccontr)
      assume "\<not> ?w < 2"
      then have "rune_of (take ?w bs) \<ge> 128" using wide_rune [of bs 0] by (simp add: wide_ok_def)
      then show False using True by auto
    qed
    then have one: "?w = 1" using w by simp
    then obtain a r where bs: "bs = a # r" by (cases bs) auto
    then have a: "a = 60 \<or> a = 62 \<or> a = 38" using True one by (simp add: rune_of_def del: utf8_width.simps)
    have "byte (char_of a) = a" using a by (auto simp: byte_char_of)
    then have "scan_string (Suc n) (char_of a # q) = map_option (\<lambda>(t, rest). (char_of a # t, rest)) (scan_string n q)" for n q
      using scan_plain [of "char_of a" n q] a by auto
    then show ?thesis using a bs one
      by (intro exI [of _ 1]) (auto simp: esc_rune_raw_def rune_of_def simp del: scan_string.simps utf8_width.simps)
  next
    case False
    then show ?thesis using old by (simp add: esc_rune_raw_def)
  qed
qed

lemma quoted_prefix:
  assumes "valid_utf8 s" "valid_utf8 t" "key_part_text (KText s) @ r = key_part_text (KText t) @ q"
  shows "s = t \<and> r = q"
proof -
  let ?e = "\<lambda>s r. concat (map esc_rune_raw (runes s)) @ dquote # r"
  have e: "?e s r = ?e t q" using assms(3) by (simp add: key_part_text_def)
  let ?n = "length (?e s r)"
  have "scan_string ?n (?e s r) = Some (s, r)" by (rule scan_written [OF esc_raw_reads assms(1)]) simp
  moreover have "scan_string ?n (?e t q) = Some (t, q)" by (rule scan_written [OF esc_raw_reads assms(2)]) (use e in simp)
  ultimately show ?thesis using e by simp
qed

definition ends :: "string \<Rightarrow> bool" where
  "ends r \<longleftrightarrow> r \<noteq> [] \<and> \<not> is_digit (hd r) \<and> hd r \<noteq> CHR ''-''"

lemma digits_prefix:
  assumes "dec_nat m @ r = dec_nat n @ q" "ends r" "ends q"
  shows "m = n \<and> r = q"
proof -
  have t: "takeWhile is_digit (dec_nat k @ x) = dec_nat k \<and> dropWhile is_digit (dec_nat k @ x) = x" if "ends x" for k x
    using dec_nat_digits [of k] that by (cases x) (simp_all add: ends_def list_all_iff)
  then show ?thesis using assms dec_nat_inject by metis
qed

lemma number_prefix:
  assumes "dec_int i @ r = dec_int j @ q" "ends r" "ends q"
  shows "i = j \<and> r = q"
proof -
  have lead: "dec_nat k @ x \<noteq> CHR ''-'' # y" for k x y
    using dec_nat_digits [of k] by (cases "dec_nat k") (auto simp: is_digit_def byte_def)
  show ?thesis
  proof (cases "i < 0 \<longleftrightarrow> j < 0")
    case True
    show ?thesis
    proof (cases "i < 0")
      case neg: True
      then have "dec_nat (nat (- i)) @ r = dec_nat (nat (- j)) @ q" using assms(1) True by (simp add: dec_int_def)
      then have "nat (- i) = nat (- j) \<and> r = q" using digits_prefix assms(2,3) by blast
      then show ?thesis using neg True by (simp add: eq_nat_nat_iff)
    next
      case pos: False
      then have "dec_nat (nat i) @ r = dec_nat (nat j) @ q" using assms(1) True by (simp add: dec_int_def)
      then have "nat i = nat j \<and> r = q" using digits_prefix assms(2,3) by blast
      then show ?thesis using pos True by (simp add: eq_nat_nat_iff)
    qed
  next
    case False
    then show ?thesis using assms(1) lead [of "nat i" r] lead [of "nat j" q, symmetric]
      by (cases "i < 0") (simp_all add: dec_int_def)
  qed
qed

fun key_valid :: "key_part \<Rightarrow> bool" where
  "key_valid (KText s) = valid_utf8 s"
| "key_valid (KNumber i) = True"

lemma text_not_number: "key_part_text (KText s) @ r \<noteq> key_part_text (KNumber i) @ q"
proof -
  have "byte (CHR ''-'') = 45" by (simp add: byte_def)
  then have "dquote \<noteq> CHR ''-'' \<and> \<not> is_digit dquote" using byte_marks by (auto simp: is_digit_def)
  moreover have "\<exists>c t. dec_int i = c # t \<and> (c = CHR ''-'' \<or> is_digit c)"
    using dec_nat_digits [of "nat i"] by (cases "dec_nat (nat i)") (auto simp: dec_int_def)
  ultimately show ?thesis by (auto simp: key_part_text_def)
qed

lemma part_prefix:
  assumes "key_valid p" "key_valid p'" "key_part_text p @ r = key_part_text p' @ q" "ends r" "ends q"
  shows "p = p' \<and> r = q"
proof (cases p; cases p')
  fix s t assume "p = KText s" "p' = KText t"
  then show ?thesis using quoted_prefix [of s t r q] assms by simp
next
  fix i j assume "p = KNumber i" "p' = KNumber j"
  then show ?thesis using number_prefix [of i r j q] assms by (simp add: key_part_text_def)
next
  fix s j assume "p = KText s" "p' = KNumber j"
  then show ?thesis using text_not_number assms(3) by simp
next
  fix i t assume "p = KNumber i" "p' = KText t"
  then show ?thesis using text_not_number [of t q i r] assms(3) by simp
qed

definition parts_tail :: "key_part list \<Rightarrow> string" where
  "parts_tail ps = concat (map (\<lambda>p. CHR '','' # key_part_text p) ps) @ '']''"

lemma tail_simps: "parts_tail [] = '']''" "parts_tail (p # ps) = CHR '','' # key_part_text p @ parts_tail ps"
  by (simp_all add: parts_tail_def)

lemma commas_tail: "commas (map key_part_text (p # ps)) @ '']'' = key_part_text p @ parts_tail ps"
proof (induction ps arbitrary: p)
  case (Cons q ps)
  then show ?case using Cons [of q] by (simp add: parts_tail_def)
qed (simp add: parts_tail_def)

lemma tail_ends: "ends (parts_tail ps)"
  by (cases ps) (simp_all add: parts_tail_def ends_def is_digit_def byte_def)

lemma tail_inject: "list_all key_valid ps \<Longrightarrow> list_all key_valid qs \<Longrightarrow> parts_tail ps = parts_tail qs \<Longrightarrow> ps = qs"
proof (induction ps arbitrary: qs)
  case Nil
  then show ?case by (cases qs) (simp_all add: tail_simps)
next
  case (Cons p ps)
  then obtain q qs' where q: "qs = q # qs'" by (cases qs) (simp_all add: tail_simps)
  have v: "key_valid p" "key_valid q" "list_all key_valid ps" "list_all key_valid qs'" using Cons.prems q by simp_all
  have "key_part_text p @ parts_tail ps = key_part_text q @ parts_tail qs'" using Cons.prems(3) by (simp add: q tail_simps)
  from part_prefix [OF v(1,2) this tail_ends tail_ends] show ?case using Cons.IH [OF v(3,4)] q by simp
qed

lemma acp_key_text_inject:
  assumes "valid_utf8 d" "valid_utf8 d'" "list_all key_valid ps" "list_all key_valid qs" "acp_key_text d ps = acp_key_text d' qs"
  shows "d = d' \<and> ps = qs"
proof -
  have v: "key_valid (KText d)" "key_valid (KText d')" using assms by simp_all
  have e: "key_part_text (KText d) @ parts_tail ps = key_part_text (KText d') @ parts_tail qs"
    using assms(5) by (simp only: acp_key_text_def commas_tail append_Cons append_Nil list.inject simp_thms)
  show ?thesis using part_prefix [OF v e tail_ends tail_ends] tail_inject [OF assms(3,4)] by simp
qed

section \<open>What an id binds\<close>

lemma bad_rune: "(r, c, False) \<in> set (rune_list bs) \<Longrightarrow> r = 65533"
  by (induction bs rule: rune_list.induct) (auto simp: Let_def simp del: utf8_width.simps split: if_splits)

lemma lower_sha256_valid: "lower_sha256 s \<Longrightarrow> valid_utf8 s"
  unfolding lower_sha256_def valid_utf8_def list_all_iff runes_def
  using bad_rune [of _ _ "map byte s"] by fastforce

lemma acp_text_valid: "acp_text n s \<Longrightarrow> valid_utf8 s"
  by (simp add: acp_text_def)

lemma acp_begin_valid: "acp_begin r \<Longrightarrow> list_all key_valid (acp_begin_tuple r)"
  by (auto simp: acp_begin_def acp_owner_def acp_begin_tuple_def dest: acp_text_valid lower_sha256_valid)

text \<open>C29. The request id of an agent mutation binds everything it names: two begin requests that are accepted with the
  same id name the same binding, epoch, session, batch, attempt, render, prompt and turn, and no begin request shares
  its id with a receive request; unless the hash collides on exactly the texts in question.\<close>

theorem acp_ids_bind:
  assumes "decode_acp_begin sha raw = Inr r" "decode_acp_begin sha raw' = Inr r'" "decode_acp_receive sha raw'' = Inr v"
    "inj_on sha {acp_key_text ''acp-begin-v1'' (acp_begin_tuple r), acp_key_text ''acp-begin-v1'' (acp_begin_tuple r'),
       acp_key_text ''acp-receive-v1'' (acp_receive_tuple v)}"
  shows "(bb_request r = bb_request r' \<longrightarrow>
      bb_binding r = bb_binding r' \<and> bb_epoch r = bb_epoch r' \<and> ab_session r = ab_session r' \<and> ab_batch r = ab_batch r'
      \<and> ab_attempt r = ab_attempt r' \<and> ab_render r = ab_render r' \<and> ab_prompt r = ab_prompt r' \<and> ab_turn r = ab_turn r')
    \<and> bb_request r \<noteq> bb_request v"
proof -
  have b: "acp_begin r" "bb_request r = acp_begin_id sha r" "acp_begin r'" "bb_request r' = acp_begin_id sha r'"
    using assms(1,2) by (auto simp: decode_acp_begin_def rbind_def split: sum.splits if_splits)
  have v: "acp_begin v" "lower_sha256 (av_response v)" "acp_text 128 (av_stop v)" "bb_request v = acp_receive_id sha v"
    using assms(3) by (auto simp: decode_acp_receive_def rbind_def split: sum.splits if_splits)
  have d: "valid_utf8 ''acp-begin-v1''" "valid_utf8 ''acp-receive-v1''" by (simp_all add: valid_utf8_ascii byte_def)
  have kv: "list_all key_valid (acp_receive_tuple v)"
    using acp_begin_valid [OF v(1)] v(2,3) by (auto simp: acp_receive_tuple_def dest: acp_text_valid lower_sha256_valid)
  have same: "acp_begin_tuple r = acp_begin_tuple r'" if "bb_request r = bb_request r'"
  proof -
    have "acp_key_text ''acp-begin-v1'' (acp_begin_tuple r) = acp_key_text ''acp-begin-v1'' (acp_begin_tuple r')"
      by (rule inj_onD [OF assms(4)]) (use that b in \<open>simp_all add: acp_begin_id_def acp_request_key_def\<close>)
    then show ?thesis using acp_key_text_inject [OF d(1) d(1) acp_begin_valid [OF b(1)] acp_begin_valid [OF b(3)]] by blast
  qed
  have "bb_request r \<noteq> bb_request v"
  proof
    assume "bb_request r = bb_request v"
    then have "sha (acp_key_text ''acp-begin-v1'' (acp_begin_tuple r)) = sha (acp_key_text ''acp-receive-v1'' (acp_receive_tuple v))"
      using b(2) v(4) by (simp add: acp_begin_id_def acp_receive_id_def acp_request_key_def)
    then have "acp_key_text ''acp-begin-v1'' (acp_begin_tuple r) = acp_key_text ''acp-receive-v1'' (acp_receive_tuple v)"
      by (rule inj_onD [OF assms(4)]) simp_all
    then have "''acp-begin-v1'' = ''acp-receive-v1''" using acp_key_text_inject [OF d acp_begin_valid [OF b(1)] kv] by blast
    then show False by simp
  qed
  then show ?thesis using same by (auto simp: acp_begin_tuple_def)
qed

end
