(* ===== verification/Json_Mild.thy ===== *)
theory Json_Mild
  imports Json_Ascii Json_Round
begin

text \<open>
  Text without control, markup or non-ASCII characters at most doubles in length when it is quoted, which bounds
  the length of JSON that is not spelled out.
\<close>

section \<open>Text that is quoted with short escapes only\<close>

definition mild_char :: "char \<Rightarrow> bool" where
  "mild_char c \<longleftrightarrow> byte c = 10 \<or> 32 \<le> byte c \<and> byte c < 127 \<and> byte c \<notin> {38, 60, 62}"

lemma mild_esc:
  assumes "mild_char c"
  shows "length (esc_rune (byte c, [byte c], True)) \<le> 2 \<and> list_all mild_char (esc_rune (byte c, [byte c], True))"
proof -
  have m: "mild_char dquote" "mild_char backslash" "mild_char (CHR ''n'')"
    using byte_marks by (simp_all add: mild_char_def) (simp add: byte_def)
  have "byte c = 34 \<or> byte c = 92 \<or> byte c = 10 \<or> esc_rune (byte c, [byte c], True) = [c]"
    using assms unfolding mild_char_def by (elim disjE) (auto simp: esc_rune_def)
  then show ?thesis
  proof (elim disjE)
    assume "esc_rune (byte c, [byte c], True) = [c]"
    then show ?thesis using assms by simp
  qed (use m in \<open>simp_all add: esc_rune_def\<close>)
qed

lemma mild_ascii: "list_all mild_char s \<Longrightarrow> ascii s"
  by (auto simp: ascii_def mild_char_def list_all_iff)

lemma enc_string_mild:
  assumes "list_all mild_char s"
  shows "list_all mild_char (enc_string s) \<and> length (enc_string s) \<le> 2 * length s + 2"
proof -
  have q: "mild_char dquote" using byte_marks by (simp add: mild_char_def)
  have "list_all mild_char (concat (map esc_rune (runes s))) \<and> length (concat (map esc_rune (runes s))) \<le> 2 * length s"
    using assms
  proof (induction s)
    case (Cons c s)
    then have "byte c < 128" by (auto simp: mild_char_def)
    then show ?case using Cons mild_esc [of c] by simp
  qed simp
  then show ?thesis using q by (simp add: enc_string_def)
qed

fun mild_json :: "json \<Rightarrow> bool" where
  "mild_json (JNum s) = list_all mild_char s"
| "mild_json (JStr s) = list_all mild_char s"
| "mild_json (JArr xs) = list_all mild_json xs"
| "mild_json (JObj m) = list_all (\<lambda>(k, v). list_all mild_char k \<and> mild_json v) m"
| "mild_json _ = True"

fun json_bound :: "json \<Rightarrow> nat" where
  "json_bound (JNum s) = length s + 1"
| "json_bound (JStr s) = 2 * length s + 2"
| "json_bound (JArr xs) = 2 + sum_list (map (\<lambda>v. json_bound v + 1) xs)"
| "json_bound (JObj m) = 2 + sum_list (map (\<lambda>(k, v). 2 * length k + 4 + json_bound v) m)"
| "json_bound _ = 5"

lemma mild_commas: "list_all (list_all mild_char) xs \<Longrightarrow>
  list_all mild_char (commas xs) \<and> length (commas xs) \<le> sum_list (map (\<lambda>x. length x + 1) xs)"
proof (induction xs rule: commas.induct)
  case (3 x y xs)
  have "mild_char (CHR '','')" by (simp add: mild_char_def byte_def)
  then show ?case using 3 by simp
qed simp_all

lemma enc_json_mild: "mild_json v \<Longrightarrow> list_all mild_char (enc_json v) \<and> length (enc_json v) \<le> json_bound v"
proof (induction v)
  case (JArr xs)
  have m: "mild_char (CHR ''['')" "mild_char (CHR '']'')" by (simp_all add: mild_char_def byte_def)
  have each: "\<forall>v\<in>set xs. list_all mild_char (enc_json v) \<and> length (enc_json v) \<le> json_bound v"
    using JArr by (auto simp: list_all_iff)
  then have "sum_list (map (\<lambda>x. length x + 1) (map enc_json xs)) \<le> sum_list (map (\<lambda>v. json_bound v + 1) xs)"
    by (auto simp: comp_def intro!: sum_list_mono)
  moreover have "list_all (list_all mild_char) (map enc_json xs)" using each by (simp add: list_all_iff)
  ultimately show ?case using mild_commas [of "map enc_json xs"] m by simp
next
  case (JObj ms)
  let ?e = "\<lambda>(k, v). enc_string k @ '':'' @ enc_json v"
  have m: "mild_char (CHR ''{'')" "mild_char (CHR ''}'')" "mild_char (CHR '':'')" by (simp_all add: mild_char_def byte_def)
  have each: "\<forall>p\<in>set ms. list_all mild_char (?e p) \<and> length (?e p) + 1 \<le> (\<lambda>(k, v). 2 * length k + 4 + json_bound v) p"
  proof
    fix p assume p: "p \<in> set ms"
    obtain k v where kv: "p = (k, v)" by (cases p)
    have "list_all mild_char k" "mild_json v" using JObj.prems p kv by (auto simp: list_all_iff)
    then show "list_all mild_char (?e p) \<and> length (?e p) + 1 \<le> (\<lambda>(k, v). 2 * length k + 4 + json_bound v) p"
      using JObj.IH [OF p, of v] enc_string_mild [of k] m kv by simp
  qed
  then have "sum_list (map (\<lambda>x. length x + 1) (map ?e ms)) \<le> sum_list (map (\<lambda>(k, v). 2 * length k + 4 + json_bound v) ms)"
    unfolding map_map comp_def by (intro sum_list_mono) blast
  moreover have "list_all (list_all mild_char) (map ?e ms)" using each by (simp add: list_all_iff)
  ultimately show ?case using mild_commas [of "map ?e ms"] m by simp
qed (use enc_string_mild in \<open>simp_all add: mild_char_def byte_def\<close>)


lemma mild_digits: "list_all mild_char (dec_nat n)"
  using dec_nat_digits [of n] by (auto simp: list_all_iff mild_char_def is_digit_def)

end
