(* ===== verification/Bridge_Sample.thy ===== *)
theory Bridge_Sample
  imports Bridge_Codec Json_Mild
begin

text \<open>
  A delivery batch at which the properties of \<open>Bridge_Codec\<close> apply. Its encodings are not spelled out.
\<close>

section \<open>The batch\<close>

definition sample_hash :: string where
  "sample_hash = replicate 64 (CHR ''a'')"

definition sample_sha :: "string \<Rightarrow> string" where
  "sample_sha s = sample_hash"

definition sample_batch :: "string \<Rightarrow> batch" where
  "sample_batch mode = \<lparr>ba_version = 1, ba_id = ''b1'', ba_attempt = ''a1'', ba_binding = ''o1'', ba_epoch = 2, ba_mode = mode,
     ba_render = sample_hash,
     ba_events = [\<lparr>be_id = ''e1'', be_revision = 1, be_hash = sample_hash, be_slot = ''s'', be_task = ''t1'', be_work = 3,
        be_kind = ''report'', be_summary = ''ok'', be_artifact = None\<rparr>],
     ba_receipts = [\<lparr>rc_task = ''t1'', rc_delivery = ''d1'', rc_mode = ''collect'', rc_sha = sample_hash, rc_events = [''e1'']\<rparr>]\<rparr>"

lemma sample_hash_lower: "lower_sha256 sample_hash" "ascii sample_hash" "list_all mild_char sample_hash" "length sample_hash = 64"
proof -
  show a: "ascii sample_hash" by (simp add: sample_hash_def ascii_def list_all_iff byte_def)
  show "length sample_hash = 64" by (simp add: sample_hash_def)
  then show "lower_sha256 sample_hash" by (simp add: lower_sha256_def runes_ascii_map [OF a] list_all_iff) (simp add: sample_hash_def byte_def)
  show "list_all mild_char sample_hash" by (simp add: sample_hash_def list_all_iff mild_char_def byte_def)
qed

lemma sample_fine: "mode = hook_pull \<or> mode = grok_acp \<Longrightarrow> batch_fine (sample_batch mode)"
  using sample_hash_lower
  by (auto simp: batch_fine_def sample_batch_def event_fine_def receipt_shape_def receipt_pairs_def slot_pairs_def
      valid_utf8_ascii byte_def)

lemma sample_texts: "ascii mode \<Longrightarrow> texts_valid (sample_batch mode)"
  using sample_hash_lower
  by (simp add: texts_valid_def batch_texts_def event_texts_def sample_batch_def valid_utf8_ascii byte_def)

lemma modes: "ascii hook_pull" "ascii grok_acp" "list_all mild_char hook_pull" "list_all mild_char grok_acp"
    "length hook_pull = 9" "length grok_acp = 16"
  by (simp_all add: hook_pull_def grok_acp_def mild_char_def byte_def)

lemma sample_batch_short:
  assumes "list_all mild_char mode" "length mode \<le> 16"
  shows "list_all mild_char (enc_json (batch_json (sample_batch mode))) \<and> length (enc_json (batch_json (sample_batch mode))) \<le> 1500"
proof -
  have d: "dec_int 1 = ''1''" "dec_int 3 = ''3''" "dec_nat 2 = ''2''" by code_simp+
  have "mild_json (batch_json (sample_batch mode))"
    using assms sample_hash_lower
    by (simp add: batch_json_def event_json_def receipt_json_def sample_batch_def d mild_char_def byte_def)
  moreover have "json_bound (batch_json (sample_batch mode)) \<le> 1500"
    using assms sample_hash_lower by (simp add: batch_json_def event_json_def receipt_json_def sample_batch_def d)
  ultimately show ?thesis using enc_json_mild by (meson order_trans)
qed

section \<open>Witnesses\<close>

lemma sample_render: "mode = hook_pull \<or> mode = grok_acp \<Longrightarrow> render_hash sample_sha (sample_batch mode) = Inr sample_hash"
  using iffD2 [OF validate_batch_exact sample_fine [of mode]] by (simp add: render_hash_def content_bytes_def rbind_def sample_sha_def)

theorem content_binds_witness:
  "(sample_batch hook_pull)\<lparr>ba_attempt := ''a2''\<rparr> =
    (sample_batch hook_pull)\<lparr>ba_attempt := ba_attempt ((sample_batch hook_pull)\<lparr>ba_attempt := ''a2''\<rparr>),
      ba_render := ba_render ((sample_batch hook_pull)\<lparr>ba_attempt := ''a2''\<rparr>)\<rparr>"
proof (rule content_binds)
  let ?b = "(sample_batch hook_pull)\<lparr>ba_attempt := ''a2''\<rparr>"
  have fine: "batch_fine (sample_batch hook_pull)" by (rule sample_fine) simp
  have content: "content_json ?b = content_json (sample_batch hook_pull)" by (simp add: content_json_def)
  have "batch_fine ?b" using fine by (simp add: batch_fine_def)
  then show "content_bytes (sample_batch hook_pull) = Inr (enc_json (content_json (sample_batch hook_pull)))"
    "content_bytes ?b = Inr (enc_json (content_json (sample_batch hook_pull)))"
    using iffD2 [OF validate_batch_exact fine] iffD2 [OF validate_batch_exact \<open>batch_fine ?b\<close>] content
    by (simp_all add: content_bytes_def del: enc_json.simps)
  show "texts_valid (sample_batch hook_pull)" by (rule sample_texts [OF modes(1)])
  then show "texts_valid ?b" by (simp add: texts_valid_def batch_texts_def valid_utf8_ascii byte_def)
qed

definition sample_wire :: string where
  "sample_wire = enc_json (hook_wire ''agy'' ''PreInvocation'' (enc_json (batch_json (sample_batch hook_pull))))"

lemma sample_wire_written: "wire_bytes sample_sha (sample_batch hook_pull) ''a1'' ''agy'' ''PreInvocation'' = Inr sample_wire"
proof -
  let ?i = "enc_json (batch_json (sample_batch hook_pull))"
  have i: "list_all mild_char ?i" "length ?i \<le> 1500" using sample_batch_short [of hook_pull] modes by simp_all
  have "list_all mild_char context_prefix" "length context_prefix \<le> 60"
    by (simp_all add: context_prefix_def mild_char_def byte_def)
  then have "mild_json (hook_wire ''agy'' ''PreInvocation'' ?i)" "json_bound (hook_wire ''agy'' ''PreInvocation'' ?i) \<le> 8192"
    using i by (simp_all add: hook_wire_def mild_char_def byte_def)
  then have "length sample_wire \<le> 8192" using enc_json_mild unfolding sample_wire_def by (meson order_trans)
  moreover have "ba_mode (sample_batch hook_pull) = hook_pull" "ba_attempt (sample_batch hook_pull) = ''a1''"
      "ba_render (sample_batch hook_pull) = sample_hash"
    by (simp_all add: sample_batch_def)
  ultimately show ?thesis using sample_render [of hook_pull]
    by (simp add: wire_bytes_def emit_supported_def emit_hooks_def rbind_def bounded_wire_def sample_wire_def)
qed


lemma sample_prompt_written:
  "acp_prompt_bytes sample_sha (sample_batch grok_acp) = Inr (context_prefix @ enc_json (batch_json (sample_batch grok_acp)))"
proof -
  have "length context_prefix \<le> 60" by (simp add: context_prefix_def)
  then have "length (context_prefix @ enc_json (batch_json (sample_batch grok_acp))) \<le> 8192"
    using sample_batch_short [of grok_acp] modes by simp
  moreover have "ba_mode (sample_batch grok_acp) = grok_acp" "ba_attempt (sample_batch grok_acp) = ''a1''"
      "ba_render (sample_batch grok_acp) = sample_hash"
    by (simp_all add: sample_batch_def)
  ultimately show ?thesis using sample_render [of grok_acp] by (simp add: acp_prompt_bytes_def rbind_def bounded_wire_def)
qed

theorem prompt_shows_batch_witness:
  "length (context_prefix @ enc_json (batch_json (sample_batch grok_acp))) \<le> 8192
    \<and> valid_utf8 (context_prefix @ enc_json (batch_json (sample_batch grok_acp)))"
  using prompt_shows_batch [OF sample_prompt_written sample_texts [OF modes(2)]] by blast

end
