(* ===== verification/Request_Sample.thy ===== *)
theory Request_Sample
  imports Acp_Requests Bridge_Sample
begin

text \<open>
  Requests at which the properties of \<open>Bridge_Requests\<close> and \<open>Acp_Requests\<close> apply, written with the encoder and read
  back by the decoders.
\<close>

section \<open>Reading a written request\<close>

lemma enc_not_null: "readable max_nesting v \<Longrightarrow> enc_json v = ''null'' \<longleftrightarrow> v = JNull"
proof -
  assume v: "readable max_nesting v"
  show "enc_json v = ''null'' \<longleftrightarrow> v = JNull"
    using enc_json_inject [OF v, of JNull] by (cases v) auto
qed

lemma map_of_enc: "map_of (map (\<lambda>(k, v). (k, enc_json v)) kvs) n = map_option enc_json (map_of kvs n)"
  by (induction kvs) auto

lemma decode_bridge_rpc_enc:
  assumes "readable max_nesting (JObj kvs)" "scan_shape sh (JObj kvs)" "set_members True fs kvs zero = Some r"
    "list_all (\<lambda>(k, v). v \<noteq> JNull) kvs" "list_all (\<lambda>n. map_of kvs n \<noteq> None) required" "map_of kvs ''schema_version'' = Some (JNum (dec_int 1))"
  shows "decode_bridge_rpc sh fs zero required (enc_json (JObj kvs)) = Inr (map (\<lambda>(k, v). (k, enc_json v)) kvs, r)"
proof -
  let ?m = "map (\<lambda>(k, v). (k, enc_json v)) kvs"
  have rd: "readable max_nesting v" if "(k, v) \<in> set kvs" for k v
    using assms(1) that readable_mono [of "max_nesting - 1" v max_nesting] by (auto simp: list_all_iff)
  have d: "decode_strict sh fs zero (enc_json (JObj kvs)) = Some r"
    by (rule trans [OF decode_strict_enc [OF assms(1,2)]]) (simp add: decode_struct_def assms(3))
  have f: "raw_fields (enc_json (JObj kvs)) = Some ?m" by (rule raw_fields_enc [OF assms(1)])
  have n: "t \<noteq> ''null''" if t: "map_of ?m k = Some t" for k t
  proof -
    obtain v where v: "map_of kvs k = Some v" "t = enc_json v" using t unfolding map_of_enc by auto
    have kv: "(k, v) \<in> set kvs" by (rule map_of_SomeD [OF v(1)])
    then have "v \<noteq> JNull" using assms(4) by (auto simp: list_all_iff)
    then show ?thesis using enc_not_null [OF rd [OF kv]] v(2) by simp
  qed
  have l: "\<not> list_ex (lacks ?m) required"
    using assms(5) n unfolding lacks_def map_of_enc by (auto simp: list_ex_iff list_all_iff split: option.splits)
  have h: "\<not> has_null ?m"
    using assms(4) enc_not_null rd unfolding has_null_def by (fastforce simp: list_ex_iff list_all_iff)
  have "readable max_nesting (JNum (dec_int 1))" by (simp add: json_number_int)
  then have u: "unmarshal_int (map_of ?m ''schema_version'') = Some 1"
    unfolding map_of_enc unmarshal_int_def using whole_enc [of "JNum (dec_int 1)"] assms(6) by (simp add: set_int_dec del: enc_json.simps)
  show ?thesis using d f l h u by (simp add: decode_bridge_rpc_def del: enc_json.simps)
qed

section \<open>An observation\<close>

definition sample_event :: hook_event where
  "sample_event = \<lparr>he_version = 1, he_id = ''e1'', he_binding = ''b1'', he_epoch = 2, he_provider = ''claude'', he_session = ''s1'', he_native = None,
     he_kind = ''tool_observed'', he_observed = ''2024-02-29T08:15:00.5Z'', he_metadata = \<lparr>hm_hook = ''PostToolUse'', hm_tool = ''Read'', hm_status = ''success''\<rparr>\<rparr>"

lemma sample_event_ok: "hook_event_ok sample_event"
proof -
  have "time_ok ''2024-02-29T08:15:00.5Z''" by code_simp
  then show ?thesis by (simp add: hook_event_ok_def sample_event_def event_kinds_def event_hooks_def tool_statuses_def tool_names_def)
qed

lemma sample_event_texts: "list_all valid_utf8 (hook_event_texts sample_event)"
  by (simp add: hook_event_texts_def sample_event_def valid_utf8_ascii byte_def)

lemma sample_event_short: "length (enc_json (hook_event_json sample_event)) \<le> 65536"
proof -
  have d: "dec_int 1 = ''1''" "dec_nat 2 = ''2''" by code_simp+
  have "mild_json (hook_event_json sample_event)" "json_bound (hook_event_json sample_event) \<le> 65536"
    by (simp_all add: hook_event_json_def sample_event_def d mild_char_def byte_def)
  then show ?thesis using enc_json_mild by (meson order_trans)
qed



theorem hook_event_sound_witness:
  "length (enc_json (hook_event_json sample_event)) \<le> 65536 \<and> valid_utf8 (enc_json (hook_event_json sample_event))
    \<and> he_version sample_event = 1 \<and> hook_event_ok sample_event
    \<and> (\<exists>m. whole (enc_json (hook_event_json sample_event)) = Some (JObj m) \<and> distinct (map fst m)
      \<and> set (map fst m) = set (field_names hook_event_fields))"
  by (rule hook_event_sound, rule hook_event_written [OF sample_event_ok _ _ sample_event_texts sample_event_short])
    (simp_all add: sample_event_def)

section \<open>Agent mutations\<close>

text \<open>A hash for the sample: it tells the two kinds of request apart.\<close>

definition tag_sha :: "string \<Rightarrow> string" where
  "tag_sha s = replicate 64 (if s ! 6 = CHR ''b'' then CHR ''a'' else CHR ''b'')"

definition owner_json :: "string \<Rightarrow> (string \<times> json) list" where
  "owner_json request = [(''schema_version'', JNum (dec_int 1)), (''binding_id'', JStr ''b1''), (''owner_epoch'', JNum (dec_nat 2)), (''request_id'', JStr request),
     (''owner_mode'', JStr ''local''), (''owner_capability_file'', JStr ''/c''), (''control_file'', JStr ''/d'')]"

definition begin_json :: "string \<Rightarrow> (string \<times> json) list" where
  "begin_json request = owner_json request @ [(''native_session_id'', JStr ''s1''), (''batch_id'', JStr ''t1''), (''attempt_id'', JStr ''a1''),
     (''claim_token'', JStr ''k''), (''render_sha256'', JStr sample_hash), (''prompt_sha256'', JStr sample_hash), (''turn_ordinal'', JNum (dec_int 1))]"

definition receive_json :: "string \<Rightarrow> (string \<times> json) list" where
  "receive_json request = begin_json request @ [(''rpc_request_id'', JNum (dec_int 3)), (''response_sha256'', JStr sample_hash), (''stop_reason'', JStr ''end_turn'')]"

definition begun :: "string \<Rightarrow> acp_begin_request" where
  "begun request = \<lparr>bb_version = 1, bb_binding = ''b1'', bb_epoch = 2, bb_request = request, ow_mode = ''local'', ow_capability = ''/c'', ow_control = ''/d'',
     ab_session = ''s1'', ab_batch = ''t1'', ab_attempt = ''a1'', ab_token = ''k'', ab_render = sample_hash, ab_prompt = sample_hash, ab_turn = 1\<rparr>"

definition received :: "string \<Rightarrow> acp_receive_request" where
  "received request = \<lparr>bb_version = 1, bb_binding = ''b1'', bb_epoch = 2, bb_request = request, ow_mode = ''local'', ow_capability = ''/c'', ow_control = ''/d'',
     ab_session = ''s1'', ab_batch = ''t1'', ab_attempt = ''a1'', ab_token = ''k'', ab_render = sample_hash, ab_prompt = sample_hash, ab_turn = 1,
     av_rpc = 3, av_response = sample_hash, av_stop = ''end_turn''\<rparr>"

lemma request_numbers:
  "set_int 64 upd (JNum (dec_int 1)) r = Some (upd 1 r)" "set_int 64 upd (JNum (dec_int 3)) r = Some (upd 3 r)"
  "set_uint 64 f (JNum (dec_nat 2)) q = Some (f 2 q)"
  by (simp_all add: set_int_dec set_uint_dec)

lemma begin_members: "set_members True acp_begin_fields (begin_json q) zero_acp_begin = Some (begun q)"
  by (simp add: acp_begin_fields_def owner_fields_def base_fields_def begin_json_def owner_json_def find_setter_def request_numbers
      zero_acp_begin_def zero_owner_def zero_base_def begun_def bridge_base.defs owner_request.defs acp_begin_request.defs)

lemma receive_members:
  "set_members True acp_receive_fields (receive_json q) (acp_begin_request.extend zero_acp_begin (acp_receive_request.fields 0 [] [])) = Some (received q)"
  by (simp add: acp_receive_fields_def acp_begin_fields_def owner_fields_def base_fields_def receive_json_def begin_json_def owner_json_def find_setter_def
      request_numbers zero_acp_begin_def zero_owner_def zero_base_def received_def bridge_base.defs owner_request.defs acp_begin_request.defs
      acp_receive_request.defs)

lemmas json_defs = owner_json_def begin_json_def receive_json_def
lemmas field_defs = acp_receive_fields_def acp_begin_fields_def owner_fields_def base_fields_def

lemma written_scan:
  "scan_shape (flat_shape (acp_begin_fields :: acp_begin_request field list)) (JObj (begin_json q))"
  "scan_shape (flat_shape acp_receive_fields) (JObj (receive_json q))"
  by (simp_all add: json_defs field_defs flat_shape_def)

lemma written_names:
  "list_all (\<lambda>n. map_of (begin_json q) n \<noteq> None) (field_names (acp_begin_fields :: acp_begin_request field list))"
  "list_all (\<lambda>n. map_of (receive_json q) n \<noteq> None) (field_names acp_receive_fields)"
  by (simp_all add: json_defs field_defs field_names_def)

lemma written_values:
  "list_all (\<lambda>(k, v). v \<noteq> JNull) (begin_json q)" "list_all (\<lambda>(k, v). v \<noteq> JNull) (receive_json q)"
  "map_of (begin_json q) ''schema_version'' = Some (JNum (dec_int 1))" "map_of (receive_json q) ''schema_version'' = Some (JNum (dec_int 1))"
  by (simp_all add: json_defs)

lemma written_mild:
  assumes "list_all mild_char q" "length q = 64"
  shows "readable max_nesting (JObj (begin_json q))" "readable max_nesting (JObj (receive_json q))"
    "length (enc_json (JObj (begin_json q))) \<le> 65536" "length (enc_json (JObj (receive_json q))) \<le> 65536"
proof -
  have d: "dec_int 1 = ''1''" "dec_int 3 = ''3''" "dec_nat 2 = ''2''" by code_simp+
  have q: "valid_utf8 q" using assms(1) by (rule valid_utf8_ascii [OF mild_ascii])
  show "readable max_nesting (JObj (begin_json q))" "readable max_nesting (JObj (receive_json q))"
    using q valid_utf8_ascii [OF sample_hash_lower(2)]
    by (simp_all add: json_defs json_number_int json_number_nat max_nesting_def valid_utf8_ascii byte_def)
  have "mild_json (JObj (begin_json q))" "mild_json (JObj (receive_json q))" "json_bound (JObj (begin_json q)) \<le> 65536" "json_bound (JObj (receive_json q)) \<le> 65536"
    using assms sample_hash_lower by (simp_all add: json_defs d mild_char_def byte_def)
  then show "length (enc_json (JObj (begin_json q))) \<le> 65536" "length (enc_json (JObj (receive_json q))) \<le> 65536"
    using enc_json_mild by (meson order_trans)+
qed

lemma tags:
  "acp_begin_id tag_sha (begun q) = replicate 64 (CHR ''a'')" "acp_receive_id tag_sha (received q) = replicate 64 (CHR ''b'')"
proof -
  have "enc ! 6 = c" if "enc = ''['' @ (dquote # CHR ''a'' # CHR ''c'' # CHR ''p'' # CHR ''-'' # c # t) @ u" for enc c t u
    using that by simp
  have k: "key_part_text (KText s) = dquote # s @ [dquote]" if "list_all plain_char s" for s
  proof -
    have "concat (map esc_rune_raw (runes s)) = s" using that
    proof (induction s)
      case (Cons c s)
      then have "byte c < 128" by (simp add: plain_char_def)
      then show ?case using Cons plain_esc [of c] by (simp add: esc_rune_raw_def)
    qed simp
    then show ?thesis by (simp add: key_part_text_def)
  qed
  have p: "key_part_text (KText ''acp-begin-v1'') = dquote # ''acp-begin-v1'' @ [dquote]"
    "key_part_text (KText ''acp-receive-v1'') = dquote # ''acp-receive-v1'' @ [dquote]"
    by (rule k; simp add: plain_char_def byte_def)+
  show "acp_begin_id tag_sha (begun q) = replicate 64 (CHR ''a'')"
    by (simp add: acp_begin_id_def acp_request_key_def acp_key_text_def acp_begin_tuple_def p tag_sha_def del: replicate.simps)
  show "acp_receive_id tag_sha (received q) = replicate 64 (CHR ''b'')"
    by (simp add: acp_receive_id_def acp_request_key_def acp_key_text_def acp_receive_tuple_def acp_begin_tuple_def p tag_sha_def del: replicate.simps)
qed

lemma sample_text: "ascii s \<Longrightarrow> s \<noteq> [] \<Longrightarrow> length s \<le> n \<Longrightarrow> list_all (\<lambda>c. 32 \<le> byte c \<and> byte c < 127) s \<Longrightarrow> acp_text n s"
  by (auto simp: acp_text_def valid_utf8_ascii runes_ascii_map list_all_iff)

lemma sample_checks:
  assumes "q = replicate 64 (CHR ''a'') \<or> q = replicate 64 (CHR ''b'')"
  shows "acp_begin (begun q)" "acp_begin (received q)" "acp_text 128 ''end_turn''" "list_all mild_char q" "length q = 64"
proof -
  have q: "acp_text 128 q" using assms by (auto intro!: sample_text simp: ascii_def list_all_iff byte_def)
  have t: "acp_text 128 ''b1''" "acp_text 512 ''s1''" "acp_text 128 ''t1''" "acp_text 128 ''a1''" "acp_text 256 ''k''" "acp_text 4096 ''/c''" "acp_text 4096 ''/d''"
    by (rule sample_text; simp add: byte_def)+
  have c: "clean_absolute ''/c''" "clean_absolute ''/d''" by code_simp+
  show "acp_begin (begun q)" "acp_begin (received q)"
    using q t c sample_hash_lower by (simp_all add: acp_begin_def acp_owner_def begun_def received_def acp_path_def)
  show "acp_text 128 ''end_turn''" by (rule sample_text; simp add: byte_def)
  show "list_all mild_char q" "length q = 64" using assms by (auto simp: list_all_iff mild_char_def byte_def)
qed

lemma sample_accepted_requests:
  "decode_acp_begin tag_sha (enc_json (JObj (begin_json (replicate 64 (CHR ''a''))))) = Inr (begun (replicate 64 (CHR ''a'')))"
  "decode_acp_receive tag_sha (enc_json (JObj (receive_json (replicate 64 (CHR ''b''))))) = Inr (received (replicate 64 (CHR ''b'')))"
proof -
  let ?a = "replicate 64 (CHR ''a'')" and ?b = "replicate 64 (CHR ''b'')"
  note a = sample_checks [of ?a, OF disjI1 [OF refl]] and b = sample_checks [of ?b, OF disjI2 [OF refl]]
  note wa = written_mild [OF a(4,5)] and wb = written_mild [OF b(4,5)]
  have "decode_bridge_rpc (flat_shape (acp_begin_fields :: acp_begin_request field list)) acp_begin_fields zero_acp_begin (field_names (acp_begin_fields :: acp_begin_request field list))
      (enc_json (JObj (begin_json ?a))) = Inr (map (\<lambda>(k, v). (k, enc_json v)) (begin_json ?a), begun ?a)"
    by (rule decode_bridge_rpc_enc [OF wa(1) written_scan(1) begin_members written_values(1) written_names(1) written_values(3)])
  then show "decode_acp_begin tag_sha (enc_json (JObj (begin_json ?a))) = Inr (begun ?a)"
    using wa(3) a(1) tags(1) [of ?a]
    by (simp add: decode_acp_begin_def decode_acp_request_def rbind_def begun_def del: enc_json.simps replicate.simps)
  have "decode_bridge_rpc (flat_shape acp_receive_fields) acp_receive_fields (acp_begin_request.extend zero_acp_begin (acp_receive_request.fields 0 [] []))
      (field_names acp_receive_fields) (enc_json (JObj (receive_json ?b))) = Inr (map (\<lambda>(k, v). (k, enc_json v)) (receive_json ?b), received ?b)"
    by (rule decode_bridge_rpc_enc [OF wb(2) written_scan(2) receive_members written_values(2) written_names(2) written_values(4)])
  then show "decode_acp_receive tag_sha (enc_json (JObj (receive_json ?b))) = Inr (received ?b)"
    using wb(4) b(2,3) tags(2) [of ?b] sample_hash_lower(1)
    by (simp add: decode_acp_receive_def decode_acp_request_def rbind_def received_def del: enc_json.simps replicate.simps)
qed

theorem acp_ids_bind_witness:
  "bb_request (begun (replicate 64 (CHR ''a''))) \<noteq> bb_request (received (replicate 64 (CHR ''b'')))"
proof -
  have "inj_on tag_sha {acp_key_text ''acp-begin-v1'' (acp_begin_tuple (begun (replicate 64 (CHR ''a'')))),
      acp_key_text ''acp-begin-v1'' (acp_begin_tuple (begun (replicate 64 (CHR ''a'')))),
      acp_key_text ''acp-receive-v1'' (acp_receive_tuple (received (replicate 64 (CHR ''b''))))}"
    using tags [of "replicate 64 (CHR ''a'')"] tags [of "replicate 64 (CHR ''b'')"]
    by (auto simp: acp_begin_id_def acp_receive_id_def acp_request_key_def)
  from acp_ids_bind [OF sample_accepted_requests(1) sample_accepted_requests(1) sample_accepted_requests(2) this]
  show ?thesis by blast
qed

end
