(* ===== verification/Go_Unmarshal.thy ===== *)
theory Go_Unmarshal
  imports Go_Struct
begin

text \<open>
  \<open>json.Unmarshal\<close> into a struct, which ignores members that the struct does not declare, and slices of structs.
\<close>

definition unmarshal_struct :: "'r field list \<Rightarrow> 'r \<Rightarrow> string \<Rightarrow> 'r option" where
  "unmarshal_struct fs zero text = (case whole text of None \<Rightarrow> None | Some v \<Rightarrow> decode_struct False fs v zero)"

definition set_structs :: "bool \<Rightarrow> 's field list \<Rightarrow> 's \<Rightarrow> ('s list \<Rightarrow> 'r \<Rightarrow> 'r) \<Rightarrow> json \<Rightarrow> 'r \<Rightarrow> 'r option" where
  "set_structs strict fs zero upd v r = (case v of
     JNull \<Rightarrow> Some (upd [] r)
   | JArr vs \<Rightarrow> map_option (\<lambda>ss. upd ss r) (those (map (\<lambda>w. decode_struct strict fs w zero) vs))
   | _ \<Rightarrow> None)"

lemma unmarshal_enc: "readable max_nesting v \<Longrightarrow> unmarshal_struct fs zero (enc_json v) = decode_struct False fs v zero"
  by (simp add: unmarshal_struct_def whole_enc)

lemma those_all: "(\<And>x. x \<in> set xs \<Longrightarrow> f (g x) = Some x) \<Longrightarrow> those (map f (map g xs)) = Some xs"
  by (induction xs) auto

lemma set_structs_read:
  assumes "\<And>x. x \<in> set xs \<Longrightarrow> decode_struct strict fs (enc x) zero = Some x"
  shows "set_structs strict fs zero upd (JArr (map enc xs)) r = Some (upd xs r)"
  using those_all [of xs "\<lambda>w. decode_struct strict fs w zero" enc] assms by (simp add: set_structs_def)

end
