(* ===== verification/Histories.thy ===== *)
theory Histories
  imports Prelude
begin

text \<open>
  Components whose operations only ever move their state upwards in some order: what one operation guarantees holds
  for every sequence of them. The operations are total, a failing one leaves a state that is still above.
\<close>

locale monotone_steps =
  fixes step :: "'op \<Rightarrow> 's \<Rightarrow> 's"
    and legal :: "'op \<Rightarrow> bool"
    and good :: "'s \<Rightarrow> bool"
    and le :: "'s \<Rightarrow> 's \<Rightarrow> bool"
  assumes le_refl: "le s s"
    and le_trans: "le s t \<Longrightarrow> le t u \<Longrightarrow> le s u"
    and step_good: "legal x \<Longrightarrow> good s \<Longrightarrow> good (step x s)"
    and step_le: "legal x \<Longrightarrow> good s \<Longrightarrow> le s (step x s)"
begin

lemma fold_good: "list_all legal xs \<Longrightarrow> good s \<Longrightarrow> good (fold step xs s)"
  by (induction xs arbitrary: s) (auto simp: step_good)

lemma fold_le: "list_all legal xs \<Longrightarrow> good s \<Longrightarrow> le s (fold step xs s)"
proof (induction xs arbitrary: s)
  case (Cons x xs)
  then have "le s (step x s)" "le (step x s) (fold step xs (step x s))" by (auto simp: step_good step_le)
  then show ?case by (auto intro: le_trans)
qed (simp add: le_refl)

lemma fold_between: "list_all legal (xs @ ys) \<Longrightarrow> good s \<Longrightarrow> le (fold step xs s) (fold step (xs @ ys) s)"
  using fold_le [of ys "fold step xs s"] fold_good [of xs s] by simp

end

lemma find_row_snoc: "find_row P (xs @ [r]) = (case find_row P xs of Some x \<Rightarrow> Some x | None \<Rightarrow> if P r then Some r else None)"
  by (induction xs) auto

lemma find_row_found_append: "find_row P xs = Some r \<Longrightarrow> find_row P (xs @ ys) = Some r"
  by (induction xs) (auto split: if_splits)

end
