(* ===== verification/Store_Revision.thy ===== *)
theory Store_Revision
  imports Store_Budget Go_Unmarshal Histories "HOL-Library.Sublist"
begin

text \<open>
  Budget revisions (\<open>internal/store/budget_revision.go\<close>): a controller raises the caps of a whole budget group by
  one command, which is stored as its canonical JSON and answered by a stored receipt. The rows of \<open>budget_revisions\<close>
  keep the decoded request, the rows of \<open>budget_revision_receipts\<close> the texts. Creation times are not kept.
\<close>

section \<open>Requests and receipts\<close>

record revision_command =
  rc_anchor :: ident
  rc_controller :: ident
  rc_token :: string
  rc_request :: budget_revision_request

record revision_receipt =
  rr_run :: ident
  rr_group :: ident
  rr_revision :: int
  rr_command :: ident
  rr_request_json :: string

definition revision_task_json :: "budget_revision_task \<Rightarrow> json" where
  "revision_task_json t = JObj [(''task_id'', JStr (bt_task t)), (''work_revision'', JNum (dec_int (bt_work_revision t))),
     (''max_attempts'', JNum (dec_int (bt_max_attempts t))), (''attempt_max_active_ms'', JNum (dec_int (bt_attempt_max_active_ms t))),
     (''task_max_active_ms'', JNum (dec_int (bt_task_max_active_ms t))), (''segment_max_active_ms'', JNum (dec_int (bt_segment_max_active_ms t)))]"

definition revision_request_json :: "budget_revision_request \<Rightarrow> json" where
  "revision_request_json r = JObj [(''budget_group_id'', JStr (br_group r)), (''expected_revision'', JNum (dec_int (br_expected_revision r))),
     (''command_id'', JStr (br_command r)), (''group_max_attempts'', JNum (dec_int (br_group_max_attempts r))),
     (''group_max_active_ms'', JNum (dec_int (br_group_max_active_ms r))), (''tasks'', JArr (map revision_task_json (br_tasks r)))]"

definition revision_receipt_json :: "revision_receipt \<Rightarrow> json" where
  "revision_receipt_json c = JObj [(''run_id'', JStr (rr_run c)), (''budget_group_id'', JStr (rr_group c)),
     (''revision'', JNum (dec_int (rr_revision c))), (''command_id'', JStr (rr_command c)), (''request_json'', JStr (rr_request_json c))]"

definition revision_task_fields :: "budget_revision_task field list" where
  "revision_task_fields = [(''task_id'', set_text (\<lambda>s. bt_task_update (\<lambda>_. s))),
     (''work_revision'', set_int 64 (\<lambda>i. bt_work_revision_update (\<lambda>_. i))),
     (''max_attempts'', set_int 64 (\<lambda>i. bt_max_attempts_update (\<lambda>_. i))),
     (''attempt_max_active_ms'', set_int 64 (\<lambda>i. bt_attempt_max_active_ms_update (\<lambda>_. i))),
     (''task_max_active_ms'', set_int 64 (\<lambda>i. bt_task_max_active_ms_update (\<lambda>_. i))),
     (''segment_max_active_ms'', set_int 64 (\<lambda>i. bt_segment_max_active_ms_update (\<lambda>_. i)))]"

definition zero_revision_task :: budget_revision_task where
  "zero_revision_task = \<lparr>bt_task = [], bt_work_revision = 0, bt_max_attempts = 0, bt_attempt_max_active_ms = 0,
     bt_task_max_active_ms = 0, bt_segment_max_active_ms = 0\<rparr>"

definition revision_request_fields :: "budget_revision_request field list" where
  "revision_request_fields = [(''budget_group_id'', set_text (\<lambda>s. br_group_update (\<lambda>_. s))),
     (''expected_revision'', set_int 64 (\<lambda>i. br_expected_revision_update (\<lambda>_. i))),
     (''command_id'', set_text (\<lambda>s. br_command_update (\<lambda>_. s))),
     (''group_max_attempts'', set_int 64 (\<lambda>i. br_group_max_attempts_update (\<lambda>_. i))),
     (''group_max_active_ms'', set_int 64 (\<lambda>i. br_group_max_active_ms_update (\<lambda>_. i))),
     (''tasks'', set_structs False revision_task_fields zero_revision_task (\<lambda>ts. br_tasks_update (\<lambda>_. ts)))]"

definition zero_revision_request :: budget_revision_request where
  "zero_revision_request = \<lparr>br_group = [], br_expected_revision = 0, br_command = [], br_group_max_attempts = 0,
     br_group_max_active_ms = 0, br_tasks = []\<rparr>"

definition revision_receipt_fields :: "revision_receipt field list" where
  "revision_receipt_fields = [(''run_id'', set_text (\<lambda>s. rr_run_update (\<lambda>_. s))), (''budget_group_id'', set_text (\<lambda>s. rr_group_update (\<lambda>_. s))),
     (''revision'', set_int 64 (\<lambda>i. rr_revision_update (\<lambda>_. i))), (''command_id'', set_text (\<lambda>s. rr_command_update (\<lambda>_. s))),
     (''request_json'', set_text (\<lambda>s. rr_request_json_update (\<lambda>_. s)))]"

definition zero_revision_receipt :: revision_receipt where
  "zero_revision_receipt = \<lparr>rr_run = [], rr_group = [], rr_revision = 0, rr_command = [], rr_request_json = []\<rparr>"

definition read_revision_request :: "string \<Rightarrow> budget_revision_request option" where
  "read_revision_request text = unmarshal_struct revision_request_fields zero_revision_request text"

definition read_revision_receipt :: "string \<Rightarrow> revision_receipt option" where
  "read_revision_receipt text = unmarshal_struct revision_receipt_fields zero_revision_receipt text"

text \<open>The snapshot is put in the order of its task ids, each of which it names once.\<close>

definition revision_task_valid :: "budget_revision_task \<Rightarrow> bool" where
  "revision_task_valid t \<longleftrightarrow> bt_task t \<noteq> [] \<and> bt_work_revision t \<ge> 1 \<and> bt_max_attempts t \<ge> 1 \<and> bt_attempt_max_active_ms t \<ge> 1
     \<and> bt_task_max_active_ms t \<ge> 1 \<and> bt_segment_max_active_ms t \<ge> 1"

fun revision_tasks_valid :: "ident option \<Rightarrow> budget_revision_task list \<Rightarrow> bool" where
  "revision_tasks_valid before [] = True"
| "revision_tasks_valid before (t # ts) =
    (revision_task_valid t \<and> before \<noteq> Some (bt_task t) \<and> revision_tasks_valid (Some (bt_task t)) ts)"

definition canonical_revision_request :: "budget_revision_request \<Rightarrow> store_error + budget_revision_request \<times> string" where
  "canonical_revision_request req =
    (if br_group req = [] \<or> br_expected_revision req < 0 \<or> br_command req = [] \<or> length (br_command req) > 128
        \<or> br_tasks req = [] \<or> length (br_tasks req) > 64
     then Inl (CodeError ''budget_revision_invalid'')
     else let r = req\<lparr>br_tasks := sort_key bt_task (br_tasks req)\<rparr>
       in if \<not> revision_tasks_valid None (br_tasks r) then Inl (CodeError ''budget_revision_invalid'')
          else Inr (r, enc_json (revision_request_json r)))"

definition revision_stored_bytes :: "ident \<Rightarrow> budget_revision_request \<Rightarrow> string \<Rightarrow> string \<Rightarrow> int" where
  "revision_stored_bytes run req request receipt =
    int (56 + 2 * length run + 2 * length (br_command req) + 2 * length request + length (br_group req) + length receipt)"

section \<open>The snapshot against the group\<close>

definition group_member :: "store \<Rightarrow> ident \<Rightarrow> ident \<Rightarrow> task_runtime_row \<Rightarrow> bool" where
  "group_member db run grp r \<longleftrightarrow> r_group r = grp \<and> map_option t_run (task_of db (r_task r)) = Some run"

text \<open>The caps in force for one task of the snapshot, before the revision.\<close>

definition revision_base ::
  "store \<Rightarrow> ident \<Rightarrow> budget_revision_request \<Rightarrow> int \<Rightarrow> budget_revision_task \<Rightarrow> store_error + execution_budget" where
  "revision_base db run req current t =
    (case (task_of db (bt_task t), runtime_of db (bt_task t), policy_body db (bt_task t)) of
       (Some row, Some rt, Some body) \<Rightarrow>
         if \<not> (t_run row = run \<and> r_group rt = br_group req) then Inl (CodeError ''budget_revision_group_invalid'')
         else if r_work_revision rt \<noteq> bt_work_revision t then Inl ErrConflict
         else rbind (read_execution_budget_baseline (t_max_attempts row) (r_max_active_ms rt) (Some body)) (\<lambda>base.
           if current > 0
           then rbind (read_budget_revision_task db run (br_group req) current (bt_task t)) (\<lambda>e. Inr (apply_revision_caps e base))
           else Inr base)
     | _ \<Rightarrow> Inl (CodeError ''budget_revision_group_invalid''))"

definition revision_refused :: "budget_revision_request \<Rightarrow> budget_revision_task \<Rightarrow> execution_budget \<Rightarrow> bool" where
  "revision_refused req t b \<longleftrightarrow>
    br_group_max_attempts req < x_group_attempts b \<or> br_group_max_active_ms req < x_group_ms b
    \<or> bt_max_attempts t > 16 \<or> bt_max_attempts t < x_task_attempts b
    \<or> bt_attempt_max_active_ms t < x_attempt_ms b \<or> bt_task_max_active_ms t < x_task_ms b
    \<or> bt_segment_max_active_ms t < x_segment_ms b
    \<or> bt_max_attempts t > br_group_max_attempts req \<or> bt_attempt_max_active_ms t > bt_task_max_active_ms t
    \<or> bt_task_max_active_ms t > br_group_max_active_ms req
    \<or> bt_segment_max_active_ms t > min (bt_attempt_max_active_ms t) default_segment_active_ms"

definition revision_raises :: "budget_revision_request \<Rightarrow> budget_revision_task \<Rightarrow> execution_budget \<Rightarrow> bool" where
  "revision_raises req t b \<longleftrightarrow>
    bt_max_attempts t > x_task_attempts b \<or> bt_attempt_max_active_ms t > x_attempt_ms b
    \<or> bt_task_max_active_ms t > x_task_ms b \<or> bt_segment_max_active_ms t > x_segment_ms b
    \<or> br_group_max_attempts req > x_group_attempts b \<or> br_group_max_active_ms req > x_group_ms b"

fun validate_revision_tasks ::
  "store \<Rightarrow> ident \<Rightarrow> budget_revision_request \<Rightarrow> int \<Rightarrow> bool \<Rightarrow> budget_revision_task list \<Rightarrow> store_error + bool" where
  "validate_revision_tasks db run req current increased [] = Inr increased"
| "validate_revision_tasks db run req current increased (t # ts) =
    rbind (revision_base db run req current t) (\<lambda>b.
      if revision_refused req t b then Inl (CodeError ''budget_revision_invalid'')
      else validate_revision_tasks db run req current (increased \<or> revision_raises req t b) ts)"

definition validate_revision_snapshot :: "store \<Rightarrow> ident \<Rightarrow> budget_revision_request \<Rightarrow> int \<Rightarrow> store_error + unit" where
  "validate_revision_snapshot db run req current =
    (let count = count_rows (group_member db run (br_group req)) (tb_runtime db);
         policies = count_rows (\<lambda>r. group_member db run (br_group req) r \<and> policy_body db (r_task r) \<noteq> None) (tb_runtime db)
     in if count \<noteq> length (br_tasks req) \<or> policies \<noteq> count then Inl (CodeError ''budget_revision_group_invalid'')
        else if br_group_max_attempts req < 1 \<or> br_group_max_attempts req > 256 \<or> br_group_max_active_ms req < 1
          \<or> br_group_max_active_ms req > 86400000 then Inl (CodeError ''budget_revision_invalid'')
        else rbind (validate_revision_tasks db run req current False (br_tasks req)) (\<lambda>increased.
          if \<not> increased then Inl (CodeError ''budget_revision_no_increase'') else Inr ()))"

section \<open>The command\<close>

text \<open>The two inserts with the keys and the accounting triggers of \<open>budget_revision_schema.go\<close>.\<close>

definition insert_revision :: "ident \<Rightarrow> budget_revision_request \<Rightarrow> int \<Rightarrow> string \<Rightarrow> store \<Rightarrow> store_error + store" where
  "insert_revision run req revision text db =
    (if revision < 1 then Inl ConstraintFailed
     else if exists_row (\<lambda>v. v_run v = run \<and> (v_group v = br_group req \<and> v_revision v = revision \<or> v_command v = br_command req)) (tb_revisions db)
     then Inl ErrConflict
     else Inr (charge_usage run (int (32 + length run + length (br_command req) + length text + length (br_group req)))
       (db\<lparr>tb_revisions := tb_revisions db @ [\<lparr>v_run = run, v_group = br_group req, v_revision = revision,
          v_command = br_command req, v_request = read_revision_request text\<rparr>]\<rparr>)))"

definition insert_revision_receipt :: "ident \<Rightarrow> ident \<Rightarrow> string \<Rightarrow> string \<Rightarrow> store \<Rightarrow> store_error + store" where
  "insert_revision_receipt run command text receipt db =
    (if exists_row (\<lambda>e. e_run e = run \<and> e_command e = command) (tb_receipts db) then Inl ErrConflict
     else Inr (charge_usage run (int (24 + length run + length command + length text + length receipt))
       (db\<lparr>tb_receipts := tb_receipts db @ [\<lparr>e_run = run, e_command = command, e_request_json = text, e_receipt_json = receipt\<rparr>]\<rparr>)))"

definition publish_revision ::
  "quota_config \<Rightarrow> ident \<Rightarrow> budget_revision_request \<Rightarrow> string \<Rightarrow> store \<Rightarrow> store_error + revision_receipt \<times> store" where
  "publish_revision q run req text db =
    (let current = latest_revision db run (br_group req)
     in if exists_row (\<lambda>v. v_run v = run \<and> v_command v = br_command req) (tb_revisions db) then Inl ErrConflict
        else if current \<noteq> br_expected_revision req then Inl ErrConflict
        else rbind (validate_revision_snapshot db run req current) (\<lambda>_.
          let receipt = \<lparr>rr_run = run, rr_group = br_group req, rr_revision = current + 1, rr_command = br_command req, rr_request_json = text\<rparr>;
              written = enc_json (revision_receipt_json receipt)
          in rbind (storage_admission q db run (revision_stored_bytes run req text written) False) (\<lambda>_.
             rbind (insert_revision run req (current + 1) text db) (\<lambda>db1.
             rbind (insert_revision_receipt run (br_command req) text written db1) (\<lambda>db2. Inr (receipt, db2))))))"

definition anchor_owner :: "store \<Rightarrow> ident \<Rightarrow> (run_row \<times> task_runtime_row) option" where
  "anchor_owner db task = (case (task_of db task, runtime_of db task) of
     (Some t, Some r) \<Rightarrow> map_option (\<lambda>u. (u, r)) (sel_row u_id (t_run t) (tb_runs db))
   | _ \<Rightarrow> None)"

definition saved_revision :: "store \<Rightarrow> ident \<Rightarrow> ident \<Rightarrow> receipt_row option" where
  "saved_revision db run command = find_row (\<lambda>e. e_run e = run \<and> e_command e = command) (tb_receipts db)"

definition revise_budget ::
  "quota_config \<Rightarrow> (string \<Rightarrow> string) \<Rightarrow> revision_command \<Rightarrow> store \<Rightarrow> store_error + revision_receipt \<times> store" where
  "revise_budget q sha c db =
    rbind (canonical_revision_request (rc_request c)) (\<lambda>(req, text).
      if rc_anchor c = [] \<or> rc_controller c = [] \<or> rc_token c = [] then Inl (CodeError ''budget_revision_invalid'')
      else (case anchor_owner db (rc_anchor c) of
         None \<Rightarrow> Inl ErrNotFound
       | Some (u, r) \<Rightarrow>
         if u_controller u \<noteq> rc_controller c \<or> u_token_hash u \<noteq> sha (rc_token c) \<or> r_group r \<noteq> br_group req
         then Inl (CodeError ''owner_mismatch'')
         else rbind (require_published_owner db (u_id u)) (\<lambda>_.
           case saved_revision db (u_id u) (br_command req) of
             Some e \<Rightarrow>
               if e_request_json e \<noteq> text then Inl ErrConflict
               else (case read_revision_receipt (e_receipt_json e) of None \<Rightarrow> Inl ErrConflict | Some receipt \<Rightarrow> Inr (receipt, db))
           | None \<Rightarrow> rbind (initial_owner_run_fence db (rc_anchor c)) (\<lambda>_. publish_revision q (u_id u) req text db))))"

text \<open>A command that fails is rolled back.\<close>

definition revise_step :: "quota_config \<Rightarrow> (string \<Rightarrow> string) \<Rightarrow> revision_command \<Rightarrow> store \<Rightarrow> store" where
  "revise_step q sha c db = (case revise_budget q sha c db of Inl _ \<Rightarrow> db | Inr (_, db') \<Rightarrow> db')"

section \<open>Texts read back\<close>

definition int64 :: "int \<Rightarrow> bool" where
  "int64 i \<longleftrightarrow> - (2 ^ 63) \<le> i \<and> i < 2 ^ 63"

definition revision_task_fits :: "budget_revision_task \<Rightarrow> bool" where
  "revision_task_fits t \<longleftrightarrow> valid_utf8 (bt_task t) \<and> int64 (bt_work_revision t) \<and> int64 (bt_max_attempts t)
     \<and> int64 (bt_attempt_max_active_ms t) \<and> int64 (bt_task_max_active_ms t) \<and> int64 (bt_segment_max_active_ms t)"

definition revision_request_fits :: "budget_revision_request \<Rightarrow> bool" where
  "revision_request_fits r \<longleftrightarrow> valid_utf8 (br_group r) \<and> valid_utf8 (br_command r) \<and> int64 (br_expected_revision r)
     \<and> int64 (br_group_max_attempts r) \<and> int64 (br_group_max_active_ms r) \<and> list_all revision_task_fits (br_tasks r)"

lemma set_int64: "int64 i \<Longrightarrow> set_int 64 upd (JNum (dec_int i)) r = Some (upd i r)"
  by (simp add: int64_def set_int_dec)

lemma revision_names: "list_all valid_utf8 [''task_id'', ''work_revision'', ''max_attempts'', ''attempt_max_active_ms'', ''task_max_active_ms'',
    ''segment_max_active_ms'', ''budget_group_id'', ''expected_revision'', ''command_id'', ''group_max_attempts'', ''group_max_active_ms'', ''tasks'',
    ''run_id'', ''revision'', ''request_json'']"
  by (simp add: valid_utf8_ascii byte_def)

lemma revision_task_readable: "revision_task_fits t \<Longrightarrow> readable (Suc d) (revision_task_json t)"
  using revision_names by (simp add: revision_task_json_def revision_task_fits_def json_number_int)

lemma revision_request_readable: "revision_request_fits r \<Longrightarrow> readable max_nesting (revision_request_json r)"
  using revision_names by (simp add: revision_request_json_def revision_request_fits_def json_number_int max_nesting_def list_all_iff)
    (metis Suc_numeral revision_task_readable semiring_norm)

lemma revision_task_read:
  "revision_task_fits t \<Longrightarrow> decode_struct False revision_task_fields (revision_task_json t) zero_revision_task = Some t"
  by (simp add: decode_struct_def revision_task_json_def revision_task_fields_def find_setter_def set_int64 revision_task_fits_def zero_revision_task_def)

lemma revision_request_read:
  assumes "revision_request_fits r"
  shows "read_revision_request (enc_json (revision_request_json r)) = Some r"
proof -
  have ts: "set_structs False revision_task_fields zero_revision_task upd (JArr (map revision_task_json (br_tasks r))) x = Some (upd (br_tasks r) x)" for upd and x :: budget_revision_request
    by (rule set_structs_read) (use assms in \<open>auto simp: revision_request_fits_def list_all_iff intro: revision_task_read\<close>)
  show ?thesis
    using assms
    by (simp add: read_revision_request_def unmarshal_enc [OF revision_request_readable [OF assms]])
      (simp add: decode_struct_def revision_request_json_def revision_request_fields_def find_setter_def set_int64 ts
        revision_request_fits_def zero_revision_request_def)
qed

lemma revision_receipt_read:
  assumes "valid_utf8 (rr_run c)" "valid_utf8 (rr_group c)" "valid_utf8 (rr_command c)" "valid_utf8 (rr_request_json c)" "int64 (rr_revision c)"
  shows "read_revision_receipt (enc_json (revision_receipt_json c)) = Some c"
proof -
  have rd: "readable max_nesting (revision_receipt_json c)"
    using assms revision_names by (simp add: revision_receipt_json_def json_number_int max_nesting_def)
  show ?thesis
    using assms
    by (simp add: read_revision_receipt_def unmarshal_enc [OF rd])
      (simp add: decode_struct_def revision_receipt_json_def revision_receipt_fields_def find_setter_def set_int64 zero_revision_receipt_def)
qed

section \<open>What a request says\<close>

lemma tasks_valid_distinct:
  assumes "sorted (map bt_task ts)" "revision_tasks_valid before ts" "\<forall>x. before = Some x \<longrightarrow> (\<forall>t\<in>set ts. x \<le> bt_task t)"
  shows "distinct (map bt_task ts) \<and> (\<forall>x. before = Some x \<longrightarrow> x \<notin> bt_task ` set ts) \<and> list_all revision_task_valid ts"
  using assms
proof (induction ts arbitrary: before)
  case (Cons t ts)
  have ih: "distinct (map bt_task ts) \<and> bt_task t \<notin> bt_task ` set ts \<and> list_all revision_task_valid ts"
    using Cons.IH [of "Some (bt_task t)"] Cons.prems by simp
  have "x \<notin> bt_task ` set (t # ts)" if "before = Some x" for x
  proof -
    have "x \<le> bt_task t" "x \<noteq> bt_task t" using Cons.prems that by auto
    moreover have "\<forall>u\<in>set ts. bt_task t \<le> bt_task u" using Cons.prems(1) by simp
    ultimately show ?thesis by (auto dest: order.trans)
  qed
  then show ?case using ih Cons.prems(2) by auto
qed simp

lemma canonical_revision:
  assumes "canonical_revision_request req = Inr (r, text)"
  shows "r = req\<lparr>br_tasks := sort_key bt_task (br_tasks req)\<rparr>" "text = enc_json (revision_request_json r)"
    "distinct (map bt_task (br_tasks r))" "list_all revision_task_valid (br_tasks r)" "0 \<le> br_expected_revision r"
    "set (br_tasks r) = set (br_tasks req)"
proof -
  show r: "r = req\<lparr>br_tasks := sort_key bt_task (br_tasks req)\<rparr>" and "text = enc_json (revision_request_json r)"
    and "0 \<le> br_expected_revision r"
    using assms by (auto simp: canonical_revision_request_def Let_def split: if_splits)
  have v: "revision_tasks_valid None (br_tasks r)"
    using assms by (auto simp: canonical_revision_request_def Let_def split: if_splits)
  have "sorted (map bt_task (br_tasks r))" by (simp add: r)
  from tasks_valid_distinct [OF this v] show "distinct (map bt_task (br_tasks r))" "list_all revision_task_valid (br_tasks r)" by simp_all
  show "set (br_tasks r) = set (br_tasks req)" by (simp add: r)
qed

lemma canonical_fits: "canonical_revision_request req = Inr (r, text) \<Longrightarrow> revision_request_fits req \<Longrightarrow> revision_request_fits r"
  using canonical_revision [of req r] by (simp add: revision_request_fits_def list_all_iff)

section \<open>Caps\<close>

definition caps_le :: "execution_budget \<Rightarrow> execution_budget \<Rightarrow> bool" where
  "caps_le b b' \<longleftrightarrow> x_task_attempts b \<le> x_task_attempts b' \<and> x_group_attempts b \<le> x_group_attempts b'
     \<and> x_attempt_ms b \<le> x_attempt_ms b' \<and> x_task_ms b \<le> x_task_ms b' \<and> x_group_ms b \<le> x_group_ms b'
     \<and> x_segment_ms b \<le> x_segment_ms b'"

lemma caps_le_refl [simp]: "caps_le b b"
  by (simp add: caps_le_def)

lemma caps_le_trans: "caps_le a b \<Longrightarrow> caps_le b c \<Longrightarrow> caps_le a c"
  by (auto simp: caps_le_def)

text \<open>The caps that a request asks for a task, and the limits that no revision passes.\<close>

definition request_caps :: "budget_revision_request \<Rightarrow> budget_revision_task \<Rightarrow> execution_budget \<Rightarrow> bool" where
  "request_caps req t b \<longleftrightarrow> x_task_attempts b = bt_max_attempts t \<and> x_group_attempts b = br_group_max_attempts req
     \<and> x_attempt_ms b = bt_attempt_max_active_ms t \<and> x_task_ms b = bt_task_max_active_ms t
     \<and> x_group_ms b = br_group_max_active_ms req \<and> x_segment_ms b = bt_segment_max_active_ms t"

definition within_limits :: "execution_budget \<Rightarrow> bool" where
  "within_limits b \<longleftrightarrow> x_task_attempts b \<le> min 16 (x_group_attempts b) \<and> x_group_attempts b \<le> 256 \<and> x_group_ms b \<le> 86400000
     \<and> x_task_ms b \<le> x_group_ms b \<and> x_attempt_ms b \<le> x_task_ms b \<and> x_segment_ms b \<le> min (x_attempt_ms b) default_segment_active_ms"

lemma revision_base_read:
  assumes "revision_base db run req (latest_revision db run (br_group req)) t = Inr b"
  shows "\<exists>row rt b'. read_execution_budget db (bt_task t) = Inr b' \<and> x_policy b' \<noteq> None \<and> x_revision b' = latest_revision db run (br_group req)
    \<and> task_of db (bt_task t) = Some row \<and> t_run row = run \<and> runtime_of db (bt_task t) = Some rt \<and> r_group rt = br_group req
    \<and> caps_le b b' \<and> caps_le b' b"
proof -
  let ?cur = "latest_revision db run (br_group req)"
  obtain row rt body base where rows: "task_of db (bt_task t) = Some row" "runtime_of db (bt_task t) = Some rt" "policy_body db (bt_task t) = Some body"
      "t_run row = run" "r_group rt = br_group req"
    and base: "read_execution_budget_baseline (t_max_attempts row) (r_max_active_ms rt) (Some body) = Inr base"
    and b: "(if ?cur > 0 then rbind (read_budget_revision_task db run (br_group req) ?cur (bt_task t)) (\<lambda>e. Inr (apply_revision_caps e base))
      else Inr base) = Inr b"
    using assms by (auto simp: revision_base_def rbind_Inr_iff split: option.splits if_splits)
  obtain p where p: "x_policy base = Some p"
    using base by (cases body) (auto simp: read_execution_budget_baseline_def Let_def)
  show ?thesis
    using rows base b p
    by (auto simp: read_execution_budget_def Let_def rbind_Inr_iff apply_revision_caps_def caps_le_def split: if_splits prod.splits)
qed

lemma accepted_caps: "\<not> revision_refused req t b \<Longrightarrow> caps_le b b' \<Longrightarrow> caps_le b' b \<Longrightarrow> request_caps req t c \<Longrightarrow> caps_le b' c"
  by (auto simp: revision_refused_def request_caps_def caps_le_def)

lemma validated_tasks:
  assumes "validate_revision_tasks db run req cur inc ts = Inr inc'" "t \<in> set ts"
  obtains b where "revision_base db run req cur t = Inr b" "\<not> revision_refused req t b"
  using assms by (induction ts arbitrary: inc) (auto simp: rbind_Inr_iff split: if_splits)

lemma validated_kept: "validate_revision_tasks db run req cur True ts = Inr inc' \<Longrightarrow> inc'"
  by (induction ts) (auto simp: rbind_Inr_iff split: if_splits)

lemma validated_raises:
  "validate_revision_tasks db run req cur inc ts = Inr inc' \<Longrightarrow>
    inc' \<longleftrightarrow> inc \<or> (\<exists>t\<in>set ts. \<exists>b. revision_base db run req cur t = Inr b \<and> revision_raises req t b)"
proof (induction ts arbitrary: inc)
  case (Cons t ts)
  then show ?case using validated_kept by (fastforce simp: rbind_Inr_iff split: if_splits)
qed simp

section \<open>What a published revision does\<close>

lemma publish_cases:
  assumes "publish_revision q run req text db = Inr (rc, db')"
  shows "latest_revision db run (br_group req) = br_expected_revision req"
    "validate_revision_snapshot db run req (latest_revision db run (br_group req)) = Inr ()"
    "rc = \<lparr>rr_run = run, rr_group = br_group req, rr_revision = br_expected_revision req + 1, rr_command = br_command req, rr_request_json = text\<rparr>"
    "tb_revisions db' = tb_revisions db @ [\<lparr>v_run = run, v_group = br_group req, v_revision = br_expected_revision req + 1,
          v_command = br_command req, v_request = read_revision_request text\<rparr>]"
    "tb_receipts db' = tb_receipts db @ [\<lparr>e_run = run, e_command = br_command req, e_request_json = text,
          e_receipt_json = enc_json (revision_receipt_json rc)\<rparr>]"
    "tb_tasks db' = tb_tasks db" "tb_runtime db' = tb_runtime db" "tb_policies db' = tb_policies db" "tb_runs db' = tb_runs db"
    "tb_publications db' = tb_publications db" "tb_recoveries db' = tb_recoveries db"
  using assms
  by (auto simp: publish_revision_def insert_revision_def insert_revision_receipt_def charge_usage_def Let_def rbind_Inr_iff split: if_splits)

lemma latest_revision_max: "v \<in> set (tb_revisions db) \<Longrightarrow> v_run v = run \<Longrightarrow> v_group v = grp \<Longrightarrow> v_revision v \<le> latest_revision db run grp"
  by (auto simp: latest_revision_def Let_def filter_empty_conv intro!: Max_ge)

lemma latest_revision_snoc:
  assumes "tb_revisions db' = tb_revisions db @ [v]" "v_run v = run \<and> v_group v = grp \<Longrightarrow> latest_revision db run grp \<le> v_revision v"
  shows "latest_revision db' run grp = (if v_run v = run \<and> v_group v = grp then v_revision v else latest_revision db run grp)"
proof (cases "v_run v = run \<and> v_group v = grp")
  case True
  let ?R = "v_revision ` {x \<in> set (tb_revisions db). v_run x = run \<and> v_group x = grp}"
  have le: "latest_revision db run grp \<le> v_revision v" using assms(2) True by blast
  have "i \<le> v_revision v" if m: "i \<in> ?R" for i
  proof -
    obtain x where "x \<in> set (tb_revisions db)" "v_run x = run" "v_group x = grp" "i = v_revision x" using m by auto
    then show ?thesis using order.trans [OF latest_revision_max le] by blast
  qed
  then have "Max (insert (v_revision v) ?R) = v_revision v" by (intro Max_eqI) auto
  then show ?thesis using True by (simp add: latest_revision_def assms(1))
qed (auto simp: latest_revision_def assms(1))

lemma latest_revision_cong: "tb_revisions db = tb_revisions db' \<Longrightarrow> latest_revision db = latest_revision db'"
  by (simp add: latest_revision_def fun_eq_iff)

lemma read_revision_snoc:
  assumes "tb_revisions db' = tb_revisions db @ [v]" "\<not> (v_run v = run \<and> v_group v = grp \<and> v_revision v = n)"
  shows "read_budget_revision_task db' run grp n task = read_budget_revision_task db run grp n task"
  using assms(2) by (auto simp: read_budget_revision_task_def assms(1) find_row_snoc split: option.splits)

lemma find_named: "distinct (map bt_task ts) \<Longrightarrow> t \<in> set ts \<Longrightarrow> find_row (\<lambda>u. bt_task u = bt_task t) ts = Some t"
  by (rule find_row_unique)

lemma read_revision_new:
  assumes "tb_revisions db' = tb_revisions db @ [v]" "\<forall>x\<in>set (tb_revisions db). v_run x = run \<and> v_group x = grp \<longrightarrow> v_revision x < n"
    "v = \<lparr>v_run = run, v_group = grp, v_revision = n, v_command = cmd, v_request = Some req\<rparr>" "br_group req = grp"
    "distinct (map bt_task (br_tasks req))" "t \<in> set (br_tasks req)"
  shows "read_budget_revision_task db' run grp n (bt_task t) = Inr (t, br_group_max_attempts req, br_group_max_active_ms req)"
proof -
  have "find_row (\<lambda>v. v_run v = run \<and> v_group v = grp \<and> v_revision v = n) (tb_revisions db) = None"
    using assms(2) by (auto simp: find_row_None)
  then show ?thesis using assms find_named [OF assms(5,6)] by (simp add: read_budget_revision_task_def find_row_snoc)
qed

lemma members_named:
  assumes "distinct (map r_task (tb_runtime db))" "distinct (map bt_task ts)"
    "count_rows (group_member db run grp) (tb_runtime db) = length ts"
    "\<forall>t\<in>set ts. \<exists>row rt. task_of db (bt_task t) = Some row \<and> t_run row = run \<and> runtime_of db (bt_task t) = Some rt \<and> r_group rt = grp"
    "runtime_of db task = Some rt" "group_member db run grp rt"
  shows "task \<in> bt_task ` set ts"
proof -
  let ?M = "r_task ` set (filter (group_member db run grp) (tb_runtime db))"
  have d: "distinct (map r_task (filter (group_member db run grp) (tb_runtime db)))" using assms(1) by (rule distinct_map_filter)
  have "card ?M = length ts" using d assms(3) distinct_card [OF d] by (simp add: count_rows_def)
  moreover have "card (bt_task ` set ts) = length ts" using distinct_card [OF assms(2)] by simp
  moreover have "bt_task ` set ts \<subseteq> ?M"
  proof
    fix x assume "x \<in> bt_task ` set ts"
    then obtain row r where r: "task_of db x = Some row" "t_run row = run" "runtime_of db x = Some r" "r_group r = grp" using assms(4) by auto
    then have "r \<in> set (tb_runtime db)" "r_task r = x" using rows.sel_mem rows.sel_key by fast+
    then show "x \<in> ?M" using r by (auto simp: group_member_def intro!: rev_image_eqI [of r])
  qed
  ultimately have eq: "bt_task ` set ts = ?M" by (intro card_subset_eq) auto
  have "rt \<in> set (tb_runtime db)" "r_task rt = task" using assms(5) rows.sel_mem rows.sel_key by fast+
  then show ?thesis unfolding eq using assms(6) by (auto intro!: rev_image_eqI [of rt])
qed

lemma snapshot_tasks:
  assumes "validate_revision_snapshot db run req cur = Inr ()"
  shows "validate_revision_tasks db run req cur False (br_tasks req) = Inr True"
    "count_rows (group_member db run (br_group req)) (tb_runtime db) = length (br_tasks req)"
    "1 \<le> br_group_max_attempts req" "br_group_max_attempts req \<le> 256" "1 \<le> br_group_max_active_ms req" "br_group_max_active_ms req \<le> 86400000"
  using assms by (auto simp: validate_revision_snapshot_def Let_def rbind_Inr_iff split: if_splits)

lemma base_policy:
  assumes "read_execution_budget db task = Inr b" "task_of db task = Some row" "runtime_of db task = Some rt" "x_policy b \<noteq> None"
  shows "\<exists>base. read_execution_budget_baseline (t_max_attempts row) (r_max_active_ms rt) (policy_body db task) = Inr base \<and> x_policy base \<noteq> None"
proof -
  obtain base where base: "read_execution_budget_baseline (t_max_attempts row) (r_max_active_ms rt) (policy_body db task) = Inr base"
    using assms(1-3) by (auto simp: read_execution_budget_def rbind_Inr_iff)
  then show ?thesis using assms by (cases "x_policy base") (auto simp: read_execution_budget_def Let_def)
qed

lemma published_task:
  assumes p: "publish_revision q run req text db = Inr (rc, db')" and rd: "read_revision_request text = Some req"
    and d: "distinct (map bt_task (br_tasks req))" "0 \<le> br_expected_revision req" and t: "t \<in> set (br_tasks req)"
  shows "\<exists>b b'. read_execution_budget db (bt_task t) = Inr b \<and> read_execution_budget db' (bt_task t) = Inr b' \<and> caps_le b b'
    \<and> x_revision b = br_expected_revision req \<and> x_revision b' = br_expected_revision req + 1 \<and> request_caps req t b' \<and> within_limits b'"
proof -
  note pc = publish_cases [OF p]
  let ?cur = "br_expected_revision req" and ?grp = "br_group req"
  note v = snapshot_tasks(1) [OF pc(2)] and g = snapshot_tasks(4,6) [OF pc(2)]
  obtain b0 where b0: "revision_base db run req (latest_revision db run ?grp) t = Inr b0" "\<not> revision_refused req t b0"
    using validated_tasks [OF v t] by blast
  obtain row rt b where b: "read_execution_budget db (bt_task t) = Inr b" "x_policy b \<noteq> None" "x_revision b = latest_revision db run ?grp"
      "task_of db (bt_task t) = Some row" "t_run row = run" "runtime_of db (bt_task t) = Some rt" "r_group rt = ?grp" "caps_le b0 b" "caps_le b b0"
    using revision_base_read [OF b0(1)] by blast
  have l: "latest_revision db' run ?grp = ?cur + 1" using latest_revision_snoc [OF pc(4), of run ?grp] pc(1) by simp
  have n: "read_budget_revision_task db' run ?grp (?cur + 1) (bt_task t) = Inr (t, br_group_max_attempts req, br_group_max_active_ms req)"
    by (rule read_revision_new [OF pc(4) _ _ refl d(1) t]) (use latest_revision_max [of _ db run ?grp] pc(1) rd in \<open>auto simp: le_less_trans\<close>)
  have same: "task_of db' x = task_of db x" "runtime_of db' x = runtime_of db x" "policy_body db' x = policy_body db x" for x
    by (simp_all add: pc policy_body_def)
  obtain base where base: "read_execution_budget_baseline (t_max_attempts row) (r_max_active_ms rt) (policy_body db (bt_task t)) = Inr base"
      "x_policy base \<noteq> None"
    using base_policy [OF b(1,4,6,2)] by blast
  define b' where "b' = apply_revision_caps (t, br_group_max_attempts req, br_group_max_active_ms req) (base\<lparr>x_group := ?grp, x_run := run, x_revision := ?cur + 1\<rparr>)"
  have "read_execution_budget db' (bt_task t) = Inr b'"
    using base l n d(2) b(4-7) by (auto simp: read_execution_budget_def same b'_def Let_def)
  moreover have c: "request_caps req t b'" "x_revision b' = ?cur + 1" by (simp_all add: b'_def apply_revision_caps_def request_caps_def)
  moreover have "caps_le b b'" by (rule accepted_caps [OF b0(2) b(8,9) c(1)])
  moreover have "within_limits b'" using c(1) b0(2) g by (simp add: within_limits_def request_caps_def revision_refused_def not_less)
  ultimately show ?thesis using b(1,3) pc(1) by (intro exI [of _ b] exI [of _ b'] conjI) simp_all
qed

lemma published_other:
  assumes p: "publish_revision q run req text db = Inr (rc, db')" and d: "distinct (map r_task (tb_runtime db))" "distinct (map bt_task (br_tasks req))"
    and t: "task \<notin> bt_task ` set (br_tasks req)"
  shows "read_execution_budget db' task = read_execution_budget db task"
proof (cases "\<exists>row rt. task_of db task = Some row \<and> runtime_of db task = Some rt \<and> t_run row = run \<and> r_group rt = br_group req")
  case True
  then obtain row rt where r: "task_of db task = Some row" "runtime_of db task = Some rt" "t_run row = run" "r_group rt = br_group req" by blast
  note pc = publish_cases [OF p]
  note v = snapshot_tasks(1,2) [OF pc(2)]
  have "r_task rt = task" using r(2) rows.sel_key by fast
  then have m: "group_member db run (br_group req) rt" using r by (simp add: group_member_def)
  have member: "\<exists>row rt. task_of db (bt_task t) = Some row \<and> t_run row = run \<and> runtime_of db (bt_task t) = Some rt \<and> r_group rt = br_group req"
    if "t \<in> set (br_tasks req)" for t
    using validated_tasks [OF v(1) that] revision_base_read [of db run req t] by metis
  have "task \<in> bt_task ` set (br_tasks req)"
    by (rule members_named [OF d v(2) _ r(2) m]) (use member in blast)
  then show ?thesis using t by simp
next
  case False
  note pc = publish_cases [OF p]
  have same: "task_of db' x = task_of db x" "runtime_of db' x = runtime_of db x" "policy_body db' x = policy_body db x" for x
    by (simp_all add: pc policy_body_def)
  show ?thesis
  proof (cases "\<exists>row rt. task_of db task = Some row \<and> runtime_of db task = Some rt")
    case True
    then obtain row rt where r: "task_of db task = Some row" "runtime_of db task = Some rt" by blast
    then have o: "\<not> (run = t_run row \<and> br_group req = r_group rt)" using False by auto
    have "latest_revision db' (t_run row) (r_group rt) = latest_revision db (t_run row) (r_group rt)"
      using latest_revision_snoc [OF pc(4), of "t_run row" "r_group rt"] o by auto
    moreover have "read_budget_revision_task db' (t_run row) (r_group rt) n task = read_budget_revision_task db (t_run row) (r_group rt) n task" for n
      by (rule read_revision_snoc [OF pc(4)]) (use o in auto)
    ultimately show ?thesis by (simp add: read_execution_budget_def same r Let_def cong: if_cong)
  qed (auto simp: read_execution_budget_def same split: option.splits)
qed

section \<open>Whole commands\<close>

lemma revise_cases:
  assumes "revise_budget q sha c db = Inr (rc, db')"
  obtains (replay) req tx u r e where "canonical_revision_request (rc_request c) = Inr (req, tx)"
      "anchor_owner db (rc_anchor c) = Some (u, r)" "saved_revision db (u_id u) (br_command req) = Some e" "e_request_json e = tx"
      "read_revision_receipt (e_receipt_json e) = Some rc" "db' = db"
  | (new) req tx u r where "canonical_revision_request (rc_request c) = Inr (req, tx)"
      "anchor_owner db (rc_anchor c) = Some (u, r)" "saved_revision db (u_id u) (br_command req) = None"
      "publish_revision q (u_id u) req tx db = Inr (rc, db')"
proof -
  obtain req tx where can: "canonical_revision_request (rc_request c) = Inr (req, tx)"
    using assms by (auto simp: revise_budget_def rbind_Inr_iff)
  obtain u r where own: "anchor_owner db (rc_anchor c) = Some (u, r)"
    using assms can by (auto simp: revise_budget_def split: if_splits option.splits)
  show thesis
  proof (cases "saved_revision db (u_id u) (br_command req)")
    case None
    then show thesis using new [OF can own None] assms can own by (auto simp: revise_budget_def rbind_Inr_iff split: if_splits)
  next
    case (Some e)
    then show thesis using replay [OF can own Some] assms can own
      by (auto simp: revise_budget_def rbind_Inr_iff split: if_splits option.splits)
  qed
qed

text \<open>What no command takes back: the receipts, and the caps of every task.\<close>

definition caps_rise :: "execution_budget \<Rightarrow> execution_budget \<Rightarrow> bool" where
  "caps_rise b b' \<longleftrightarrow> b' = b \<or> x_revision b < x_revision b' \<and> caps_le b b' \<and> within_limits b'"

definition revision_le :: "store \<Rightarrow> store \<Rightarrow> bool" where
  "revision_le db db' \<longleftrightarrow> tb_tasks db' = tb_tasks db \<and> tb_runtime db' = tb_runtime db \<and> tb_runs db' = tb_runs db
     \<and> tb_publications db' = tb_publications db \<and> prefix (tb_receipts db) (tb_receipts db')
     \<and> (\<forall>task b. read_execution_budget db task = Inr b \<longrightarrow> (\<exists>b'. read_execution_budget db' task = Inr b' \<and> caps_rise b b'))"

lemma caps_rise_trans: "caps_rise a b \<Longrightarrow> caps_rise b c \<Longrightarrow> caps_rise a c"
  by (auto simp: caps_rise_def dest: caps_le_trans)

lemma revision_le_refl: "revision_le db db"
  by (simp add: revision_le_def caps_rise_def)

lemma revision_le_trans: "revision_le a b \<Longrightarrow> revision_le b c \<Longrightarrow> revision_le a c"
  unfolding revision_le_def using caps_rise_trans prefix_order.trans by metis

lemma revise_le:
  assumes "revise_budget q sha c db = Inr (rc, db')" "revision_request_fits (rc_request c)" "distinct (map r_task (tb_runtime db))"
  shows "revision_le db db'"
  using assms(1)
proof (cases rule: revise_cases)
  case replay
  then show ?thesis by (simp add: revision_le_refl)
next
  case (new req tx u r)
  note can = canonical_revision [OF new(1)] and pc = publish_cases [OF new(4)]
  have rd: "read_revision_request tx = Some req"
    unfolding can(2) by (rule revision_request_read [OF canonical_fits [OF new(1) assms(2)]])
  have "\<exists>b'. read_execution_budget db' task = Inr b' \<and> caps_rise b b'" if b: "read_execution_budget db task = Inr b" for task b
  proof (cases "task \<in> bt_task ` set (br_tasks req)")
    case True
    then obtain t where t: "t \<in> set (br_tasks req)" "task = bt_task t" by auto
    from published_task [OF new(4) rd can(3,5) t(1)] show ?thesis using b t(2) by (auto simp: caps_rise_def)
  next
    case False
    from published_other [OF new(4) assms(3) can(3) False] show ?thesis using b by (simp add: caps_rise_def)
  qed
  then show ?thesis using pc by (simp add: revision_le_def)
qed

definition revision_legal :: "quota_config \<times> revision_command \<Rightarrow> bool" where
  "revision_legal = (\<lambda>(q, c). revision_request_fits (rc_request c))"

definition runtime_keys :: "store \<Rightarrow> bool" where
  "runtime_keys db \<longleftrightarrow> distinct (map r_task (tb_runtime db))"

lemma revise_step_le:
  assumes "revision_legal (q, c)" "runtime_keys db"
  shows "revision_le db (revise_step q sha c db)"
proof (cases "revise_budget q sha c db")
  case (Inr x)
  then show ?thesis using assms revise_le by (cases x) (auto simp: revise_step_def revision_legal_def runtime_keys_def)
qed (simp add: revise_step_def revision_le_refl)

lemma revise_step_keys: "revision_legal (q, c) \<Longrightarrow> runtime_keys db \<Longrightarrow> runtime_keys (revise_step q sha c db)"
  using revise_step_le [of q c db sha] by (simp add: revision_le_def runtime_keys_def)

interpretation revisions: monotone_steps "\<lambda>(q, c). revise_step q sha c" revision_legal runtime_keys revision_le for sha
  by unfold_locales (auto intro: revision_le_refl revision_le_trans revise_step_le revise_step_keys)

section \<open>Storage\<close>

definition usage_total :: "store \<Rightarrow> usage_scope \<Rightarrow> int" where
  "usage_total db sc = (case usage_of db sc of None \<Rightarrow> 0 | Some w \<Rightarrow> w_total w)"

lemma charge_scope_total:
  "(case sel_row w_scope sc (charge_scope sc' cost us) of None \<Rightarrow> 0 | Some w \<Rightarrow> w_total w) =
    (case sel_row w_scope sc us of None \<Rightarrow> 0 | Some w \<Rightarrow> w_total w) + (if sc' = sc then cost else 0)"
proof (cases "exists_row (\<lambda>w. w_scope w = sc') us")
  case True
  then have "sel_row w_scope sc' us \<noteq> None" by (auto simp: sel_row_def find_row_None exists_row_iff)
  then show ?thesis using True by (auto simp: charge_scope_def rows.sel_upd split: option.split)
next
  case False
  then have "sel_row w_scope sc' us = None" by (auto simp: sel_row_def find_row_None exists_row_iff)
  then show ?thesis using False by (auto simp: charge_scope_def sel_row_def find_row_snoc split: option.split)
qed

lemma charge_total: "usage_total (charge_usage run cost db) sc = usage_total db sc + (if sc = ScopeGlobal \<or> sc = ScopeRun run then cost else 0)"
proof -
  have u: "tb_usage (charge_usage run cost db) = charge_scope (ScopeRun run) cost (charge_scope ScopeGlobal cost (tb_usage db))"
    by (simp add: charge_usage_def)
  have "usage_total (charge_usage run cost db) sc = usage_total db sc + (if ScopeGlobal = sc then cost else 0) + (if ScopeRun run = sc then cost else 0)"
    unfolding usage_total_def usage_of_def u charge_scope_total ..
  then show ?thesis by auto
qed

lemma admitted_totals:
  assumes "storage_admission q db run incoming False = Inr ()"
  shows "0 \<le> incoming \<and> usage_total db ScopeGlobal + incoming \<le> k_user_control q \<and> usage_total db (ScopeRun run) + incoming \<le> k_run_control q"
  using assms by (auto simp: storage_admission_def storage_admission_split_def usage_total_def exceeds_def Let_def split: if_splits option.splits)

lemma published_storage:
  assumes "publish_revision q run req tx db = Inr (rc, db')"
  shows "\<exists>n. 0 \<le> n \<and> usage_total db' ScopeGlobal = usage_total db ScopeGlobal + n \<and> usage_total db' (ScopeRun run) = usage_total db (ScopeRun run) + n
    \<and> usage_total db' ScopeGlobal \<le> k_user_control q \<and> usage_total db' (ScopeRun run) \<le> k_run_control q"
proof -
  note pc = publish_cases [OF assms]
  let ?n = "revision_stored_bytes run req tx (enc_json (revision_receipt_json rc))"
  obtain db1 where i: "insert_revision run req (br_expected_revision req + 1) tx db = Inr db1"
      "insert_revision_receipt run (br_command req) tx (enc_json (revision_receipt_json rc)) db1 = Inr db'"
    and ad: "storage_admission q db run ?n False = Inr ()"
    using assms pc(1,3) by (auto simp: publish_revision_def Let_def rbind_Inr_iff split: if_splits)
  have t: "usage_total (db\<lparr>tb_revisions := x\<rparr>) sc = usage_total db sc" "usage_total (db\<lparr>tb_receipts := y\<rparr>) sc = usage_total db sc" for db x y sc
    by (simp_all add: usage_total_def usage_of_def)
  have "usage_total db' sc = usage_total db sc + ?n" if "sc = ScopeGlobal \<or> sc = ScopeRun run" for sc
    using i that by (auto simp: insert_revision_def insert_revision_receipt_def charge_total t revision_stored_bytes_def split: if_splits)
  then show ?thesis using admitted_totals [OF ad] by (intro exI [of _ ?n]) auto
qed

section \<open>Repeated commands\<close>

lemma revise_recorded:
  assumes "revise_budget q sha c db = Inr (rc, db')" "revision_request_fits (rc_request c)" "valid_utf8 (rr_run rc)" "int64 (rr_revision rc)"
  obtains req tx u r e where "canonical_revision_request (rc_request c) = Inr (req, tx)" "anchor_owner db (rc_anchor c) = Some (u, r)"
    "saved_revision db' (u_id u) (br_command req) = Some e" "e_request_json e = tx" "read_revision_receipt (e_receipt_json e) = Some rc"
    "\<not> (rc_anchor c = [] \<or> rc_controller c = [] \<or> rc_token c = [])" "r_group r = br_group req" "u_token_hash u = sha (rc_token c)"
    "u_controller u = rc_controller c" "require_published_owner db (u_id u) = Inr ()"
proof -
  have guards: "\<not> (rc_anchor c = [] \<or> rc_controller c = [] \<or> rc_token c = [])" "r_group r = br_group req" "u_token_hash u = sha (rc_token c)"
    "u_controller u = rc_controller c" "require_published_owner db (u_id u) = Inr ()"
    if "canonical_revision_request (rc_request c) = Inr (req, tx)" "anchor_owner db (rc_anchor c) = Some (u, r)" for req tx u r
    using assms(1) that by (auto simp: revise_budget_def rbind_Inr_iff split: if_splits option.splits)
  show thesis
    using assms(1)
  proof (cases rule: revise_cases)
    case (replay req tx u r e)
    show thesis by (rule that [OF replay(1,2) _ replay(4,5) guards [OF replay(1,2)]]) (use replay in simp)
  next
    case (new req tx u r)
    note can = canonical_revision [OF new(1)] and pc = publish_cases [OF new(4)]
    have fits: "revision_request_fits req" by (rule canonical_fits [OF new(1) assms(2)])
    have tx: "valid_utf8 tx" unfolding can(2) by (rule enc_json_valid [OF revision_request_readable [OF fits]])
    have rd: "read_revision_receipt (enc_json (revision_receipt_json rc)) = Some rc"
      by (rule revision_receipt_read) (use assms(3,4) tx fits in \<open>auto simp: pc(3) revision_request_fits_def\<close>)
    let ?e = "\<lparr>e_run = u_id u, e_command = br_command req, e_request_json = tx, e_receipt_json = enc_json (revision_receipt_json rc)\<rparr>"
    have "saved_revision db' (u_id u) (br_command req) = Some ?e"
      using new(3) by (simp add: saved_revision_def pc(5) find_row_snoc)
    from that [OF new(1,2) this _ _ guards [OF new(1,2)]] rd show thesis by simp
  qed
qed

lemma saved_kept: "revision_le db db' \<Longrightarrow> saved_revision db run cmd = Some e \<Longrightarrow> saved_revision db' run cmd = Some e"
  by (auto simp: revision_le_def saved_revision_def prefix_def find_row_found_append)

lemma owner_kept: "revision_le db db' \<Longrightarrow> anchor_owner db' t = anchor_owner db t \<and> require_published_owner db' run = require_published_owner db run"
  by (simp add: revision_le_def anchor_owner_def require_published_owner_def cong: option.case_cong)

lemma later_command:
  assumes "revise_budget q sha c db = Inr (rc, db')" "revision_request_fits (rc_request c)" "valid_utf8 (rr_run rc)" "int64 (rr_revision rc)"
    "runtime_keys db" "revision_le db' db''"
    "canonical_revision_request (rc_request c2) = Inr (req2, tx2)" "rc_anchor c2 = rc_anchor c" "rc_controller c2 = rc_controller c"
    "rc_token c2 = rc_token c" "br_group req2 = br_group (rc_request c)" "br_command req2 = br_command (rc_request c)"
  shows "revise_budget q' sha c2 db'' = (if canonical_revision_request (rc_request c) = Inr (req2, tx2) \<or> Inr tx2 = map_sum id snd (canonical_revision_request (rc_request c))
     then Inr (rc, db'') else Inl ErrConflict)"
proof -
  obtain req tx u r e where x: "canonical_revision_request (rc_request c) = Inr (req, tx)" "anchor_owner db (rc_anchor c) = Some (u, r)"
    "saved_revision db' (u_id u) (br_command req) = Some e" "e_request_json e = tx" "read_revision_receipt (e_receipt_json e) = Some rc"
    "\<not> (rc_anchor c = [] \<or> rc_controller c = [] \<or> rc_token c = [])" "r_group r = br_group req" "u_token_hash u = sha (rc_token c)"
    "u_controller u = rc_controller c" "require_published_owner db (u_id u) = Inr ()"
    using revise_recorded [OF assms(1-4)] by metis
  have le: "revision_le db db'" by (rule revise_le [OF assms(1,2) assms(5) [unfolded runtime_keys_def]])
  have o: "anchor_owner db'' (rc_anchor c) = Some (u, r)" "require_published_owner db'' (u_id u) = Inr ()"
    using owner_kept [OF le] owner_kept [OF assms(6)] x by simp_all
  have s: "saved_revision db'' (u_id u) (br_command req) = Some e" by (rule saved_kept [OF assms(6) x(3)])
  have "br_group req = br_group (rc_request c)" "br_command req = br_command (rc_request c)" using canonical_revision(1) [OF x(1)] by simp_all
  then show ?thesis using assms(7-12) x o s by (auto simp: revise_budget_def)
qed

section \<open>Properties\<close>

text \<open>C30. A new revision takes effect exactly as it was asked for: afterwards the budget that grants and capacity
  checks read for every task of the snapshot has the requested caps, is one revision further, and none of its caps is
  below the one it replaces.\<close>

theorem revision_takes_effect:
  assumes "revise_budget q sha c db = Inr (rc, db')" "db' \<noteq> db" "revision_request_fits (rc_request c)" "t \<in> set (br_tasks (rc_request c))"
  shows "\<exists>b b'. read_execution_budget db (bt_task t) = Inr b \<and> read_execution_budget db' (bt_task t) = Inr b' \<and> caps_le b b'
    \<and> x_revision b = br_expected_revision (rc_request c) \<and> x_revision b' = rr_revision rc \<and> rr_revision rc = x_revision b + 1
    \<and> request_caps (rc_request c) t b' \<and> within_limits b'"
  using assms(1)
proof (cases rule: revise_cases)
  case (new req tx u r)
  note can = canonical_revision [OF new(1)] and pc = publish_cases [OF new(4)]
  have rd: "read_revision_request tx = Some req"
    unfolding can(2) by (rule revision_request_read [OF canonical_fits [OF new(1) assms(3)]])
  have t: "t \<in> set (br_tasks req)" using assms(4) can(6) by simp
  obtain b b' where "read_execution_budget db (bt_task t) = Inr b" "read_execution_budget db' (bt_task t) = Inr b'" "caps_le b b'"
    "x_revision b = br_expected_revision req" "x_revision b' = br_expected_revision req + 1" "request_caps req t b'" "within_limits b'"
    using published_task [OF new(4) rd can(3,5) t] by blast
  then show ?thesis by (intro exI [of _ b] exI [of _ b'] conjI) (simp_all add: can(1) pc(3) request_caps_def)
qed (simp add: assms(2))

text \<open>C31. Whatever commands are run, in whatever order and however many of them fail, the budget of a task is either
  untouched or was replaced by a later revision that lowers none of its six caps and stays within the limits of the
  system (16 attempts a task, 256 a group, a day of active time, an hour a segment).\<close>

theorem revisions_only_raise:
  assumes "list_all (\<lambda>(q, c). revision_request_fits (rc_request c)) cs" "distinct (map r_task (tb_runtime db))" "read_execution_budget db task = Inr b"
  shows "\<exists>b'. read_execution_budget (fold (\<lambda>(q, c). revise_step q sha c) cs db) task = Inr b'
    \<and> (b' = b \<or> x_revision b < x_revision b' \<and> caps_le b b' \<and> within_limits b')"
  using revisions.fold_le [of cs db sha] assms
  unfolding revision_legal_def runtime_keys_def revision_le_def caps_rise_def by blast

text \<open>C32. A command is answered once and for all: repeating it, however many revisions were published since and
  whatever the free space is by then, returns the receipt of the first time and changes nothing, and another
  request under the same command id is a conflict.\<close>

theorem revision_answered_once:
  assumes "revise_budget q sha c db = Inr (rc, db')" "revision_request_fits (rc_request c)" "valid_utf8 (rr_run rc)" "int64 (rr_revision rc)"
    "distinct (map r_task (tb_runtime db))" "list_all (\<lambda>(q, c). revision_request_fits (rc_request c)) cs"
    "canonical_revision_request other = Inr (req2, tx2)" "br_group other = br_group (rc_request c)" "br_command other = br_command (rc_request c)"
    "db2 = fold (\<lambda>(q, c). revise_step q sha c) cs db'"
  shows "revise_budget q2 sha c db2 = Inr (rc, db2)
    \<and> (canonical_revision_request (rc_request c) \<noteq> Inr (req2, tx2) \<longrightarrow> revision_request_fits other \<longrightarrow>
        revise_budget q2 sha (c\<lparr>rc_request := other\<rparr>) db2 = Inl ErrConflict)"
proof -
  have k: "runtime_keys db'" using revise_le [OF assms(1,2,5)] assms(5) by (simp add: runtime_keys_def revision_le_def)
  have le: "revision_le db' db2" unfolding assms(10) by (rule revisions.fold_le) (use assms(6) k in \<open>simp_all add: revision_legal_def\<close>)
  note later = later_command [OF assms(1-4) assms(5) [folded runtime_keys_def] le]
  obtain req tx where c: "canonical_revision_request (rc_request c) = Inr (req, tx)"
    using assms(1) by (auto simp: revise_budget_def rbind_Inr_iff)
  note can = canonical_revision [OF c] and can2 = canonical_revision [OF assms(7)]
  have "revise_budget q2 sha c db2 = Inr (rc, db2)" using later [OF c] c by (simp add: can(1))
  moreover have "revise_budget q2 sha (c\<lparr>rc_request := other\<rparr>) db2 = Inl ErrConflict"
    if "canonical_revision_request (rc_request c) \<noteq> Inr (req2, tx2)" "revision_request_fits other"
  proof -
    have "read_revision_request tx2 = Some req2" "read_revision_request tx = Some req"
      unfolding can(2) can2(2)
      by (rule revision_request_read [OF canonical_fits [OF assms(7) that(2)]], rule revision_request_read [OF canonical_fits [OF c assms(2)]])
    then have "tx2 \<noteq> tx" using that(1) c by auto
    moreover have "revise_budget q2 sha (c\<lparr>rc_request := other\<rparr>) db2 =
        (if canonical_revision_request (rc_request c) = Inr (req2, tx2) \<or> Inr tx2 = map_sum id snd (canonical_revision_request (rc_request c))
         then Inr (rc, db2) else Inl ErrConflict)"
      by (rule later) (use assms(7-9) can2(1) in simp_all)
    ultimately show ?thesis using that(1) c by simp
  qed
  ultimately show ?thesis by blast
qed

text \<open>What a new revision stores is what it was admitted with: the bytes charged to the run and to the user are
  the same, and afterwards both are within their control limits.\<close>

theorem revision_charged:
  assumes "revise_budget q sha c db = Inr (rc, db')" "db' \<noteq> db"
  shows "\<exists>n. 0 \<le> n \<and> usage_total db' ScopeGlobal = usage_total db ScopeGlobal + n
    \<and> usage_total db' (ScopeRun (rr_run rc)) = usage_total db (ScopeRun (rr_run rc)) + n
    \<and> usage_total db' ScopeGlobal \<le> k_user_control q \<and> usage_total db' (ScopeRun (rr_run rc)) \<le> k_run_control q"
  using assms(1)
proof (cases rule: revise_cases)
  case (new req tx u r)
  then show ?thesis using published_storage publish_cases(3) [OF new(4)] by fastforce
qed (simp add: assms(2))

end
