(* ===== verification/Revision_Sample.thy ===== *)
theory Revision_Sample
  imports Store_Revision Json_Mild
begin

text \<open>
  Two tasks of one group under an execution policy and a command that raises their caps: the properties of
  \<open>Store_Revision\<close> at a concrete store.
\<close>

definition sample_policy :: execution_policy where
  "sample_policy = \<lparr>pol_version = 1, pol_group_max_attempts = 3, pol_group_max_active_ms = 7200000, pol_task_max_active_ms = 7200000,
     pol_segment_max_active_ms = 3600000, pol_retry = None\<rparr>"

definition revision_store :: store where
  "revision_store = empty_store\<lparr>
     tb_tasks := [\<lparr>t_id = ''t1'', t_run = ''r'', t_status = TFailed, t_deps = Some [], t_max_attempts = 2, t_created = ''1''\<rparr>,
        \<lparr>t_id = ''t2'', t_run = ''r'', t_status = TQueued, t_deps = Some [], t_max_attempts = 2, t_created = ''2''\<rparr>],
     tb_runtime := [\<lparr>r_task = ''t1'', r_launch = ''l'', r_work_revision = 1, r_group = ''g'', r_max_active_ms = 3600000,
          r_ready_sequence = None, r_payload = [], r_policy = [], r_expected_sha256 = []\<rparr>,
        \<lparr>r_task = ''t2'', r_launch = ''l'', r_work_revision = 1, r_group = ''g'', r_max_active_ms = 3600000,
          r_ready_sequence = None, r_payload = [], r_policy = [], r_expected_sha256 = []\<rparr>],
     tb_policies := [\<lparr>y_task = ''t1'', y_body = Some sample_policy\<rparr>, \<lparr>y_task = ''t2'', y_body = Some sample_policy\<rparr>],
     tb_runs := [\<lparr>u_id = ''r'', u_controller = ''c'', u_token_hash = ''tok''\<rparr>]\<rparr>"

definition raised_task :: "ident \<Rightarrow> budget_revision_task" where
  "raised_task t = \<lparr>bt_task = t, bt_work_revision = 1, bt_max_attempts = 3, bt_attempt_max_active_ms = 3600000,
     bt_task_max_active_ms = 7200000, bt_segment_max_active_ms = 3600000\<rparr>"

definition raise_request :: budget_revision_request where
  "raise_request = \<lparr>br_group = ''g'', br_expected_revision = 0, br_command = ''k'', br_group_max_attempts = 5,
     br_group_max_active_ms = 14400000, br_tasks = [raised_task ''t2'', raised_task ''t1'']\<rparr>"

definition raise_command :: revision_command where
  "raise_command = \<lparr>rc_anchor = ''t1'', rc_controller = ''c'', rc_token = ''tok'', rc_request = raise_request\<rparr>"

definition sorted_request :: budget_revision_request where
  "sorted_request = raise_request\<lparr>br_tasks := [raised_task ''t1'', raised_task ''t2'']\<rparr>"

lemma raise_canonical: "canonical_revision_request raise_request = Inr (sorted_request, enc_json (revision_request_json sorted_request))"
  by (simp add: canonical_revision_request_def raise_request_def sorted_request_def raised_task_def revision_task_valid_def
      less_list_code less_eq_list_code less_char_def Let_def del: enc_json.simps)

lemma raise_fits: "revision_request_fits raise_request"
  by (simp add: revision_request_fits_def raise_request_def raised_task_def revision_task_fits_def int64_def valid_utf8_ascii byte_def)

lemma raise_valid: "validate_revision_snapshot revision_store ''r'' sorted_request 0 = Inr ()"
  by (simp add: validate_revision_snapshot_def group_member_def revision_store_def sorted_request_def raise_request_def raised_task_def
      revision_base_def policy_body_def sel_row_def read_execution_budget_baseline_def sample_policy_def revision_refused_def
      revision_raises_def default_segment_active_ms_def empty_store_def Let_def)

definition raise_receipt :: revision_receipt where
  "raise_receipt = \<lparr>rr_run = ''r'', rr_group = ''g'', rr_revision = 1, rr_command = ''k'',
     rr_request_json = enc_json (revision_request_json sorted_request)\<rparr>"

lemma raise_bytes:
  "revision_stored_bytes ''r'' sorted_request (enc_json (revision_request_json sorted_request)) (enc_json (revision_receipt_json raise_receipt)) \<le> 10000"
proof -
  have m: "mild_json (revision_request_json sorted_request)"
    by (simp add: revision_request_json_def sorted_request_def raise_request_def raised_task_def revision_task_json_def mild_digits mild_char_def byte_def dec_int_def)
  have b: "json_bound (revision_request_json sorted_request) \<le> 1500"
    by (simp add: revision_request_json_def sorted_request_def raise_request_def raised_task_def revision_task_json_def dec_int_def dec_nat.simps)
  note q = enc_json_mild [OF m]
  have mr: "mild_json (revision_receipt_json raise_receipt)"
    using q by (simp add: revision_receipt_json_def raise_receipt_def mild_digits mild_char_def byte_def dec_int_def del: enc_json.simps)
  have br: "json_bound (revision_receipt_json raise_receipt) \<le> 5000"
    using q b by (simp add: revision_receipt_json_def raise_receipt_def dec_int_def dec_nat.simps del: enc_json.simps)
  show ?thesis using q b enc_json_mild [OF mr] br
    by (simp add: revision_stored_bytes_def sorted_request_def raise_request_def del: enc_json.simps)
qed

definition small_volume :: quota_config where
  "small_volume = default_quota 100000000"

lemma raise_admitted: "0 \<le> n \<Longrightarrow> n \<le> 10000 \<Longrightarrow> storage_admission small_volume revision_store ''r'' n False = Inr ()"
proof -
  assume n: "0 \<le> n" "n \<le> 10000"
  have u: "uint (word_of_int n :: u64) = n" using n by (simp add: uint_word_of_int_eq take_bit_int_eq_self)
  have "add_required 67108864 (word_of_int n) = Some (67108864 + word_of_int n :: u64)"
    using n u by (simp add: add_required_exact uint_word_ariths)
  moreover have "add_required (67108864 + word_of_int n) 4194304 = Some (67108864 + word_of_int n + 4194304 :: u64)"
    using n u by (simp add: add_required_exact uint_word_ariths)
  moreover have "\<not> (100000000 :: u64) < 67108864 + word_of_int n + 4194304"
    using n u by (simp add: word_less_def uint_word_ariths)
  ultimately show ?thesis
    using n by (simp add: storage_admission_def storage_admission_split_def required_space_def small_volume_def default_quota_def
        usage_of_def revision_store_def empty_store_def sel_row_def exceeds_def Let_def)
qed

definition raised_store :: store where
  "raised_store = revise_step small_volume (\<lambda>s. s) raise_command revision_store"

lemma raise_published: "revise_budget small_volume (\<lambda>s. s) raise_command revision_store = Inr (raise_receipt, raised_store)"
proof -
  let ?t = "enc_json (revision_request_json sorted_request)"
  have "\<exists>db. publish_revision small_volume ''r'' sorted_request ?t revision_store = Inr (raise_receipt, db)"
    using raise_valid raise_admitted [OF _ raise_bytes]
    by (simp add: publish_revision_def Let_def latest_revision_def revision_stored_bytes_def insert_revision_def insert_revision_receipt_def charge_usage_def
        raise_receipt_def del: enc_json.simps)
       (simp add: revision_store_def empty_store_def sorted_request_def raise_request_def del: enc_json.simps)
  then obtain db where db: "publish_revision small_volume ''r'' sorted_request ?t revision_store = Inr (raise_receipt, db)" by blast
  have "revise_budget small_volume (\<lambda>s. s) raise_command revision_store = Inr (raise_receipt, db)"
    using db raise_canonical
    by (simp add: revise_budget_def raise_command_def del: enc_json.simps)
       (simp add: anchor_owner_def revision_store_def sel_row_def require_published_owner_def saved_revision_def initial_owner_run_fence_def empty_store_def
         sorted_request_def raise_request_def del: enc_json.simps)
  then show ?thesis by (simp add: raised_store_def revise_step_def)
qed

lemma raised_new: "raised_store \<noteq> revision_store"
proof -
  have "publish_revision small_volume ''r'' sorted_request (enc_json (revision_request_json sorted_request)) revision_store = Inr (raise_receipt, raised_store)"
    using raise_published raise_canonical
    by (simp add: revise_budget_def raise_command_def del: enc_json.simps)
       (simp add: anchor_owner_def revision_store_def sel_row_def require_published_owner_def saved_revision_def initial_owner_run_fence_def empty_store_def
         sorted_request_def raise_request_def del: enc_json.simps)
  from publish_cases(4) [OF this] show ?thesis by auto
qed

lemma sample_caps: "read_execution_budget revision_store ''t1'' = Inr \<lparr>x_policy = Some sample_policy, x_group = ''g'', x_run = ''r'', x_revision = 0,
    x_task_attempts = 2, x_group_attempts = 3, x_attempt_ms = 3600000, x_task_ms = 7200000, x_group_ms = 7200000, x_segment_ms = 3600000\<rparr>"
  by (simp add: read_execution_budget_def revision_store_def empty_store_def sel_row_def policy_body_def read_execution_budget_baseline_def
      sample_policy_def latest_revision_def Let_def)

lemma sample_keys: "distinct (map r_task (tb_runtime revision_store))"
  by (simp add: revision_store_def)

theorem revision_takes_effect_witness:
  "\<exists>b b'. read_execution_budget revision_store ''t1'' = Inr b \<and> read_execution_budget raised_store ''t1'' = Inr b' \<and> caps_le b b'
     \<and> x_task_attempts b = 2 \<and> x_task_attempts b' = 3 \<and> x_revision b' = 1"
proof -
  have t: "raised_task ''t1'' \<in> set (br_tasks (rc_request raise_command))" by (simp add: raise_command_def raise_request_def)
  have f: "revision_request_fits (rc_request raise_command)" using raise_fits by (simp add: raise_command_def)
  from revision_takes_effect [OF raise_published raised_new f t] show ?thesis
    using sample_caps by (auto simp: raised_task_def request_caps_def raise_receipt_def)
qed

theorem revisions_only_raise_witness:
  "\<exists>b'. read_execution_budget (fold (\<lambda>(q, c). revise_step q (\<lambda>s. s) c) [(small_volume, raise_command), (small_volume, raise_command)] revision_store) ''t1'' = Inr b'
     \<and> 2 \<le> x_task_attempts b'"
proof -
  have "list_all (\<lambda>(q, c). revision_request_fits (rc_request c)) [(small_volume, raise_command), (small_volume, raise_command)]"
    using raise_fits by (simp add: raise_command_def)
  from revisions_only_raise [OF this sample_keys sample_caps, of "\<lambda>s. s"] show ?thesis by (auto simp: caps_le_def)
qed

definition other_request :: budget_revision_request where
  "other_request = raise_request\<lparr>br_group_max_attempts := 6\<rparr>"

lemma other_canonical: "canonical_revision_request other_request =
    Inr (sorted_request\<lparr>br_group_max_attempts := 6\<rparr>, enc_json (revision_request_json (sorted_request\<lparr>br_group_max_attempts := 6\<rparr>)))"
  by (simp add: canonical_revision_request_def other_request_def raise_request_def sorted_request_def raised_task_def revision_task_valid_def
      less_list_code less_eq_list_code less_char_def Let_def del: enc_json.simps)

theorem revision_answered_once_witness:
  "revise_budget small_volume (\<lambda>s. s) raise_command raised_store = Inr (raise_receipt, raised_store)
    \<and> revise_budget small_volume (\<lambda>s. s) (raise_command\<lparr>rc_request := other_request\<rparr>) raised_store = Inl ErrConflict"
proof -
  have f: "revision_request_fits (rc_request raise_command)" using raise_fits by (simp add: raise_command_def)
  have g: "revision_request_fits other_request" using raise_fits by (simp add: other_request_def revision_request_fits_def int64_def)
  have v: "valid_utf8 (rr_run raise_receipt)" "int64 (rr_revision raise_receipt)" by (simp_all add: raise_receipt_def valid_utf8_ascii byte_def int64_def)
  have n: "list_all (\<lambda>(q, c). revision_request_fits (rc_request c)) []" by simp
  have d: "canonical_revision_request (rc_request raise_command) \<noteq>
      Inr (sorted_request\<lparr>br_group_max_attempts := 6\<rparr>, enc_json (revision_request_json (sorted_request\<lparr>br_group_max_attempts := 6\<rparr>)))"
    using raise_canonical by (simp add: raise_command_def sorted_request_def raise_request_def del: enc_json.simps)
  from revision_answered_once [OF raise_published f v sample_keys n other_canonical _ _ refl, of small_volume] show ?thesis
    using d g by (simp add: other_request_def raise_command_def del: enc_json.simps)
qed

theorem revision_charged_witness:
  "\<exists>n. 0 \<le> n \<and> usage_total raised_store ScopeGlobal = n \<and> usage_total raised_store (ScopeRun ''r'') = n \<and> n \<le> 16777216"
proof -
  have z: "usage_total revision_store ScopeGlobal = 0" "usage_total revision_store (ScopeRun ''r'') = 0"
    by (simp_all add: usage_total_def usage_of_def revision_store_def empty_store_def sel_row_def)
  from revision_charged [OF raise_published raised_new] show ?thesis
    using z by (auto simp: raise_receipt_def small_volume_def default_quota_def)
qed

end
