(* ===== verification/Event_Spool.thy ===== *)
theory Event_Spool
  imports State_Exception Go_Unmarshal Histories
begin

text \<open>
  The event spool of a segment (\<open>internal/events/events.go\<close>): a directory with one file for each event, an archive
  below it, a file with the last acknowledged sequence number and named metadata. Every operation is the sequence of
  its system calls. Other instances and processes work on the same directory, and any call may fail: the state carries
  what happens before each call, a change of the directory by somebody else and whether the call fails.
\<close>

section \<open>The directory\<close>

text \<open>Names and contents of the regular files of the spool and, once it exists, of its archive.\<close>

record spool_fs =
  fs_files :: "(string \<times> string) list"
  fs_archive :: "(string \<times> string) list option"

datatype spool_error = SpoolCode string | NotExist | Exist | SysError

text \<open>The argument of a fault is how far the failing call got: bytes written, names listed.\<close>

record tick =
  tk_env :: "spool_fs \<Rightarrow> spool_fs"
  tk_fault :: "nat option"

text \<open>\<open>w_moves\<close> logs the directory before and after each call of the operation itself.\<close>

record world =
  w_fs :: spool_fs
  w_ticks :: "tick list"
  w_moves :: "(spool_fs \<times> spool_fs) list"

type_synonym 'a spool_action = "(world, spool_error, 'a) action"

definition calm :: tick where
  "calm = \<lparr>tk_env = (\<lambda>fs. fs), tk_fault = None\<rparr>"

definition sys_call ::
  "(spool_fs \<Rightarrow> (spool_error + 'a) \<times> spool_fs) \<Rightarrow> (nat \<Rightarrow> spool_fs \<Rightarrow> (spool_error + 'a) \<times> spool_fs) \<Rightarrow> 'a spool_action" where
  "sys_call call faulty w =
    (let t = (case w_ticks w of [] \<Rightarrow> calm | t # _ \<Rightarrow> t);
         fs = tk_env t (w_fs w);
         (r, fs') = (case tk_fault t of None \<Rightarrow> call fs | Some k \<Rightarrow> faulty k fs)
     in (r, \<lparr>w_fs = fs', w_ticks = tl (w_ticks w), w_moves = w_moves w @ [(fs, fs')]\<rparr>))"

definition no_effect :: "nat \<Rightarrow> spool_fs \<Rightarrow> (spool_error + 'a) \<times> spool_fs" where
  "no_effect k fs = (Inl SysError, fs)"

definition attempt :: "'a spool_action \<Rightarrow> (spool_error + 'a) spool_action" where
  "attempt m w = (case m w of (r, w') \<Rightarrow> (Inr r, w'))"

definition ignoring :: "'a spool_action \<Rightarrow> unit spool_action" where
  "ignoring m = andthen (attempt m) (\<lambda>_. ret ())"

definition archived :: "spool_fs \<Rightarrow> string \<Rightarrow> string option" where
  "archived fs n = Option.bind (fs_archive fs) (\<lambda>a. map_of a n)"

definition read_file :: "string \<Rightarrow> string spool_action" where
  "read_file n = sys_call (\<lambda>fs. (case map_of (fs_files fs) n of None \<Rightarrow> Inl NotExist | Some c \<Rightarrow> Inr c, fs)) no_effect"

definition read_archived :: "string \<Rightarrow> string spool_action" where
  "read_archived n = sys_call (\<lambda>fs. (case archived fs n of None \<Rightarrow> Inl NotExist | Some c \<Rightarrow> Inr c, fs)) no_effect"

text \<open>\<open>O_CREATE|O_EXCL\<close>.\<close>

definition create_file :: "string \<Rightarrow> unit spool_action" where
  "create_file n = sys_call (\<lambda>fs. if map_of (fs_files fs) n \<noteq> None then (Inl Exist, fs)
     else (Inr (), fs\<lparr>fs_files := AList.update n [] (fs_files fs)\<rparr>)) no_effect"

definition put_bytes :: "string \<Rightarrow> string \<Rightarrow> spool_fs \<Rightarrow> spool_fs" where
  "put_bytes n data fs = (if map_of (fs_files fs) n = None then fs else fs\<lparr>fs_files := AList.update n data (fs_files fs)\<rparr>)"

definition write_file :: "string \<Rightarrow> string \<Rightarrow> unit spool_action" where
  "write_file n data = sys_call (\<lambda>fs. (Inr (), put_bytes n data fs)) (\<lambda>k fs. (Inl SysError, put_bytes n (take k data) fs))"

text \<open>\<open>Sync\<close>, \<open>Close\<close>, \<open>Stat\<close> and \<open>ReadAt\<close> of an open file, \<open>syncDir\<close>: nothing that another reader sees.\<close>

definition plain_call :: "unit spool_action" where
  "plain_call = sys_call (\<lambda>fs. (Inr (), fs)) no_effect"

definition link_file :: "string \<Rightarrow> string \<Rightarrow> unit spool_action" where
  "link_file n m = sys_call (\<lambda>fs. (case map_of (fs_files fs) n of None \<Rightarrow> (Inl NotExist, fs)
     | Some c \<Rightarrow> if map_of (fs_files fs) m \<noteq> None then (Inl Exist, fs)
         else (Inr (), fs\<lparr>fs_files := AList.update m c (fs_files fs)\<rparr>))) no_effect"

definition link_archive :: "string \<Rightarrow> unit spool_action" where
  "link_archive n = sys_call (\<lambda>fs. (case (map_of (fs_files fs) n, fs_archive fs) of
       (Some c, Some a) \<Rightarrow> if map_of a n \<noteq> None then (Inl Exist, fs) else (Inr (), fs\<lparr>fs_archive := Some (AList.update n c a)\<rparr>)
     | _ \<Rightarrow> (Inl NotExist, fs))) no_effect"

definition remove_file :: "string \<Rightarrow> unit spool_action" where
  "remove_file n = sys_call (\<lambda>fs. if map_of (fs_files fs) n = None then (Inl NotExist, fs)
     else (Inr (), fs\<lparr>fs_files := AList.delete n (fs_files fs)\<rparr>)) no_effect"

definition rename_file :: "string \<Rightarrow> string \<Rightarrow> unit spool_action" where
  "rename_file n m = sys_call (\<lambda>fs. (case map_of (fs_files fs) n of None \<Rightarrow> (Inl NotExist, fs)
     | Some c \<Rightarrow> (Inr (), fs\<lparr>fs_files := AList.update m c (AList.delete n (fs_files fs))\<rparr>))) no_effect"

definition make_archive :: "unit spool_action" where
  "make_archive = sys_call (\<lambda>fs. (Inr (), case fs_archive fs of None \<Rightarrow> fs\<lparr>fs_archive := Some []\<rparr> | Some _ \<Rightarrow> fs)) no_effect"

text \<open>\<open>filepath.Glob\<close> of \<open>event-*.json\<close>: it ignores errors of reading the directory and returns the names it saw.\<close>

definition event_file :: "string \<Rightarrow> bool" where
  "event_file n \<longleftrightarrow> length n \<ge> 11 \<and> take 6 n = ''event-'' \<and> drop (length n - 5) n = ''.json''"

definition listing :: "(string \<times> string) list \<Rightarrow> string list" where
  "listing fs = sort (filter event_file (remdups (map fst fs)))"

definition glob_files :: "string list spool_action" where
  "glob_files = sys_call (\<lambda>fs. (Inr (listing (fs_files fs)), fs)) (\<lambda>k fs. (Inr (listing (take k (fs_files fs))), fs))"

definition archive_files :: "spool_fs \<Rightarrow> (string \<times> string) list" where
  "archive_files fs = (case fs_archive fs of None \<Rightarrow> [] | Some a \<Rightarrow> a)"

definition glob_archive :: "string list spool_action" where
  "glob_archive = sys_call (\<lambda>fs. (Inr (listing (archive_files fs)), fs)) (\<lambda>k fs. (Inr (listing (take k (archive_files fs))), fs))"

section \<open>Events\<close>

text \<open>What the spool uses of \<open>contract.Event\<close> and of its JSON.\<close>

record 'e event_type =
  et_version :: "'e \<Rightarrow> int"
  et_sequence :: "'e \<Rightarrow> int"
  et_attempt :: "'e \<Rightarrow> string"
  et_segment :: "'e \<Rightarrow> string"
  et_marshal :: "'e \<Rightarrow> string"
  et_decode :: "string \<Rightarrow> 'e option"

definition line_feed :: string where
  "line_feed = [CHR 0x0A]"

text \<open>\<open>%020d\<close> of a positive number.\<close>

definition padded :: "int \<Rightarrow> string" where
  "padded i = (let d = dec_int i in replicate (20 - length d) (CHR ''0'') @ d)"

definition event_name :: "int \<Rightarrow> string" where
  "event_name i = ''event-'' @ padded i @ ''.json''"

definition stage_name :: "int \<Rightarrow> int \<Rightarrow> string" where
  "stage_name i pid = ''.event-'' @ padded i @ ''-'' @ dec_int pid @ ''.tmp''"

definition event_data :: "'e event_type \<Rightarrow> 'e \<Rightarrow> string" where
  "event_data et e = et_marshal et e @ line_feed"

definition event_valid :: "'e event_type \<Rightarrow> 'e \<Rightarrow> bool" where
  "event_valid et e \<longleftrightarrow> et_version et e = 1 \<and> et_sequence et e \<ge> 1 \<and> et_attempt et e \<noteq> [] \<and> et_segment et e \<noteq> []"

definition invalid_event :: spool_error where "invalid_event = SpoolCode ''invalid_event''"
definition event_conflict :: spool_error where "event_conflict = SpoolCode ''event_conflict''"
definition event_too_large :: spool_error where "event_too_large = SpoolCode ''event_too_large''"
definition invalid_ack :: spool_error where "invalid_ack = SpoolCode ''invalid_ack''"

text \<open>Write, then sync; close in any case; the first error counts.\<close>

definition write_out :: "string \<Rightarrow> string \<Rightarrow> unit spool_action" where
  "write_out stage data =
    andthen (attempt (chain (write_file stage data) plain_call)) (\<lambda>r. andthen (attempt plain_call) (\<lambda>c.
      case r of Inl e \<Rightarrow> fail e | Inr _ \<Rightarrow> (case c of Inl e \<Rightarrow> fail e | Inr _ \<Rightarrow> ret ())))"

definition after_link :: "string \<Rightarrow> string \<Rightarrow> string \<Rightarrow> spool_error + unit \<Rightarrow> unit spool_action" where
  "after_link stage nm data l = (case l of
     Inl x \<Rightarrow> if x = Exist
       then andthen (attempt (read_file nm)) (\<lambda>old. if old = Inr data then ignoring (remove_file stage) else fail event_conflict)
       else fail x
   | Inr _ \<Rightarrow> chain (ignoring (remove_file stage)) plain_call)"

definition publish_event :: "string \<Rightarrow> string \<Rightarrow> string \<Rightarrow> unit spool_action" where
  "publish_event stage nm data =
    andthen (attempt (create_file stage)) (\<lambda>r. case r of
      Inl x \<Rightarrow> fail (if x = Exist then event_conflict else x)
    | Inr _ \<Rightarrow> chain (write_out stage data) (andthen (attempt (link_file stage nm)) (after_link stage nm data)))"

definition unchanged :: "string \<Rightarrow> string \<Rightarrow> unit spool_action" where
  "unchanged old data = check (old = data) event_conflict"

definition append_event :: "'e event_type \<Rightarrow> int \<Rightarrow> 'e \<Rightarrow> unit spool_action" where
  "append_event et pid e =
    (let data = event_data et e; nm = event_name (et_sequence et e); stage = stage_name (et_sequence et e) pid
     in chain (check (event_valid et e) invalid_event)
       (andthen (attempt (read_file nm)) (\<lambda>r. case r of
          Inr old \<Rightarrow> unchanged old data
        | Inl x \<Rightarrow> if x \<noteq> NotExist then fail x
            else andthen (attempt (read_archived nm)) (\<lambda>a. case a of
              Inr old \<Rightarrow> unchanged old data
            | Inl y \<Rightarrow> if y \<noteq> NotExist then fail y else publish_event stage nm data))))"

section \<open>Reading\<close>

text \<open>The number between prefix and suffix of a listed name.\<close>

definition event_number :: "string \<Rightarrow> int option" where
  "event_number n = parse_int 64 (take (length n - 11) (drop 6 n))"

definition open_event :: "bool \<Rightarrow> bool \<Rightarrow> string \<Rightarrow> string spool_action" where
  "open_event history active n =
    (if active
     then andthen (attempt (read_file n)) (\<lambda>r. case r of
         Inr c \<Rightarrow> ret c
       | Inl x \<Rightarrow> if history \<and> x = NotExist then read_archived n else fail x)
     else read_archived n)"

text \<open>The loop over the listed paths; \<open>stat\<close> and \<open>ReadAt\<close> are one call each on the opened file.\<close>

fun read_paths ::
  "'e event_type \<Rightarrow> int \<Rightarrow> bool \<Rightarrow> (bool \<times> string) list \<Rightarrow> (int \<times> string) list \<Rightarrow> 'e list \<Rightarrow> 'e list spool_action" where
  "read_paths et after history [] seen out = ret out"
| "read_paths et after history ((active, n) # ps) seen out =
    (case event_number n of
       None \<Rightarrow> fail invalid_event
     | Some i \<Rightarrow>
       if i < 1 then fail invalid_event
       else if i \<le> after then read_paths et after history ps seen out
       else andthen (open_event history active n) (\<lambda>data.
         chain plain_call (chain (check (length data \<le> 65536) event_too_large) (chain plain_call
          (case map_of seen i of
             Some old \<Rightarrow> chain (check (old = data) event_conflict) (read_paths et after history ps seen out)
           | None \<Rightarrow> (case et_decode et data of
               None \<Rightarrow> fail invalid_event
             | Some e \<Rightarrow> if et_sequence et e \<noteq> i then fail invalid_event
                 else read_paths et after history ps ((i, data) # seen) (out @ [e])))))))"

definition read_spool :: "'e event_type \<Rightarrow> int \<Rightarrow> bool \<Rightarrow> 'e list spool_action" where
  "read_spool et after history =
    andthen glob_files (\<lambda>ps. andthen (if history then glob_archive else ret []) (\<lambda>qs.
      andthen (read_paths et after history (map (Pair True) ps @ map (Pair False) qs) [] []) (\<lambda>out.
        ret (sort_key (et_sequence et) out))))"

definition read_all :: "'e event_type \<Rightarrow> 'e list spool_action" where
  "read_all et = read_spool et 0 True"

definition read_after :: "'e event_type \<Rightarrow> int \<Rightarrow> 'e list spool_action" where
  "read_after et after = read_spool et after False"

section \<open>Acknowledging\<close>

record ack_value =
  ak_version :: int
  ak_through :: int

definition ack_fields :: "ack_value field list" where
  "ack_fields = [(''version'', set_int 64 (\<lambda>i. ak_version_update (\<lambda>_. i))), (''acked_through'', set_int 64 (\<lambda>i. ak_through_update (\<lambda>_. i)))]"

text \<open>\<open>Decoder.Decode\<close> with unknown fields disallowed reads the first value and leaves the rest.\<close>

definition decode_first :: "'r field list \<Rightarrow> 'r \<Rightarrow> string \<Rightarrow> 'r option" where
  "decode_first fs zero s = (case json_text max_nesting (skip_ws s) of None \<Rightarrow> None | Some (v, _) \<Rightarrow> decode_struct True fs v zero)"

definition decode_ack :: "string \<Rightarrow> int option" where
  "decode_ack s = (case decode_first ack_fields \<lparr>ak_version = 0, ak_through = 0\<rparr> s of
     None \<Rightarrow> None | Some v \<Rightarrow> if ak_version v \<noteq> 1 \<or> ak_through v < 0 then None else Some (ak_through v))"

definition read_ack :: "int spool_action" where
  "read_ack = andthen (attempt (read_file ''ack.json'')) (\<lambda>r. case r of
     Inl x \<Rightarrow> if x = NotExist then ret 0 else fail x
   | Inr s \<Rightarrow> (case decode_ack s of None \<Rightarrow> fail invalid_ack | Some i \<Rightarrow> ret i))"

definition ack_json :: "int \<Rightarrow> json" where
  "ack_json i = JObj [(''version'', JNum (dec_int 1)), (''acked_through'', JNum (dec_int i))]"

definition ack_data :: "int \<Rightarrow> string" where
  "ack_data i = enc_json (ack_json i) @ line_feed"

text \<open>One event is linked into the archive, or is there already with the same content.\<close>

definition link_event :: "string \<Rightarrow> unit spool_action" where
  "link_event n = andthen (attempt (link_archive n)) (\<lambda>r. case r of
       Inr _ \<Rightarrow> ret ()
     | Inl x \<Rightarrow> if x \<noteq> Exist then fail x
         else andthen (attempt (read_archived n)) (\<lambda>old. andthen (attempt (read_file n)) (\<lambda>current.
           check (case old of Inl _ \<Rightarrow> False | Inr c \<Rightarrow> current = Inr c) event_conflict)))"

fun link_events :: "int \<Rightarrow> string list \<Rightarrow> string list spool_action" where
  "link_events through [] = ret []"
| "link_events through (n # ns) =
    (case event_number n of
       None \<Rightarrow> fail invalid_event
     | Some i \<Rightarrow>
       if i > through then link_events through ns
       else chain (link_event n) (andthen (link_events through ns) (\<lambda>moved. ret (n # moved))))"

definition archive_through :: "int \<Rightarrow> unit spool_action" where
  "archive_through through =
    chain make_archive (andthen glob_files (\<lambda>ns. andthen (link_events through ns) (\<lambda>moved.
      chain plain_call (chain (each remove_file moved) plain_call))))"

definition replace_file :: "string \<Rightarrow> string \<Rightarrow> string \<Rightarrow> unit spool_action" where
  "replace_file stage target data =
    chain (ignoring (remove_file stage)) (chain (create_file stage) (chain (write_out stage data)
      (chain (rename_file stage target) plain_call)))"

definition ack_through :: "int \<Rightarrow> unit spool_action" where
  "ack_through through =
    chain (check (through \<ge> 0) invalid_ack) (andthen read_ack (\<lambda>current.
      chain (check (through \<ge> current) (SpoolCode ''stale_ack''))
        (chain (replace_file ''.ack.json.tmp'' ''ack.json'' (ack_data through)) (archive_through through))))"

section \<open>Metadata\<close>

text \<open>A path element: no separator and none of the names \<open>filepath.Base\<close> changes.\<close>

definition base_name :: "string \<Rightarrow> bool" where
  "base_name n \<longleftrightarrow> n \<noteq> [] \<and> (CHR ''/'' \<notin> set n \<or> n = ''/'')"

definition json_ext :: "string \<Rightarrow> bool" where
  "json_ext n \<longleftrightarrow> length n \<ge> 5 \<and> drop (length n - 5) n = ''.json''"

text \<open>The value comes as its JSON, \<open>None\<close> when it has none.\<close>

definition write_metadata :: "string \<Rightarrow> string option \<Rightarrow> unit spool_action" where
  "write_metadata n text =
    chain (check (base_name n \<and> json_ext n) (SpoolCode ''metadata_name_invalid''))
      (case text of
         None \<Rightarrow> fail (SpoolCode ''metadata_invalid'')
       | Some t \<Rightarrow> chain (check (length t \<le> 65536) (SpoolCode ''metadata_invalid''))
          (let stage = ''.'' @ n @ ''.tmp''
           in chain (ignoring (remove_file stage)) (chain (create_file stage)
             (andthen (attempt (write_out stage (t @ line_feed))) (\<lambda>r. case r of
                Inl x \<Rightarrow> chain (ignoring (remove_file stage)) (fail x)
              | Inr _ \<Rightarrow> andthen (attempt (rename_file stage n)) (\<lambda>q. case q of
                  Inl x \<Rightarrow> chain (ignoring (remove_file stage)) (fail x)
                | Inr _ \<Rightarrow> plain_call))))))"

definition read_metadata :: "(string \<Rightarrow> 'v option) \<Rightarrow> string \<Rightarrow> 'v spool_action" where
  "read_metadata dec n =
    chain (check (base_name n) (SpoolCode ''metadata_name_invalid'')) (andthen (read_file n) (\<lambda>t.
      chain (check (length t \<le> 65536) (SpoolCode ''metadata_too_large''))
        (case dec t of None \<Rightarrow> fail (SpoolCode ''metadata_invalid'') | Some v \<Rightarrow> ret v)))"

end
