(* ===== verification/Spool_Steps.thy ===== *)
theory Spool_Steps
  imports Event_Spool
begin

text \<open>
  What a system call of the spool may do to the published history, as a relation between directories that both the
  operations of this program guarantee and rely on.
\<close>

section \<open>Published history\<close>

definition history :: "spool_fs \<Rightarrow> string \<Rightarrow> string option" where
  "history fs n = (case map_of (fs_files fs) n of Some c \<Rightarrow> Some c | None \<Rightarrow> archived fs n)"

text \<open>Event files hold what \<open>W\<close> admits under their name, and an archived event is the active one.\<close>

definition good :: "(string \<Rightarrow> string \<Rightarrow> bool) \<Rightarrow> spool_fs \<Rightarrow> bool" where
  "good W fs \<longleftrightarrow> (\<forall>n c. event_file n \<longrightarrow> (map_of (fs_files fs) n = Some c \<longrightarrow> W n c) \<and> (archived fs n = Some c \<longrightarrow> W n c))
    \<and> (\<forall>n c d. event_file n \<longrightarrow> map_of (fs_files fs) n = Some c \<longrightarrow> archived fs n = Some d \<longrightarrow> c = d)"

definition history_le :: "spool_fs \<Rightarrow> spool_fs \<Rightarrow> bool" where
  "history_le fs fs' \<longleftrightarrow> (\<forall>n c. event_file n \<longrightarrow> (history fs n = Some c \<longrightarrow> history fs' n = Some c) \<and> (archived fs n = Some c \<longrightarrow> archived fs' n = Some c))"

definition moves :: "(string \<Rightarrow> string \<Rightarrow> bool) \<Rightarrow> spool_fs \<Rightarrow> spool_fs \<Rightarrow> bool" where
  "moves W fs fs' \<longleftrightarrow> (good W fs \<longrightarrow> good W fs' \<and> history_le fs fs')"

lemma history_le_refl [simp]: "history_le fs fs"
  by (simp add: history_le_def)

lemma history_le_trans: "history_le a b \<Longrightarrow> history_le b c \<Longrightarrow> history_le a c"
  by (simp add: history_le_def)

lemma moves_refl [simp]: "moves W fs fs"
  by (simp add: moves_def)

lemma good_active: "good W fs \<Longrightarrow> event_file n \<Longrightarrow> archived fs n = Some c \<Longrightarrow> history fs n = Some c"
  by (auto simp: good_def history_def split: option.split)

lemma archive_frame [simp]: "archived (fs\<lparr>fs_files := x\<rparr>) n = archived fs n"
  by (simp add: archived_def)

lemma history_update [simp]: "history (fs\<lparr>fs_files := AList.update m c (fs_files fs)\<rparr>) n = (if m = n then Some c else history fs n)"
  by (simp add: history_def AList.update_conv' cong: option.case_cong)

lemma history_delete [simp]: "history (fs\<lparr>fs_files := AList.delete m (fs_files fs)\<rparr>) n = (if m = n then archived fs n else history fs n)"
  by (simp add: history_def AList.delete_conv' cong: option.case_cong)

text \<open>Changes to files that are no events.\<close>

lemma moves_other:
  assumes "\<And>n. event_file n \<Longrightarrow> map_of fs' n = map_of (fs_files fs) n"
  shows "moves W fs (fs\<lparr>fs_files := fs'\<rparr>)"
  using assms by (auto simp: moves_def good_def history_le_def history_def split: option.splits)

lemma moves_update: "\<not> event_file n \<Longrightarrow> moves W fs (fs\<lparr>fs_files := AList.update n c (fs_files fs)\<rparr>)"
  by (rule moves_other) (auto simp: AList.update_conv')

lemma moves_delete: "\<not> event_file n \<Longrightarrow> moves W fs (fs\<lparr>fs_files := AList.delete n (fs_files fs)\<rparr>)"
  by (rule moves_other) (auto simp: AList.delete_conv')

text \<open>Publishing, archiving and unlinking an event.\<close>

lemma moves_publish:
  assumes "map_of (fs_files fs) n = None" "W n c" "\<And>d. archived fs n = Some d \<Longrightarrow> d = c"
  shows "moves W fs (fs\<lparr>fs_files := AList.update n c (fs_files fs)\<rparr>)"
  using assms by (auto simp: moves_def good_def history_le_def history_def AList.update_conv' split: option.splits if_splits)

lemma moves_archive:
  assumes "map_of (fs_files fs) n = Some c" "fs_archive fs = Some a" "map_of a n = None"
  shows "moves W fs (fs\<lparr>fs_archive := Some (AList.update n c a)\<rparr>)"
  using assms by (auto simp: moves_def good_def history_le_def history_def archived_def AList.update_conv' split: option.splits if_splits)

lemma moves_unlink:
  assumes "event_file n \<Longrightarrow> archived fs n \<noteq> None"
  shows "moves W fs (fs\<lparr>fs_files := AList.delete n (fs_files fs)\<rparr>)"
proof -
  let ?fs = "fs\<lparr>fs_files := AList.delete n (fs_files fs)\<rparr>"
  have m: "map_of (fs_files ?fs) m = (if m = n then None else map_of (fs_files fs) m)" for m by (simp add: AList.delete_conv')
  have "history ?fs m = history fs m" if g: "good W fs" and e: "event_file m" for m
  proof (cases "m = n")
    case True
    then obtain d where d: "archived fs m = Some d" using assms e by auto
    then have "history fs m = Some d" by (rule good_active [OF g e])
    then show ?thesis using True d m [of m] by (simp add: history_def)
  next
    case False
    then show ?thesis unfolding history_def m archive_frame by simp
  qed
  moreover have "good W fs \<Longrightarrow> good W ?fs" by (auto simp: good_def AList.delete_conv' split: if_splits)
  ultimately show ?thesis by (simp add: moves_def history_le_def)
qed

lemma moves_archive_dir: "fs_archive fs = None \<Longrightarrow> moves W fs (fs\<lparr>fs_archive := Some []\<rparr>)"
  by (auto simp: moves_def good_def history_le_def history_def archived_def split: option.splits)

section \<open>Calls between the changes of others\<close>

definition env_ok :: "(string \<Rightarrow> string \<Rightarrow> bool) \<Rightarrow> (spool_fs \<Rightarrow> spool_fs \<Rightarrow> bool) \<Rightarrow> tick \<Rightarrow> bool" where
  "env_ok W X t \<longleftrightarrow> (\<forall>fs. moves W fs (tk_env t fs) \<and> (good W fs \<longrightarrow> X fs (tk_env t fs)))"

definition spool_inv :: "bool \<Rightarrow> (string \<Rightarrow> string \<Rightarrow> bool) \<Rightarrow> (spool_fs \<Rightarrow> spool_fs \<Rightarrow> bool) \<Rightarrow> spool_fs \<Rightarrow> world \<Rightarrow> bool" where
  "spool_inv ft W X fs0 w \<longleftrightarrow> good W (w_fs w) \<and> history_le fs0 (w_fs w) \<and> list_all (env_ok W X) (w_ticks w)
     \<and> (\<not> ft \<longrightarrow> list_all (\<lambda>t. tk_fault t = None) (w_ticks w)) \<and> list_all (\<lambda>(a, b). moves W a b) (w_moves w)"

text \<open>From a directory with \<open>P\<close>, with faults only if \<open>ft\<close>, the action succeeds in one with \<open>Q\<close> or fails in one with \<open>E\<close>, and every call moves
  the history as allowed, whatever fails and whatever the others do in between.\<close>

definition does :: "bool \<Rightarrow> (string \<Rightarrow> string \<Rightarrow> bool) \<Rightarrow> (spool_fs \<Rightarrow> spool_fs \<Rightarrow> bool) \<Rightarrow> (spool_fs \<Rightarrow> bool) \<Rightarrow> 'a spool_action
    \<Rightarrow> (spool_error + 'a \<Rightarrow> spool_fs \<Rightarrow> bool) \<Rightarrow> bool" where
  "does ft W X P m Q \<longleftrightarrow> (\<forall>fs0 w. spool_inv ft W X fs0 w \<longrightarrow> P (w_fs w) \<longrightarrow> (case m w of (r, w') \<Rightarrow> spool_inv ft W X fs0 w' \<and> Q r (w_fs w')))"

lemma doesD: "does ft W X P m Q \<Longrightarrow> spool_inv ft W X fs0 w \<Longrightarrow> P (w_fs w) \<Longrightarrow> m w = (r, w') \<Longrightarrow> spool_inv ft W X fs0 w' \<and> Q r (w_fs w')"
  by (fastforce simp: does_def)

lemma does_sys:
  assumes X: "\<And>fs. X fs fs" and stable: "\<And>fs fs'. good W fs \<Longrightarrow> good W fs' \<Longrightarrow> history_le fs fs' \<Longrightarrow> X fs fs' \<Longrightarrow> P fs \<Longrightarrow> P fs'"
    and call: "\<And>fs r fs'. good W fs \<Longrightarrow> P fs \<Longrightarrow> call fs = (r, fs') \<Longrightarrow> moves W fs fs' \<and> (good W fs' \<longrightarrow> Q r fs')"
    and faulty: "\<And>k fs r fs'. ft \<Longrightarrow> good W fs \<Longrightarrow> P fs \<Longrightarrow> faulty k fs = (r, fs') \<Longrightarrow> moves W fs fs' \<and> (good W fs' \<longrightarrow> Q r fs')"
  shows "does ft W X P (sys_call call faulty) Q"
  unfolding does_def
proof (intro allI impI)
  fix fs0 w assume w: "spool_inv ft W X fs0 w" "P (w_fs w)"
  define t where "t = (case w_ticks w of [] \<Rightarrow> calm | t # _ \<Rightarrow> t)"
  define fs where "fs = tk_env t (w_fs w)"
  define rf where "rf = (case tk_fault t of None \<Rightarrow> call fs | Some k \<Rightarrow> faulty k fs)"
  obtain r fs' where r: "rf = (r, fs')" by fastforce
  have t: "env_ok W X t" using w X by (auto simp: t_def env_ok_def calm_def spool_inv_def split: list.split)
  have f: "tk_fault t = None" if "\<not> ft" using w that by (auto simp: t_def calm_def spool_inv_def split: list.split)
  have g: "good W fs" "history_le (w_fs w) fs" "P fs"
    using t w stable by (auto simp: env_ok_def fs_def moves_def spool_inv_def)
  have both: "moves W fs fs' \<and> (good W fs' \<longrightarrow> Q r fs')"
  proof (cases "tk_fault t")
    case None
    then show ?thesis using call [OF g(1,3)] r by (simp add: rf_def)
  next
    case (Some k)
    then have ft using f by auto
    from faulty [OF this g(1,3)] show ?thesis using Some r by (simp add: rf_def)
  qed
  then have m: "moves W fs fs'" "good W fs' \<Longrightarrow> Q r fs'" by simp_all
  have gs: "good W fs'" "history_le fs fs'" using m(1) g(1) by (auto simp: moves_def)
  have run: "sys_call call faulty w = (r, \<lparr>w_fs = fs', w_ticks = tl (w_ticks w), w_moves = w_moves w @ [(fs, fs')]\<rparr>)"
    unfolding sys_call_def Let_def t_def [symmetric] fs_def [symmetric] rf_def [symmetric] by (simp add: r)
  have tl: "list_all (env_ok W X) (tl (w_ticks w))" "\<not> ft \<Longrightarrow> list_all (\<lambda>t. tk_fault t = None) (tl (w_ticks w))"
    using w by (cases "w_ticks w"; simp add: spool_inv_def)+
  have "history_le fs0 fs'" using w(1) g(2) gs(2) by (meson history_le_trans spool_inv_def)
  then show "case sys_call call faulty w of (r, w') \<Rightarrow> spool_inv ft W X fs0 w' \<and> Q r (w_fs w')"
    unfolding run using w gs m tl by (simp add: spool_inv_def)
qed

named_theorems does_intros \<open>how actions compose\<close>

lemma does_andthen:
  assumes "does ft W X P m R" "\<And>a. does ft W X (R (Inr a)) (f a) Q" "\<And>e fs. R (Inl e) fs \<Longrightarrow> Q (Inl e) fs"
  shows "does ft W X P (andthen m f) Q"
  unfolding does_def
proof (intro allI impI)
  fix fs0 w assume w: "spool_inv ft W X fs0 w" "P (w_fs w)"
  obtain r w1 where m: "m w = (r, w1)" by fastforce
  have 1: "spool_inv ft W X fs0 w1" "R r (w_fs w1)" using doesD [OF assms(1) w m] by simp_all
  show "case andthen m f w of (r, w') \<Rightarrow> spool_inv ft W X fs0 w' \<and> Q r (w_fs w')"
  proof (cases r)
    case (Inl e)
    then show ?thesis using 1 m assms(3) by (simp add: andthen_def)
  next
    case (Inr a)
    obtain r2 w2 where f: "f a w1 = (r2, w2)" by fastforce
    show ?thesis using doesD [OF assms(2) 1(1) _ f] 1(2) Inr m f by (simp add: andthen_def)
  qed
qed

lemma does_chain:
  "does ft W X P m R \<Longrightarrow> does ft W X (R (Inr ())) m' Q \<Longrightarrow> (\<And>e fs. R (Inl e) fs \<Longrightarrow> Q (Inl e) fs) \<Longrightarrow> does ft W X P (chain m m') Q"
  unfolding chain_def by (rule does_andthen [where R = R]) simp_all

lemma does_attempt: "does ft W X P m (\<lambda>r fs. Q (Inr r) fs) \<Longrightarrow> does ft W X P (attempt m) Q"
  by (fastforce simp: does_def attempt_def split: prod.splits)

lemma does_ret: "(\<And>fs. P fs \<Longrightarrow> Q (Inr a) fs) \<Longrightarrow> does ft W X P (ret a) Q"
  by (simp add: does_def ret_def)

lemma does_fail: "(\<And>fs. P fs \<Longrightarrow> Q (Inl e) fs) \<Longrightarrow> does ft W X P (fail e) Q"
  by (simp add: does_def fail_def)

lemma does_check: "(\<And>fs. P fs \<Longrightarrow> Q (if b then Inr () else Inl e) fs) \<Longrightarrow> does ft W X P (check b e) Q"
  by (cases b) (simp_all add: does_def check_def ret_def fail_def)

lemma does_weaken: "does ft W X P m Q \<Longrightarrow> (\<And>fs. P' fs \<Longrightarrow> P fs) \<Longrightarrow> (\<And>r fs. Q r fs \<Longrightarrow> Q' r fs) \<Longrightarrow> does ft W X P' m Q'"
  unfolding does_def by (fastforce split: prod.splits)

lemma does_false: "(\<And>fs. \<not> P fs) \<Longrightarrow> does ft W X P m Q"
  by (simp add: does_def)

lemma does_ignoring: "does ft W X P m (\<lambda>_. R) \<Longrightarrow> (\<And>fs. R fs \<Longrightarrow> Q (Inr ()) fs) \<Longrightarrow> does ft W X P (ignoring m) Q"
  unfolding ignoring_def by (rule does_andthen [OF does_attempt, where R = "\<lambda>r fs. R fs \<and> isl r = False"])
    (auto intro!: does_ret elim!: does_weaken)

text \<open>Calls that leave the directory as it is keep what the changes of others keep.\<close>

lemma does_look:
  assumes "\<And>fs. X fs fs" "\<And>fs fs'. good W fs \<Longrightarrow> good W fs' \<Longrightarrow> history_le fs fs' \<Longrightarrow> X fs fs' \<Longrightarrow> P fs \<Longrightarrow> P fs'"
    "\<And>fs. good W fs \<Longrightarrow> P fs \<Longrightarrow> Q (look fs) fs" "\<And>fs. ft \<Longrightarrow> good W fs \<Longrightarrow> P fs \<Longrightarrow> Q (Inl SysError) fs"
  shows "does ft W X P (sys_call (\<lambda>fs. (look fs, fs)) no_effect) Q"
proof (rule does_sys [OF assms(1,2)])
  show "moves W fs fs' \<and> (good W fs' \<longrightarrow> Q r fs')" if "good W fs" "P fs" "(look fs, fs) = (r, fs')" for fs r fs'
    using assms(3) [OF that(1,2)] that(3) by auto
  show "moves W fs fs' \<and> (good W fs' \<longrightarrow> Q r fs')" if ft "good W fs" "P fs" "no_effect k fs = (r, fs')" for k fs r fs'
    using assms(4) [OF that(1,2,3)] that(4) by (simp add: no_effect_def)
qed

lemma does_ex: "(\<And>x. does ft W X (P x) m Q) \<Longrightarrow> does ft W X (\<lambda>fs. \<exists>x. P x fs) m Q"
  by (fastforce simp: does_def)

text \<open>Writing a staged file: success of the whole means success of the write.\<close>

lemma write_out_does:
  assumes "does ft W X P (write_file stage d) (\<lambda>r fs. I fs \<and> (r = Inr () \<longrightarrow> S fs))"
    "\<And>b. does ft W X (\<lambda>fs. I fs \<and> (b \<longrightarrow> S fs)) plain_call (\<lambda>r fs. I fs \<and> (b \<longrightarrow> S fs))"
  shows "does ft W X P (write_out stage d) (\<lambda>r fs. I fs \<and> (r = Inr () \<longrightarrow> S fs))"
  unfolding write_out_def
proof (rule does_andthen [OF does_attempt])
  show "does ft W X P (chain (write_file stage d) plain_call) (\<lambda>r fs. (\<lambda>q fs. I fs \<and> (q = Inr (Inr ()) \<longrightarrow> S fs)) (Inr r) fs)"
    by (rule does_chain [OF assms(1)], rule does_weaken [OF assms(2) [of True]]) auto
  show "does ft W X (\<lambda>fs. I fs \<and> (Inr r = Inr (Inr ()) \<longrightarrow> S fs))
      (andthen (attempt plain_call) (\<lambda>c. case r of Inl e \<Rightarrow> fail e | Inr _ \<Rightarrow> (case c of Inl e \<Rightarrow> fail e | Inr _ \<Rightarrow> ret ())))
      (\<lambda>r fs. I fs \<and> (r = Inr () \<longrightarrow> S fs))" for r :: "spool_error + unit"
  proof (rule does_andthen [OF does_attempt])
    show "does ft W X (\<lambda>fs. I fs \<and> (Inr r = Inr (Inr ()) \<longrightarrow> S fs)) plain_call (\<lambda>c fs. (\<lambda>q fs. I fs \<and> (r = Inr () \<longrightarrow> S fs)) (Inr c) fs)"
      by (rule does_weaken [OF assms(2) [of "r = Inr ()"]]) auto
    show "does ft W X (\<lambda>fs. I fs \<and> (r = Inr () \<longrightarrow> S fs))
        (case r of Inl e \<Rightarrow> fail e | Inr _ \<Rightarrow> (case c of Inl e \<Rightarrow> fail e | Inr _ \<Rightarrow> ret ()))
        (\<lambda>r fs. I fs \<and> (r = Inr () \<longrightarrow> S fs))" for c :: "spool_error + unit"
      by (cases r; cases c) (auto intro!: does_fail does_ret)
  qed auto
qed auto

end
