(* ===== verification/Spool_Append.thy ===== *)
theory Spool_Append
  imports Spool_Steps
begin

text \<open>
  Appending an event: whatever calls fail and whatever others publish and archive meanwhile, no sequence number ever
  has two contents, and an append that reports success has published its event.
\<close>

section \<open>Names\<close>

lemma event_name_file: "event_file (event_name i)"
proof -
  let ?p = "''event-'' @ padded i"
  have n: "event_name i = ?p @ ''.json''" by (simp add: event_name_def)
  have "drop (length (?p @ ''.json'') - 5) (?p @ ''.json'') = ''.json''" by (simp del: append.simps)
  then show ?thesis unfolding n event_file_def by (simp add: take_Cons numeral_eq_Suc)
qed

lemma hidden_no_event [simp]: "\<not> event_file (CHR ''.'' # n)"
  by (simp add: event_file_def)

lemma stage_no_event [simp]: "\<not> event_file (stage_name i pid)"
  by (simp add: stage_name_def)

lemma ack_no_event [simp]: "\<not> event_file ''ack.json''"
  by (simp add: event_file_def)

section \<open>Appending\<close>

text \<open>What the others may do while an event is appended: they publish no other event under its number and leave the
  staged file, once it is there, alone.\<close>

definition sole_writer :: "string \<Rightarrow> string \<Rightarrow> string \<Rightarrow> spool_fs \<Rightarrow> spool_fs \<Rightarrow> bool" where
  "sole_writer stage nm data fs fs' \<longleftrightarrow> (history fs nm = None \<longrightarrow> history fs' nm = None \<or> history fs' nm = Some data)
     \<and> (\<forall>c. map_of (fs_files fs) stage = Some c \<longrightarrow> map_of (fs_files fs') stage = Some c)"

definition unpublished :: "string \<Rightarrow> string \<Rightarrow> spool_fs \<Rightarrow> bool" where
  "unpublished nm data fs \<longleftrightarrow> (\<forall>c. history fs nm = Some c \<longrightarrow> c = data)"

definition published_as :: "string \<Rightarrow> string \<Rightarrow> spool_fs \<Rightarrow> bool" where
  "published_as nm data fs \<longleftrightarrow> history fs nm = Some data"

definition staged :: "string \<Rightarrow> string \<Rightarrow> spool_fs \<Rightarrow> bool" where
  "staged stage data fs \<longleftrightarrow> map_of (fs_files fs) stage = Some data"

lemma sole_refl [simp]: "sole_writer stage nm data fs fs"
  by (simp add: sole_writer_def)

definition site :: "(string \<Rightarrow> string \<Rightarrow> bool) \<Rightarrow> string \<Rightarrow> string \<Rightarrow> string \<Rightarrow> bool" where
  "site W stage nm data \<longleftrightarrow> event_file nm \<and> W nm data \<and> \<not> event_file stage"

lemma published_stable:
  "event_file nm \<Longrightarrow> history_le fs fs' \<Longrightarrow> published_as nm data fs \<Longrightarrow> published_as nm data fs'"
  by (simp add: published_as_def history_le_def)

lemma unpublished_stable:
  "event_file nm \<Longrightarrow> history_le fs fs' \<Longrightarrow> sole_writer stage nm data fs fs' \<Longrightarrow> unpublished nm data fs \<Longrightarrow> unpublished nm data fs'"
  by (cases "history fs nm") (auto simp: unpublished_def sole_writer_def history_le_def)

lemma staged_stable: "sole_writer stage nm data fs fs' \<Longrightarrow> staged stage c fs \<Longrightarrow> staged stage c fs'"
  by (simp add: staged_def sole_writer_def)

lemma published_unpublished: "published_as nm data fs \<Longrightarrow> unpublished nm data fs"
  by (simp add: published_as_def unpublished_def)

lemma put_bytes_frame: "stage \<noteq> nm \<Longrightarrow> history (put_bytes stage c fs) nm = history fs nm"
  by (simp add: put_bytes_def)

lemma moves_put: "\<not> event_file stage \<Longrightarrow> moves W fs (put_bytes stage c fs)"
  by (simp add: put_bytes_def moves_update)

lemma staged_put: "staged stage x fs \<Longrightarrow> staged stage c (put_bytes stage c fs)"
  by (simp add: staged_def put_bytes_def AList.update_conv')

text \<open>Writing the staged file.\<close>

lemma create_stage:
  assumes "site W stage nm data"
  shows "does ft W (sole_writer stage nm data) (unpublished nm data) (create_file stage)
    (\<lambda>r fs. unpublished nm data fs \<and> (r = Inr () \<longrightarrow> staged stage [] fs))"
  unfolding create_file_def
proof (rule does_sys)
  fix fs r fs' assume a: "good W fs" "unpublished nm data fs"
    "(if map_of (fs_files fs) stage \<noteq> None then (Inl Exist, fs) else (Inr (), fs\<lparr>fs_files := AList.update stage [] (fs_files fs)\<rparr>)) = (r, fs')"
  have "stage \<noteq> nm" using assms by (auto simp: site_def)
  then show "moves W fs fs' \<and> (good W fs' \<longrightarrow> unpublished nm data fs' \<and> (r = Inr () \<longrightarrow> staged stage [] fs'))"
    using a assms moves_update [of stage W fs "[]"]
    by (auto simp: site_def unpublished_def staged_def AList.update_conv' split: if_splits)
qed (use assms unpublished_stable in \<open>auto simp: site_def no_effect_def\<close>)

lemma write_stage:
  assumes "site W stage nm data"
  shows "does ft W (sole_writer stage nm data) (\<lambda>fs. unpublished nm data fs \<and> (\<exists>x. staged stage x fs)) (write_file stage data)
    (\<lambda>r fs. unpublished nm data fs \<and> (r = Inr () \<longrightarrow> staged stage data fs))"
  unfolding write_file_def
proof (rule does_sys)
  have ne: "stage \<noteq> nm" using assms by (auto simp: site_def)
  fix fs fs' and r :: "spool_error + unit" assume a: "good W fs" "unpublished nm data fs \<and> (\<exists>x. staged stage x fs)"
  have u: "unpublished nm data (put_bytes stage c fs)" for c
    using a put_bytes_frame [OF ne] by (simp add: unpublished_def)
  { assume "(Inr (), put_bytes stage data fs) = (r, fs')"
    then show "moves W fs fs' \<and> (good W fs' \<longrightarrow> unpublished nm data fs' \<and> (r = Inr () \<longrightarrow> staged stage data fs'))"
      using a assms u moves_put staged_put by (auto simp: site_def) }
  { fix k assume "(Inl SysError, put_bytes stage (take k data) fs) = (r, fs')"
    then show "moves W fs fs' \<and> (good W fs' \<longrightarrow> unpublished nm data fs' \<and> (r = Inr () \<longrightarrow> staged stage data fs'))"
      using a assms u moves_put by (auto simp: site_def) }
qed (use assms unpublished_stable staged_stable in \<open>auto simp: site_def\<close>, (meson assms unpublished_stable staged_stable)+)

lemma call_stage:
  assumes "site W stage nm data"
  shows "does ft W (sole_writer stage nm data) (\<lambda>fs. unpublished nm data fs \<and> (b \<longrightarrow> staged stage data fs)) plain_call
    (\<lambda>r fs. unpublished nm data fs \<and> (b \<longrightarrow> staged stage data fs))"
  unfolding plain_call_def
  by (rule does_look) (use assms unpublished_stable staged_stable in \<open>auto simp: site_def\<close>)

lemma write_out_stage:
  "site W stage nm data \<Longrightarrow> does ft W (sole_writer stage nm data) (\<lambda>fs. unpublished nm data fs \<and> (\<exists>x. staged stage x fs)) (write_out stage data)
    (\<lambda>r fs. unpublished nm data fs \<and> (r = Inr () \<longrightarrow> staged stage data fs))"
  by (intro write_out_does write_stage call_stage)

section \<open>Publishing\<close>

lemma link_stage:
  assumes "site W stage nm data"
  shows "does ft W (sole_writer stage nm data) (\<lambda>fs. unpublished nm data fs \<and> staged stage data fs) (link_file stage nm)
    (\<lambda>r fs. (r = Inr () \<longrightarrow> published_as nm data fs))"
  unfolding link_file_def
proof (rule does_sys)
  have site: "event_file nm" "W nm data" using assms by (auto simp: site_def)
  fix fs fs' and r :: "spool_error + unit"
  assume a: "good W fs" "unpublished nm data fs \<and> staged stage data fs"
    "(case map_of (fs_files fs) stage of None \<Rightarrow> (Inl NotExist, fs) | Some c \<Rightarrow> if map_of (fs_files fs) nm \<noteq> None then (Inl Exist, fs)
         else (Inr (), fs\<lparr>fs_files := AList.update nm c (fs_files fs)\<rparr>)) = (r, fs')"
  have arch: "d = data" if "archived fs nm = Some d" for d
    using good_active [OF a(1) site(1) that] a(2) by (simp add: unpublished_def)
  show "moves W fs fs' \<and> (good W fs' \<longrightarrow> (r = Inr () \<longrightarrow> published_as nm data fs'))"
    using a moves_publish [of fs nm W data] site(2) arch by (auto simp: staged_def published_as_def split: if_splits)
qed (use assms unpublished_stable staged_stable in \<open>auto simp: site_def no_effect_def\<close>)

lemma keep_published:
  assumes "site W stage nm data" "\<And>fs. moves W fs (snd (call fs))" "\<And>k fs. moves W fs (snd (faulty k fs))"
  shows "does ft W (sole_writer stage nm data) (published_as nm data) (sys_call call faulty) (\<lambda>r. published_as nm data)"
proof (rule does_sys)
  have ev: "event_file nm" using assms(1) by (simp add: site_def)
  { fix fs r fs' assume g: "good W fs" "published_as nm data fs" "call fs = (r, fs')"
    then have "moves W fs fs'" using assms(2) [of fs] by simp
    then show "moves W fs fs' \<and> (good W fs' \<longrightarrow> published_as nm data fs')" using g ev published_stable by (auto simp: moves_def) }
  { fix k fs r fs' assume g: "good W fs" "published_as nm data fs" "faulty k fs = (r, fs')"
    then have "moves W fs fs'" using assms(3) [of fs k] by simp
    then show "moves W fs fs' \<and> (good W fs' \<longrightarrow> published_as nm data fs')" using g ev published_stable by (auto simp: moves_def) }
qed (use assms published_stable in \<open>auto simp: site_def\<close>)

lemma drop_stage:
  assumes "site W stage nm data"
  shows "does ft W (sole_writer stage nm data) (published_as nm data) (ignoring (remove_file stage)) (\<lambda>r. published_as nm data)"
  unfolding remove_file_def
  by (rule does_ignoring [OF keep_published [OF assms]]) (use assms moves_delete in \<open>auto simp: site_def no_effect_def\<close>)

lemma sync_published:
  assumes "site W stage nm data"
  shows "does ft W (sole_writer stage nm data) (published_as nm data) plain_call (\<lambda>r. published_as nm data)"
  unfolding plain_call_def by (rule keep_published [OF assms]) (simp_all add: no_effect_def)

text \<open>Reading what is there.\<close>

lemma look_active:
  assumes "event_file nm" "\<And>fs. X fs fs"
  shows "does ft W X (\<lambda>_. True) (read_file nm) (\<lambda>r fs. (\<forall>c. r = Inr c \<longrightarrow> published_as nm c fs) \<and> (r = Inl NotExist \<longrightarrow> map_of (fs_files fs) nm = None))"
  unfolding read_file_def
  by (rule does_look) (use assms in \<open>auto simp: published_as_def history_def split: option.splits\<close>)

lemma look_archive:
  assumes "site W stage nm data"
  shows "does ft W (sole_writer stage nm data) (\<lambda>fs. \<forall>c. history fs nm = Some c \<longrightarrow> c = data \<or> archived fs nm = Some c) (read_archived nm)
    (\<lambda>r fs. (\<forall>c. r = Inr c \<longrightarrow> published_as nm c fs) \<and> (r = Inl NotExist \<longrightarrow> unpublished nm data fs))"
  unfolding read_archived_def
proof (rule does_look)
  have ev: "event_file nm" using assms by (simp add: site_def)
  show "\<forall>c. history fs' nm = Some c \<longrightarrow> c = data \<or> archived fs' nm = Some c"
    if "history_le fs fs'" "sole_writer stage nm data fs fs'" "\<forall>c. history fs nm = Some c \<longrightarrow> c = data \<or> archived fs nm = Some c" for fs fs'
    using that ev by (cases "history fs nm") (auto simp: sole_writer_def history_le_def)
  show "(\<forall>c. (case archived fs nm of None \<Rightarrow> Inl NotExist | Some c \<Rightarrow> Inr c) = Inr c \<longrightarrow> published_as nm c fs) \<and>
      ((case archived fs nm of None \<Rightarrow> Inl NotExist | Some c \<Rightarrow> Inr c) = Inl NotExist \<longrightarrow> unpublished nm data fs)"
    if "good W fs" "\<forall>c. history fs nm = Some c \<longrightarrow> c = data \<or> archived fs nm = Some c" for fs
    using that ev good_active [OF that(1) ev] by (auto simp: published_as_def unpublished_def split: option.splits)
qed simp_all

lemma unchanged_published:
  assumes "event_file nm"
  shows "does ft W X (published_as nm c) (unchanged c data) (\<lambda>r fs. r = Inr () \<longrightarrow> published_as nm data fs)"
  unfolding unchanged_def by (rule does_check) auto

lemma after_link_does:
  assumes "site W stage nm data"
  shows "does ft W (sole_writer stage nm data) (\<lambda>fs. l = Inr () \<longrightarrow> published_as nm data fs) (after_link stage nm data l)
    (\<lambda>r fs. r = Inr () \<longrightarrow> published_as nm data fs)"
proof -
  let ?X = "sole_writer stage nm data"
  have ev: "event_file nm" using assms by (simp add: site_def)
  have again: "does ft W ?X (\<lambda>fs. True)
      (andthen (attempt (read_file nm)) (\<lambda>old. if old = Inr data then ignoring (remove_file stage) else fail event_conflict))
      (\<lambda>r fs. r = Inr () \<longrightarrow> published_as nm data fs)"
  proof (rule does_andthen [OF does_attempt])
    show "does ft W ?X (\<lambda>_. True) (read_file nm) (\<lambda>r fs. (\<lambda>q fs. \<forall>c. q = Inr (Inr c) \<longrightarrow> published_as nm c fs) (Inr r) fs)"
      by (rule does_weaken [OF look_active [OF ev]]) auto
    show "does ft W ?X (\<lambda>fs. \<forall>c. Inr old = Inr (Inr c) \<longrightarrow> published_as nm c fs)
        (if old = Inr data then ignoring (remove_file stage) else fail event_conflict) (\<lambda>r fs. r = Inr () \<longrightarrow> published_as nm data fs)" for old
      by (cases "old = Inr data") (auto intro!: does_fail intro: does_weaken [OF drop_stage [OF assms]])
  qed auto
  have linked: "does ft W ?X (published_as nm data) (chain (ignoring (remove_file stage)) plain_call) (\<lambda>r fs. r = Inr () \<longrightarrow> published_as nm data fs)"
    by (rule does_chain [OF drop_stage [OF assms]]) (auto intro: does_weaken [OF sync_published [OF assms]])
  show ?thesis
  proof (cases l)
    case (Inl x)
    then show ?thesis using again by (cases "x = Exist") (auto simp: after_link_def intro: does_fail does_weaken)
  next
    case (Inr u)
    then show ?thesis by (auto simp: after_link_def intro: does_weaken [OF linked])
  qed
qed

lemma publish_does:
  assumes "site W stage nm data"
  shows "does ft W (sole_writer stage nm data) (unpublished nm data) (publish_event stage nm data) (\<lambda>r fs. r = Inr () \<longrightarrow> published_as nm data fs)"
  unfolding publish_event_def
proof (rule does_andthen [OF does_attempt])
  let ?X = "sole_writer stage nm data"
  show "does ft W ?X (unpublished nm data) (create_file stage)
      (\<lambda>r fs. (\<lambda>q fs. unpublished nm data fs \<and> (q = Inr (Inr ()) \<longrightarrow> staged stage [] fs)) (Inr r) fs)"
    by (rule does_weaken [OF create_stage [OF assms]]) auto
  have link: "does ft W ?X (\<lambda>fs. unpublished nm data fs \<and> staged stage data fs)
      (andthen (attempt (link_file stage nm)) (after_link stage nm data)) (\<lambda>r fs. r = Inr () \<longrightarrow> published_as nm data fs)"
  proof (rule does_andthen [OF does_attempt])
    show "does ft W ?X (\<lambda>fs. unpublished nm data fs \<and> staged stage data fs) (link_file stage nm)
        (\<lambda>r fs. (\<lambda>q fs. q = Inr (Inr ()) \<longrightarrow> published_as nm data fs) (Inr r) fs)"
      by (rule does_weaken [OF link_stage [OF assms]]) auto
    show "does ft W ?X (\<lambda>fs. Inr l = Inr (Inr ()) \<longrightarrow> published_as nm data fs) (after_link stage nm data l)
        (\<lambda>r fs. r = Inr () \<longrightarrow> published_as nm data fs)" for l
      by (rule does_weaken [OF after_link_does [OF assms]]) auto
  qed auto
  have ok: "does ft W ?X (\<lambda>fs. unpublished nm data fs \<and> staged stage [] fs)
      (chain (write_out stage data) (andthen (attempt (link_file stage nm)) (after_link stage nm data)))
      (\<lambda>r fs. r = Inr () \<longrightarrow> published_as nm data fs)"
  proof (rule does_chain)
    show "does ft W ?X (\<lambda>fs. unpublished nm data fs \<and> staged stage [] fs) (write_out stage data)
        (\<lambda>r fs. unpublished nm data fs \<and> (r = Inr () \<longrightarrow> staged stage data fs))"
      by (rule does_weaken [OF write_out_stage [OF assms]]) auto
  qed (auto intro: does_weaken [OF link])
  show "does ft W ?X (\<lambda>fs. unpublished nm data fs \<and> (Inr r = Inr (Inr ()) \<longrightarrow> staged stage [] fs))
    (case r of Inl x \<Rightarrow> fail (if x = Exist then event_conflict else x)
     | Inr _ \<Rightarrow> chain (write_out stage data) (andthen (attempt (link_file stage nm)) (after_link stage nm data)))
    (\<lambda>r fs. r = Inr () \<longrightarrow> published_as nm data fs)" for r :: "spool_error + unit"
    by (cases r) (auto intro: does_fail does_weaken [OF ok])
qed auto

section \<open>The operation\<close>

definition append_writer :: "'e event_type \<Rightarrow> int \<Rightarrow> 'e \<Rightarrow> spool_fs \<Rightarrow> spool_fs \<Rightarrow> bool" where
  "append_writer et pid e = sole_writer (stage_name (et_sequence et e) pid) (event_name (et_sequence et e)) (event_data et e)"

lemma event_site:
  "W (event_name (et_sequence et e)) (event_data et e) \<Longrightarrow>
    site W (stage_name (et_sequence et e) pid) (event_name (et_sequence et e)) (event_data et e)"
  by (simp add: site_def event_name_file)

lemma append_does:
  assumes admitted: "event_valid et e \<Longrightarrow> W (event_name (et_sequence et e)) (event_data et e)"
  shows "does ft W (append_writer et pid e) (\<lambda>_. True) (append_event et pid e)
    (\<lambda>r fs. r = Inr () \<longrightarrow> published_as (event_name (et_sequence et e)) (event_data et e) fs)"
proof (cases "event_valid et e")
  case False
  then show ?thesis by (simp add: append_event_def Let_def check_def chain_def andthen_def fail_def does_def)
next
  case True
  let ?n = "event_name (et_sequence et e)" and ?d = "event_data et e" and ?s = "stage_name (et_sequence et e) pid"
  let ?X = "append_writer et pid e" and ?Q = "\<lambda>r fs. r = Inr () \<longrightarrow> published_as ?n ?d fs"
  note site = event_site [of W, OF admitted [OF True], of pid]
  have ev: "event_file ?n" by (rule event_name_file)
  have new: "does ft W ?X (\<lambda>fs. map_of (fs_files fs) ?n = None) (andthen (attempt (read_archived ?n)) (\<lambda>a. case a of
      Inr old \<Rightarrow> unchanged old ?d | Inl y \<Rightarrow> if y \<noteq> NotExist then fail y else publish_event ?s ?n ?d)) ?Q"
  proof (rule does_andthen [OF does_attempt])
    show "does ft W ?X (\<lambda>fs. map_of (fs_files fs) ?n = None) (read_archived ?n)
        (\<lambda>r fs. (\<lambda>q fs. (\<forall>c. q = Inr (Inr c) \<longrightarrow> published_as ?n c fs) \<and> (q = Inr (Inl NotExist) \<longrightarrow> unpublished ?n ?d fs)) (Inr r) fs)"
      unfolding append_writer_def by (rule does_weaken [OF look_archive [OF site]]) (auto simp: history_def)
    show "does ft W ?X (\<lambda>fs. (\<forall>c. Inr a = Inr (Inr c) \<longrightarrow> published_as ?n c fs) \<and> (Inr a = Inr (Inl NotExist) \<longrightarrow> unpublished ?n ?d fs))
        (case a of Inr old \<Rightarrow> unchanged old ?d | Inl y \<Rightarrow> if y \<noteq> NotExist then fail y else publish_event ?s ?n ?d) ?Q" for a
      unfolding append_writer_def
      by (cases a) (auto intro: does_fail does_weaken [OF publish_does [OF site]] does_weaken [OF unchanged_published [OF ev]])
  qed auto
  have "does ft W ?X (\<lambda>_. True) (andthen (attempt (read_file ?n)) (\<lambda>r. case r of
      Inr old \<Rightarrow> unchanged old ?d
    | Inl x \<Rightarrow> if x \<noteq> NotExist then fail x else andthen (attempt (read_archived ?n)) (\<lambda>a. case a of
        Inr old \<Rightarrow> unchanged old ?d | Inl y \<Rightarrow> if y \<noteq> NotExist then fail y else publish_event ?s ?n ?d))) ?Q"
  proof (rule does_andthen [OF does_attempt])
    show "does ft W ?X (\<lambda>_. True) (read_file ?n)
        (\<lambda>r fs. (\<lambda>q fs. (\<forall>c. q = Inr (Inr c) \<longrightarrow> published_as ?n c fs) \<and> (q = Inr (Inl NotExist) \<longrightarrow> map_of (fs_files fs) ?n = None)) (Inr r) fs)"
      by (rule does_weaken [OF look_active [OF ev]]) (auto simp: append_writer_def)
    show "does ft W ?X (\<lambda>fs. (\<forall>c. Inr r = Inr (Inr c) \<longrightarrow> published_as ?n c fs) \<and> (Inr r = Inr (Inl NotExist) \<longrightarrow> map_of (fs_files fs) ?n = None))
        (case r of Inr old \<Rightarrow> unchanged old ?d | Inl x \<Rightarrow> if x \<noteq> NotExist then fail x else andthen (attempt (read_archived ?n)) (\<lambda>a. case a of
          Inr old \<Rightarrow> unchanged old ?d | Inl y \<Rightarrow> if y \<noteq> NotExist then fail y else publish_event ?s ?n ?d)) ?Q" for r
      by (cases r) (auto intro: does_fail does_weaken [OF new] does_weaken [OF unchanged_published [OF ev]])
  qed auto
  then show ?thesis using True by (simp add: append_event_def Let_def check_def chain_def andthen_def ret_def does_def)
qed

end
