(* ===== verification/Spool_Ack.thy ===== *)
theory Spool_Ack
  imports Spool_Append
begin

text \<open>
  Acknowledging: the acknowledged number never goes back, and events move to the archive without ever being absent.
\<close>

section \<open>The number on disk\<close>

lemma ack_data_read: "0 \<le> i \<Longrightarrow> i < 2 ^ 63 \<Longrightarrow> decode_ack (ack_data i) = Some i"
proof -
  assume i: "0 \<le> i" "i < 2 ^ 63"
  have rd: "readable max_nesting (ack_json i)" by (simp add: ack_json_def json_number_int max_nesting_def valid_utf8_ascii byte_def)
  have s: "skip_ws (enc_json (ack_json i) @ line_feed) = enc_json (ack_json i) @ line_feed"
    by (simp add: ack_json_def skip_ws_Cons not_ws)
  have "json_text max_nesting (enc_json (ack_json i) @ line_feed) = Some (ack_json i, line_feed)"
    by (rule json_text_reads [OF rd]) (simp add: line_feed_def stops_def ws_def byte_def)
  then show ?thesis using i unfolding decode_ack_def decode_first_def ack_data_def s
    by (simp add: decode_struct_def ack_json_def ack_fields_def find_setter_def set_int_dec del: enc_json.simps)
qed

definition ack_of :: "string option \<Rightarrow> int option" where
  "ack_of v = (case v of None \<Rightarrow> Some 0 | Some s \<Rightarrow> decode_ack s)"

definition ack_file :: "string option \<Rightarrow> spool_fs \<Rightarrow> bool" where
  "ack_file v fs \<longleftrightarrow> map_of (fs_files fs) ''ack.json'' = v"

text \<open>Nobody else acknowledges.\<close>

definition sole_acker :: "spool_fs \<Rightarrow> spool_fs \<Rightarrow> bool" where
  "sole_acker fs fs' \<longleftrightarrow> (\<forall>n\<in>{''ack.json'', ''.ack.json.tmp''}. map_of (fs_files fs') n = map_of (fs_files fs) n)"

lemma sole_acker_refl [simp]: "sole_acker fs fs"
  by (simp add: sole_acker_def)

lemma ack_stable: "sole_acker fs fs' \<Longrightarrow> ack_file v fs \<Longrightarrow> ack_file v fs'"
  by (simp add: sole_acker_def ack_file_def)

lemma ack_frame [simp]: "n \<noteq> ''ack.json'' \<Longrightarrow> ack_file v (fs\<lparr>fs_files := AList.update n c (fs_files fs)\<rparr>) = ack_file v fs"
  "n \<noteq> ''ack.json'' \<Longrightarrow> ack_file v (fs\<lparr>fs_files := AList.delete n (fs_files fs)\<rparr>) = ack_file v fs"
  "ack_file v (fs\<lparr>fs_archive := a\<rparr>) = ack_file v fs"
  by (simp_all add: ack_file_def AList.update_conv' AList.delete_conv')

section \<open>Archiving\<close>

definition in_archive :: "string list \<Rightarrow> spool_fs \<Rightarrow> bool" where
  "in_archive ns fs \<longleftrightarrow> (\<forall>n\<in>set ns. event_file n \<and> archived fs n \<noteq> None)"

lemma archive_stable: "history_le fs fs' \<Longrightarrow> in_archive ns fs \<Longrightarrow> in_archive ns fs'"
  by (fastforce simp: in_archive_def history_le_def)

lemma keep_archived:
  assumes "\<And>fs r fs'. good W fs \<Longrightarrow> ack_file v fs \<Longrightarrow> in_archive ns fs \<Longrightarrow> call fs = (r, fs') \<Longrightarrow> moves W fs fs' \<and> ack_file v fs' \<and> in_archive ns fs' \<and> (good W fs' \<longrightarrow> Q r fs')"
    "\<And>k fs r fs'. good W fs \<Longrightarrow> ack_file v fs \<Longrightarrow> in_archive ns fs \<Longrightarrow> faulty k fs = (r, fs') \<Longrightarrow> moves W fs fs' \<and> ack_file v fs' \<and> in_archive ns fs' \<and> (good W fs' \<longrightarrow> Q r fs')"
  shows "does ft W sole_acker (\<lambda>fs. ack_file v fs \<and> in_archive ns fs) (sys_call call faulty) (\<lambda>r fs. ack_file v fs \<and> in_archive ns fs \<and> Q r fs)"
proof (rule does_sys)
  show "ack_file v fs' \<and> in_archive ns fs'" if "history_le fs fs'" "sole_acker fs fs'" "ack_file v fs \<and> in_archive ns fs" for fs fs'
    using that ack_stable archive_stable by blast
  show "moves W fs fs' \<and> (good W fs' \<longrightarrow> ack_file v fs' \<and> in_archive ns fs' \<and> Q r fs')"
    if "good W fs" "ack_file v fs \<and> in_archive ns fs" "call fs = (r, fs')" for fs r fs'
    using assms(1) that by blast
  show "moves W fs fs' \<and> (good W fs' \<longrightarrow> ack_file v fs' \<and> in_archive ns fs' \<and> Q r fs')"
    if "good W fs" "ack_file v fs \<and> in_archive ns fs" "faulty k fs = (r, fs')" for k fs r fs'
    using assms(2) that by blast
qed simp

lemma link_archived:
  assumes "event_file n"
  shows "does ft W sole_acker (\<lambda>fs. ack_file v fs \<and> in_archive ns fs) (link_archive n)
    (\<lambda>r fs. ack_file v fs \<and> in_archive ns fs \<and> (r = Inr () \<longrightarrow> archived fs n \<noteq> None))"
  unfolding link_archive_def
proof (rule keep_archived)
  fix fs fs' and r :: "spool_error + unit"
  assume a: "good W fs" "ack_file v fs" "in_archive ns fs" "(case (map_of (fs_files fs) n, fs_archive fs) of
       (Some c, Some a) \<Rightarrow> if map_of a n \<noteq> None then (Inl Exist, fs) else (Inr (), fs\<lparr>fs_archive := Some (AList.update n c a)\<rparr>)
     | _ \<Rightarrow> (Inl NotExist, fs)) = (r, fs')"
  then show "moves W fs fs' \<and> ack_file v fs' \<and> in_archive ns fs' \<and> (good W fs' \<longrightarrow> r = Inr () \<longrightarrow> archived fs' n \<noteq> None)"
    using moves_archive [of fs n _ _ W]
    by (auto simp: in_archive_def archived_def AList.update_conv' split: option.splits if_splits)
qed (auto simp: no_effect_def)

lemma look_archived_event:
  "does ft W sole_acker (\<lambda>fs. ack_file v fs \<and> in_archive ns fs) (read_archived n)
    (\<lambda>r fs. ack_file v fs \<and> in_archive ns fs \<and> (\<forall>c. r = Inr c \<longrightarrow> archived fs n \<noteq> None))"
  unfolding read_archived_def by (rule keep_archived) (auto simp: no_effect_def split: option.splits)

lemma look_event:
  assumes "event_file n"
  shows "does ft W sole_acker (\<lambda>fs. ack_file v fs \<and> in_archive ns fs \<and> (b \<longrightarrow> archived fs n \<noteq> None)) (read_file n)
    (\<lambda>r fs. ack_file v fs \<and> in_archive ns fs \<and> (b \<longrightarrow> archived fs n \<noteq> None))"
  unfolding read_file_def
  by (rule does_look) (use assms ack_stable archive_stable in \<open>auto simp: history_le_def\<close>)

lemma link_event_does:
  assumes "event_file n"
  shows "does ft W sole_acker (\<lambda>fs. ack_file v fs \<and> in_archive ns fs) (link_event n)
    (\<lambda>r fs. ack_file v fs \<and> in_archive ns fs \<and> (r = Inr () \<longrightarrow> archived fs n \<noteq> None))"
  (is "does ft W sole_acker ?P (link_event n) ?Q")
  unfolding link_event_def
proof (rule does_andthen [OF does_attempt])
  show "does ft W sole_acker ?P (link_archive n)
      (\<lambda>r fs. (\<lambda>q fs. ?P fs \<and> (q = Inr (Inr ()) \<longrightarrow> archived fs n \<noteq> None)) (Inr r) fs)"
    by (rule does_weaken [OF link_archived [OF assms]]) auto
  have compare: "does ft W sole_acker ?P (andthen (attempt (read_archived n)) (\<lambda>old. andthen (attempt (read_file n)) (\<lambda>current.
           check (case old of Inl _ \<Rightarrow> False | Inr c \<Rightarrow> current = Inr c) event_conflict))) ?Q"
  proof (rule does_andthen [OF does_attempt])
    show "does ft W sole_acker ?P (read_archived n) (\<lambda>r fs. (\<lambda>q fs. ?P fs \<and> ((\<exists>c. q = Inr (Inr c)) \<longrightarrow> archived fs n \<noteq> None)) (Inr r) fs)"
      by (rule does_weaken [OF look_archived_event]) auto
    show "does ft W sole_acker (\<lambda>fs. ?P fs \<and> ((\<exists>c. Inr old = Inr (Inr c)) \<longrightarrow> archived fs n \<noteq> None))
        (andthen (attempt (read_file n)) (\<lambda>current. check (case old of Inl _ \<Rightarrow> False | Inr c \<Rightarrow> current = Inr c) event_conflict)) ?Q" for old
    proof (rule does_andthen [OF does_attempt])
      show "does ft W sole_acker (\<lambda>fs. ?P fs \<and> ((\<exists>c. Inr old = Inr (Inr c)) \<longrightarrow> archived fs n \<noteq> None)) (read_file n)
          (\<lambda>r fs. (\<lambda>q fs. ?P fs \<and> ((\<exists>c. old = Inr c) \<longrightarrow> archived fs n \<noteq> None)) (Inr r) fs)"
        by (rule does_weaken [OF look_event [OF assms, of ft W v ns "\<exists>c. old = Inr c"]]) auto
      show "does ft W sole_acker (\<lambda>fs. ?P fs \<and> ((\<exists>c. old = Inr c) \<longrightarrow> archived fs n \<noteq> None))
          (check (case old of Inl _ \<Rightarrow> False | Inr c \<Rightarrow> current = Inr c) event_conflict) ?Q" for current
        by (rule does_check) (cases old; auto)
    qed auto
  qed auto
  show "does ft W sole_acker (\<lambda>fs. ?P fs \<and> (Inr r = Inr (Inr ()) \<longrightarrow> archived fs n \<noteq> None))
      (case r of Inr _ \<Rightarrow> ret () | Inl x \<Rightarrow> if x \<noteq> Exist then fail x
         else andthen (attempt (read_archived n)) (\<lambda>old. andthen (attempt (read_file n)) (\<lambda>current.
           check (case old of Inl _ \<Rightarrow> False | Inr c \<Rightarrow> current = Inr c) event_conflict))) ?Q" for r :: "spool_error + unit"
    by (cases r) (auto intro: does_ret does_fail does_weaken [OF compare])
qed auto

lemma link_events_does:
  assumes "\<forall>n\<in>set ns. event_file n"
  shows "does ft W sole_acker (\<lambda>fs. ack_file v fs \<and> in_archive ms fs) (link_events through ns)
    (\<lambda>r fs. ack_file v fs \<and> (\<forall>moved. r = Inr moved \<longrightarrow> in_archive (ms @ moved) fs))"
  using assms
proof (induction ns arbitrary: ms)
  case Nil
  show ?case by (auto intro: does_ret)
next
  case (Cons n ns)
  have ev: "event_file n" and ih: "does ft W sole_acker (\<lambda>fs. ack_file v fs \<and> in_archive ms' fs) (link_events through ns)
      (\<lambda>r fs. ack_file v fs \<and> (\<forall>moved. r = Inr moved \<longrightarrow> in_archive (ms' @ moved) fs))" for ms'
    using Cons by auto
  have more: "does ft W sole_acker (\<lambda>fs. ack_file v fs \<and> in_archive (n # ms) fs) (andthen (link_events through ns) (\<lambda>moved. ret (n # moved)))
      (\<lambda>r fs. ack_file v fs \<and> (\<forall>moved. r = Inr moved \<longrightarrow> in_archive (ms @ moved) fs))"
    by (rule does_andthen [OF ih]) (auto intro!: does_ret simp: in_archive_def)
  have one: "does ft W sole_acker (\<lambda>fs. ack_file v fs \<and> in_archive ms fs)
      (chain (link_event n) (andthen (link_events through ns) (\<lambda>moved. ret (n # moved))))
      (\<lambda>r fs. ack_file v fs \<and> (\<forall>moved. r = Inr moved \<longrightarrow> in_archive (ms @ moved) fs))"
    by (rule does_chain [OF link_event_does [OF ev]]) (auto intro!: does_weaken [OF more] simp: in_archive_def ev)
  show ?case
    by (cases "event_number n") (auto intro: does_fail one does_weaken [OF ih])
qed

lemma remove_archived:
  assumes "n \<in> set ns"
  shows "does ft W sole_acker (\<lambda>fs. ack_file v fs \<and> in_archive ns fs) (remove_file n) (\<lambda>r fs. ack_file v fs \<and> in_archive ns fs \<and> True)"
  unfolding remove_file_def
proof (rule keep_archived)
  fix fs fs' and r :: "spool_error + unit"
  assume a: "good W fs" "ack_file v fs" "in_archive ns fs"
    "(if map_of (fs_files fs) n = None then (Inl NotExist, fs) else (Inr (), fs\<lparr>fs_files := AList.delete n (fs_files fs)\<rparr>)) = (r, fs')"
  then have "n \<noteq> ''ack.json''" "archived fs n \<noteq> None" using assms by (auto simp: in_archive_def)
  then show "moves W fs fs' \<and> ack_file v fs' \<and> in_archive ns fs' \<and> (good W fs' \<longrightarrow> True)"
    using a moves_unlink [of n fs W] by (auto simp: in_archive_def split: if_splits)
qed (simp add: no_effect_def)

lemma remove_all_archived:
  "set ms \<subseteq> set ns \<Longrightarrow> does ft W sole_acker (\<lambda>fs. ack_file v fs \<and> in_archive ns fs) (each remove_file ms) (\<lambda>r fs. ack_file v fs \<and> in_archive ns fs)"
proof (induction ms)
  case (Cons m ms)
  then have m: "m \<in> set ns" and ih: "does ft W sole_acker (\<lambda>fs. ack_file v fs \<and> in_archive ns fs) (each remove_file ms) (\<lambda>r fs. ack_file v fs \<and> in_archive ns fs)"
    by auto
  show ?case
    by (simp, rule does_chain [OF does_weaken [OF remove_archived [OF m]]], assumption) (auto intro: ih)
qed (auto intro: does_ret)

lemma call_archived:
  "does ft W sole_acker (\<lambda>fs. ack_file v fs \<and> in_archive ns fs) plain_call (\<lambda>r fs. ack_file v fs \<and> in_archive ns fs \<and> True)"
  unfolding plain_call_def by (rule keep_archived) (auto simp: no_effect_def)

lemma listing_events: "n \<in> set (listing fs) \<Longrightarrow> event_file n"
  by (simp add: listing_def)

lemma archive_does:
  "does ft W sole_acker (ack_file v) (archive_through through) (\<lambda>r. ack_file v)"
  unfolding archive_through_def
proof (rule does_chain)
  show "does ft W sole_acker (ack_file v) make_archive (\<lambda>r fs. ack_file v fs)"
    unfolding make_archive_def
    by (rule does_weaken [OF keep_archived [where W = W and v = v and ns = "[]" and Q = "\<lambda>_ _. True"]])
      (use moves_archive_dir in \<open>auto simp: no_effect_def in_archive_def split: option.splits\<close>)
  have rest: "does ft W sole_acker (\<lambda>fs. ack_file v fs \<and> in_archive moved fs)
      (chain plain_call (chain (each remove_file moved) plain_call)) (\<lambda>r. ack_file v)" for moved
    by (rule does_chain [OF call_archived])
      (auto intro!: does_weaken [OF does_chain [OF remove_all_archived does_weaken [OF call_archived]]])
  have linked: "does ft W sole_acker (ack_file v) (andthen (link_events through ns) (\<lambda>moved. chain plain_call (chain (each remove_file moved) plain_call)))
      (\<lambda>r. ack_file v)" if ns: "\<forall>n\<in>set ns. event_file n" for ns
  proof (rule does_andthen [where R = "\<lambda>r fs. ack_file v fs \<and> (\<forall>moved. r = Inr moved \<longrightarrow> in_archive moved fs)"])
    show "does ft W sole_acker (ack_file v) (link_events through ns) (\<lambda>r fs. ack_file v fs \<and> (\<forall>moved. r = Inr moved \<longrightarrow> in_archive moved fs))"
      by (rule does_weaken [OF link_events_does [OF ns, of ft W v "[]"]]) (auto simp: in_archive_def)
  qed (auto intro: does_weaken [OF rest])
  show "does ft W sole_acker (ack_file v) (andthen glob_files (\<lambda>ns. andthen (link_events through ns) (\<lambda>moved.
      chain plain_call (chain (each remove_file moved) plain_call)))) (\<lambda>r. ack_file v)"
  proof (rule does_andthen)
    show "does ft W sole_acker (ack_file v) glob_files (\<lambda>r fs. ack_file v fs \<and> (\<forall>ns. r = Inr ns \<longrightarrow> (\<forall>n\<in>set ns. event_file n)))"
      unfolding glob_files_def
      by (rule does_weaken [OF keep_archived [where W = W and v = v and ns = "[]" and Q = "\<lambda>r _. \<forall>ns. r = Inr ns \<longrightarrow> (\<forall>n\<in>set ns. event_file n)"]])
        (auto simp: in_archive_def dest: listing_events)
    show "does ft W sole_acker (\<lambda>fs. ack_file v fs \<and> (\<forall>ms. Inr ns = Inr ms \<longrightarrow> (\<forall>n\<in>set ms. event_file n)))
        (andthen (link_events through ns) (\<lambda>moved. chain plain_call (chain (each remove_file moved) plain_call))) (\<lambda>r. ack_file v)" for ns
      by (cases "\<forall>n\<in>set ns. event_file n") (auto intro: does_false does_weaken [OF linked])
  qed auto
qed auto

section \<open>Replacing the number\<close>

definition tmp_file :: "string option \<Rightarrow> spool_fs \<Rightarrow> bool" where
  "tmp_file v fs \<longleftrightarrow> map_of (fs_files fs) ''.ack.json.tmp'' = v"

lemma keep_ack:
  assumes "\<And>fs r fs'. ack_file v fs \<Longrightarrow> tmp_file x fs \<Longrightarrow> call fs = (r, fs') \<Longrightarrow> moves W fs fs' \<and> Q r fs'"
    "\<And>k fs r fs'. ack_file v fs \<Longrightarrow> tmp_file x fs \<Longrightarrow> faulty k fs = (r, fs') \<Longrightarrow> moves W fs fs' \<and> Q r fs'"
  shows "does ft W sole_acker (\<lambda>fs. ack_file v fs \<and> tmp_file x fs) (sys_call call faulty) Q"
proof (rule does_sys)
  show "ack_file v fs' \<and> tmp_file x fs'" if "sole_acker fs fs'" "ack_file v fs \<and> tmp_file x fs" for fs fs'
    using that by (simp add: sole_acker_def ack_file_def tmp_file_def)
qed (use assms in auto)

lemma tmp_steps:
  "does ft W sole_acker (\<lambda>fs. ack_file v fs \<and> tmp_file x fs) (remove_file ''.ack.json.tmp'') (\<lambda>r fs. ack_file v fs \<and> (\<exists>y. tmp_file y fs))"
  "does ft W sole_acker (\<lambda>fs. ack_file v fs \<and> tmp_file x fs) (create_file ''.ack.json.tmp'') (\<lambda>r fs. ack_file v fs \<and> (r = Inr () \<longrightarrow> tmp_file (Some []) fs))"
  "does ft W sole_acker (\<lambda>fs. ack_file v fs \<and> tmp_file (Some c) fs) (write_file ''.ack.json.tmp'' d) (\<lambda>r fs. ack_file v fs \<and> (r = Inr () \<longrightarrow> tmp_file (Some d) fs))"
  "does ft W sole_acker (\<lambda>fs. ack_file v fs \<and> tmp_file x fs) plain_call (\<lambda>r fs. ack_file v fs \<and> tmp_file x fs)"
  "does ft W sole_acker (\<lambda>fs. ack_file v fs \<and> tmp_file (Some d) fs) (rename_file ''.ack.json.tmp'' ''ack.json'')
     (\<lambda>r fs. ack_file (if r = Inr () then Some d else v) fs)"
proof -
  have n: "\<not> event_file ''.ack.json.tmp''" by simp
  note d = moves_delete [OF n] and u = moves_update [OF n]
  show "does ft W sole_acker (\<lambda>fs. ack_file v fs \<and> tmp_file x fs) (remove_file ''.ack.json.tmp'') (\<lambda>r fs. ack_file v fs \<and> (\<exists>y. tmp_file y fs))"
    unfolding remove_file_def by (rule keep_ack) (auto simp: d no_effect_def tmp_file_def split: if_splits)
  show "does ft W sole_acker (\<lambda>fs. ack_file v fs \<and> tmp_file x fs) (create_file ''.ack.json.tmp'') (\<lambda>r fs. ack_file v fs \<and> (r = Inr () \<longrightarrow> tmp_file (Some []) fs))"
    unfolding create_file_def by (rule keep_ack) (auto simp: u no_effect_def tmp_file_def AList.update_conv' split: if_splits)
  show "does ft W sole_acker (\<lambda>fs. ack_file v fs \<and> tmp_file (Some c) fs) (write_file ''.ack.json.tmp'' d) (\<lambda>r fs. ack_file v fs \<and> (r = Inr () \<longrightarrow> tmp_file (Some d) fs))"
    unfolding write_file_def by (rule keep_ack) (auto simp: u put_bytes_def tmp_file_def AList.update_conv')
  show "does ft W sole_acker (\<lambda>fs. ack_file v fs \<and> tmp_file x fs) plain_call (\<lambda>r fs. ack_file v fs \<and> tmp_file x fs)"
    unfolding plain_call_def by (rule keep_ack) (auto simp: no_effect_def)
  have mv: "moves W fs (fs\<lparr>fs_files := AList.update ''ack.json'' c (AList.delete ''.ack.json.tmp'' (fs_files fs))\<rparr>)" for fs c
    by (rule moves_other) (auto simp: AList.update_conv' AList.delete_conv')
  show "does ft W sole_acker (\<lambda>fs. ack_file v fs \<and> tmp_file (Some d) fs) (rename_file ''.ack.json.tmp'' ''ack.json'')
     (\<lambda>r fs. ack_file (if r = Inr () then Some d else v) fs)"
    unfolding rename_file_def
    by (rule keep_ack) (auto simp: mv no_effect_def tmp_file_def ack_file_def AList.update_conv' split: if_splits)
qed

lemma tmp_some: "\<exists>x. tmp_file x fs"
  by (simp add: tmp_file_def)

lemma call_ack: "does ft W sole_acker (\<lambda>fs. ack_file v fs \<and> (b \<longrightarrow> tmp_file d fs)) plain_call (\<lambda>r fs. ack_file v fs \<and> (b \<longrightarrow> tmp_file d fs))"
proof (cases b)
  case True
  then show ?thesis using tmp_steps(4) [of ft W v d] by simp
next
  case False
  have "does ft W sole_acker (\<lambda>fs. \<exists>x. ack_file v fs \<and> tmp_file x fs) plain_call (\<lambda>r fs. ack_file v fs)"
    by (rule does_ex, rule does_weaken [OF tmp_steps(4)]) auto
  then show ?thesis using False tmp_some by (auto elim!: does_weaken)
qed

lemma write_tmp:
  "does ft W sole_acker (\<lambda>fs. ack_file v fs \<and> tmp_file (Some c) fs) (write_out ''.ack.json.tmp'' d)
    (\<lambda>r fs. ack_file v fs \<and> (r = Inr () \<longrightarrow> tmp_file (Some d) fs))"
  by (rule write_out_does [OF tmp_steps(3) call_ack])

lemma ack_only: "(\<And>x. does ft W sole_acker (\<lambda>fs. ack_file v fs \<and> tmp_file x fs) m Q) \<Longrightarrow> does ft W sole_acker (ack_file v) m Q"
  using does_ex [of ft W sole_acker "\<lambda>x fs. ack_file v fs \<and> tmp_file x fs" m Q] tmp_some by (auto elim!: does_weaken)

lemma replace_does:
  "does ft W sole_acker (ack_file v) (replace_file ''.ack.json.tmp'' ''ack.json'' d)
    (\<lambda>r fs. (ack_file v fs \<or> ack_file (Some d) fs) \<and> (r = Inr () \<longrightarrow> ack_file (Some d) fs))"
  (is "does ft W sole_acker _ _ ?Q")
proof -
  have named: "does ft W sole_acker (\<lambda>fs. ack_file v fs \<and> tmp_file (Some d) fs) (chain (rename_file ''.ack.json.tmp'' ''ack.json'') plain_call) ?Q"
    by (rule does_chain [OF tmp_steps(5)]) (auto intro: does_weaken [OF call_ack [where b = False]])
  have written: "does ft W sole_acker (\<lambda>fs. ack_file v fs \<and> tmp_file (Some []) fs)
      (chain (write_out ''.ack.json.tmp'' d) (chain (rename_file ''.ack.json.tmp'' ''ack.json'') plain_call)) ?Q"
    by (rule does_chain [OF write_tmp]) (auto intro: does_weaken [OF named])
  have created: "does ft W sole_acker (ack_file v) (chain (create_file ''.ack.json.tmp'')
      (chain (write_out ''.ack.json.tmp'' d) (chain (rename_file ''.ack.json.tmp'' ''ack.json'') plain_call))) ?Q"
    by (rule ack_only, rule does_chain [OF tmp_steps(2)]) (auto intro: does_weaken [OF written])
  have "does ft W sole_acker (ack_file v) (ignoring (remove_file ''.ack.json.tmp'')) (\<lambda>r. ack_file v)"
    by (rule does_ignoring [OF ack_only, where R = "ack_file v"]) (auto intro: does_weaken [OF tmp_steps(1)])
  then show ?thesis unfolding replace_file_def by (rule does_chain) (auto intro: created)
qed

lemma read_ack_does:
  "does ft W sole_acker (ack_file v) read_ack (\<lambda>r fs. ack_file v fs \<and> (\<forall>i. r = Inr i \<longrightarrow> ack_of v = Some i))"
  unfolding read_ack_def
proof (rule does_andthen [OF does_attempt])
  show "does ft W sole_acker (ack_file v) (read_file ''ack.json'')
      (\<lambda>r fs. (\<lambda>q fs. ack_file v fs \<and> (\<forall>s. q = Inr (Inr s) \<longrightarrow> v = Some s) \<and> (q = Inr (Inl NotExist) \<longrightarrow> v = None)) (Inr r) fs)"
    unfolding read_file_def by (rule does_look) (auto simp: sole_acker_def ack_file_def split: option.splits)
  show "does ft W sole_acker (\<lambda>fs. ack_file v fs \<and> (\<forall>s. Inr r = Inr (Inr s) \<longrightarrow> v = Some s) \<and> (Inr r = Inr (Inl NotExist) \<longrightarrow> v = None))
      (case r of Inl x \<Rightarrow> if x = NotExist then ret 0 else fail x
       | Inr s \<Rightarrow> (case decode_ack s of None \<Rightarrow> fail invalid_ack | Some i \<Rightarrow> ret i))
      (\<lambda>r fs. ack_file v fs \<and> (\<forall>i. r = Inr i \<longrightarrow> ack_of v = Some i))" for r
    by (cases r) (auto simp: ack_of_def intro!: does_ret does_fail split: option.split)
qed auto

text \<open>All outcomes of an acknowledgement: the number stays or is the new, larger one, which a success guarantees.\<close>

definition acked :: "string option \<Rightarrow> int \<Rightarrow> spool_error + unit \<Rightarrow> spool_fs \<Rightarrow> bool" where
  "acked v through r fs \<longleftrightarrow> (\<exists>u. ack_file u fs \<and> (u = v \<or> u = Some (ack_data through) \<and> 0 \<le> through \<and> (\<exists>i. ack_of v = Some i \<and> i \<le> through)))
     \<and> (r = Inr () \<longrightarrow> ack_file (Some (ack_data through)) fs \<and> 0 \<le> through \<and> (\<exists>i. ack_of v = Some i \<and> i \<le> through))"

lemma ack_does: "does ft W sole_acker (ack_file v) (ack_through through) (acked v through)"
proof -
  have two: "does ft W sole_acker (ack_file u) (archive_through through) (acked v through)"
    if "u = Some (ack_data through)" "0 \<le> through" "ack_of v = Some i" "i \<le> through" for u i
    by (rule does_weaken [OF archive_does]) (use that in \<open>auto simp: acked_def\<close>)
  have one: "does ft W sole_acker (ack_file v) (chain (replace_file ''.ack.json.tmp'' ''ack.json'' (ack_data through)) (archive_through through)) (acked v through)"
    if "0 \<le> through" "ack_of v = Some i" "i \<le> through" for i
    by (rule does_chain [OF replace_does]) (use that in \<open>auto simp: acked_def intro!: does_weaken [OF two [OF refl that]]\<close>)
  have cmp: "does ft W sole_acker (\<lambda>fs. ack_file v fs \<and> ack_of v = Some i)
      (chain (check (through \<ge> i) (SpoolCode ''stale_ack''))
        (chain (replace_file ''.ack.json.tmp'' ''ack.json'' (ack_data through)) (archive_through through))) (acked v through)"
    if "0 \<le> through" for i
  proof (cases "ack_of v = Some i \<and> i \<le> through")
    case True
    then show ?thesis using one [OF that, of i]
      by (auto intro!: does_chain [OF does_check [where Q = "\<lambda>r fs. ack_file v fs \<and> r = Inr ()"]] elim: does_weaken)
  next
    case False
    then show ?thesis
      by (auto intro!: does_chain [OF does_check [where Q = "\<lambda>r fs. ack_file v fs \<and> isl r"]] intro: does_false simp: acked_def)
  qed
  show ?thesis
  proof (cases "0 \<le> through")
    case True
    have "does ft W sole_acker (ack_file v) (andthen read_ack (\<lambda>current. chain (check (through \<ge> current) (SpoolCode ''stale_ack''))
        (chain (replace_file ''.ack.json.tmp'' ''ack.json'' (ack_data through)) (archive_through through)))) (acked v through)"
      by (rule does_andthen [OF read_ack_does]) (auto intro: does_weaken [OF cmp [OF True]] simp: acked_def)
    then show ?thesis using True unfolding ack_through_def
      by (auto intro!: does_chain [OF does_check [where Q = "\<lambda>r fs. ack_file v fs \<and> r = Inr ()"]] elim: does_weaken)
  next
    case False
    then show ?thesis unfolding ack_through_def
      by (auto intro!: does_chain [OF does_check [where Q = "\<lambda>r fs. ack_file v fs \<and> isl r"]] intro: does_false simp: acked_def)
  qed
qed

end
