(* ===== verification/Spool_Read.thy ===== *)
theory Spool_Read
  imports Spool_Ack
begin

text \<open>
  Reading the whole history while other instances acknowledge and archive: no event is missed and none is read twice.
\<close>

section \<open>Numbers in names\<close>

lemma digits_val_zeros: "digits_val (replicate k (CHR ''0'') @ s) = digits_val s"
proof (induction k)
  case (Suc k)
  then show ?case by (simp add: digits_val_def byte_def)
qed simp

lemma padded_number: "1 \<le> i \<Longrightarrow> i < 2 ^ 63 \<Longrightarrow> parse_int 64 (padded i) = Some i"
proof -
  assume i: "1 \<le> i" "i < 2 ^ 63"
  let ?d = "dec_nat (nat i)"
  have d: "dec_int i = ?d" "list_all is_digit ?d" "?d \<noteq> []" "digits_val ?d = nat i"
    using dec_nat_digits [of "nat i"] i by (auto simp: dec_int_def)
  have p: "padded i = replicate (20 - length ?d) (CHR ''0'') @ ?d" by (simp add: padded_def d(1) Let_def)
  have all: "list_all is_digit (padded i)" "padded i \<noteq> []" "digits_val (padded i) = nat i"
    using d by (simp_all add: p digits_val_zeros) (simp add: list_all_iff is_digit_def byte_def)
  obtain c r where c: "padded i = c # r" using all(2) by (cases "padded i") auto
  have "c \<noteq> CHR ''-''" "c \<noteq> CHR ''+''" using all(1) c by (auto simp: is_digit_def byte_def)
  then show ?thesis using all i c by (simp add: parse_int_def in_int_range_def)
qed

lemma event_number_name: "1 \<le> i \<Longrightarrow> i < 2 ^ 63 \<Longrightarrow> event_number (event_name i) = Some i"
  using padded_number [of i] by (simp add: event_number_def event_name_def)

lemma event_name_inject: "1 \<le> i \<Longrightarrow> i < 2 ^ 63 \<Longrightarrow> 1 \<le> j \<Longrightarrow> j < 2 ^ 63 \<Longrightarrow> event_name i = event_name j \<longleftrightarrow> i = j"
  using event_number_name by (metis option.inject)

section \<open>What is on disk\<close>

text \<open>A readable event file: a valid event whose text reads back and is not longer than what a reader accepts.\<close>

definition spool_event :: "'e event_type \<Rightarrow> 'e \<Rightarrow> bool" where
  "spool_event et e \<longleftrightarrow> event_valid et e \<and> et_sequence et e < 2 ^ 63 \<and> length (event_data et e) \<le> 65536
     \<and> et_decode et (event_data et e) = Some e"

definition readable_file :: "'e event_type \<Rightarrow> string \<Rightarrow> string \<Rightarrow> bool" where
  "readable_file et n c \<longleftrightarrow> (\<exists>e. spool_event et e \<and> n = event_name (et_sequence et e) \<and> c = event_data et e)"

definition pending :: "(bool \<times> string) list \<Rightarrow> spool_fs \<Rightarrow> bool" where
  "pending ps fs \<longleftrightarrow> (\<forall>(a, n)\<in>set ps. (\<exists>i. 1 \<le> i \<and> i < 2 ^ 63 \<and> n = event_name i) \<and> (if a then history fs n \<noteq> None else archived fs n \<noteq> None))"

definition collected :: "'e event_type \<Rightarrow> 'e list \<Rightarrow> spool_fs \<Rightarrow> bool" where
  "collected et out fs \<longleftrightarrow> distinct (map (et_sequence et) out)
     \<and> (\<forall>e\<in>set out. spool_event et e \<and> history fs (event_name (et_sequence et e)) = Some (event_data et e))"

lemma pending_stable: "history_le fs fs' \<Longrightarrow> pending ps fs \<Longrightarrow> pending ps fs'"
  by (fastforce simp: pending_def history_le_def event_name_file split: if_splits)

lemma collected_stable: "history_le fs fs' \<Longrightarrow> collected et out fs \<Longrightarrow> collected et out fs'"
  by (auto simp: collected_def history_le_def event_name_file)

lemma does_pure: "(B \<Longrightarrow> does ft W X P m Q) \<Longrightarrow> (\<And>fs. P fs \<Longrightarrow> B) \<Longrightarrow> does ft W X P m Q"
  by (cases B) (auto intro: does_false)

abbreviation anyone :: "spool_fs \<Rightarrow> spool_fs \<Rightarrow> bool" where
  "anyone \<equiv> \<lambda>_ _. True"

section \<open>Opening one event\<close>

lemma look_at:
  assumes "\<And>fs fs'. history_le fs fs' \<Longrightarrow> P fs \<Longrightarrow> P fs'" "\<And>fs. good W fs \<Longrightarrow> P fs \<Longrightarrow> Q (look fs) fs"
  shows "does False W anyone P (sys_call (\<lambda>fs. (look fs, fs)) no_effect) Q"
  by (rule does_look) (use assms in auto)

lemma open_does:
  assumes st: "\<And>fs fs'. history_le fs fs' \<Longrightarrow> P fs \<Longrightarrow> P fs'" and ev: "event_file n"
  shows "does False W anyone (\<lambda>fs. P fs \<and> (if a then history fs n \<noteq> None else archived fs n \<noteq> None)) (open_event True a n)
    (\<lambda>r fs. \<exists>c. r = Inr c \<and> P fs \<and> published_as n c fs \<and> W n c)"
proof -
  let ?Q = "\<lambda>r fs. \<exists>c. r = Inr c \<and> P fs \<and> published_as n c fs \<and> W n c"
  have arch: "does False W anyone (\<lambda>fs. P fs \<and> archived fs n \<noteq> None) (read_archived n) ?Q"
    unfolding read_archived_def
  proof (rule look_at)
    show "P fs' \<and> archived fs' n \<noteq> None" if "history_le fs fs'" "P fs \<and> archived fs n \<noteq> None" for fs fs'
      using that st ev by (auto simp: history_le_def)
    show "\<exists>c. (case archived fs n of None \<Rightarrow> Inl NotExist | Some c \<Rightarrow> Inr c) = Inr c \<and> P fs \<and> published_as n c fs \<and> W n c"
      if "good W fs" "P fs \<and> archived fs n \<noteq> None" for fs
      using that ev good_active [OF that(1) ev] by (auto simp: published_as_def good_def)
  qed
  have act: "does False W anyone (\<lambda>fs. P fs \<and> history fs n \<noteq> None) (andthen (attempt (read_file n)) (\<lambda>r. case r of
         Inr c \<Rightarrow> ret c | Inl x \<Rightarrow> if True \<and> x = NotExist then read_archived n else fail x)) ?Q"
  proof (rule does_andthen [OF does_attempt])
    show "does False W anyone (\<lambda>fs. P fs \<and> history fs n \<noteq> None) (read_file n)
        (\<lambda>r fs. (\<lambda>q fs. P fs \<and> (case q of Inr (Inr c) \<Rightarrow> published_as n c fs \<and> W n c | Inr (Inl x) \<Rightarrow> x = NotExist \<and> archived fs n \<noteq> None | _ \<Rightarrow> False)) (Inr r) fs)"
      unfolding read_file_def
    proof (rule look_at)
      show "P fs' \<and> history fs' n \<noteq> None" if "history_le fs fs'" "P fs \<and> history fs n \<noteq> None" for fs fs'
        using that st ev by (auto simp: history_le_def)
    qed (use ev in \<open>auto simp: published_as_def history_def good_def split: option.splits\<close>)
    show "does False W anyone (\<lambda>fs. P fs \<and> (case Inr r of Inr (Inr c) \<Rightarrow> published_as n c fs \<and> W n c | Inr (Inl x) \<Rightarrow> x = NotExist \<and> archived fs n \<noteq> None | _ \<Rightarrow> False))
        (case r of Inr c \<Rightarrow> ret c | Inl x \<Rightarrow> if True \<and> x = NotExist then read_archived n else fail x) ?Q" for r
      by (cases r) (auto intro: does_ret does_fail does_weaken [OF arch])
  qed auto
  show ?thesis using arch act by (simp add: open_event_def)
qed

section \<open>The loop\<close>

definition seen_of :: "'e event_type \<Rightarrow> 'e list \<Rightarrow> (int \<times> string) list" where
  "seen_of et out = rev (map (\<lambda>e. (et_sequence et e, event_data et e)) out)"

lemma seen_none: "map_of (seen_of et out) i = None \<longleftrightarrow> i \<notin> et_sequence et ` set out"
  by (auto simp: seen_of_def map_of_eq_None_iff image_image)

lemma seen_some: "map_of (seen_of et out) i = Some old \<Longrightarrow> \<exists>e\<in>set out. et_sequence et e = i \<and> event_data et e = old"
  by (auto simp: seen_of_def dest!: map_of_SomeD)

definition all_read :: "'e event_type \<Rightarrow> 'e list \<Rightarrow> (bool \<times> string) list \<Rightarrow> spool_error + 'e list \<Rightarrow> spool_fs \<Rightarrow> bool" where
  "all_read et out ps r fs \<longleftrightarrow> (\<exists>out'. r = Inr out' \<and> collected et out' fs \<and> set out \<subseteq> set out'
     \<and> (\<forall>(a, n)\<in>set ps. \<exists>e\<in>set out'. n = event_name (et_sequence et e)))"

text \<open>The state in which one opened file is looked at.\<close>

definition opened :: "'e event_type \<Rightarrow> (bool \<times> string) list \<Rightarrow> 'e list \<Rightarrow> string \<Rightarrow> string \<Rightarrow> spool_fs \<Rightarrow> bool" where
  "opened et ps out n c fs \<longleftrightarrow> pending ps fs \<and> collected et out fs \<and> published_as n c fs \<and> readable_file et n c"

lemma opened_stable: "event_file n \<Longrightarrow> history_le fs fs' \<Longrightarrow> opened et ps out n c fs \<Longrightarrow> opened et ps out n c fs'"
  using pending_stable collected_stable published_stable by (fastforce simp: opened_def)

lemma call_opened: "event_file n \<Longrightarrow> does False W anyone (opened et ps out n c) plain_call (\<lambda>r fs. r = Inr () \<and> opened et ps out n c fs)"
  unfolding plain_call_def by (rule look_at) (auto intro: opened_stable)

text \<open>What the loop does with the content of one file.\<close>

definition take_event :: "'e event_type \<Rightarrow> int \<Rightarrow> bool \<Rightarrow> int \<Rightarrow> (bool \<times> string) list \<Rightarrow> (int \<times> string) list \<Rightarrow> 'e list \<Rightarrow> string \<Rightarrow> 'e list spool_action" where
  "take_event et after hist i ps seen out data = (case map_of seen i of
     Some old \<Rightarrow> chain (check (old = data) event_conflict) (read_paths et after hist ps seen out)
   | None \<Rightarrow> (case et_decode et data of
       None \<Rightarrow> fail invalid_event
     | Some e \<Rightarrow> if et_sequence et e \<noteq> i then fail invalid_event else read_paths et after hist ps ((i, data) # seen) (out @ [e])))"

lemma take_does:
  assumes i: "1 \<le> i" "i < 2 ^ 63" "n = event_name i"
    and ih: "\<And>out. does False W anyone (\<lambda>fs. pending ps fs \<and> collected et out fs) (read_paths et 0 True ps (seen_of et out) out) (all_read et out ps)"
  shows "does False W anyone (opened et ps out n c) (take_event et 0 True i ps (seen_of et out) out c) (all_read et out ((a, n) # ps))"
proof (rule does_pure [where B = "readable_file et n c"])
  assume "readable_file et n c"
  then obtain e where e: "spool_event et e" "n = event_name (et_sequence et e)" "c = event_data et e" by (auto simp: readable_file_def)
  have se: "et_sequence et e = i" using event_name_inject [of "et_sequence et e" i] e i by (simp add: spool_event_def event_valid_def)
  show ?thesis
  proof (cases "map_of (seen_of et out) i")
    case None
    then have new: "i \<notin> et_sequence et ` set out" by (simp add: seen_none)
    have "seen_of et (out @ [e]) = (i, c) # seen_of et out" by (simp add: seen_of_def se e(3))
    then have "does False W anyone (\<lambda>fs. pending ps fs \<and> collected et (out @ [e]) fs) (read_paths et 0 True ps ((i, c) # seen_of et out) (out @ [e]))
        (all_read et (out @ [e]) ps)" using ih [of "out @ [e]"] by simp
    moreover have "take_event et 0 True i ps (seen_of et out) out c = read_paths et 0 True ps ((i, c) # seen_of et out) (out @ [e])"
      using None e se by (simp add: take_event_def spool_event_def)
    moreover have "pending ps fs \<and> collected et (out @ [e]) fs" if "opened et ps out n c fs" for fs
      using that new e se by (auto simp: opened_def collected_def published_as_def)
    moreover have "all_read et out ((a, n) # ps) r fs" if "all_read et (out @ [e]) ps r fs" for r fs
      using that e(2) by (auto simp: all_read_def)
    ultimately show ?thesis by (auto elim: does_weaken)
  next
    case (Some old)
    then obtain e' where e': "e' \<in> set out" "et_sequence et e' = i" "event_data et e' = old" using seen_some by blast
    have old: "old = c" if "opened et ps out n c fs" for fs
      using that e' i(3) by (auto simp: opened_def collected_def published_as_def)
    show ?thesis
    proof (rule does_pure [where B = "old = c"])
      assume "old = c"
      then have "take_event et 0 True i ps (seen_of et out) out c = read_paths et 0 True ps (seen_of et out) out"
        using Some by (simp add: take_event_def check_def chain_def andthen_def ret_def fun_eq_iff)
      moreover have "all_read et out ((a, n) # ps) r fs" if "all_read et out ps r fs" for r fs
        using that e' i(3) by (auto simp: all_read_def)
      ultimately show ?thesis using ih [of out] by (auto elim: does_weaken simp: opened_def)
    qed (rule old)
  qed
qed (simp add: opened_def)

lemma read_paths_does:
  "does False (readable_file et) anyone (\<lambda>fs. pending ps fs \<and> collected et out fs) (read_paths et 0 True ps (seen_of et out) out) (all_read et out ps)"
proof (induction ps arbitrary: out)
  case Nil
  show ?case by (auto intro!: does_ret simp: all_read_def)
next
  case (Cons p ps)
  obtain a n where p: "p = (a, n)" by fastforce
  show ?case
  proof (rule does_pure [where B = "\<exists>i. 1 \<le> i \<and> i < 2 ^ 63 \<and> n = event_name i"])
    assume "\<exists>i. 1 \<le> i \<and> i < 2 ^ 63 \<and> n = event_name i"
    then obtain i where i: "1 \<le> i" "i < 2 ^ 63" "n = event_name i" by blast
    then have num: "event_number n = Some i" "event_file n" using event_number_name event_name_file by auto
    have body: "does False (readable_file et) anyone (opened et ps out n c)
        (chain plain_call (chain (check (length c \<le> 65536) event_too_large) (chain plain_call (take_event et 0 True i ps (seen_of et out) out c))))
        (all_read et out ((a, n) # ps))" for c
    proof (rule does_pure [where B = "length c \<le> 65536"])
      assume "length c \<le> 65536"
      then have "check (length c \<le> 65536) event_too_large = (ret () :: unit spool_action)" by (simp add: check_def)
      then show ?thesis
        using take_does [OF i Cons.IH, of out c a]
        by (auto intro!: does_chain [OF call_opened [OF num(2)]] does_chain [OF does_ret [where Q = "\<lambda>r fs. r = Inr () \<and> opened et ps out n c fs"]]
          elim: does_weaken)
    qed (auto simp: opened_def readable_file_def spool_event_def)
    have step: "read_paths et 0 True ((a, n) # ps) (seen_of et out) out = andthen (open_event True a n) (\<lambda>c.
        chain plain_call (chain (check (length c \<le> 65536) event_too_large) (chain plain_call (take_event et 0 True i ps (seen_of et out) out c))))"
      using num i by (simp add: take_event_def)
    show ?thesis unfolding p step
    proof (rule does_andthen)
      show "does False (readable_file et) anyone (\<lambda>fs. pending ((a, n) # ps) fs \<and> collected et out fs) (open_event True a n)
          (\<lambda>r fs. \<exists>c. r = Inr c \<and> opened et ps out n c fs)"
      proof (rule does_weaken [OF open_does [where P = "\<lambda>fs. pending ps fs \<and> collected et out fs", OF _ num(2)]])
        show "pending ps fs' \<and> collected et out fs'" if "history_le fs fs'" "pending ps fs \<and> collected et out fs" for fs fs'
          using that pending_stable collected_stable by blast
        show "(pending ps fs \<and> collected et out fs) \<and> (if a then history fs n \<noteq> None else archived fs n \<noteq> None)"
          if "pending ((a, n) # ps) fs \<and> collected et out fs" for fs
          using that by (simp add: pending_def)
      qed (auto simp: opened_def)
    qed (auto intro: does_weaken [OF body])
  qed (auto simp: p pending_def)
qed

section \<open>The whole history\<close>

definition listed :: "(string \<Rightarrow> bool) \<Rightarrow> string list \<Rightarrow> spool_fs \<Rightarrow> bool" where
  "listed H ps fs \<longleftrightarrow> pending (map (Pair True) ps) fs \<and> (\<forall>n. H n \<longrightarrow> n \<in> set ps \<or> archived fs n \<noteq> None)"

definition there :: "(string \<Rightarrow> bool) \<Rightarrow> spool_fs \<Rightarrow> bool" where
  "there H fs \<longleftrightarrow> (\<forall>n. H n \<longrightarrow> event_file n \<and> history fs n \<noteq> None)"

lemma in_listing: "n \<in> set (listing fs) \<longleftrightarrow> event_file n \<and> map_of fs n \<noteq> None"
  by (auto simp: listing_def map_of_eq_None_iff image_iff)

lemma file_named: "readable_file et n c \<Longrightarrow> \<exists>i. 1 \<le> i \<and> i < 2 ^ 63 \<and> n = event_name i"
  by (auto simp: readable_file_def spool_event_def event_valid_def)

lemma glob_does: "does False (readable_file et) anyone (there H) glob_files (\<lambda>r fs. \<exists>ps. r = Inr ps \<and> there H fs \<and> listed H ps fs)"
  unfolding glob_files_def
proof (rule does_sys)
  show "there H fs'" if "history_le fs fs'" "there H fs" for fs fs' using that by (fastforce simp: there_def history_le_def)
  show "moves (readable_file et) fs fs' \<and> (good (readable_file et) fs' \<longrightarrow> (\<exists>ps. r = Inr ps \<and> there H fs' \<and> listed H ps fs'))"
    if g: "good (readable_file et) fs" "there H fs" "(Inr (listing (fs_files fs)), fs) = (r, fs')" for fs r fs'
  proof -
    have "pending (map (Pair True) (listing (fs_files fs))) fs"
      using g(1) file_named [of et] by (fastforce simp: pending_def in_listing good_def history_def)
    moreover have "n \<in> set (listing (fs_files fs)) \<or> archived fs n \<noteq> None" if "H n" for n
      using g(2) that by (auto simp: there_def in_listing history_def split: option.splits)
    ultimately show ?thesis using g by (auto simp: listed_def)
  qed
qed simp_all

lemma glob_archive_does:
  "does False (readable_file et) anyone (\<lambda>fs. there H fs \<and> listed H ps fs) glob_archive
    (\<lambda>r fs. \<exists>qs. r = Inr qs \<and> pending (map (Pair True) ps @ map (Pair False) qs) fs \<and> (\<forall>n. H n \<longrightarrow> n \<in> set ps \<or> n \<in> set qs))"
  unfolding glob_archive_def
proof (rule does_sys)
  show "there H fs' \<and> listed H ps fs'" if "history_le fs fs'" "there H fs \<and> listed H ps fs" for fs fs'
    using that pending_stable by (fastforce simp: there_def listed_def history_le_def)
  show "moves (readable_file et) fs fs' \<and> (good (readable_file et) fs' \<longrightarrow>
      (\<exists>qs. r = Inr qs \<and> pending (map (Pair True) ps @ map (Pair False) qs) fs' \<and> (\<forall>n. H n \<longrightarrow> n \<in> set ps \<or> n \<in> set qs)))"
    if g: "good (readable_file et) fs" "there H fs \<and> listed H ps fs" "(Inr (listing (archive_files fs)), fs) = (r, fs')" for fs r fs'
  proof -
    have a: "map_of (archive_files fs) n = archived fs n" for n by (simp add: archive_files_def archived_def split: option.split)
    have q: "pending (map (Pair False) (listing (archive_files fs))) fs"
      using g(1) file_named [of et] by (fastforce simp: pending_def in_listing good_def a)
    then have "pending (map (Pair True) ps @ map (Pair False) (listing (archive_files fs))) fs"
      using g(2) by (simp add: listed_def pending_def ball_Un)
    moreover have "n \<in> set ps \<or> n \<in> set (listing (archive_files fs))" if "H n" for n
      using g(2) that a by (auto simp: there_def listed_def in_listing)
    ultimately show ?thesis using g by auto
  qed
qed simp_all

definition history_read :: "'e event_type \<Rightarrow> (string \<Rightarrow> bool) \<Rightarrow> spool_error + 'e list \<Rightarrow> spool_fs \<Rightarrow> bool" where
  "history_read et H r fs \<longleftrightarrow> (\<exists>es. r = Inr es \<and> sorted_wrt (<) (map (et_sequence et) es)
     \<and> (\<forall>e\<in>set es. spool_event et e \<and> history fs (event_name (et_sequence et e)) = Some (event_data et e))
     \<and> (\<forall>n. H n \<longrightarrow> (\<exists>e\<in>set es. n = event_name (et_sequence et e))))"

lemma read_all_does:
  "does False (readable_file et) anyone (there H) (read_all et) (history_read et H)"
proof -
  have loop: "does False (readable_file et) anyone (pending ps) (andthen (read_paths et 0 True ps [] []) (\<lambda>out. ret (sort_key (et_sequence et) out)))
      (\<lambda>r fs. \<exists>es. r = Inr es \<and> sorted (map (et_sequence et) es) \<and> collected et es fs \<and> (\<forall>(a, n)\<in>set ps. \<exists>e\<in>set es. n = event_name (et_sequence et e)))" for ps
  proof (rule does_andthen)
    show "does False (readable_file et) anyone (pending ps) (read_paths et 0 True ps [] []) (all_read et [] ps)"
      by (rule does_weaken [OF read_paths_does [where out = "[]" and ps = ps, unfolded seen_of_def, simplified]]) (auto simp: collected_def)
  qed (auto simp: all_read_def collected_def distinct_map intro!: does_ret)
  have tail: "does False (readable_file et) anyone (\<lambda>fs. there H fs \<and> listed H ps fs) (andthen glob_archive (\<lambda>qs.
      andthen (read_paths et 0 True (map (Pair True) ps @ map (Pair False) qs) [] []) (\<lambda>out. ret (sort_key (et_sequence et) out)))) (history_read et H)" for ps
  proof (rule does_andthen [OF glob_archive_does])
    show "does False (readable_file et) anyone (\<lambda>fs. \<exists>qs'. Inr qs = Inr qs' \<and> pending (map (Pair True) ps @ map (Pair False) qs') fs
          \<and> (\<forall>n. H n \<longrightarrow> n \<in> set ps \<or> n \<in> set qs'))
        (andthen (read_paths et 0 True (map (Pair True) ps @ map (Pair False) qs) [] []) (\<lambda>out. ret (sort_key (et_sequence et) out))) (history_read et H)" for qs
    proof (rule does_pure [where B = "\<forall>n. H n \<longrightarrow> n \<in> set ps \<or> n \<in> set qs"])
      assume all: "\<forall>n. H n \<longrightarrow> n \<in> set ps \<or> n \<in> set qs"
      show ?thesis
        by (rule does_weaken [OF loop], simp) (insert all, auto simp: history_read_def collected_def strict_sorted_iff ball_Un, blast)
    qed auto
  qed auto
  show ?thesis
    unfolding read_all_def read_spool_def
    by (rule does_andthen [OF glob_does]) (auto intro: does_weaken [OF tail])
qed

end
