(* ===== verification/Spool_Properties.thy ===== *)
theory Spool_Properties
  imports Spool_Read
begin

text \<open>
  The properties of the spool's operations. An operation runs in a world that says what the others do to the directory
  before each of its calls and which calls fail.
\<close>

section \<open>Appending and acknowledging\<close>

lemma start_inv:
  "good W (w_fs w) \<Longrightarrow> list_all (env_ok W X) (w_ticks w) \<Longrightarrow> w_moves w = [] \<Longrightarrow> (ft \<or> list_all (\<lambda>t. tk_fault t = None) (w_ticks w)) \<Longrightarrow>
    spool_inv ft W X (w_fs w) w"
  by (auto simp: spool_inv_def)

text \<open>C33. No event ever changes or disappears while one is appended, whichever calls fail and whatever the other
  instances append and archive meanwhile, as long as they publish no other event under this number: each call of the
  append keeps every published event as it is and keeps the event files what \<open>W\<close> admits if it admits this event, a success means that exactly this event is published under its number,
  and an append whose number already holds something else does not succeed.\<close>

theorem append_keeps_history:
  assumes "append_event et pid e w = (r, w')" "good W (w_fs w)" "w_moves w = []"
    "list_all (env_ok W (append_writer et pid e)) (w_ticks w)"
    "event_valid et e \<Longrightarrow> W (event_name (et_sequence et e)) (event_data et e)"
  shows "good W (w_fs w') \<and> history_le (w_fs w) (w_fs w') \<and> list_all (\<lambda>(a, b). moves W a b) (w_moves w')
    \<and> (r = Inr () \<longrightarrow> history (w_fs w') (event_name (et_sequence et e)) = Some (event_data et e))
    \<and> (\<forall>c. history (w_fs w) (event_name (et_sequence et e)) = Some c \<longrightarrow> c \<noteq> event_data et e \<longrightarrow> r \<noteq> Inr ())"
proof -
  have "spool_inv True W (append_writer et pid e) (w_fs w) w" using start_inv [OF assms(2,4,3)] by simp
  from doesD [OF append_does [where W = W and et = et and e = e, OF assms(5)] this _ assms(1)] show ?thesis
    using event_name_file [of "et_sequence et e"] by (auto simp: spool_inv_def published_as_def history_le_def)
qed


section \<open>Reading\<close>


section \<open>Calls that fail\<close>

text \<open>A failing write leaves its staged file behind, and the same process is then refused the event as a conflict
  although nothing is published under its number.\<close>

definition broken_at :: "nat \<Rightarrow> nat \<Rightarrow> tick list" where
  "broken_at n k = replicate n calm @ [calm\<lparr>tk_fault := Some k\<rparr>]"

lemma append_retry_refused:
  assumes "event_valid et e" "fs = \<lparr>fs_files = [], fs_archive = None\<rparr>"
  shows "\<exists>w'. append_event et pid e \<lparr>w_fs = fs, w_ticks = broken_at 3 0, w_moves = []\<rparr> = (Inl SysError, w')
    \<and> fst (append_event et pid e \<lparr>w_fs = w_fs w', w_ticks = [], w_moves = []\<rparr>) = Inl event_conflict
    \<and> history (w_fs w') (event_name (et_sequence et e)) = None"
  using assms
  by (simp add: append_event_def Let_def broken_at_def numeral_eq_Suc chain_def andthen_def check_def ret_def fail_def attempt_def
      read_file_def read_archived_def create_file_def write_file_def plain_call_def sys_call_def calm_def no_effect_def publish_event_def
      write_out_def put_bytes_def archived_def history_def event_name_def stage_name_def)

text \<open>A directory that cannot be listed is read as one without events.\<close>

lemma unlisted_history:
  "fst (read_all et \<lparr>w_fs = fs, w_ticks = [calm\<lparr>tk_fault := Some 0\<rparr>, calm\<lparr>tk_fault := Some 0\<rparr>], w_moves = []\<rparr>) = Inr []"
  by (simp add: read_all_def read_spool_def andthen_def glob_files_def glob_archive_def sys_call_def calm_def listing_def ret_def)

text \<open>An append has no limit on the size of an event, every read of the spool has one.\<close>

lemma large_event_blocks:
  assumes "event_valid et e" "et_sequence et e < 2 ^ 63" "length (event_data et e) > 65536" "fs = \<lparr>fs_files = [], fs_archive = None\<rparr>"
  shows "\<exists>w'. append_event et pid e \<lparr>w_fs = fs, w_ticks = [], w_moves = []\<rparr> = (Inr (), w')
    \<and> fst (read_all et \<lparr>w_fs = w_fs w', w_ticks = [], w_moves = []\<rparr>) = Inl event_too_large"
proof -
  have n: "stage_name (et_sequence et e) pid \<noteq> event_name (et_sequence et e)" by (simp add: stage_name_def event_name_def)
  have i: "event_number (event_name (et_sequence et e)) = Some (et_sequence et e)" "1 \<le> et_sequence et e"
    using assms(1,2) event_number_name by (simp_all add: event_valid_def)
  have "\<exists>w'. append_event et pid e \<lparr>w_fs = fs, w_ticks = [], w_moves = []\<rparr> = (Inr (), w')
    \<and> w_fs w' = \<lparr>fs_files = [(event_name (et_sequence et e), event_data et e)], fs_archive = None\<rparr>"
    using assms(1,4) n
    by (simp add: append_event_def Let_def chain_def andthen_def check_def ret_def fail_def attempt_def ignoring_def
      read_file_def read_archived_def create_file_def write_file_def plain_call_def link_file_def remove_file_def sys_call_def calm_def publish_event_def
      after_link_def write_out_def put_bytes_def archived_def)
  then show ?thesis
    using assms(3) i event_name_file [of "et_sequence et e"]
    by (auto simp: Let_def read_all_def read_spool_def andthen_def glob_files_def glob_archive_def sys_call_def calm_def listing_def archive_files_def
      open_event_def attempt_def read_file_def chain_def plain_call_def check_def ret_def fail_def)
qed

section \<open>Metadata\<close>

lemma any_sys: "(\<And>fs. moves W fs (snd (call fs))) \<Longrightarrow> (\<And>k fs. moves W fs (snd (faulty k fs))) \<Longrightarrow>
  does ft W anyone (\<lambda>_. True) (sys_call call faulty) (\<lambda>_ _. True)"
  by (rule does_sys) (auto, (metis snd_conv)+)

lemma any_then: "does ft W anyone (\<lambda>_. True) m (\<lambda>_ _. True) \<Longrightarrow> (\<And>a. does ft W anyone (\<lambda>_. True) (f a) (\<lambda>_ _. True)) \<Longrightarrow>
  does ft W anyone (\<lambda>_. True) (andthen m f) (\<lambda>_ _. True)"
  by (rule does_andthen) auto

lemma any_chain: "does ft W anyone (\<lambda>_. True) m (\<lambda>_ _. True) \<Longrightarrow> does ft W anyone (\<lambda>_. True) m' (\<lambda>_ _. True) \<Longrightarrow>
  does ft W anyone (\<lambda>_. True) (chain m m') (\<lambda>_ _. True)"
  by (rule does_chain) auto

lemma any_steps:
  "does ft W anyone (\<lambda>_. True) m (\<lambda>_ _. True) \<Longrightarrow> does ft W anyone (\<lambda>_. True) (attempt m) (\<lambda>_ _. True)"
  "does ft W anyone (\<lambda>_. True) m (\<lambda>_ _. True) \<Longrightarrow> does ft W anyone (\<lambda>_. True) (ignoring m) (\<lambda>_ _. True)"
  "does ft W anyone (\<lambda>_. True) (ret a) (\<lambda>_ _. True)" "does ft W anyone (\<lambda>_. True) (fail e) (\<lambda>_ _. True)"
  "does ft W anyone (\<lambda>_. True) (check b e) (\<lambda>_ _. True)" "does ft W anyone (\<lambda>_. True) plain_call (\<lambda>_ _. True)"
  by (auto intro: does_attempt does_ignoring does_ret does_fail does_check simp: plain_call_def no_effect_def intro!: any_sys)

lemma any_files:
  assumes "\<not> event_file n"
  shows "does ft W anyone (\<lambda>_. True) (remove_file n) (\<lambda>_ _. True)" "does ft W anyone (\<lambda>_. True) (create_file n) (\<lambda>_ _. True)"
    "does ft W anyone (\<lambda>_. True) (write_file n d) (\<lambda>_ _. True)"
  using assms moves_delete moves_update
  by (auto simp: remove_file_def create_file_def write_file_def put_bytes_def no_effect_def intro!: any_sys)

lemma any_rename:
  assumes "\<not> event_file n" "\<not> event_file m"
  shows "does ft W anyone (\<lambda>_. True) (rename_file n m) (\<lambda>_ _. True)"
proof -
  have "moves W fs (fs\<lparr>fs_files := AList.update m c (AList.delete n (fs_files fs))\<rparr>)" for fs c
    by (rule moves_other) (use assms in \<open>auto simp: AList.update_conv' AList.delete_conv'\<close>)
  then show ?thesis
    unfolding rename_file_def by (intro any_sys) (auto simp: no_effect_def split: option.split)
qed

text \<open>Metadata under a name that is no event's leaves every event alone.\<close>

lemma metadata_does: "\<not> event_file n \<Longrightarrow> does ft W anyone (\<lambda>_. True) (write_metadata n v) (\<lambda>_ _. True)"
  by (cases v)
    (auto simp: write_metadata_def Let_def write_out_def split: sum.split intro!: any_then any_chain any_steps any_files any_rename)

end
