(* ===== verification/Spool_Sample.thy ===== *)
theory Spool_Sample
  imports Spool_Properties
begin

text \<open>
  The spool's properties at concrete directories, with another instance that appends, archives and removes events between the calls.
\<close>

section \<open>Small events\<close>

text \<open>Events that carry their number only.\<close>

definition sample_events :: "int event_type" where
  "sample_events = \<lparr>et_version = (\<lambda>_. 1), et_sequence = (\<lambda>i. i), et_attempt = (\<lambda>_. ''a''), et_segment = (\<lambda>_. ''s''),
     et_marshal = dec_int, et_decode = (\<lambda>s. parse_int 64 (butlast s))\<rparr>"

lemma sample_type [simp]:
  "et_version sample_events i = 1" "et_sequence sample_events i = i" "et_attempt sample_events i = ''a''" "et_segment sample_events i = ''s''"
  "event_data sample_events i = dec_int i @ line_feed" "et_decode sample_events s = parse_int 64 (butlast s)"
  by (simp_all add: sample_events_def event_data_def)

lemma sample_valid [simp]: "event_valid sample_events i \<longleftrightarrow> 1 \<le> i"
  by (simp add: event_valid_def)

lemma sample_digits: "dec_int 1 = ''1''" "dec_int 2 = ''2''"
  by (simp_all add: dec_int_def dec_nat.simps digit_def char_of_def bit_0)

lemma sample_event: "i \<in> {1, 2} \<Longrightarrow> spool_event sample_events i"
proof -
  assume i: "i \<in> {1, 2}"
  then have "length (dec_int i @ line_feed) \<le> 65536" using sample_digits by (auto simp: line_feed_def)
  moreover have "parse_int 64 (dec_int i) = Some i" using i by (intro parse_int_dec) auto
  ultimately show ?thesis using i by (auto simp: spool_event_def line_feed_def)
qed

lemma sample_file: "i \<in> {1, 2} \<Longrightarrow> readable_file sample_events (event_name i) (dec_int i @ line_feed)"
  using sample_event [of i] unfolding readable_file_def by (intro exI [of _ i]) simp

lemma sample_names: "event_name 1 \<noteq> event_name 2" "event_name i \<noteq> stage_name j p" "event_name i \<noteq> ''ack.json''" "event_name i \<noteq> ''.ack.json.tmp''"
  using event_name_inject [of 1 2] by (simp_all add: event_name_def stage_name_def)

definition file_of :: "int \<Rightarrow> string \<times> string" where
  "file_of i = (event_name i, dec_int i @ line_feed)"

text \<open>What the other instance does in one step: event 2 is appended, event 1 is linked into the archive and unlinked.\<close>

definition other_appends :: "spool_fs \<Rightarrow> spool_fs" where
  "other_appends fs = (if map_of (fs_files fs) (event_name 2) = None \<and> archived fs (event_name 2) = None
     then fs\<lparr>fs_files := AList.update (event_name 2) (dec_int 2 @ line_feed) (fs_files fs)\<rparr> else fs)"

definition other_archives :: "spool_fs \<Rightarrow> spool_fs" where
  "other_archives fs = (case (map_of (fs_files fs) (event_name 1), fs_archive fs) of
     (Some c, Some a) \<Rightarrow> if map_of a (event_name 1) = None then fs\<lparr>fs_archive := Some (AList.update (event_name 1) c a)\<rparr> else fs
   | _ \<Rightarrow> fs)"

definition other_unlinks :: "spool_fs \<Rightarrow> spool_fs" where
  "other_unlinks fs = (if archived fs (event_name 1) = None then fs else fs\<lparr>fs_files := AList.delete (event_name 1) (fs_files fs)\<rparr>)"

lemma others_move:
  "moves (readable_file sample_events) fs (other_appends fs)" "moves W fs (other_archives fs)" "moves W fs (other_unlinks fs)"
  using sample_file [of 2]
  by (auto simp: other_appends_def other_archives_def other_unlinks_def split: option.split intro: moves_publish moves_archive moves_unlink)

lemma calm_ok: "(\<And>fs. X fs fs) \<Longrightarrow> env_ok W X (calm\<lparr>tk_fault := f\<rparr>)"
  by (simp add: env_ok_def calm_def)

section \<open>Appending while another event is appended\<close>

definition busy_world :: world where
  "busy_world = \<lparr>w_fs = \<lparr>fs_files = [], fs_archive = None\<rparr>, w_ticks = [calm\<lparr>tk_env := other_appends\<rparr>], w_moves = []\<rparr>"

lemma empty_good [simp]: "good W \<lparr>fs_files = [], fs_archive = a\<rparr> \<longleftrightarrow> (case a of None \<Rightarrow> True | Some x \<Rightarrow> \<forall>n c. event_file n \<longrightarrow> map_of x n = Some c \<longrightarrow> W n c)"
  by (auto simp: good_def archived_def split: option.split)

lemma busy_append: "fst (append_event sample_events 7 1 busy_world) = Inr ()"
  using sample_names
  by (simp add: append_event_def Let_def busy_world_def chain_def andthen_def check_def ret_def fail_def attempt_def ignoring_def
      read_file_def read_archived_def create_file_def write_file_def plain_call_def link_file_def remove_file_def sys_call_def calm_def publish_event_def
      after_link_def write_out_def put_bytes_def archived_def other_appends_def eq_commute [of "stage_name _ _"])

lemma appends_ok: "env_ok (readable_file sample_events) (append_writer sample_events 7 1) (calm\<lparr>tk_env := other_appends\<rparr>)"
  using others_move(1) sample_names by (auto simp: env_ok_def append_writer_def sole_writer_def other_appends_def AList.update_conv')

theorem append_keeps_history_witness:
  "\<exists>w'. append_event sample_events 7 1 busy_world = (Inr (), w') \<and> history (w_fs w') (event_name 1) = Some (''1'' @ line_feed)"
proof -
  obtain w' where w: "append_event sample_events 7 1 busy_world = (Inr (), w')" using busy_append by (metis prod.collapse)
  show ?thesis
    using append_keeps_history [OF w, where W = "readable_file sample_events"] appends_ok sample_file [of 1] w
    by (simp add: busy_world_def sample_digits)
qed

section \<open>Acknowledging and reading while the other instance archives\<close>

definition one_event :: "(string \<times> string) list option \<Rightarrow> tick list \<Rightarrow> world" where
  "one_event a ts = \<lparr>w_fs = \<lparr>fs_files = [file_of 1], fs_archive = a\<rparr>, w_ticks = ts, w_moves = []\<rparr>"

lemma one_event_good: "good (readable_file sample_events) (w_fs (one_event a ts))" if "a \<in> {None, Some []}" for a
  using that sample_file [of 1] by (auto simp: one_event_def file_of_def good_def archived_def)

lemma one_event_history: "history (w_fs (one_event a ts)) (event_name 1) = Some (dec_int 1 @ line_feed)"
  by (simp add: one_event_def file_of_def history_def)

lemma appends_beside_ack: "env_ok (readable_file sample_events) sole_acker (calm\<lparr>tk_env := other_appends\<rparr>)"
  using others_move(1) sample_names(3,4) [symmetric] by (auto simp: env_ok_def sole_acker_def other_appends_def AList.update_conv')

definition acking_world :: world where
  "acking_world = one_event None (replicate 10 calm @ [calm\<lparr>tk_env := other_appends\<rparr>])"

lemma ack_succeeds: "fst (ack_through 1 acking_world) = Inr ()"
  using sample_names sample_names [symmetric] event_name_file [of 1] event_number_name [of 1]
  by (simp add: Let_def acking_world_def numeral_eq_Suc ack_through_def one_event_def file_of_def other_appends_def read_ack_def read_file_def archived_def sys_call_def calm_def chain_def andthen_def
      check_def ret_def fail_def attempt_def ignoring_def replace_file_def remove_file_def create_file_def write_out_def write_file_def
      put_bytes_def plain_call_def rename_file_def archive_through_def make_archive_def glob_files_def listing_def link_event_def link_archive_def)


text \<open>The event moves to the archive after the directory was listed and before its file is opened.\<close>

definition racing_world :: world where
  "racing_world = one_event (Some []) [calm, calm, calm\<lparr>tk_env := (\<lambda>fs. other_unlinks (other_archives fs))\<rparr>]"

lemma moves_both: "moves W fs (other_unlinks (other_archives fs))"
  using others_move(2) [of W fs] others_move(3) [of W "other_archives fs"] history_le_trans by (auto simp: moves_def)


end
