(* ===== verification/Store_Delivery.thy ===== *)
theory Store_Delivery
  imports Store_Lifecycle Go_Json
begin

text \<open>
  Delivery of events to the owner of a run (\<open>store/delivery.go\<close>): pages of what is pending, in the order in which it
  was published, and the decisions by which the owner acknowledges it.
\<close>

section \<open>Tables\<close>

record runtime_delivery =
  ne_id :: ident
  ne_task :: ident
  ne_hash :: string
  ne_revision :: int
  ne_slot :: ident
  ne_body :: string
  ne_status :: delivery_status

record report_delivery =
  me_id :: ident
  me_capability :: ident
  me_kind :: string
  me_hash :: string
  me_revision :: int
  me_slot :: ident
  me_body :: string
  me_status :: delivery_status

record progress_row =
  pg_id :: ident
  pg_task :: ident
  pg_segment :: ident
  pg_sequence :: int
  pg_body :: string

record reservation_row =
  ma_task :: ident
  ma_scope :: string
  ma_class :: string
  ma_state :: string

record decision_row =
  dc_slot :: ident
  dc_event :: ident
  dc_revision :: int
  dc_hash :: string
  dc_decision :: string
  dc_command :: ident

record delivery_receipt_row =
  lr_id :: ident
  lr_task :: ident
  lr_proof :: string
  lr_hash :: string

record retry_row =
  rt_slot :: ident
  rt_task :: ident
  rt_event :: ident
  rt_revision :: int
  rt_hash :: string
  rt_segment :: ident

record review_row =
  rv_slot :: ident
  rv_task :: ident
  rv_event :: ident
  rv_revision :: int
  rv_hash :: string

text \<open>\<open>dv_order\<close> has ordinal, event and task; \<open>dv_answered\<close> the questions with an answer.\<close>

record delivery_db =
  dv_store :: store
  dv_events :: "runtime_delivery list"
  dv_reports :: "report_delivery list"
  dv_progress :: "progress_row list"
  dv_reserved :: "reservation_row list"
  dv_order :: "(int \<times> ident \<times> ident) list"
  dv_decisions :: "decision_row list"
  dv_receipts :: "delivery_receipt_row list"
  dv_retries :: "retry_row list"
  dv_reviews :: "review_row list"
  dv_answered :: "ident list"

text \<open>What is used of \<open>contract.Event\<close>: its JSON and the fields that are compared; \<open>dt_stamp\<close> sets revision and action slot.\<close>

record 'e delivered_type =
  dt_decode :: "string \<Rightarrow> 'e option"
  dt_stamp :: "int \<Rightarrow> ident \<Rightarrow> 'e \<Rightarrow> 'e"
  dt_marshal :: "'e \<Rightarrow> string option"
  dt_work_revision :: "'e \<Rightarrow> int"
  dt_segment :: "'e \<Rightarrow> ident"
  dt_question :: "'e \<Rightarrow> bool"
  dt_question_id :: "'e \<Rightarrow> ident"
  dt_question_revision :: "'e \<Rightarrow> int"

section \<open>Cursors\<close>

definition invalid_cursor :: store_error where
  "invalid_cursor = CodeError ''invalid_cursor''"

definition cursor_proof :: "(string \<Rightarrow> string) \<Rightarrow> ident \<Rightarrow> string \<Rightarrow> string" where
  "cursor_proof sha task v = take 24 (sha (task @ nul # v))"

definition delivery_cursor :: "(string \<Rightarrow> string) \<Rightarrow> ident \<Rightarrow> int \<Rightarrow> string" where
  "delivery_cursor sha task ordinal =
    ''delivery-v1-'' @ dec_int ordinal @ ''-'' @ cursor_proof sha task (dec_int ordinal)"

text \<open>\<open>strings.LastIndexByte\<close>.\<close>

definition last_index :: "char \<Rightarrow> string \<Rightarrow> nat option" where
  "last_index c s = (if c \<in> set s then Some (length s - 1 - length (takeWhile (\<lambda>x. x \<noteq> c) (rev s))) else None)"

definition parse_delivery_cursor :: "(string \<Rightarrow> string) \<Rightarrow> ident \<Rightarrow> string \<Rightarrow> store_error + int" where
  "parse_delivery_cursor sha task cursor =
    (if cursor = [] then Inr 0
     else if take 12 cursor \<noteq> ''delivery-v1-'' then Inl invalid_cursor
     else let rest = drop 12 cursor in (case last_index (CHR ''-'') rest of
         None \<Rightarrow> Inl invalid_cursor
       | Some i \<Rightarrow>
         if i < 1 then Inl invalid_cursor
         else (case parse_int 64 (take i rest) of
             None \<Rightarrow> Inl invalid_cursor
           | Some n \<Rightarrow> if n < 1 \<or> drop (i + 1) rest \<noteq> cursor_proof sha task (take i rest) then Inl invalid_cursor else Inr n)))"

section \<open>Pages\<close>

record page_row =
  pr_ordinal :: int
  pr_body :: string
  pr_revision :: int
  pr_slot :: ident

record 'e page =
  dp_events :: "'e list"
  dp_cursor :: string

definition report_task :: "delivery_db \<Rightarrow> report_delivery \<Rightarrow> ident option" where
  "report_task db e = map_option c_task (sel_row c_id (me_capability e) (tb_caps (dv_store db)))"

definition progress_gone :: "delivery_db \<Rightarrow> progress_row \<Rightarrow> bool" where
  "progress_gone db h \<longleftrightarrow> exists_row (\<lambda>r. ma_task r = pg_task h \<and> ma_scope r = pg_segment h \<and> ma_class r = ''progress''
     \<and> (ma_state r = ''deleting'' \<or> ma_state r = ''released'')) (dv_reserved db)"

text \<open>The three parts of the union, each row with its event.\<close>

definition pending_rows :: "delivery_db \<Rightarrow> ident \<Rightarrow> bool \<Rightarrow> (ident \<times> string \<times> int \<times> ident) list" where
  "pending_rows db task diagnostics =
    map (\<lambda>e. (ne_id e, ne_body e, ne_revision e, ne_slot e)) (filter (\<lambda>e. ne_task e = task \<and> ne_status e = DPending) (dv_events db))
    @ map (\<lambda>h. (pg_id h, pg_body h, pg_sequence h, [])) (filter (\<lambda>h. pg_task h = task \<and> diagnostics \<and> \<not> progress_gone db h) (dv_progress db))
    @ map (\<lambda>e. (me_id e, me_body e, me_revision e, me_slot e))
        (filter (\<lambda>e. report_task db e = Some task \<and> (me_status e = DPending \<or> diagnostics \<and> me_kind e = ''progress'')) (dv_reports db))"

definition ordered_rows :: "delivery_db \<Rightarrow> ident \<Rightarrow> bool \<Rightarrow> int \<Rightarrow> page_row list" where
  "ordered_rows db task diagnostics after =
    concat (map (\<lambda>(o', ev, _). map (\<lambda>(_, b, r, s). \<lparr>pr_ordinal = o', pr_body = b, pr_revision = r, pr_slot = s\<rparr>)
        (filter (\<lambda>(i, _). i = ev) (pending_rows db task diagnostics)))
      (sort_key fst (filter (\<lambda>(o', _, t). t = task \<and> after < o') (dv_order db))))"

definition collect_page_events :: nat where "collect_page_events = 32"
definition collect_page_bytes :: nat where "collect_page_bytes = 48 * 1024"

definition page_limit :: "int \<Rightarrow> nat" where
  "page_limit limit = (if limit < 1 \<or> limit > int collect_page_events then collect_page_events else nat limit)"

definition read_row :: "'e delivered_type \<Rightarrow> page_row \<Rightarrow> ('e \<times> string) option" where
  "read_row et r = Option.bind (dt_decode et (pr_body r)) (\<lambda>e.
     let e' = dt_stamp et (pr_revision r) (pr_slot r) e in map_option (Pair e') (dt_marshal et e'))"

text \<open>The loop over the selected rows: \<open>used\<close> are the bytes of the page, \<open>latest\<close> the ordinal of its latest event.\<close>

fun fill_page ::
  "'e delivered_type \<Rightarrow> (int \<Rightarrow> string) \<Rightarrow> nat \<Rightarrow> page_row list \<Rightarrow> 'e list \<Rightarrow> nat \<Rightarrow> int \<Rightarrow> store_error + 'e page" where
  "fill_page et cursor limit [] events used latest = Inr \<lparr>dp_events = events, dp_cursor = []\<rparr>"
| "fill_page et cursor limit (r # rs) events used latest =
    (case read_row et r of
       None \<Rightarrow> Inl DecodeFailed
     | Some (e, d) \<Rightarrow>
       if length events \<ge> limit \<or> events \<noteq> [] \<and> used + length d + 1 > collect_page_bytes
       then Inr \<lparr>dp_events = events, dp_cursor = cursor latest\<rparr>
       else fill_page et cursor limit rs (events @ [e]) (used + length d + 1) (pr_ordinal r))"

definition collect_pending ::
  "'e delivered_type \<Rightarrow> (string \<Rightarrow> string) \<Rightarrow> ident \<Rightarrow> string \<Rightarrow> int \<Rightarrow> bool \<Rightarrow> delivery_db \<Rightarrow> store_error + 'e page" where
  "collect_pending et sha task cursor limit diagnostics db =
    rbind (parse_delivery_cursor sha task cursor) (\<lambda>after.
      fill_page et (delivery_cursor sha task) (page_limit limit)
        (take (page_limit limit + 1) (ordered_rows db task diagnostics after)) [] 0 0)"

section \<open>Acknowledgements\<close>

record ack_decision =
  ad_event :: ident
  ad_revision :: int
  ad_hash :: string
  ad_slot :: ident
  ad_decision :: string
  ad_command :: ident

text \<open>What an acknowledgement asks of others: the hash, lower case beyond ASCII and the record of diagnostics consumed,
  which may refuse and writes tables of its own only.\<close>

record 'e delivery_env =
  de_sha :: "string \<Rightarrow> string"
  de_lower :: "string \<Rightarrow> string"
  de_type :: "'e delivered_type"
  de_consume :: "delivery_db \<Rightarrow> ident \<Rightarrow> ack_decision list \<Rightarrow> store_error + unit"

definition lower_text :: "'e delivery_env \<Rightarrow> string \<Rightarrow> string" where
  "lower_text env s = (if ascii s then ascii_lower s else de_lower env s)"

definition invalid_delivery_ack :: store_error where
  "invalid_delivery_ack = CodeError ''invalid_ack''"

definition valid_ack_decision :: "ack_decision \<Rightarrow> bool" where
  "valid_ack_decision d \<longleftrightarrow> ad_event d \<noteq> [] \<and> ad_revision d > 0 \<and> ad_hash d \<noteq> [] \<and> ad_slot d \<noteq> [] \<and> ad_command d \<noteq> []
     \<and> ad_decision d \<in> {''handled'', ''waiting_user'', ''stale'', ''rejected''}"

definition decision_json :: "ack_decision \<Rightarrow> json" where
  "decision_json d = JObj [(''event_id'', JStr (ad_event d)), (''event_revision'', JNum (dec_int (ad_revision d))),
     (''event_hash'', JStr (ad_hash d)), (''action_slot'', JStr (ad_slot d)), (''decision'', JStr (ad_decision d)),
     (''command_id'', JStr (ad_command d))]"

definition decisions_hash :: "'e delivery_env \<Rightarrow> ack_decision list \<Rightarrow> string" where
  "decisions_hash env ds = de_sha env (enc_json (JArr (map decision_json ds)))"

text \<open>The columns of the event, from whichever of the two tables has it.\<close>

record event_columns =
  ec_report :: bool
  ec_task :: ident
  ec_hash :: string
  ec_revision :: int
  ec_slot :: ident
  ec_body :: string
  ec_status :: delivery_status

definition event_of :: "delivery_db \<Rightarrow> ident \<Rightarrow> event_columns option" where
  "event_of db i = (case sel_row ne_id i (dv_events db) of
     Some e \<Rightarrow> Some \<lparr>ec_report = False, ec_task = ne_task e, ec_hash = ne_hash e, ec_revision = ne_revision e, ec_slot = ne_slot e,
       ec_body = ne_body e, ec_status = ne_status e\<rparr>
   | None \<Rightarrow> Option.bind (sel_row me_id i (dv_reports db)) (\<lambda>e. map_option
       (\<lambda>t. \<lparr>ec_report = True, ec_task = t, ec_hash = me_hash e, ec_revision = me_revision e, ec_slot = me_slot e,
         ec_body = me_body e, ec_status = me_status e\<rparr>) (report_task db e)))"

text \<open>The work revision of the task and its latest segment.\<close>

definition current_segment :: "store \<Rightarrow> ident \<Rightarrow> ident option" where
  "current_segment db task =
    (let rows = concat (map (\<lambda>s. case attempt_of db (g_attempt s) of
           Some a \<Rightarrow> if a_task a = task then [(a_no a, g_no s, g_id s)] else [] | None \<Rightarrow> []) (tb_segments db));
         ordered = sort_key fst (sort_key (\<lambda>(_, n, _). n) rows)
     in if ordered = [] then None else Some (snd (snd (last ordered))))"

definition has_bound_effect :: "'e delivery_env \<Rightarrow> ident \<Rightarrow> 'e \<Rightarrow> ack_decision \<Rightarrow> delivery_db \<Rightarrow> bool" where
  "has_bound_effect env task e d db \<longleftrightarrow>
    exists_row (\<lambda>r. rt_slot r = ad_slot d \<and> rt_task r = task \<and> rt_event r = ad_event d \<and> rt_revision r = ad_revision d
       \<and> rt_hash r = lower_text env (ad_hash d) \<and> rt_segment r = dt_segment (de_type env) e) (dv_retries db)
    \<or> exists_row (\<lambda>r. rv_slot r = ad_slot d \<and> rv_task r = task \<and> rv_event r = ad_event d \<and> rv_revision r = ad_revision d
       \<and> rv_hash r = lower_text env (ad_hash d)) (dv_reviews db)
    \<or> dt_question (de_type env) e \<and> dt_question_id (de_type env) e \<noteq> [] \<and> dt_question_revision (de_type env) e \<ge> 1
      \<and> exists_row (\<lambda>q. q_id q = dt_question_id (de_type env) e \<and> q_task q = task \<and> q_segment q = dt_segment (de_type env) e
          \<and> q_revision q = dt_question_revision (de_type env) e \<and> q_work_revision q = dt_work_revision (de_type env) e
          \<and> q_id q \<in> set (dv_answered db) \<and> (q_status q = QResumeQueued \<or> q_status q = QResumeStarted)) (tb_questions (dv_store db))"

text \<open>A decision that the event was acted upon is only taken of what is current.\<close>

definition still_current :: "'e delivery_env \<Rightarrow> ident \<Rightarrow> string \<Rightarrow> ack_decision \<Rightarrow> delivery_db \<Rightarrow> bool" where
  "still_current env task body d db = (case dt_decode (de_type env) body of
     None \<Rightarrow> False
   | Some e \<Rightarrow> (case (task_of (dv_store db) task, runtime_of (dv_store db) task, current_segment (dv_store db) task) of
       (Some _, Some r, Some s) \<Rightarrow> dt_work_revision (de_type env) e = r_work_revision r
         \<and> (s = dt_segment (de_type env) e \<or> ad_decision d = ''handled'' \<and> has_bound_effect env task e d db)
     | _ \<Rightarrow> False))"

definition insert_decision :: "decision_row \<Rightarrow> delivery_db \<Rightarrow> store_error + delivery_db" where
  "insert_decision r db =
    (if exists_row (\<lambda>x. dc_slot x = dc_slot r \<or> dc_event x = dc_event r \<or> dc_command x = dc_command r) (dv_decisions db)
     then Inl ErrConflict else Inr (db\<lparr>dv_decisions := dv_decisions db @ [r]\<rparr>))"

definition mark_acked :: "bool \<Rightarrow> ident \<Rightarrow> delivery_db \<Rightarrow> delivery_db" where
  "mark_acked report i db =
    (if report then db\<lparr>dv_reports := upd_rows (\<lambda>e. me_id e = i \<and> me_status e = DPending) (me_status_update (\<lambda>_. DAcked)) (dv_reports db)\<rparr>
     else db\<lparr>dv_events := upd_rows (\<lambda>e. ne_id e = i \<and> ne_status e = DPending) (ne_status_update (\<lambda>_. DAcked)) (dv_events db)\<rparr>)"

definition apply_ack_decision :: "'e delivery_env \<Rightarrow> ident \<Rightarrow> ack_decision \<Rightarrow> delivery_db \<Rightarrow> store_error + delivery_db" where
  "apply_ack_decision env task d db = (case event_of db (ad_event d) of
     None \<Rightarrow> Inl ErrConflict
   | Some e \<Rightarrow>
     if ec_task e \<noteq> task \<or> ec_revision e \<noteq> ad_revision d \<or> ec_slot e \<noteq> ad_slot d \<or> ec_hash e \<noteq> lower_text env (ad_hash d)
     then Inl ErrConflict
     else (case sel_row dc_slot (ad_slot d) (dv_decisions db) of
       Some x \<Rightarrow>
         if dc_decision x \<noteq> ad_decision d \<or> dc_hash x \<noteq> ec_hash e \<or> dc_revision x \<noteq> ec_revision e then Inl ErrConflict else Inr db
     | None \<Rightarrow>
         if ec_status e \<noteq> DPending then Inl ErrConflict
         else if (ad_decision d = ''handled'' \<or> ad_decision d = ''waiting_user'') \<and> \<not> still_current env task (ec_body e) d db
         then Inl ErrConflict
         else rbind (insert_decision \<lparr>dc_slot = ad_slot d, dc_event = ad_event d, dc_revision = ad_revision d,
                dc_hash = lower_text env (ad_hash d), dc_decision = ad_decision d, dc_command = ad_command d\<rparr> db)
              (\<lambda>db'. Inr (mark_acked (ec_report e) (ad_event d) db'))))"

definition ack_decisions ::
  "'e delivery_env \<Rightarrow> ident \<Rightarrow> ident \<Rightarrow> string \<Rightarrow> ack_decision list \<Rightarrow> delivery_db \<Rightarrow> store_error + delivery_db" where
  "ack_decisions env task delivery proof_hash ds db =
    (if task = [] \<or> delivery = [] \<or> \<not> valid_digest proof_hash \<or> ds = [] \<or> length ds > 64 then Inl invalid_delivery_ack
     else if \<not> list_all valid_ack_decision ds \<or> \<not> distinct (map ad_slot ds) then Inl invalid_delivery_ack
     else rbind (require_published_task (dv_store db) task) (\<lambda>_.
       case sel_row lr_id delivery (dv_receipts db) of
         Some r \<Rightarrow>
           if lr_task r \<noteq> task \<or> lr_proof r \<noteq> lower_text env proof_hash \<or> lr_hash r \<noteq> decisions_hash env ds then Inl ErrConflict else Inr db
       | None \<Rightarrow>
           rbind (run_steps (apply_ack_decision env task) ds db) (\<lambda>db1.
             let db2 = db1\<lparr>dv_receipts := dv_receipts db1 @ [\<lparr>lr_id = delivery, lr_task = task,
                   lr_proof = lower_text env proof_hash, lr_hash = decisions_hash env ds\<rparr>]\<rparr>
             in rbind (de_consume env db2 task ds) (\<lambda>_. Inr db2))))"

definition ack_one :: "'e delivery_env \<Rightarrow> ident \<Rightarrow> ack_decision \<Rightarrow> delivery_db \<Rightarrow> store_error + delivery_db" where
  "ack_one env task d = ack_decisions env task (''delivery-'' @ ad_command d) (de_sha env (''proof:'' @ ad_command d)) [d]"

text \<open>A command that fails is rolled back.\<close>

definition ack_step :: "'e delivery_env \<Rightarrow> ident \<times> ident \<times> string \<times> ack_decision list \<Rightarrow> delivery_db \<Rightarrow> delivery_db" where
  "ack_step env c db = (case c of (task, delivery, p, ds) \<Rightarrow> (case ack_decisions env task delivery p ds db of Inl _ \<Rightarrow> db | Inr db' \<Rightarrow> db'))"

end
