(* ===== verification/Store_Pages.thy ===== *)
theory Store_Pages
  imports Store_Delivery Go_Struct
begin

text \<open>
  Reading the pending events page by page: every cursor is read back, every page makes progress and stays within its
  bounds, and the pages together are exactly what is pending.
\<close>

section \<open>Cursors\<close>

lemma last_index_split: "c \<notin> set q \<Longrightarrow> last_index c (p @ c # q) = Some (length p)"
proof -
  assume q: "c \<notin> set q"
  have "takeWhile (\<lambda>x. x \<noteq> c) (rev (p @ c # q)) = rev q"
    using q by (simp add: takeWhile_append takeWhile_eq_all_conv)
  then show ?thesis by (simp add: last_index_def)
qed

lemma cursor_read:
  assumes "1 \<le> n" "n < 2 ^ 63" "\<And>s. CHR ''-'' \<notin> set (sha s)"
  shows "parse_delivery_cursor sha task (delivery_cursor sha task n) = Inr n"
proof -
  let ?v = "dec_int n" and ?p = "cursor_proof sha task (dec_int n)"
  have p: "CHR ''-'' \<notin> set ?p" using assms(3) by (auto simp: cursor_proof_def dest: in_set_takeD)
  have v: "?v \<noteq> []" using dec_nat_digits [of "nat n"] assms(1) by (simp add: dec_int_def)
  have i: "last_index (CHR ''-'') (?v @ CHR ''-'' # ?p) = Some (length ?v)" by (rule last_index_split [OF p])
  have n: "parse_int 64 ?v = Some n" using assms by (intro parse_int_dec) auto
  have d: "drop 12 (delivery_cursor sha task n) = ?v @ CHR ''-'' # ?p" "take 12 (delivery_cursor sha task n) = ''delivery-v1-''"
    "delivery_cursor sha task n \<noteq> []"
    by (simp_all add: delivery_cursor_def)
  show ?thesis unfolding parse_delivery_cursor_def d(1,2) Let_def i using n v assms(1) d(3) by simp
qed

lemma cursor_not_empty [simp]: "delivery_cursor sha task n \<noteq> []"
  by (simp add: delivery_cursor_def)

section \<open>The rows in order\<close>

lemma ordered_after: "0 \<le> a \<Longrightarrow> ordered_rows db task dg a = filter (\<lambda>r. a < pr_ordinal r) (ordered_rows db task dg 0)"
proof -
  assume a: "0 \<le> a"
  define g where "g = (\<lambda>(o', ev, _ :: ident). map (\<lambda>(_, b, r, s). \<lparr>pr_ordinal = o', pr_body = b, pr_revision = r, pr_slot = s\<rparr>)
        (filter (\<lambda>(i, _). i = ev) (pending_rows db task dg)))"
  have f: "filter (\<lambda>r. a < pr_ordinal r) (concat (map g xs)) = concat (map g (filter (\<lambda>(o', _, _). a < o') xs))" for xs
    by (induction xs) (auto simp: g_def filter_empty_conv intro!: filter_True)
  have c: "filter (\<lambda>(o', _, _). a < o') (sort_key fst (filter (\<lambda>(o', _, t). t = task \<and> 0 < o') xs)) =
      sort_key fst (filter (\<lambda>(o', _, t). t = task \<and> a < o') xs)" for xs :: "(int \<times> ident \<times> ident) list"
    unfolding filter_sort filter_filter by (rule arg_cong [where f = "sort_key fst"], rule filter_cong) (use a in auto)
  show ?thesis unfolding ordered_rows_def g_def [symmetric] f c ..
qed

lemma one_pending:
  "distinct (map fst ps) \<Longrightarrow> length (filter (\<lambda>(i, _). i = ev) ps) \<le> 1"
  by (induction ps) (auto simp: filter_empty_conv image_iff)

lemma ordered_sorted:
  assumes "distinct (map fst (dv_order db))" "distinct (map fst (pending_rows db task dg))"
  shows "sorted_wrt (<) (map pr_ordinal (ordered_rows db task dg a))"
proof -
  define g where "g = (\<lambda>(o', ev, _ :: ident). map (\<lambda>(_, b, r, s). \<lparr>pr_ordinal = o', pr_body = b, pr_revision = r, pr_slot = s\<rparr>)
        (filter (\<lambda>(i, _). i = ev) (pending_rows db task dg)))"
  have o1: "\<forall>r\<in>set (g x). pr_ordinal r = fst x" for x by (auto simp: g_def)
  have l1: "length (g x) \<le> 1" for x using one_pending [OF assms(2)] by (simp add: g_def split: prod.split)
  have s: "sorted_wrt (<) (map fst xs) \<Longrightarrow> sorted_wrt (<) (map pr_ordinal (concat (map g xs)))" for xs
  proof (induction xs)
    case (Cons x xs)
    have "sorted_wrt (<) (map pr_ordinal (g x))" using l1 [of x] by (cases "g x") auto
    moreover have "\<forall>r\<in>set (concat (map g xs)). fst x < pr_ordinal r" using Cons.prems o1 by auto
    moreover have "sorted_wrt (<) (map pr_ordinal (concat (map g xs)))" using Cons by simp
    ultimately show ?case using o1 [of x] by (simp add: sorted_wrt_append)
  qed simp
  let ?f = "filter (\<lambda>(o', _, t). t = task \<and> a < o') (dv_order db)"
  have "distinct (map fst ?f)" using assms(1) by (simp add: distinct_map_filter)
  then have "sorted_wrt (<) (map fst (sort_key fst ?f))" by (simp add: strict_sorted_iff distinct_map)
  then show ?thesis unfolding ordered_rows_def g_def [symmetric] by (rule s)
qed

lemma ordered_set:
  "set (ordered_rows db task dg a) = {\<lparr>pr_ordinal = o', pr_body = b, pr_revision = r, pr_slot = s\<rparr> |o' i b r s.
     (o', i, task) \<in> set (dv_order db) \<and> a < o' \<and> (i, b, r, s) \<in> set (pending_rows db task dg)}"
proof -
  define g where "g = (\<lambda>(o', ev, _ :: ident). map (\<lambda>(_, b, r, s). \<lparr>pr_ordinal = o', pr_body = b, pr_revision = r, pr_slot = s\<rparr>)
        (filter (\<lambda>(i, _). i = ev) (pending_rows db task dg)))"
  have "set (g (o', ev, t)) = {\<lparr>pr_ordinal = o', pr_body = b, pr_revision = r, pr_slot = s\<rparr> |b r s. (ev, b, r, s) \<in> set (pending_rows db task dg)}"
    for o' ev t by (auto simp: g_def image_iff)
  moreover have "set (ordered_rows db task dg a) = (\<Union>x\<in>{x \<in> set (dv_order db). case x of (o', _, t) \<Rightarrow> t = task \<and> a < o'}. set (g x))"
    unfolding ordered_rows_def g_def [symmetric] by simp
  ultimately show ?thesis by auto blast
qed

lemma drop_sorted:
  assumes "sorted_wrt (<) (map f xs)" "0 < k" "k \<le> length xs"
  shows "filter (\<lambda>x. f (xs ! (k - 1)) < (f x :: int)) xs = drop k xs"
  using assms
proof (induction xs arbitrary: k)
  case (Cons x xs)
  show ?case
  proof (cases "k = 1")
    case True
    then show ?thesis using Cons.prems(1) by (auto intro!: filter_True)
  next
    case False
    then have k: "0 < k - 1" "k - 1 \<le> length xs" using Cons.prems by auto
    have "f x < f (xs ! (k - 1 - 1))" using Cons.prems(1) k by simp
    moreover have "(x # xs) ! (k - 1) = xs ! (k - 1 - 1)" "drop k (x # xs) = drop (k - 1) xs" using k(1) by (simp_all add: nth_Cons' drop_Cons')
    moreover have "filter (\<lambda>y. f (xs ! (k - 1 - 1)) < f y) xs = drop (k - 1) xs" using Cons.IH [OF _ k] Cons.prems(1) by simp
    ultimately show ?thesis by simp
  qed
qed simp

section \<open>One page\<close>

definition row_event :: "'e delivered_type \<Rightarrow> page_row \<Rightarrow> 'e" where
  "row_event et r = fst (the (read_row et r))"

lemma fill_page_spec:
  assumes "list_all (\<lambda>r. read_row et r \<noteq> None) rs" "length events \<le> limit"
  shows "\<exists>k p. fill_page et cursor limit rs events used latest = Inr p \<and> k \<le> length rs \<and> length events + k \<le> limit
    \<and> dp_events p = events @ map (row_event et) (take k rs)
    \<and> dp_cursor p = (if k = length rs then [] else cursor (if k = 0 then latest else pr_ordinal (rs ! (k - 1))))
    \<and> (events = [] \<longrightarrow> 0 < limit \<longrightarrow> rs \<noteq> [] \<longrightarrow> 0 < k)"
  using assms
proof (induction rs arbitrary: events used latest)
  case (Cons r rs)
  obtain e d where r: "read_row et r = Some (e, d)" using Cons.prems(1) by auto
  show ?case
  proof (cases "length events \<ge> limit \<or> events \<noteq> [] \<and> used + length d + 1 > collect_page_bytes")
    case True
    then show ?thesis using r Cons.prems(2) by (intro exI [of _ 0]) auto
  next
    case False
    have "\<exists>k p. fill_page et cursor limit rs (events @ [e]) (used + length d + 1) (pr_ordinal r) = Inr p \<and> k \<le> length rs
      \<and> length (events @ [e]) + k \<le> limit \<and> dp_events p = (events @ [e]) @ map (row_event et) (take k rs)
      \<and> dp_cursor p = (if k = length rs then [] else cursor (if k = 0 then pr_ordinal r else pr_ordinal (rs ! (k - 1))))
      \<and> (events @ [e] = [] \<longrightarrow> 0 < limit \<longrightarrow> rs \<noteq> [] \<longrightarrow> 0 < k)"
      by (rule Cons.IH) (use Cons.prems False in auto)
    then obtain k p where p: "fill_page et cursor limit rs (events @ [e]) (used + length d + 1) (pr_ordinal r) = Inr p" "k \<le> length rs"
      "length (events @ [e]) + k \<le> limit" "dp_events p = (events @ [e]) @ map (row_event et) (take k rs)"
      "dp_cursor p = (if k = length rs then [] else cursor (if k = 0 then pr_ordinal r else pr_ordinal (rs ! (k - 1))))" by blast
    show ?thesis
      by (rule exI [of _ "Suc k"], rule exI [of _ p]) (use p r False in \<open>auto simp: row_event_def nth_Cons'\<close>)
  qed
qed simp

definition event_bytes :: "'e delivered_type \<Rightarrow> 'e \<Rightarrow> nat" where
  "event_bytes et e = length (the (dt_marshal et e)) + 1"

lemma fill_page_bytes:
  assumes "fill_page et cursor limit rs events used latest = Inr p" "used = sum_list (map (event_bytes et) events)"
    "length events \<le> limit" "length events > 1 \<longrightarrow> used \<le> collect_page_bytes"
  shows "length (dp_events p) \<le> limit \<and> (length (dp_events p) > 1 \<longrightarrow> sum_list (map (event_bytes et) (dp_events p)) \<le> collect_page_bytes)"
  using assms
proof (induction rs arbitrary: events used latest)
  case (Cons r rs)
  obtain e d where r: "read_row et r = Some (e, d)" using Cons.prems(1) by (cases "read_row et r") auto
  have b: "event_bytes et e = length d + 1" using r by (auto simp: read_row_def event_bytes_def Let_def bind_eq_Some_conv)
  show ?case
  proof (cases "length events \<ge> limit \<or> events \<noteq> [] \<and> used + length d + 1 > collect_page_bytes")
    case True
    then show ?thesis using Cons.prems r by auto
  next
    case False
    show ?thesis
      by (rule Cons.IH [of "events @ [e]" "used + length d + 1" "pr_ordinal r"]) (use Cons.prems r b False in auto)
  qed
qed auto

section \<open>All pages\<close>

text \<open>Reading on from each cursor until there is none, with any limit for each page.\<close>

fun read_pages ::
  "'e delivered_type \<Rightarrow> (string \<Rightarrow> string) \<Rightarrow> ident \<Rightarrow> bool \<Rightarrow> delivery_db \<Rightarrow> int list \<Rightarrow> string \<Rightarrow> store_error + 'e list \<times> string" where
  "read_pages et sha task dg db [] cursor = Inr ([], cursor)"
| "read_pages et sha task dg db (l # ls) cursor =
    rbind (collect_pending et sha task cursor l dg db) (\<lambda>p.
      if dp_cursor p = [] then Inr (dp_events p, [])
      else rbind (read_pages et sha task dg db ls (dp_cursor p)) (\<lambda>(es, c). Inr (dp_events p @ es, c)))"

lemma page_limit_pos: "0 < page_limit l" "page_limit l \<le> 32"
  by (auto simp: page_limit_def collect_page_events_def)

lemma read_on:
  assumes rows: "R = ordered_rows db task dg 0" "sorted_wrt (<) (map pr_ordinal R)" "list_all (\<lambda>r. read_row et r \<noteq> None) R"
    and ords: "\<And>r. r \<in> set R \<Longrightarrow> 1 \<le> pr_ordinal r \<and> pr_ordinal r < 2 ^ 63" and sha: "\<And>s. CHR ''-'' \<notin> set (sha s)"
    and at: "parse_delivery_cursor sha task cursor = Inr a" "0 \<le> a" "ordered_rows db task dg a = drop n R" "n \<le> length R"
    and ls: "length R - n \<le> length ls" "ls \<noteq> []"
  shows "read_pages et sha task dg db ls cursor = Inr (map (row_event et) (drop n R), [])"
  using at ls
proof (induction ls arbitrary: cursor a n)
  case (Cons l ls)
  let ?lim = "page_limit l" and ?D = "drop n R" and ?c = "delivery_cursor sha task"
  let ?T = "take (?lim + 1) ?D"
  have t: "list_all (\<lambda>r. read_row et r \<noteq> None) ?T" using rows(3) by (auto simp: list_all_iff dest!: in_set_takeD in_set_dropD)
  obtain k p where p: "fill_page et ?c ?lim ?T [] 0 0 = Inr p" "k \<le> length ?T" "k \<le> ?lim" "dp_events p = map (row_event et) (take k ?T)"
      "dp_cursor p = (if k = length ?T then [] else ?c (if k = 0 then 0 else pr_ordinal (?T ! (k - 1))))" "?T \<noteq> [] \<longrightarrow> 0 < k"
    using fill_page_spec [OF t, of "[]" ?lim ?c 0 0] page_limit_pos(1) [of l] by auto
  have run: "collect_pending et sha task cursor l dg db = Inr p"
    using p(1) Cons.prems(1,3) by (simp add: collect_pending_def)
  show ?case
  proof (cases "k = length ?T")
    case True
    then have "length ?D \<le> ?lim" using p(3) by simp
    then have "take k ?T = ?D" using True by simp
    then show ?thesis using run p(4,5) True by simp
  next
    case False
    then have k: "0 < k" "k < length ?T" "k < length ?D" using p(2,6) by auto
    have tk: "take k ?T = take k ?D" "?T ! (k - 1) = R ! (n + k - 1)" using k p(3) by (simp_all add: min_def)
    have "n + k - 1 < length R" using k(1,3) by (simp add: less_diff_conv)
    then have mem: "R ! (n + k - 1) \<in> set R" by (rule nth_mem)
    let ?o = "pr_ordinal (R ! (n + k - 1))"
    have o1: "1 \<le> ?o" "?o < 2 ^ 63" using ords [OF mem] by simp_all
    have cur: "dp_cursor p = ?c ?o" using p(5) False k tk(2) by simp
    have on: "ordered_rows db task dg ?o = drop (n + k) R"
      using ordered_after [of ?o db task dg] drop_sorted [OF rows(2), of "n + k"] k(1) o1 rows(1) \<open>n + k - 1 < length R\<close> by simp
    have ls: "length R - (n + k) \<le> length ls" "ls \<noteq> []" using Cons.prems(5) k by auto
    have "read_pages et sha task dg db ls (?c ?o) = Inr (map (row_event et) (drop (n + k) R), [])"
      by (rule Cons.IH [OF cursor_read [OF o1 sha] _ on _ ls]) (use o1 k in auto)
    moreover have "take k ?D @ drop (n + k) R = ?D" using append_take_drop_id [of k ?D] by (simp add: add.commute)
    then have "map (row_event et) (take k ?D) @ map (row_event et) (drop (n + k) R) = map (row_event et) ?D"
      unfolding map_append [symmetric] by simp
    ultimately show ?thesis using run cur p(4) tk(1) by simp
  qed
qed simp

section \<open>Properties\<close>

text \<open>C36. Reading page after page ends, whatever limit each page has: after at most as many pages as there are pending
  events there is no further cursor, and the pages together hold each event that is pending for the task exactly once,
  in the order in which they were published.\<close>

theorem pages_complete:
  assumes "distinct (map fst (dv_order db))" "distinct (map fst (pending_rows db task diagnostics))"
    "\<forall>(o', i, t)\<in>set (dv_order db). 1 \<le> o' \<and> o' < 2 ^ 63" "\<And>s. CHR ''-'' \<notin> set (sha s)"
    "list_all (\<lambda>r. read_row et r \<noteq> None) (ordered_rows db task diagnostics 0)"
    "length (ordered_rows db task diagnostics 0) \<le> length limits" "limits \<noteq> []"
  shows "\<exists>rows. read_pages et sha task diagnostics db limits [] = Inr (map (row_event et) rows, [])
    \<and> sorted_wrt (<) (map pr_ordinal rows)
    \<and> set rows = {\<lparr>pr_ordinal = o', pr_body = b, pr_revision = r, pr_slot = s\<rparr> |o' i b r s.
        (o', i, task) \<in> set (dv_order db) \<and> (i, b, r, s) \<in> set (pending_rows db task diagnostics)}"
proof -
  let ?R = "ordered_rows db task diagnostics 0"
  have s: "sorted_wrt (<) (map pr_ordinal ?R)" by (rule ordered_sorted [OF assms(1,2)])
  have pos: "1 \<le> o' \<and> o' < 2 ^ 63" if "(o', i, task) \<in> set (dv_order db)" for o' i using assms(3) that by fastforce
  have set: "set ?R = {\<lparr>pr_ordinal = o', pr_body = b, pr_revision = r, pr_slot = s\<rparr> |o' i b r s.
      (o', i, task) \<in> set (dv_order db) \<and> (i, b, r, s) \<in> set (pending_rows db task diagnostics)}"
    unfolding ordered_set using pos by fastforce
  have "1 \<le> pr_ordinal r \<and> pr_ordinal r < 2 ^ 63" if "r \<in> set ?R" for r using that pos unfolding ordered_set by auto
  from read_on [OF refl s assms(5) this assms(4), where cursor = "[]" and a = 0 and n = 0]
  have "read_pages et sha task diagnostics db limits [] = Inr (map (row_event et) ?R, [])"
    using assms(6,7) by (simp add: parse_delivery_cursor_def)
  then show ?thesis using s set by blast
qed

text \<open>A page never has more events than its limit, at most 32, and unless it is a single event its encoded events
  take at most 48 KiB.\<close>

theorem page_bounded:
  assumes "collect_pending et sha task cursor limit diagnostics db = Inr p"
  shows "length (dp_events p) \<le> 32 \<and> (1 \<le> limit \<longrightarrow> limit \<le> 32 \<longrightarrow> int (length (dp_events p)) \<le> limit)
    \<and> (length (dp_events p) > 1 \<longrightarrow> sum_list (map (event_bytes et) (dp_events p)) \<le> 49152)"
proof -
  obtain a where "fill_page et (delivery_cursor sha task) (page_limit limit) (take (page_limit limit + 1) (ordered_rows db task diagnostics a)) [] 0 0 = Inr p"
    using assms by (auto simp: collect_pending_def rbind_Inr_iff)
  from fill_page_bytes [OF this] show ?thesis
    using page_limit_pos(2) [of limit] by (auto simp: collect_page_bytes_def page_limit_def collect_page_events_def)
qed

end
