(* ===== verification/Store_Acks.thy ===== *)
theory Store_Acks
  imports Store_Delivery Histories
begin

text \<open>
  What acknowledgements do to the events of a run: each is decided once and for all, and a decision that it was acted
  upon is only taken of what is current.
\<close>

section \<open>Events and their decisions\<close>

type_synonym event_view = "ident \<times> ident \<times> string \<times> int \<times> delivery_status"

text \<open>Identifier, slot, hash, revision and status of the events of both tables.\<close>

definition all_events :: "delivery_db \<Rightarrow> event_view list" where
  "all_events db = map (\<lambda>e. (ne_id e, ne_slot e, ne_hash e, ne_revision e, ne_status e)) (dv_events db)
     @ map (\<lambda>e. (me_id e, me_slot e, me_hash e, me_revision e, me_status e)) (dv_reports db)"

definition view_slot :: "event_view \<Rightarrow> ident" where
  "view_slot v = fst (snd v)"

text \<open>No two events share an identifier or a slot, no event has two decisions, and an event is acknowledged exactly if it has one.\<close>

definition delivery_inv :: "delivery_db \<Rightarrow> bool" where
  "delivery_inv db \<longleftrightarrow> distinct (map fst (all_events db)) \<and> distinct (map view_slot (all_events db)) \<and> distinct (map dc_event (dv_decisions db))
     \<and> (\<forall>r\<in>set (dv_decisions db). (dc_event r, dc_slot r, dc_hash r, dc_revision r, DAcked) \<in> set (all_events db))
     \<and> (\<forall>(i, s, h, n, st)\<in>set (all_events db). st = DAcked \<longrightarrow> i \<in> dc_event ` set (dv_decisions db))"

definition event_le :: "event_view \<Rightarrow> event_view \<Rightarrow> bool" where
  "event_le v v' = (case (v, v') of ((i, s, h, n, st), (i', s', h', n', st')) \<Rightarrow>
     i' = i \<and> s' = s \<and> h' = h \<and> n' = n \<and> (st' = st \<or> st = DPending \<and> st' = DAcked))"

definition same_context :: "delivery_db \<Rightarrow> delivery_db \<Rightarrow> bool" where
  "same_context db db' \<longleftrightarrow> dv_store db' = dv_store db \<and> dv_order db' = dv_order db \<and> dv_progress db' = dv_progress db
     \<and> dv_reserved db' = dv_reserved db \<and> dv_retries db' = dv_retries db \<and> dv_reviews db' = dv_reviews db \<and> dv_answered db' = dv_answered db"

text \<open>Acknowledgements only add decisions and receipts and only turn pending events into acknowledged ones.\<close>

definition delivery_le :: "delivery_db \<Rightarrow> delivery_db \<Rightarrow> bool" where
  "delivery_le db db' \<longleftrightarrow> same_context db db' \<and> list_all2 event_le (all_events db) (all_events db')
     \<and> (\<exists>ds. dv_decisions db' = dv_decisions db @ ds) \<and> (\<exists>rs. dv_receipts db' = dv_receipts db @ rs)"

lemma event_le_refl [simp]: "event_le v v"
  by (simp add: event_le_def split: prod.split)

lemma event_le_trans: "event_le u v \<Longrightarrow> event_le v w \<Longrightarrow> event_le u w"
  by (auto simp: event_le_def split: prod.splits)

lemma delivery_le_refl [simp]: "delivery_le db db"
  by (simp add: delivery_le_def same_context_def list.rel_refl)

lemma delivery_le_trans: "delivery_le a b \<Longrightarrow> delivery_le b c \<Longrightarrow> delivery_le a c"
proof -
  assume "delivery_le a b" "delivery_le b c"
  moreover from this have "list_all2 event_le (all_events a) (all_events c)"
    by (auto simp: delivery_le_def intro: list_all2_trans event_le_trans)
  ultimately show ?thesis by (auto simp: delivery_le_def same_context_def)
qed

section \<open>One decision\<close>

lemma sel_row_mem: "sel_row key k rs = Some r \<Longrightarrow> r \<in> set rs \<and> key r = k"
  using rows.sel_mem rows.sel_key by fastforce

lemma event_of_view:
  assumes "event_of db i = Some e"
  shows "(i, ec_slot e, ec_hash e, ec_revision e, ec_status e) \<in> set (all_events db)"
    and "\<not> ec_report e \<longleftrightarrow> i \<in> ne_id ` set (dv_events db)"
  using assms
  by (auto simp: event_of_def all_events_def Option.bind_eq_Some_conv sel_row_def find_row_None image_iff
      split: option.splits dest!: find_row_Some)

lemma all_events_frame [simp]:
  "all_events (db\<lparr>dv_decisions := x\<rparr>) = all_events db" "all_events (db\<lparr>dv_receipts := y\<rparr>) = all_events db"
  by (simp_all add: all_events_def)

definition set_acked :: "ident \<Rightarrow> event_view \<Rightarrow> event_view" where
  "set_acked i v = (case v of (j, s, h, n, st) \<Rightarrow> (j, s, h, n, if j = i \<and> st = DPending then DAcked else st))"

lemma set_acked_keys [simp]: "fst (set_acked i v) = fst v" "view_slot (set_acked i v) = view_slot v" "event_le v (set_acked i v)"
  by (simp_all add: set_acked_def view_slot_def event_le_def split: prod.split)

lemma mark_view:
  assumes "event_of db i = Some e" "distinct (map fst (all_events db))"
  shows "all_events (mark_acked (ec_report e) i db) = map (set_acked i) (all_events db)"
proof -
  have no: "i \<notin> ne_id ` set (dv_events db) \<or> i \<notin> me_id ` set (dv_reports db)"
    using assms(2) by (auto simp: all_events_def comp_def)
  have mem: "i \<in> ne_id ` set (dv_events db) \<or> i \<in> me_id ` set (dv_reports db)"
    using event_of_view(1) [OF assms(1)] by (force simp: all_events_def)
  show ?thesis
  proof (cases "ec_report e")
    case True
    then have "i \<notin> ne_id ` set (dv_events db)" using event_of_view(2) [OF assms(1)] by simp
    then show ?thesis using True by (auto simp: all_events_def mark_acked_def set_acked_def upd_rows_def)
  next
    case False
    then have "i \<notin> me_id ` set (dv_reports db)" using event_of_view(2) [OF assms(1)] no by simp
    then show ?thesis using False by (auto simp: all_events_def mark_acked_def set_acked_def upd_rows_def)
  qed
qed

lemma mark_frame [simp]:
  "dv_decisions (mark_acked b i db) = dv_decisions db" "dv_receipts (mark_acked b i db) = dv_receipts db"
  "dv_store (mark_acked b i db) = dv_store db" "same_context db' (mark_acked b i db) \<longleftrightarrow> same_context db' db"
  by (simp_all add: mark_acked_def same_context_def)

definition ack_row :: "'e delivery_env \<Rightarrow> ack_decision \<Rightarrow> decision_row" where
  "ack_row env d = \<lparr>dc_slot = ad_slot d, dc_event = ad_event d, dc_revision = ad_revision d, dc_hash = lower_text env (ad_hash d),
     dc_decision = ad_decision d, dc_command = ad_command d\<rparr>"

text \<open>The event has a decision like this one, whichever command it came with.\<close>

definition decided :: "'e delivery_env \<Rightarrow> ack_decision \<Rightarrow> delivery_db \<Rightarrow> bool" where
  "decided env d db \<longleftrightarrow> (\<exists>r\<in>set (dv_decisions db). r\<lparr>dc_command := ad_command d\<rparr> = ack_row env d)"

lemma decided_stable: "delivery_le db db' \<Longrightarrow> decided env d db \<Longrightarrow> decided env d db'"
  by (auto simp: decided_def delivery_le_def)

lemma apply_ack_cases [consumes 1, case_names old new]:
  assumes "apply_ack_decision env task d db = Inr db'"
  obtains e x where "event_of db (ad_event d) = Some e" "ec_task e = task" "ec_revision e = ad_revision d" "ec_slot e = ad_slot d"
      "ec_hash e = lower_text env (ad_hash d)" "db' = db" "x \<in> set (dv_decisions db)" "dc_slot x = ad_slot d"
      "dc_decision x = ad_decision d" "dc_hash x = ec_hash e" "dc_revision x = ec_revision e"
  | e where "event_of db (ad_event d) = Some e" "ec_task e = task" "ec_revision e = ad_revision d" "ec_slot e = ad_slot d"
      "ec_hash e = lower_text env (ad_hash d)" "ec_status e = DPending"
      "ad_decision d = ''handled'' \<or> ad_decision d = ''waiting_user'' \<longrightarrow> still_current env task (ec_body e) d db"
      "ad_event d \<notin> dc_event ` set (dv_decisions db)"
      "db' = mark_acked (ec_report e) (ad_event d) (db\<lparr>dv_decisions := dv_decisions db @ [ack_row env d]\<rparr>)"
proof (cases "event_of db (ad_event d)")
  case None
  then show thesis using assms by (simp add: apply_ack_decision_def)
next
  case (Some e)
  then have same: "ec_task e = task" "ec_revision e = ad_revision d" "ec_slot e = ad_slot d" "ec_hash e = lower_text env (ad_hash d)"
    using assms by (auto simp: apply_ack_decision_def split: if_splits)
  show thesis
  proof (cases "sel_row dc_slot (ad_slot d) (dv_decisions db)")
    case found: (Some x)
    then show thesis using Some assms same sel_row_mem [OF found] by (intro that(1) [of e x]) (auto simp: apply_ack_decision_def split: if_splits)
  next
    case None
    then show thesis using Some assms same
      by (intro that(2) [of e]) (auto simp: apply_ack_decision_def rbind_Inr_iff insert_decision_def ack_row_def exists_row_iff split: if_splits)
  qed
qed

lemma apply_ack_keeps:
  assumes inv: "delivery_inv db" and run: "apply_ack_decision env task d db = Inr db'"
  shows "delivery_inv db' \<and> delivery_le db db' \<and> decided env d db'"
  using run
proof (cases rule: apply_ack_cases)
  case (old e x)
  have v: "(dc_event x, dc_slot x, dc_hash x, dc_revision x, DAcked) \<in> set (all_events db)" using inv old(7) by (auto simp: delivery_inv_def)
  have "dc_event x = ad_event d"
  proof -
    have "inj_on view_slot (set (all_events db))" using inv by (simp add: delivery_inv_def distinct_map)
    from inj_onD [OF this _ v event_of_view(1) [OF old(1)]] show ?thesis using old(4,8) by (simp add: view_slot_def)
  qed
  then have "x\<lparr>dc_command := ad_command d\<rparr> = ack_row env d" using old(3,5,8-11) by (simp add: ack_row_def)
  then have "decided env d db" using old(7) unfolding decided_def by blast
  then show ?thesis using old(6) inv by simp
next
  case (new e)
  let ?db = "db\<lparr>dv_decisions := dv_decisions db @ [ack_row env d]\<rparr>"
  have ev: "event_of ?db (ad_event d) = Some e" using new(1) by (simp add: event_of_def report_task_def cong: option.case_cong)
  have keys: "distinct (map fst (all_events db))" "distinct (map view_slot (all_events db))" using inv by (simp_all add: delivery_inv_def)
  have all: "all_events db' = map (set_acked (ad_event d)) (all_events db)"
    unfolding new(9) using mark_view [OF ev] keys by simp
  have dec: "dv_decisions db' = dv_decisions db @ [ack_row env d]" "dv_receipts db' = dv_receipts db" "same_context db db'"
    by (simp_all add: new(9)) (simp add: same_context_def)
  note v = event_of_view(1) [OF new(1)]
  have mine: "(ad_event d, ad_slot d, lower_text env (ad_hash d), ad_revision d, DAcked) \<in> set (all_events db')"
    using imageI [OF v, of "set_acked (ad_event d)"] new(3-6) unfolding all by (simp add: set_acked_def)
  have "delivery_inv db'"
    unfolding delivery_inv_def
  proof (intro conjI)
    show "distinct (map fst (all_events db'))" "distinct (map view_slot (all_events db'))" using keys by (simp_all add: all comp_def)
    show "distinct (map dc_event (dv_decisions db'))" using inv new(8) by (simp add: dec delivery_inv_def ack_row_def)
    have "(dc_event r, dc_slot r, dc_hash r, dc_revision r, DAcked) \<in> set (all_events db')" if "r \<in> set (dv_decisions db)" for r
    proof -
      have m: "(dc_event r, dc_slot r, dc_hash r, dc_revision r, DAcked) \<in> set (all_events db)" using inv that by (simp add: delivery_inv_def)
      show ?thesis using imageI [OF m, of "set_acked (ad_event d)"] unfolding all by (simp add: set_acked_def)
    qed
    then show "\<forall>r\<in>set (dv_decisions db'). (dc_event r, dc_slot r, dc_hash r, dc_revision r, DAcked) \<in> set (all_events db')"
      using mine by (simp add: dec ack_row_def)
    show "\<forall>(i, s, h, n, st)\<in>set (all_events db'). st = DAcked \<longrightarrow> i \<in> dc_event ` set (dv_decisions db')"
    proof clarify
      fix i s h n assume "(i, s, h, n, DAcked) \<in> set (all_events db')"
      then obtain v where v: "v \<in> set (all_events db)" "(i, s, h, n, DAcked) = set_acked (ad_event d) v" unfolding all by auto
      have "i = ad_event d \<or> (i, s, h, n, DAcked) \<in> set (all_events db)" using v by (auto simp: set_acked_def split: prod.splits if_splits)
      moreover have "\<forall>(i, s, h, n, st)\<in>set (all_events db). st = DAcked \<longrightarrow> i \<in> dc_event ` set (dv_decisions db)"
        using inv unfolding delivery_inv_def by blast
      ultimately show "i \<in> dc_event ` set (dv_decisions db')" by (auto simp: dec ack_row_def)
    qed
  qed
  moreover have "delivery_le db db'"
    using dec by (auto simp: delivery_le_def all list_all2_conv_all_nth)
  moreover have "(ack_row env d)\<lparr>dc_command := ad_command d\<rparr> = ack_row env d" by (simp add: ack_row_def)
  then have "decided env d db'" by (auto simp: decided_def dec)
  ultimately show ?thesis by simp
qed

section \<open>A batch\<close>

lemma batch_keeps:
  assumes "run_steps (apply_ack_decision env task) ds db = Inr db'" "delivery_inv db"
  shows "delivery_inv db' \<and> delivery_le db db' \<and> (\<forall>d\<in>set ds. decided env d db')"
  using assms
proof (induction ds arbitrary: db)
  case (Cons d ds)
  obtain db1 where s: "apply_ack_decision env task d db = Inr db1" "run_steps (apply_ack_decision env task) ds db1 = Inr db'"
    using Cons.prems(1) by (auto simp: rbind_Inr_iff)
  note k = apply_ack_keeps [OF Cons.prems(2) s(1)]
  show ?case using Cons.IH [OF s(2)] k decided_stable delivery_le_trans by (metis set_ConsD)
qed simp

lemma ack_cases [consumes 1, case_names again new]:
  assumes "ack_decisions env task delivery p ds db = Inr db'"
  obtains r where "db' = db" "require_published_task (dv_store db) task = Inr ()" "sel_row lr_id delivery (dv_receipts db) = Some r"
      "lr_task r = task" "lr_proof r = lower_text env p" "lr_hash r = decisions_hash env ds"
  | db1 where "require_published_task (dv_store db) task = Inr ()" "sel_row lr_id delivery (dv_receipts db) = None"
      "run_steps (apply_ack_decision env task) ds db = Inr db1"
      "db' = db1\<lparr>dv_receipts := dv_receipts db1 @ [\<lparr>lr_id = delivery, lr_task = task, lr_proof = lower_text env p, lr_hash = decisions_hash env ds\<rparr>]\<rparr>"
proof (cases "sel_row lr_id delivery (dv_receipts db)")
  case None
  then show thesis using assms that(2) by (auto simp: ack_decisions_def rbind_Inr_iff Let_def split: if_splits)
next
  case (Some r)
  then show thesis using assms that(1) [of r] by (auto simp: ack_decisions_def rbind_Inr_iff split: if_splits)
qed

lemma receipt_frame:
  "delivery_inv (db\<lparr>dv_receipts := x\<rparr>) \<longleftrightarrow> delivery_inv db" "decided env d (db\<lparr>dv_receipts := x\<rparr>) \<longleftrightarrow> decided env d db"
  by (simp_all add: delivery_inv_def decided_def)

lemma receipt_le: "delivery_le db (db\<lparr>dv_receipts := dv_receipts db @ rs\<rparr>)"
  by (simp add: delivery_le_def same_context_def list.rel_refl)

lemma ack_keeps:
  assumes "ack_decisions env task delivery p ds db = Inr db'" "delivery_inv db"
  shows "delivery_inv db' \<and> delivery_le db db'"
  using assms(1)
proof (cases rule: ack_cases)
  case (new db1)
  then show ?thesis using batch_keeps [OF new(3) assms(2)] receipt_le delivery_le_trans by (auto simp: receipt_frame)
qed (use assms(2) in simp)

interpretation acks: monotone_steps "ack_step env" "\<lambda>_. True" delivery_inv delivery_le for env
proof unfold_locales
  show "delivery_inv (ack_step env c db)" "delivery_le db (ack_step env c db)" if "delivery_inv db" for c db
    using ack_keeps [OF _ that, of env] that by (cases c; force simp: ack_step_def split: sum.split)+
qed (auto intro: delivery_le_trans)

section \<open>Receipts\<close>

lemma found_prefix: "sel_row key k xs = Some r \<Longrightarrow> sel_row key k (xs @ ys) = Some r"
  by (simp add: sel_row_def find_row_found_append)

lemma sel_row_new: "sel_row key (key r) xs = None \<Longrightarrow> sel_row key (key r) (xs @ [r]) = Some r"
  by (simp add: sel_row_def find_row_snoc)

lemma ack_receipt:
  assumes "ack_decisions env task delivery p ds db = Inr db'" "delivery_inv db"
  shows "\<exists>r. sel_row lr_id delivery (dv_receipts db') = Some r \<and> lr_task r = task \<and> lr_proof r = lower_text env p \<and> lr_hash r = decisions_hash env ds
    \<and> require_published_task (dv_store db') task = Inr ()"
  using assms(1)
proof (cases rule: ack_cases)
  case (new db1)
  have "dv_receipts db1 = dv_receipts db" "dv_store db1 = dv_store db"
    using new(3)
  proof (induction ds arbitrary: db)
    case (Cons d ds)
    { case 1 then show ?case using Cons by (auto simp: rbind_Inr_iff elim!: apply_ack_cases) }
    { case 2 then show ?case using Cons by (auto simp: rbind_Inr_iff elim!: apply_ack_cases) }
  qed simp_all
  then show ?thesis
    using new sel_row_new [of lr_id "\<lparr>lr_id = delivery, lr_task = task, lr_proof = lower_text env p, lr_hash = decisions_hash env ds\<rparr>" "dv_receipts db"]
    by simp
qed auto

section \<open>What a new decision rests on\<close>

lemma event_of_mark:
  "map_option (ec_status_update (\<lambda>_. x)) (event_of (mark_acked b j db) i) = map_option (ec_status_update (\<lambda>_. x)) (event_of db i)"
proof (cases b)
  case True
  have "sel_row me_id i (upd_rows (\<lambda>e. me_id e = j \<and> me_status e = DPending) (me_status_update (\<lambda>_. DAcked)) (dv_reports db)) =
      map_option (\<lambda>e. if me_id e = j \<and> me_status e = DPending then e\<lparr>me_status := DAcked\<rparr> else e) (sel_row me_id i (dv_reports db))"
    unfolding sel_row_def by (rule find_row_upd) simp
  then show ?thesis
    using True by (cases "sel_row me_id i (dv_reports db)")
      (auto simp: event_of_def mark_acked_def report_task_def option.map_comp comp_def split: option.split)
next
  case False
  have "sel_row ne_id i (upd_rows (\<lambda>e. ne_id e = j \<and> ne_status e = DPending) (ne_status_update (\<lambda>_. DAcked)) (dv_events db)) =
      map_option (\<lambda>e. if ne_id e = j \<and> ne_status e = DPending then e\<lparr>ne_status := DAcked\<rparr> else e) (sel_row ne_id i (dv_events db))"
    unfolding sel_row_def by (rule find_row_upd) simp
  then show ?thesis
    using False by (cases "sel_row ne_id i (dv_events db)")
      (auto simp: event_of_def mark_acked_def report_task_def split: option.split)
qed

lemma event_of_decisions [simp]: "event_of (db\<lparr>dv_decisions := x\<rparr>) i = event_of db i"
  by (simp add: event_of_def report_task_def cong: option.case_cong)

lemma current_frame: "same_context db db' \<Longrightarrow> still_current env task body d db' = still_current env task body d db"
  by (simp add: same_context_def still_current_def has_bound_effect_def cong: option.case_cong)

lemma still_currentD:
  assumes "still_current env task body d db"
  obtains x run seg where "dt_decode (de_type env) body = Some x" "runtime_of (dv_store db) task = Some run"
    "dt_work_revision (de_type env) x = r_work_revision run" "current_segment (dv_store db) task = Some seg"
    "seg = dt_segment (de_type env) x \<or> ad_decision d = ''handled'' \<and> has_bound_effect env task x d db"
  using assms by (auto simp: still_current_def split: option.splits)

text \<open>The event of a decision is the task's, unchanged, and current if the decision says that it was acted upon.\<close>

definition well_founded_ack :: "'e delivery_env \<Rightarrow> ident \<Rightarrow> ack_decision \<Rightarrow> delivery_db \<Rightarrow> bool" where
  "well_founded_ack env task d db \<longleftrightarrow> (\<exists>e. event_of db (ad_event d) = Some e \<and> ec_task e = task \<and> ec_revision e = ad_revision d
     \<and> ec_slot e = ad_slot d \<and> ec_hash e = lower_text env (ad_hash d)
     \<and> (ad_decision d = ''handled'' \<or> ad_decision d = ''waiting_user'' \<longrightarrow> still_current env task (ec_body e) d db))"

lemma well_founded_back:
  assumes "apply_ack_decision env task d db = Inr db1" "well_founded_ack env task d' db1"
  shows "well_founded_ack env task d' db"
  using assms(1)
proof (cases rule: apply_ack_cases)
  case (new e)
  obtain e1 where e1: "event_of db1 (ad_event d') = Some e1" "ec_task e1 = task" "ec_revision e1 = ad_revision d'" "ec_slot e1 = ad_slot d'"
      "ec_hash e1 = lower_text env (ad_hash d')"
      "ad_decision d' = ''handled'' \<or> ad_decision d' = ''waiting_user'' \<longrightarrow> still_current env task (ec_body e1) d' db1"
    using assms(2) by (auto simp: well_founded_ack_def)
  have m: "map_option (ec_status_update (\<lambda>_. DAcked)) (event_of db1 (ad_event d')) = map_option (ec_status_update (\<lambda>_. DAcked)) (event_of db (ad_event d'))"
    unfolding new(9) event_of_mark by simp
  then obtain e0 where e0: "event_of db (ad_event d') = Some e0" "e0\<lparr>ec_status := DAcked\<rparr> = e1\<lparr>ec_status := DAcked\<rparr>"
    using e1(1) by (cases "event_of db (ad_event d')") auto
  have "ec_task e0 = ec_task e1 \<and> ec_revision e0 = ec_revision e1 \<and> ec_slot e0 = ec_slot e1 \<and> ec_hash e0 = ec_hash e1 \<and> ec_body e0 = ec_body e1"
    using e0(2) by (cases e0; cases e1) simp
  moreover have "same_context db db1" unfolding new(9) by simp (simp add: same_context_def)
  then have "still_current env task b d' db1 = still_current env task b d' db" for b by (rule current_frame)
  ultimately show ?thesis using e1(2-6) e0(1) unfolding well_founded_ack_def by (intro exI [of _ e0]) simp
qed (use assms(2) in simp)

lemma batch_current:
  assumes "run_steps (apply_ack_decision env task) ds db = Inr db'" "r \<in> set (dv_decisions db')" "r \<notin> set (dv_decisions db)"
  shows "\<exists>d\<in>set ds. r = ack_row env d \<and> well_founded_ack env task d db"
  using assms
proof (induction ds arbitrary: db)
  case (Cons d ds)
  obtain db1 where s: "apply_ack_decision env task d db = Inr db1" "run_steps (apply_ack_decision env task) ds db1 = Inr db'"
    using Cons.prems(1) by (auto simp: rbind_Inr_iff)
  show ?case
  proof (cases "r \<in> set (dv_decisions db1)")
    case True
    from s(1) show ?thesis
    proof (cases rule: apply_ack_cases)
      case (new e)
      then have "r = ack_row env d" using True Cons.prems(3) by simp
      moreover have "well_founded_ack env task d db" using new unfolding well_founded_ack_def by blast
      ultimately show ?thesis by simp
    qed (use True Cons.prems(3) in simp)
  next
    case False
    then obtain d' where "d' \<in> set ds" "r = ack_row env d'" "well_founded_ack env task d' db1"
      using Cons.IH [OF s(2) Cons.prems(2)] by blast
    then show ?thesis using well_founded_back [OF s(1)] by auto
  qed
qed simp

section \<open>Properties\<close>

text \<open>C37. An acknowledgement that succeeds settles every event it names, each exactly as it says: the decision is on
  record under the event's own slot, revision and hash, the event is no longer pending, and whatever the batch was, no
  event has two decisions and an event is acknowledged exactly if it has one.\<close>

theorem acks_settle:
  assumes "ack_decisions env task delivery p ds db = Inr db'" "delivery_inv db" "sel_row lr_id delivery (dv_receipts db) = None"
  shows "delivery_inv db' \<and> (\<forall>d\<in>set ds. (ad_event d, ad_slot d, lower_text env (ad_hash d), ad_revision d, DAcked) \<in> set (all_events db')
    \<and> (\<exists>r\<in>set (dv_decisions db'). dc_event r = ad_event d \<and> dc_slot r = ad_slot d \<and> dc_decision r = ad_decision d))"
  using assms(1)
proof (cases rule: ack_cases)
  case (new db1)
  have inv: "delivery_inv db'" using ack_keeps [OF assms(1,2)] by simp
  have "decided env d db'" if "d \<in> set ds" for d
    using batch_keeps [OF new(3) assms(2)] that new(4) by (simp add: receipt_frame)
  then have "\<exists>r\<in>set (dv_decisions db'). dc_event r = ad_event d \<and> dc_slot r = ad_slot d \<and> dc_decision r = ad_decision d
      \<and> dc_hash r = lower_text env (ad_hash d) \<and> dc_revision r = ad_revision d" if "d \<in> set ds" for d
    using that unfolding decided_def ack_row_def by (metis decision_row.ext_inject decision_row.surjective decision_row.update_convs(6))
  then show ?thesis using inv unfolding delivery_inv_def by metis
qed (use assms(3) in simp)


text \<open>C39. A delivery is acknowledged once: repeating the command, whatever was acknowledged since, succeeds and changes
  nothing, and under the same delivery id nothing is ever accepted for another task, another proof or decisions of
  another hash.\<close>

theorem acks_once:
  assumes "ack_decisions env task delivery p ds db = Inr db'" "delivery_inv db" "db2 = fold (ack_step env) cs db'"
  shows "ack_decisions env task delivery p ds db2 = Inr db2
    \<and> (\<forall>task2 p2 ds2 db3. ack_decisions env task2 delivery p2 ds2 db2 = Inr db3 \<longrightarrow>
        db3 = db2 \<and> task2 = task \<and> lower_text env p2 = lower_text env p \<and> decisions_hash env ds2 = decisions_hash env ds)"
proof -
  obtain r where r: "sel_row lr_id delivery (dv_receipts db') = Some r" "lr_task r = task" "lr_proof r = lower_text env p"
      "lr_hash r = decisions_hash env ds" "require_published_task (dv_store db') task = Inr ()"
    using ack_receipt [OF assms(1,2)] by blast
  have "delivery_le db' db2"
    using acks.fold_le [of cs db' env] ack_keeps [OF assms(1,2)] assms(3) by (simp add: list.pred_True)
  then have f: "sel_row lr_id delivery (dv_receipts db2) = Some r" "dv_store db2 = dv_store db'"
    using found_prefix [OF r(1)] by (auto simp: delivery_le_def same_context_def)
  have ok: "task \<noteq> [] \<and> delivery \<noteq> [] \<and> valid_digest p \<and> ds \<noteq> [] \<and> length ds \<le> 64 \<and> list_all valid_ack_decision ds \<and> distinct (map ad_slot ds)"
    using assms(1) by (auto simp: ack_decisions_def split: if_splits)
  have "ack_decisions env task delivery p ds db2 = Inr db2" using ok f r by (simp add: ack_decisions_def)
  moreover have "db3 = db2 \<and> task2 = task \<and> lower_text env p2 = lower_text env p \<and> decisions_hash env ds2 = decisions_hash env ds"
    if "ack_decisions env task2 delivery p2 ds2 db2 = Inr db3" for task2 p2 ds2 db3
    using that by (cases rule: ack_cases) (use f r in auto)
  ultimately show ?thesis by blast
qed

text \<open>C40. A new decision that an event was acted upon is only taken of what is current: the event is the task's, of the
  revision and content that the owner names, of the task's present work revision, and of its latest segment unless it
  is handled by a retry, a review or an answer that is on record for exactly this event.\<close>

theorem acks_current:
  assumes "ack_decisions env task delivery p ds db = Inr db'" "r \<in> set (dv_decisions db')" "r \<notin> set (dv_decisions db)"
    "dc_decision r = ''handled'' \<or> dc_decision r = ''waiting_user''"
  shows "\<exists>d e x run seg. d \<in> set ds \<and> ad_event d = dc_event r \<and> ad_slot d = dc_slot r \<and> event_of db (dc_event r) = Some e \<and> ec_task e = task \<and> ec_revision e = dc_revision r
    \<and> ec_slot e = dc_slot r \<and> ec_hash e = dc_hash r \<and> dt_decode (de_type env) (ec_body e) = Some x
    \<and> runtime_of (dv_store db) task = Some run \<and> dt_work_revision (de_type env) x = r_work_revision run
    \<and> current_segment (dv_store db) task = Some seg
    \<and> (seg = dt_segment (de_type env) x \<or> dc_decision r = ''handled'' \<and> has_bound_effect env task x d db)"
  using assms(1)
proof (cases rule: ack_cases)
  case (new db1)
  then obtain d where d: "d \<in> set ds" "r = ack_row env d" "well_founded_ack env task d db"
    using batch_current [OF new(3)] assms(2,3) by auto
  then obtain e where e: "event_of db (ad_event d) = Some e" "ec_task e = task" "ec_revision e = ad_revision d" "ec_slot e = ad_slot d"
      "ec_hash e = lower_text env (ad_hash d)" "still_current env task (ec_body e) d db"
    using assms(4) by (auto simp: well_founded_ack_def ack_row_def)
  from e(6) show ?thesis
  proof (rule still_currentD)
    fix x run seg assume "dt_decode (de_type env) (ec_body e) = Some x" "runtime_of (dv_store db) task = Some run"
      "dt_work_revision (de_type env) x = r_work_revision run" "current_segment (dv_store db) task = Some seg"
      "seg = dt_segment (de_type env) x \<or> ad_decision d = ''handled'' \<and> has_bound_effect env task x d db"
    then show ?thesis using d(1,2) e(1-5) by (intro exI conjI) (auto simp: ack_row_def)
  qed
qed (use assms in simp)

end
