(* ===== verification/Delivery_Sample.thy ===== *)
theory Delivery_Sample
  imports Store_Pages Store_Acks
begin

text \<open>
  A task with two pending events: the properties of the delivery at a concrete store.
\<close>

section \<open>The store\<close>

text \<open>Events that carry the segment they come from.\<close>

definition note_type :: "ident delivered_type" where
  "note_type = \<lparr>dt_decode = Some, dt_stamp = (\<lambda>_ _ e. e), dt_marshal = Some, dt_work_revision = (\<lambda>_. 1), dt_segment = (\<lambda>e. e),
     dt_question = (\<lambda>_. False), dt_question_id = (\<lambda>_. []), dt_question_revision = (\<lambda>_. 0)\<rparr>"

definition zero_sha :: "string \<Rightarrow> string" where
  "zero_sha s = replicate 64 (CHR ''0'')"

definition note_env :: "ident delivery_env" where
  "note_env = \<lparr>de_sha = zero_sha, de_lower = (\<lambda>s. s), de_type = note_type, de_consume = (\<lambda>_ _ _. Inr ())\<rparr>"

definition note_store :: store where
  "note_store = empty_store\<lparr>
     tb_tasks := [\<lparr>t_id = ''t'', t_run = ''r'', t_status = TRunning, t_deps = Some [], t_max_attempts = 1, t_created = ''1''\<rparr>],
     tb_runtime := [\<lparr>r_task = ''t'', r_launch = ''l'', r_work_revision = 1, r_group = ''g'', r_max_active_ms = 3600000,
          r_ready_sequence = None, r_payload = [], r_policy = [], r_expected_sha256 = []\<rparr>],
     tb_attempts := [\<lparr>a_id = ''a'', a_task = ''t'', a_no = 1, a_status = ARunning\<rparr>],
     tb_segments := [\<lparr>g_id = ''s'', g_attempt = ''a'', g_no = 1, g_status = SRunning\<rparr>]\<rparr>"

definition notice :: "ident \<Rightarrow> ident \<Rightarrow> runtime_delivery" where
  "notice i slot = \<lparr>ne_id = i, ne_task = ''t'', ne_hash = ''0a'', ne_revision = 1, ne_slot = slot, ne_body = ''s'', ne_status = DPending\<rparr>"

definition note_db :: delivery_db where
  "note_db = \<lparr>dv_store = note_store, dv_events = [notice ''e1'' ''x1'', notice ''e2'' ''x2''], dv_reports = [], dv_progress = [], dv_reserved = [],
     dv_order = [(1, ''e1'', ''t''), (2, ''e2'', ''t'')], dv_decisions = [], dv_receipts = [], dv_retries = [], dv_reviews = [], dv_answered = []\<rparr>"

section \<open>Two pages\<close>

lemma note_pending: "pending_rows note_db ''t'' False = [(''e1'', ''s'', 1, ''x1''), (''e2'', ''s'', 1, ''x2'')]"
  by (simp add: pending_rows_def note_db_def notice_def)

lemma note_rows: "ordered_rows note_db ''t'' False 0 =
    [\<lparr>pr_ordinal = 1, pr_body = ''s'', pr_revision = 1, pr_slot = ''x1''\<rparr>, \<lparr>pr_ordinal = 2, pr_body = ''s'', pr_revision = 1, pr_slot = ''x2''\<rparr>]"
  by (simp add: ordered_rows_def note_pending) (simp add: note_db_def)

lemma zero_sha_hex: "CHR ''-'' \<notin> set (zero_sha s)"
  by (simp add: zero_sha_def)

theorem pages_complete_witness:
  "\<exists>rows. read_pages note_type zero_sha ''t'' False note_db [1, 1] [] = Inr (map (row_event note_type) rows, [])
    \<and> sorted_wrt (<) (map pr_ordinal rows) \<and> \<lparr>pr_ordinal = 2, pr_body = ''s'', pr_revision = 1, pr_slot = ''x2''\<rparr> \<in> set rows"
proof -
  have h: "distinct (map fst (dv_order note_db))" "distinct (map fst (pending_rows note_db ''t'' False))"
    "\<forall>(o', i, t)\<in>set (dv_order note_db). 1 \<le> o' \<and> o' < 2 ^ 63"
    "list_all (\<lambda>r. read_row note_type r \<noteq> None) (ordered_rows note_db ''t'' False 0)"
    "length (ordered_rows note_db ''t'' False 0) \<le> length [1, 1 :: int]" "[1, 1 :: int] \<noteq> []"
    unfolding note_rows note_pending by (simp_all add: note_db_def read_row_def note_type_def)
  have "(2, ''e2'', ''t'') \<in> set (dv_order note_db)" "(''e2'', ''s'', 1, ''x2'') \<in> set (pending_rows note_db ''t'' False)"
    by (simp add: note_db_def) (simp add: note_pending)
  then show ?thesis
    using pages_complete [where sha = zero_sha, OF h(1-3) zero_sha_hex h(4-6)] by (elim exE conjE, intro exI conjI) (assumption, assumption, blast)
qed

theorem page_bounded_witness:
  "\<exists>p. collect_pending note_type zero_sha ''t'' [] 1 False note_db = Inr p \<and> length (dp_events p) \<le> 1"
proof -
  have "\<exists>p. collect_pending note_type zero_sha ''t'' [] 1 False note_db = Inr p"
    by (simp add: collect_pending_def parse_delivery_cursor_def note_rows page_limit_def collect_page_events_def read_row_def note_type_def)
  then show ?thesis using page_bounded [of note_type zero_sha "''t''" "[]" 1 False note_db] by auto
qed

section \<open>One acknowledgement\<close>

definition note_ack :: ack_decision where
  "note_ack = \<lparr>ad_event = ''e1'', ad_revision = 1, ad_hash = ''0a'', ad_slot = ''x1'', ad_decision = ''handled'', ad_command = ''c''\<rparr>"

definition proof_text :: string where
  "proof_text = replicate 64 (CHR ''0'')"

lemma note_lower: "lower_text note_env ''0a'' = ''0a''"
  by (simp add: lower_text_def ascii_lower_def ascii_def byte_def)

lemma note_current: "still_current note_env ''t'' ''s'' note_ack note_db"
  by (simp add: still_current_def note_env_def note_type_def note_db_def note_store_def sel_row_def current_segment_def)

lemma note_inv: "delivery_inv note_db"
  by (simp add: delivery_inv_def all_events_def note_db_def notice_def view_slot_def)

lemma note_acked: "\<exists>db. ack_decisions note_env ''t'' ''d'' proof_text [note_ack] note_db = Inr db \<and> dv_decisions db = [ack_row note_env note_ack]"
proof -
  have e: "event_of note_db ''e1'' = Some \<lparr>ec_report = False, ec_task = ''t'', ec_hash = ''0a'', ec_revision = 1, ec_slot = ''x1'', ec_body = ''s'',
      ec_status = DPending\<rparr>"
    by (simp add: event_of_def note_db_def notice_def sel_row_def)
  have d: "ad_event note_ack = ''e1''" "ad_revision note_ack = 1" "ad_hash note_ack = ''0a''" "ad_slot note_ack = ''x1''"
      "ad_decision note_ack = ''handled''" "valid_ack_decision note_ack"
    by (simp_all add: note_ack_def valid_ack_decision_def)
  have db: "dv_decisions note_db = []" "dv_receipts note_db = []" "require_published_task (dv_store note_db) ''t'' = Inr ()"
    by (simp_all add: note_db_def note_store_def require_published_task_def require_published_owner_def sel_row_def) (simp add: empty_store_def)
  have "apply_ack_decision note_env ''t'' note_ack note_db = Inr (mark_acked False ''e1'' (note_db\<lparr>dv_decisions := [ack_row note_env note_ack]\<rparr>))"
    using note_current by (simp add: apply_ack_decision_def e d note_lower insert_decision_def db sel_row_def ack_row_def)
  moreover have "valid_digest proof_text" by (simp add: valid_digest_def proof_text_def valid_hex_def Let_def list_all_iff)
  moreover have "de_consume note_env x y z = Inr ()" for x y z by (simp add: note_env_def)
  ultimately show ?thesis using d(6) db by (simp add: ack_decisions_def sel_row_def Let_def)
qed

theorem acks_settle_witness:
  "\<exists>db. ack_decisions note_env ''t'' ''d'' proof_text [note_ack] note_db = Inr db \<and> (''e1'', ''x1'', ''0a'', 1, DAcked) \<in> set (all_events db)"
proof -
  obtain db where db: "ack_decisions note_env ''t'' ''d'' proof_text [note_ack] note_db = Inr db" using note_acked by blast
  have "sel_row lr_id ''d'' (dv_receipts note_db) = None" by (simp add: note_db_def sel_row_def)
  from acks_settle [OF db note_inv this] show ?thesis using db note_lower by (simp add: note_ack_def)
qed


theorem acks_once_witness:
  "\<exists>db. ack_decisions note_env ''t'' ''d'' proof_text [note_ack] note_db = Inr db \<and> ack_decisions note_env ''t'' ''d'' proof_text [note_ack] db = Inr db"
proof -
  obtain db where db: "ack_decisions note_env ''t'' ''d'' proof_text [note_ack] note_db = Inr db" using note_acked by blast
  show ?thesis using db acks_once [OF db note_inv, of db "[]"] by simp
qed

theorem acks_current_witness:
  "\<exists>db r. ack_decisions note_env ''t'' ''d'' proof_text [note_ack] note_db = Inr db \<and> r \<in> set (dv_decisions db)
    \<and> (\<exists>e. event_of note_db (dc_event r) = Some e \<and> ec_task e = ''t'')"
proof -
  obtain db where db: "ack_decisions note_env ''t'' ''d'' proof_text [note_ack] note_db = Inr db" "dv_decisions db = [ack_row note_env note_ack]"
    using note_acked by blast
  have r: "ack_row note_env note_ack \<in> set (dv_decisions db)" "ack_row note_env note_ack \<notin> set (dv_decisions note_db)"
      "dc_decision (ack_row note_env note_ack) = ''handled'' \<or> dc_decision (ack_row note_env note_ack) = ''waiting_user''"
    by (simp_all add: db(2)) (simp_all add: note_db_def ack_row_def note_ack_def)
  from acks_current [OF db(1) r] show ?thesis using db(1) r(1) by blast
qed

end
