(* ===== verification/Spec2Isabelle.thy ===== *)
theory Spec2Isabelle
  imports Store_Stops Codex_Properties Rpc_Steps Acp_Sample Request_Sample Revision_Sample Spool_Sample Delivery_Sample
begin

text \<open>
  A model of the core of the Agent Bird orchestrator (Go, under \<open>src/tools/orchestrator\<close>; the paths below are
  relative to its \<open>internal/\<close>) and the theorems that make it correct.

  \<^bold>\<open>The program.\<close> A coordinator accepts runs: graphs of tasks with a budget of active time. It dispatches segments
  of attempts to hosts, which run provider processes, and it learns what became of them from host events. Everything
  durable is in one SQL store. An adapter talks to an agent process: \<open>codexrpc\<close> is the wire client, \<open>codexsession\<close>
  drives one turn over it and checks everything the agent says against pinned shapes; \<open>grokacp\<close> is the wire client
  of another agent; \<open>bridgecodec\<close> writes the batches of news that an owner agent is shown.

  \<^bold>\<open>The store.\<close> A table is the list of its rows, a statement is a function on that list (\<open>Prelude\<close> has the table
  functions and their laws, the locales \<open>keyed_table\<close> and \<open>bounded_ledger\<close>), a transaction is a function from the
  store to an error or a new store; the database serialises transactions, so their order is the order of a list of
  operations.
  \<^item> \<open>Store_Schema\<close>: the tables and row types (\<open>store/schema.go\<close> and the other schema files, \<open>contract/contract.go\<close>),
    with the columns that the modelled operations read or write.
  \<^item> \<open>Store_Quota\<close>: \<open>store/quota.go\<close>, the admission of bytes to the volume with its 64-bit arithmetic, and the owner
    fences.
  \<^item> \<open>Store_Budget\<close>: \<open>store/execution_policy.go\<close>, \<open>policy_binding_hold.go\<close>, \<open>decision_attempt.go\<close>: the effective
    budget of a task, grants, pending promises of successor attempts, attempt ordinals.
  \<^item> \<open>Store_Deps\<close>: \<open>blockFailedDependencies\<close> and \<open>releaseReady\<close> of \<open>store/host_events.go\<close>.
  \<^item> \<open>Store_Lifecycle\<close>: \<open>applyEvent\<close>, \<open>applyExit\<close> (\<open>store/host_events.go\<close>) and \<open>store/launch_rejected.go\<close>;
    \<open>Store_Invariants\<close> what each of them keeps.
  \<^item> \<open>Store_Stops\<close>: \<open>RequestStop\<close>, \<open>MarkStoppingUnknown\<close> and the queries of \<open>store/lifecycle.go\<close>.
  \<^item> \<open>Store_Revision\<close>: \<open>store/budget_revision.go\<close>, the commands that raise the caps of a group; \<open>Go_Unmarshal\<close> reads stored
    JSON back, \<open>Histories\<close> has the locale \<open>monotone_steps\<close>, \<open>Revision_Sample\<close> and \<open>Json_Mild\<close> the witnesses.
  \<^item> \<open>Store_Delivery\<close>: \<open>store/delivery.go\<close>, pages of pending events and their acknowledgement, over the tables it joins;
    \<open>Store_Pages\<close> and \<open>Store_Acks\<close> have its theorems, \<open>Delivery_Sample\<close> the witnesses.

  \<^bold>\<open>The agent session.\<close>
  \<^item> \<open>Go_Json\<close>, \<open>Go_Json_Text\<close>, \<open>Json_Round\<close>, \<open>Json_Ascii\<close>: Go strings as lists of bytes, UTF-8, and what the program
    uses of \<open>encoding/json\<close>, as documented: values, the encoder with its escapes, the scanner with its nesting limit.
    \<open>Json_Round\<close> proves that the scanner reads back what the encoder writes.
  \<^item> \<open>Codex_Shapes\<close>: \<open>codexsession/shapes.go\<close>, the matcher of frames against pinned shapes with its work budget.
  \<^item> \<open>State_Exception\<close>: actions that change a state and may fail, leaving the state they reached; \<open>Codex_Session\<close>:
    \<open>codexsession/state.go\<close>, \<open>host_tools.go\<close>, \<open>failure.go\<close>, each Go method one action on the record \<open>session\<close>.
  \<^item> \<open>Codex_Run\<close>: \<open>Run\<close> of \<open>codexsession/session.go\<close>. What the select statement delivers in each iteration is a list
    of observations, the argument of the run; every schedule of events, replies and timeouts is one such list.
  \<^item> \<open>Codex_Invariants\<close> states the interface of an invariant as locales (\<open>run_invariant\<close>, \<open>turn_invariant\<close>,
    \<open>session_invariant\<close>): what has to be kept by the elementary changes of the state is kept by every run; each
    invariant is one interpretation. \<open>Codex_Order\<close> has the order of the calls, \<open>Codex_Properties\<close> the theorems.
  \<^item> \<open>Rpc_Envelope\<close>: \<open>codexrpc/envelope.go\<close>, frames over bytes. \<open>Rpc_Client\<close>: \<open>codexrpc/transport.go\<close>; each critical
    section of the client under its mutex is one function on the record \<open>client\<close> and \<open>client_run\<close> is any interleaving
    of them. \<open>Rpc_Invariants\<close> and \<open>Rpc_Steps\<close>: the invariant, its preservation and the theorems.
  \<^item> \<open>Acp_Client\<close>: \<open>grokacp/client.go\<close> in the same way; \<open>Acp_Invariants\<close>, \<open>Acp_Properties\<close>, \<open>Acp_Sample\<close>.
  \<^item> \<open>Bridge_Codec\<close>: \<open>bridgecodec\<close> and the batch types and hook table of \<open>contract/bridge.go\<close>; \<open>Bridge_Sample\<close> has the
    batch at which its theorems are applied.
  \<^item> \<open>Go_Struct\<close>: what \<open>encoding/json\<close> does with a struct, as tables of fields with their shapes and setters, and
    \<open>DecodeBridgeStrict\<close>. \<open>Bridge_Requests\<close>: the tables, decoders and validators of \<open>contract/bridge.go\<close>;
    \<open>Acp_Requests\<close>: those of \<open>contract/acp_bridge.go\<close> with the identifiers derived from them; \<open>Request_Sample\<close> has
    their witnesses.

  \<^bold>\<open>What the lemmas show.\<close> Bounds (admission, grants, promises, matching work, queues), exactness (blocking and
  releasing tasks, finishing a turn, accepting a reply, validating a batch: each equals a specification stated without
  the code's loops), invariants of every interleaving (charges never grow by host events, terminal segments stay
  terminal, one outcome a call, one answer a request, one session a client), safety (nothing the agent asks for is ever
  granted; a completion or a turn is returned only for what the agent reported about exactly that turn), and round
  trips (content bytes determine the batch, the hook text reads back as the batch, a written hook event is read back).

  \<^bold>\<open>The event spool.\<close> \<open>Event_Spool\<close>: \<open>events/events.go\<close>, the directory through which a host hands its events on. Every
  operation is the sequence of its system calls on a \<open>world\<close>: the directory, and for each call to come what other
  instances and processes do to the directory before it and whether the call fails. \<open>Spool_Steps\<close> says what a call may do
  to the published history (\<open>moves\<close>), which is both what each operation guarantees and what it relies on of the others,
  and has the rules by which actions compose (\<open>does\<close>); \<open>Spool_Append\<close>, \<open>Spool_Ack\<close> and \<open>Spool_Read\<close> prove the operations,
  \<open>Spool_Properties\<close> has the theorems and what three failing calls lead to, \<open>Spool_Sample\<close> the witnesses. The mutex of one
  instance makes its operations sequential.

  \<^bold>\<open>Fuel and bounds.\<close> \<open>block_loop\<close> repeats passes while one changes something; it terminates because such a pass leaves
  fewer waiting tasks. \<open>text_value\<close> and \<open>scan_string\<close> take fuel beyond the length
  of the text, and \<open>text_fuel\<close>, \<open>scan_string_fuel\<close> show that more gives the same answer; \<open>strict_decode_sound\<close> says the
  same of \<open>strict_decode\<close>. The matcher counts its work and depth as the code does.
  \<open>read_pages\<close> follows the cursors with one limit for each page, and \<open>pages_complete\<close> shows that as many pages as there are
  pending events are enough.

  \<^bold>\<open>Parameters.\<close> SHA-256 in hexadecimal is a function argument (\<open>sha\<close>, \<open>se_sha256\<close>). The embedded shape file is
  \<open>native_shapes\<close> and the decoder tokens it was checked with \<open>ns_tokens\<close>. The record \<open>session_env\<close> holds what a turn
  asks of others: options, cancellation at a point, whether a response write succeeds, the tool callback, the
  completion decoder. \<open>lifecycle_env\<close> holds the decisions on questions and filter targets that are made by parts of
  the store not modelled. Clocks, random identifiers and the free space of the volume are arguments. No theorem
  assumes anything of them, except that \<open>pages_complete\<close> takes it that hexadecimal text has no dash. The spool is generic in the type of its events: the record \<open>event_type\<close> has what it uses of
  \<open>contract.Event\<close> and of its JSON, and a file of the spool is readable (\<open>spool_event\<close>) if its text reads back; \<open>delivered_type\<close> is the same
  for the delivery.

  \<^bold>\<open>Not modelled.\<close> Process control, pipes, git, installation, the files of artifacts and command lines are effects outside the
  program. Of the store: migrations, the SQL connection, reports, review and retry decisions, bridge delivery, integration and
  retention. Of the run: goroutine scheduling inside one critical section. The host, the coordinator server and
  the request decoders of \<open>contract\<close> beside those of its two bridges are not modelled.
\<close>

end
